(* ===== verification/Prelude.thy ===== *)
theory Prelude
  imports Main "HOL-Library.Word" "HOL-Library.Multiset" "HOL-Library.List_Lexorder"
begin

text \<open>
  Shared vocabulary of the development: the Go scalar types the netting packages use, results
  of fallible functions, the big-endian encodings written by \<open>encoding/binary\<close> and
  \<open>math/big\<close>, and the generic lemmas on lists that the components rely on.

  A fixed-size byte array is represented by the number its bytes spell in big-endian order:
  \<open>[32]byte\<close> (\<open>intent.ID\<close>, \<open>AssetID\<close>, \<open>merkle.Hash\<close>, \<open>common.Hash\<close>) is a
  \<open>256 word\<close> and \<open>account.Address\<close> a \<open>160 word\<close>; \<open>hash_bytes\<close> and \<open>addr_bytes\<close>
  give the bytes back, and \<open>be_bytes_less\<close> shows that \<open>bytes.Compare\<close> on two arrays is the
  order of the numbers. \<open>uintN\<close> is \<open>N word\<close>, \<open>*big.Int\<close> is \<open>int option\<close> with
  \<open>None\<close> for \<open>nil\<close>, and \<open>int64\<close> values that are only compared and encoded are \<open>int\<close>.
\<close>

section \<open>Scalar types\<close>

type_synonym byte = "8 word"
type_synonym bytes = "byte list"
type_synonym hash256 = "256 word"
type_synonym address = "160 word"
type_synonym uint8 = "8 word"
type_synonym uint32 = "32 word"
type_synonym uint64 = "64 word"

text \<open>The hash function of \<open>crypto/sha256\<close> is a parameter of every definition that hashes.\<close>

type_synonym hasher = "bytes \<Rightarrow> hash256"

text \<open>The range of an \<open>int64\<close>.\<close>

definition int64_range :: "int \<Rightarrow> bool" where
  "int64_range i \<longleftrightarrow> - (2 ^ 63) \<le> i \<and> i < 2 ^ 63"

section \<open>Results of fallible functions\<close>

text \<open>
  A Go function returning \<open>(T, error)\<close> returns \<open>'e + 'a\<close> here, \<open>Inl\<close> carrying the error.
  \<open>bind_res\<close> is the idiom \<open>if err != nil { return err }\<close>.
\<close>

definition bind_res :: "'e + 'a \<Rightarrow> ('a \<Rightarrow> 'e + 'b) \<Rightarrow> 'e + 'b" where
  "bind_res m f = (case m of Inl e \<Rightarrow> Inl e | Inr x \<Rightarrow> f x)"

fun map_res :: "('a \<Rightarrow> 'e + 'b) \<Rightarrow> 'a list \<Rightarrow> 'e + 'b list" where
  "map_res f [] = Inr []"
| "map_res f (x # xs) = bind_res (f x) (\<lambda>y. bind_res (map_res f xs) (\<lambda>ys. Inr (y # ys)))"

fun fold_res :: "('s \<Rightarrow> 'a \<Rightarrow> 'e + 's) \<Rightarrow> 's \<Rightarrow> 'a list \<Rightarrow> 'e + 's" where
  "fold_res f s [] = Inr s"
| "fold_res f s (x # xs) = bind_res (f s x) (\<lambda>s'. fold_res f s' xs)"

lemma bind_res_simps [simp]:
  "bind_res (Inl e) f = Inl e"
  "bind_res (Inr x) f = f x"
  by (simp_all add: bind_res_def)

lemma bind_res_cong [fundef_cong]:
  "m = m' \<Longrightarrow> (\<And>x. m' = Inr x \<Longrightarrow> f x = f' x) \<Longrightarrow> bind_res m f = bind_res m' f'"
  by (auto simp: bind_res_def split: sum.splits)

lemma bind_res_eq_Inr: "bind_res m f = Inr y \<longleftrightarrow> (\<exists>x. m = Inr x \<and> f x = Inr y)"
  by (cases m) auto

lemma bind_res_eq_Inl: "bind_res m f = Inl e \<longleftrightarrow> m = Inl e \<or> (\<exists>x. m = Inr x \<and> f x = Inl e)"
  by (cases m) auto

lemma map_res_length: "map_res f xs = Inr ys \<Longrightarrow> length ys = length xs"
  by (induction xs arbitrary: ys) (auto simp: bind_res_eq_Inr)

lemma map_res_eq_Inr:
  "map_res f xs = Inr ys \<longleftrightarrow> list_all2 (\<lambda>x y. f x = Inr y) xs ys"
proof (induction xs arbitrary: ys)
  case (Cons x xs)
  then show ?case by (cases ys) (auto simp: bind_res_eq_Inr)
qed auto

lemma map_res_total: "(\<And>x. x \<in> set xs \<Longrightarrow> f x = Inr (g x)) \<Longrightarrow> map_res f xs = Inr (map g xs)"
  by (induction xs) auto

lemma map_res_cong [fundef_cong]:
  "xs = ys \<Longrightarrow> (\<And>x. x \<in> set ys \<Longrightarrow> f x = g x) \<Longrightarrow> map_res f xs = map_res g ys"
  by (induction xs arbitrary: ys) auto

lemma fold_res_append: "fold_res f s (xs @ ys) = bind_res (fold_res f s xs) (\<lambda>s'. fold_res f s' ys)"
  by (induction xs arbitrary: s) (auto simp: bind_res_def split: sum.splits)

text \<open>An invariant of the loop body is an invariant of the loop.\<close>

lemma fold_res_invariant:
  assumes "fold_res f s xs = Inr s'" and "I s"
    and "\<And>s x s'. x \<in> set xs \<Longrightarrow> I s \<Longrightarrow> f s x = Inr s' \<Longrightarrow> I s'"
  shows "I s'"
  using assms by (induction xs arbitrary: s) (auto simp: bind_res_eq_Inr)

section \<open>Big-endian encodings\<close>

text \<open>
  \<open>be_bytes n x\<close> is what \<open>binary.BigEndian.PutUint\<close> writes for an \<open>8 n\<close> bit value,
  \<open>big_bytes x\<close> is \<open>(*big.Int).Bytes\<close>: the absolute value with no leading zero byte.
\<close>

fun be_bytes :: "nat \<Rightarrow> nat \<Rightarrow> bytes" where
  "be_bytes 0 x = []"
| "be_bytes (Suc n) x = be_bytes n (x div 256) @ [word_of_nat (x mod 256)]"

fun big_bytes_nat :: "nat \<Rightarrow> bytes" where
  "big_bytes_nat x = (if x = 0 then [] else big_bytes_nat (x div 256) @ [word_of_nat (x mod 256)])"

declare big_bytes_nat.simps [simp del]

definition big_bytes :: "int \<Rightarrow> bytes" where
  "big_bytes x = big_bytes_nat (nat \<bar>x\<bar>)"

definition be_val :: "bytes \<Rightarrow> nat" where
  "be_val bs = foldl (\<lambda>acc b. 256 * acc + unat b) 0 bs"

definition hash_bytes :: "hash256 \<Rightarrow> bytes" where
  "hash_bytes h = be_bytes 32 (unat h)"

definition addr_bytes :: "address \<Rightarrow> bytes" where
  "addr_bytes a = be_bytes 20 (unat a)"

definition uint64_bytes :: "uint64 \<Rightarrow> bytes" where
  "uint64_bytes x = be_bytes 8 (unat x)"

definition uint32_bytes :: "uint32 \<Rightarrow> bytes" where
  "uint32_bytes x = be_bytes 4 (unat x)"

text \<open>The conversion \<open>uint64(x)\<close> of an \<open>int64\<close> keeps the two's complement bits.\<close>

definition uint64_of_int64 :: "int \<Rightarrow> uint64" where
  "uint64_of_int64 i = word_of_int i"

text \<open>The bytes of an ASCII string literal.\<close>

definition str_bytes :: "string \<Rightarrow> bytes" where
  "str_bytes s = map of_char s"

lemma length_be_bytes [simp]: "length (be_bytes n x) = n"
  by (induction n arbitrary: x) auto

lemma be_val_Nil [simp]: "be_val [] = 0"
  by (simp add: be_val_def)

lemma be_val_snoc [simp]: "be_val (bs @ [b]) = 256 * be_val bs + unat b"
  by (simp add: be_val_def)

lemma unat_word_of_nat_256: "unat (word_of_nat (x mod 256) :: byte) = x mod 256"
  by (simp add: unat_of_nat)

lemma be_val_be_bytes: "be_val (be_bytes n x) = x mod 256 ^ n"
proof (induction n arbitrary: x)
  case (Suc n)
  have "x mod 256 ^ Suc n = 256 * (x div 256 mod 256 ^ n) + x mod 256"
    by (simp add: mod_mult2_eq)
  then show ?case by (simp add: Suc.IH unat_word_of_nat_256)
qed simp

lemma be_val_big_bytes_nat: "be_val (big_bytes_nat x) = x"
proof (induction x rule: big_bytes_nat.induct)
  case (1 x)
  then show ?case
    by (cases "x = 0") (auto simp: big_bytes_nat.simps [of x] big_bytes_nat.simps [of 0] unat_word_of_nat_256)
qed

lemma be_bytes_inj:
  "be_bytes n x = be_bytes n y \<Longrightarrow> x < 256 ^ n \<Longrightarrow> y < 256 ^ n \<Longrightarrow> x = y"
  by (metis be_val_be_bytes mod_less)

lemma big_bytes_inj: "big_bytes x = big_bytes y \<Longrightarrow> 0 \<le> x \<Longrightarrow> 0 \<le> y \<Longrightarrow> x = y"
  by (metis abs_of_nonneg be_val_big_bytes_nat big_bytes_def eq_nat_nat_iff)

lemma unat_less_pow256:
  "unat (h :: hash256) < 256 ^ 32" "unat (a :: address) < 256 ^ 20"
  "unat (x :: uint64) < 256 ^ 8" "unat (y :: uint32) < 256 ^ 4"
proof -
  have "unat h < 2 ^ LENGTH(256)" "unat a < 2 ^ LENGTH(160)"
    "unat x < 2 ^ LENGTH(64)" "unat y < 2 ^ LENGTH(32)"
    by (rule unsigned_less)+
  then show "unat h < 256 ^ 32" "unat a < 256 ^ 20" "unat x < 256 ^ 8" "unat y < 256 ^ 4"
    by simp_all
qed

lemma length_encodings [simp]:
  "length (hash_bytes h) = 32" "length (addr_bytes a) = 20"
  "length (uint64_bytes x) = 8" "length (uint32_bytes y) = 4"
  by (simp_all add: hash_bytes_def addr_bytes_def uint64_bytes_def uint32_bytes_def)

lemma hash_bytes_inj [simp]: "hash_bytes h = hash_bytes h' \<longleftrightarrow> h = h'"
  unfolding hash_bytes_def by (metis be_bytes_inj unat_less_pow256(1) word_unat_eq_iff)

lemma addr_bytes_inj [simp]: "addr_bytes a = addr_bytes a' \<longleftrightarrow> a = a'"
  unfolding addr_bytes_def by (metis be_bytes_inj unat_less_pow256(2) word_unat_eq_iff)

lemma uint64_bytes_inj [simp]: "uint64_bytes x = uint64_bytes x' \<longleftrightarrow> x = x'"
  unfolding uint64_bytes_def by (metis be_bytes_inj unat_less_pow256(3) word_unat_eq_iff)

lemma uint32_bytes_inj [simp]: "uint32_bytes x = uint32_bytes x' \<longleftrightarrow> x = x'"
  unfolding uint32_bytes_def by (metis be_bytes_inj unat_less_pow256(4) word_unat_eq_iff)

lemma uint64_of_int64_inj:
  assumes "int64_range i" "int64_range j" "uint64_of_int64 i = uint64_of_int64 j"
  shows "i = j"
proof -
  have "sint (uint64_of_int64 i) = sint (uint64_of_int64 j)"
    using assms(3) by simp
  then have "signed_take_bit 63 i = signed_take_bit 63 j"
    by (simp add: uint64_of_int64_def sint_sbintrunc')
  then show ?thesis
    using assms(1,2) by (simp add: int64_range_def signed_take_bit_int_eq_self)
qed

text \<open>
  Big-endian encodings of the same width compare as the numbers do: \<open>bytes.Compare\<close> on fixed
  arrays, the lexicographic order, is the order on words.
\<close>

lemma list_less_append_same_length:
  fixes xs ys :: "('a :: linorder) list"
  shows "length xs = length ys \<Longrightarrow> xs @ [a] < ys @ [b] \<longleftrightarrow> xs < ys \<or> xs = ys \<and> a < b"
  by (induction xs ys rule: list_induct2) auto

lemma less_digits:
  fixes a b c d :: nat
  assumes "b < 256" "d < 256"
  shows "256 * a + b < 256 * c + d \<longleftrightarrow> a < c \<or> a = c \<and> b < d"
  using assms by arith

lemma be_bytes_less:
  "x < 256 ^ n \<Longrightarrow> y < 256 ^ n \<Longrightarrow> be_bytes n x < be_bytes n y \<longleftrightarrow> x < y"
proof (induction n arbitrary: x y)
  case (Suc n)
  have lt: "x div 256 < 256 ^ n" "y div 256 < 256 ^ n"
    using Suc.prems by (simp_all add: div_less_iff_less_mult mult.commute)
  have eq: "be_bytes n (x div 256) = be_bytes n (y div 256) \<longleftrightarrow> x div 256 = y div 256"
    using be_bytes_inj [OF _ lt] by auto
  have byte: "(word_of_nat (x mod 256) :: byte) < word_of_nat (y mod 256) \<longleftrightarrow> x mod 256 < y mod 256"
    by (simp add: word_less_nat_alt unat_word_of_nat_256)
  have "x < y \<longleftrightarrow> x div 256 < y div 256 \<or> x div 256 = y div 256 \<and> x mod 256 < y mod 256"
    using less_digits [of "x mod 256" "y mod 256" "x div 256" "y div 256"] by simp
  then show ?case
    by (simp add: list_less_append_same_length Suc.IH [OF lt] eq byte del: of_nat_mod)
qed simp

lemma hash_bytes_less: "hash_bytes h < hash_bytes h' \<longleftrightarrow> h < h'"
  unfolding hash_bytes_def
  by (simp add: be_bytes_less [OF unat_less_pow256(1) unat_less_pow256(1)] word_less_nat_alt)

text \<open>Equal concatenations whose first parts have equal lengths split.\<close>

lemma append_eq_same_length:
  "length xs = length xs' \<Longrightarrow> xs @ ys = xs' @ ys' \<longleftrightarrow> xs = xs' \<and> ys = ys'"
  by (rule append_eq_append_conv) simp

section \<open>Lists, sorting and association lists\<close>

text \<open>
  \<open>sort.Slice\<close> is not stable, but every slice the netting code sorts has pairwise distinct
  sort keys, so the sorted slice is determined: it is \<open>sort_key\<close>.
\<close>

lemma sorted_distinct_key_unique:
  fixes f :: "'a \<Rightarrow> 'b :: linorder"
  assumes "sorted (map f xs)" "sorted (map f ys)" "mset xs = mset ys" "distinct (map f xs)"
  shows "xs = ys"
proof -
  have "inj_on f (set xs \<union> set ys)"
    using assms(3,4) by (metis Un_absorb distinct_map mset_eq_setD)
  moreover have "map f xs = map f ys"
    using assms by (metis mset_map properties_for_sort)
  ultimately show ?thesis
    using map_inj_on by blast
qed

lemma sort_key_perm:
  fixes f :: "'a \<Rightarrow> 'b :: linorder"
  assumes "mset xs = mset ys" "distinct (map f xs)"
  shows "sort_key f xs = sort_key f ys"
proof (rule sorted_distinct_key_unique [where f = f])
  show "distinct (map f (sort_key f xs))"
    using assms(2) by (metis distinct_map distinct_sort set_sort)
qed (use assms(1) in auto)

lemma mset_map_sort_key: "mset (map f (sort_key g xs)) = mset (map f xs)"
  by simp

lemma distinct_map_sort_key [simp]: "distinct (map f (sort_key g xs)) \<longleftrightarrow> distinct (map f xs)"
  by (rule mset_eq_imp_distinct_iff [OF mset_map_sort_key])

lemma strict_sorted_map_sort_key:
  "distinct (map f xs) \<Longrightarrow> sorted_wrt (<) (map f (sort_key f xs))"
  by (simp add: strict_sorted_iff)

lemma sort_key_eq_Nil [simp]: "sort_key f xs = [] \<longleftrightarrow> xs = []"
  by (metis length_0_conv length_sort)

lemma sum_list_sort_key [simp]:
  "sum_list (map (f :: 'a \<Rightarrow> int) (sort_key g xs)) = sum_list (map f xs)"
proof -
  have "sum_mset (mset (map f (sort_key g xs))) = sum_mset (mset (map f xs))"
    by simp
  then show ?thesis by (simp only: sum_mset_sum_list)
qed

text \<open>A Go map that is iterated is an association list; assigning a key replaces or appends.\<close>

fun alist_set :: "'k \<Rightarrow> 'v \<Rightarrow> ('k \<times> 'v) list \<Rightarrow> ('k \<times> 'v) list" where
  "alist_set k v [] = [(k, v)]"
| "alist_set k v (p # ps) = (if fst p = k then (k, v) # ps else p # alist_set k v ps)"

definition alist_del :: "'k \<Rightarrow> ('k \<times> 'v) list \<Rightarrow> ('k \<times> 'v) list" where
  "alist_del k ps = filter (\<lambda>p. fst p \<noteq> k) ps"

lemma map_of_alist_set: "map_of (alist_set k v ps) = (map_of ps)(k \<mapsto> v)"
  by (induction ps) (auto simp: fun_eq_iff)

lemma map_of_alist_del: "map_of (alist_del k ps) = (map_of ps)(k := None)"
  by (induction ps) (auto simp: alist_del_def fun_eq_iff)

lemma keys_alist_set: "fst ` set (alist_set k v ps) = insert k (fst ` set ps)"
  by (induction ps) auto

lemma distinct_alist_set: "distinct (map fst ps) \<Longrightarrow> distinct (map fst (alist_set k v ps))"
proof (induction ps)
  case (Cons p ps)
  then show ?case
    using keys_alist_set [of k v ps] by (auto simp flip: set_map simp del: set_map)
qed simp

lemma distinct_alist_del: "distinct (map fst ps) \<Longrightarrow> distinct (map fst (alist_del k ps))"
  by (simp add: alist_del_def distinct_map_filter)

lemma alist_set_fresh: "k \<notin> fst ` set ps \<Longrightarrow> alist_set k v ps = ps @ [(k, v)]"
  by (induction ps) auto

end
