(* ===== verification/Errors.thy ===== *)
theory Errors
  imports Prelude
begin

text \<open>
  The errors of the netting packages. A constructor stands for the sentinel error that
  \<open>errors.Is\<close> recognises; the formatted context around it is dropped. Where two packages use
  the same name the package is part of the constructor. \<open>ErrWrap e e'\<close> is an error made by
  \<open>fmt.Errorf\<close> with two wrapped errors, \<open>ErrOther\<close> an error with no sentinel (its literal
  text), and \<open>GoPanic\<close> a run-time panic, which Go does not return but which must not be
  hidden: a nil dereference or an index out of range.
\<close>

datatype err =
  \<comment> \<open>pkg/core/intent\<close>
    ErrUnsupportedVersion | ErrWrongChain | ErrInvalidAmount | ErrSameParticipant
  | ErrInvalidSourceShard | ErrInvalidDestinationShard | ErrWrongSourceShard | ErrSameShard
  | ErrUnsupportedAsset | ErrExpired
  \<comment> \<open>pkg/netting/merkle\<close>
  | ErrEmptyDomain | ErrDuplicateKey | ErrLeafNotFound
  \<comment> \<open>pkg/netting/model\<close>
  | ErrInvalidOriginalAmount | ErrInvalidMatchedAmount | ErrInvalidFallbackAmount
  | ErrIntentIDMismatch | ErrAmountConservation
  \<comment> \<open>pkg/netting/matcher\<close>
  | ErrMatcherDuplicateIntent | ErrInvalidIntent | ErrMatchingInvariant
  \<comment> \<open>pkg/netting/window\<close>
  | ErrInvalidConfig | ErrMissingCheckpoint | ErrUnknownShard | ErrConflictingReceipt
  | ErrStaleReceipt | ErrParentHashMismatch | ErrInvalidReceipt | ErrWindowDuplicateIntent
  | ErrFrozenQueueEmpty | ErrUnexpectedWindow | ErrInvalidState
  \<comment> \<open>pkg/netting/registry\<close>
  | ErrReservationExists | ErrReservationNotFound | ErrNonceMismatch | ErrNonceExhausted
  | ErrInsufficientBalance | ErrInvalidStatus
  \<comment> \<open>pkg/netting/batch\<close>
  | ErrEmptyWindow | ErrDuplicateShardCut | ErrInvalidShardCut | ErrMissingShardCut
  | ErrInvalidSettlement
  \<comment> \<open>pkg/netting/settlement\<close>
  | ErrUnknownMatchRoot | ErrInvalidProof | ErrWrongShard | ErrSettlementExecuted
  | ErrSettlementConservation | ErrSettlementDuplicateIntent
  | ErrPackageWrongShard | ErrPackageRootMismatch
  \<comment> \<open>pkg/netting/fallback\<close>
  | ErrInvalidFallback | ErrFallbackNotFound | ErrFallbackPayload | ErrFallbackWrongShard
  | ErrFallbackProof
  \<comment> \<open>pkg/netting/beacon\<close>
  | ErrBatchSequence | ErrCutSequence | ErrReceiptCoverage | ErrDuplicateBatchIntent
  | ErrExpiredBatchIntent | ErrDerivedBatchMismatch | ErrBatchNotFound | ErrBatchCommitted
  | ErrBeaconTipChanged
  \<comment> \<open>pkg/chain\<close>
  | ErrIntentEnvelopeMismatch | ErrInvalidMatchRoot | ErrMatchRootConflict | ErrSettlementEnvelope
  | ErrParentBlockHashMismatch | ErrBlockNumberMismatch | ErrInvalidBlockType | ErrStateRootMismatch
  | ErrLocationRootMismatch
  \<comment> \<open>pkg/core/account\<close>
  | ErrNotEnoughBalance
  \<comment> \<open>errors without a sentinel\<close>
  | ErrWrap err err | ErrOther string | GoPanic | OutOfFuel

type_synonym 'a res = "err + 'a"

text \<open>\<open>errors.Is\<close>: the sentinel is somewhere in the wrapped chain.\<close>

fun errors_Is :: "err \<Rightarrow> err \<Rightarrow> bool" where
  "errors_Is (ErrWrap e e') t \<longleftrightarrow> ErrWrap e e' = t \<or> errors_Is e t \<or> errors_Is e' t"
| "errors_Is e t \<longleftrightarrow> e = t"

text \<open>A guard \<open>if cond { return err }\<close> followed by the rest of the function.\<close>

definition fail_if :: "bool \<Rightarrow> err \<Rightarrow> 'a res \<Rightarrow> 'a res" where
  "fail_if c e k = (if c then Inl e else k)"

lemma fail_if_simps [simp]:
  "fail_if True e k = Inl e" "fail_if False e k = k"
  by (simp_all add: fail_if_def)

lemma fail_if_eq_Inr: "fail_if c e k = Inr x \<longleftrightarrow> \<not> c \<and> k = Inr x"
  by (simp add: fail_if_def)

lemma fail_if_eq_Inl: "fail_if c e k = Inl e' \<longleftrightarrow> (c \<and> e' = e) \<or> (\<not> c \<and> k = Inl e')"
  by (auto simp: fail_if_def)

text \<open>\<open>fmt.Errorf("%w ... %w", e, err)\<close> around the error of a call.\<close>

definition wrap_err :: "err \<Rightarrow> 'a res \<Rightarrow> 'a res" where
  "wrap_err e m = (case m of Inl e' \<Rightarrow> Inl (ErrWrap e e') | Inr x \<Rightarrow> Inr x)"

lemma wrap_err_simps [simp]:
  "wrap_err e (Inl e') = Inl (ErrWrap e e')" "wrap_err e (Inr x) = Inr x"
  by (simp_all add: wrap_err_def)

lemma wrap_err_eq_Inr [simp]: "wrap_err e m = Inr x \<longleftrightarrow> m = Inr x"
  by (cases m) auto

text \<open>
  A function that may change the state and fail: the state it leaves and its result.
  \<open>bind_st\<close> is \<open>if err != nil { return err }\<close> after such a call, \<open>lift_res\<close> a call that
  does not change the state.
\<close>

definition bind_st :: "'s \<times> 'a res \<Rightarrow> ('a \<Rightarrow> 's \<Rightarrow> 's \<times> 'b res) \<Rightarrow> 's \<times> 'b res" where
  "bind_st m f = (case m of (s, Inl e) \<Rightarrow> (s, Inl e) | (s, Inr x) \<Rightarrow> f x s)"

definition lift_res :: "'a res \<Rightarrow> 's \<Rightarrow> 's \<times> 'a res" where
  "lift_res r s = (s, r)"

lemma bind_st_simps [simp]:
  "bind_st (s, Inl e) f = (s, Inl e)" "bind_st (s, Inr x) f = f x s"
  by (simp_all add: bind_st_def)

lemma bind_st_eq_Inr:
  "bind_st m f = (s', Inr y) \<longleftrightarrow> (\<exists>s x. m = (s, Inr x) \<and> f x s = (s', Inr y))"
  by (cases m; cases "snd m") (auto simp: bind_st_def)

lemma bind_st_eq_Inl:
  "bind_st m f = (s', Inl e) \<longleftrightarrow> m = (s', Inl e) \<or> (\<exists>s x. m = (s, Inr x) \<and> f x s = (s', Inl e))"
  by (cases m; cases "snd m") (auto simp: bind_st_def)

lemmas res_elims = bind_res_eq_Inr fail_if_eq_Inr

text \<open>Reading a \<open>*big.Int\<close>: a method call on \<open>nil\<close> panics.\<close>

definition deref_big :: "int option \<Rightarrow> int res" where
  "deref_big v = (case v of None \<Rightarrow> Inl GoPanic | Some x \<Rightarrow> Inr x)"

lemma deref_big_simps [simp]: "deref_big (Some x) = Inr x" "deref_big None = Inl GoPanic"
  by (simp_all add: deref_big_def)

lemma deref_big_eq_Inr: "deref_big v = Inr x \<longleftrightarrow> v = Some x"
  by (cases v) auto

end
