(* ===== verification/Intent.thy ===== *)
theory Intent
  imports Errors
begin

text \<open>
  Payment intents, \<open>pkg/core/intent/intent.go\<close>: the record, the static validation rules, the
  canonical encoding and the identifier derived from it. \<open>CanonicalBytes_inj\<close> shows that the
  encoding separates any two intents that differ in anything but the signature, and
  \<open>Validate_ok_iff\<close> states exactly which intents pass.
\<close>

section \<open>Data\<close>

record PaymentIntent =
  Version :: uint8
  ChainID :: uint64
  Sender :: address
  Recipient :: address
  SourceShard :: int
  DestinationShard :: int
  AssetID :: hash256
  Amount :: "int option"
  Nonce :: uint64
  ExpiryEpoch :: uint64
  Signature :: bytes

record ValidationContext =
  ctx_ChainID :: uint64
  ctx_ShardID :: int
  ctx_ShardCount :: int
  ctx_CurrentEpoch :: uint64

definition CurrentVersion :: uint8 where
  "CurrentVersion = 1"

definition idDomain :: string where
  "idDomain = ''BLOCKEMULATOR_NETTING_INTENT_V1''"

definition NativeAssetID :: hash256 where
  "NativeAssetID = 0"

section \<open>Operations\<close>

text \<open>\<open>p.Amount == nil || p.Amount.Sign() <= 0\<close>\<close>

definition bad_amount :: "int option \<Rightarrow> bool" where
  "bad_amount a \<longleftrightarrow> (case a of None \<Rightarrow> True | Some x \<Rightarrow> x \<le> 0)"

definition Validate :: "PaymentIntent \<Rightarrow> ValidationContext \<Rightarrow> unit res" where
  "Validate p ctx =
     fail_if (Version p \<noteq> CurrentVersion) ErrUnsupportedVersion (
     fail_if (ChainID p \<noteq> ctx_ChainID ctx) ErrWrongChain (
     fail_if (bad_amount (Amount p)) ErrInvalidAmount (
     fail_if (Sender p = Recipient p) ErrSameParticipant (
     fail_if (SourceShard p < 0 \<or> SourceShard p \<ge> ctx_ShardCount ctx) ErrInvalidSourceShard (
     fail_if (DestinationShard p < 0 \<or> DestinationShard p \<ge> ctx_ShardCount ctx)
       ErrInvalidDestinationShard (
     fail_if (SourceShard p \<noteq> ctx_ShardID ctx) ErrWrongSourceShard (
     fail_if (SourceShard p = DestinationShard p) ErrSameShard (
     fail_if (AssetID p \<noteq> NativeAssetID) ErrUnsupportedAsset (
     fail_if (ExpiryEpoch p \<le> ctx_CurrentEpoch ctx) ErrExpired (
     Inr ()))))))))))"

definition CanonicalBytes :: "PaymentIntent \<Rightarrow> bytes res" where
  "CanonicalBytes p =
     (case Amount p of
        None \<Rightarrow> Inl ErrInvalidAmount
      | Some a \<Rightarrow>
          if a \<le> 0 then Inl ErrInvalidAmount
          else let amount = big_bytes a in
            if length amount > 2 ^ 32 - 1 then Inl ErrInvalidAmount
            else Inr (str_bytes idDomain @ [Version p] @ uint64_bytes (ChainID p)
              @ addr_bytes (Sender p) @ addr_bytes (Recipient p)
              @ uint64_bytes (uint64_of_int64 (SourceShard p))
              @ uint64_bytes (uint64_of_int64 (DestinationShard p))
              @ hash_bytes (AssetID p)
              @ uint32_bytes (word_of_nat (length amount)) @ amount
              @ uint64_bytes (Nonce p) @ uint64_bytes (ExpiryEpoch p)))"

definition ID :: "hasher \<Rightarrow> PaymentIntent \<Rightarrow> hash256 res" where
  "ID H p = bind_res (CanonicalBytes p) (\<lambda>encoded. Inr (H encoded))"

text \<open>
  \<open>EncodeRLP\<close> hands a copy with unsigned shard numbers to the RLP encoder of go-ethereum,
  which is the parameter \<open>rlp\<close>.
\<close>

record rlpIntent =
  rlp_Version :: uint8
  rlp_ChainID :: uint64
  rlp_Sender :: address
  rlp_Recipient :: address
  rlp_SourceShard :: uint64
  rlp_DestinationShard :: uint64
  rlp_AssetID :: hash256
  rlp_Amount :: "int option"
  rlp_Nonce :: uint64
  rlp_ExpiryEpoch :: uint64
  rlp_Signature :: bytes

definition to_rlpIntent :: "PaymentIntent \<Rightarrow> rlpIntent" where
  "to_rlpIntent p =
     \<lparr>rlp_Version = Version p, rlp_ChainID = ChainID p, rlp_Sender = Sender p,
      rlp_Recipient = Recipient p, rlp_SourceShard = uint64_of_int64 (SourceShard p),
      rlp_DestinationShard = uint64_of_int64 (DestinationShard p), rlp_AssetID = AssetID p,
      rlp_Amount = Amount p, rlp_Nonce = Nonce p, rlp_ExpiryEpoch = ExpiryEpoch p,
      rlp_Signature = Signature p\<rparr>"

definition EncodeRLP :: "(rlpIntent \<Rightarrow> bytes res) \<Rightarrow> PaymentIntent \<Rightarrow> bytes res" where
  "EncodeRLP rlp p =
     fail_if (SourceShard p < 0) ErrInvalidSourceShard (
     fail_if (DestinationShard p < 0) ErrInvalidDestinationShard (
     rlp (to_rlpIntent p)))"

text \<open>The identifier of an intent that has one.\<close>

definition pid :: "hasher \<Rightarrow> PaymentIntent \<Rightarrow> hash256" where
  "pid H p = (case ID H p of Inl _ \<Rightarrow> 0 | Inr i \<Rightarrow> i)"

section \<open>Well-typed intents\<close>

text \<open>
  The Go type of the shard fields is \<open>int64\<close>, and an amount is small enough to be written
  down: its length field is 32 bits wide.
\<close>

definition wt_intent :: "PaymentIntent \<Rightarrow> bool" where
  "wt_intent p \<longleftrightarrow> int64_range (SourceShard p) \<and> int64_range (DestinationShard p)"

text \<open>Two intents that agree on everything the identifier commits to.\<close>

definition same_payment :: "PaymentIntent \<Rightarrow> PaymentIntent \<Rightarrow> bool" where
  "same_payment p q \<longleftrightarrow> p\<lparr>Signature := []\<rparr> = q\<lparr>Signature := []\<rparr>"

section \<open>Validation\<close>

lemma bad_amount_simps [simp]:
  "bad_amount None" "bad_amount (Some x) \<longleftrightarrow> x \<le> 0"
  by (simp_all add: bad_amount_def)

lemma not_bad_amount: "\<not> bad_amount a \<longleftrightarrow> (\<exists>x. a = Some x \<and> 0 < x)"
  by (cases a) auto

text \<open>
  An intent passes the static validation exactly when it has the supported version and the
  shard's chain, a positive amount in the native asset, two different participants, a source
  shard that is the executing shard, a different destination shard inside the shard range, and
  an expiry epoch after the current one.
\<close>

lemma Validate_ok_iff:
  "Validate p ctx = Inr () \<longleftrightarrow>
     Version p = 1 \<and> ChainID p = ctx_ChainID ctx \<and> (\<exists>a > 0. Amount p = Some a)
     \<and> Sender p \<noteq> Recipient p \<and> AssetID p = 0
     \<and> SourceShard p = ctx_ShardID ctx \<and> SourceShard p \<noteq> DestinationShard p
     \<and> SourceShard p \<in> {0..<ctx_ShardCount ctx} \<and> DestinationShard p \<in> {0..<ctx_ShardCount ctx}
     \<and> ctx_CurrentEpoch ctx < ExpiryEpoch p"
  unfolding Validate_def fail_if_eq_Inr not_bad_amount CurrentVersion_def NativeAssetID_def
  by (auto simp: not_le)

section \<open>The canonical encoding\<close>

lemma CanonicalBytes_Inr:
  "CanonicalBytes p = Inr b \<longleftrightarrow>
     (\<exists>a. Amount p = Some a \<and> 0 < a \<and> length (big_bytes a) < 2 ^ 32
       \<and> b = str_bytes idDomain @ [Version p] @ uint64_bytes (ChainID p)
              @ addr_bytes (Sender p) @ addr_bytes (Recipient p)
              @ uint64_bytes (uint64_of_int64 (SourceShard p))
              @ uint64_bytes (uint64_of_int64 (DestinationShard p))
              @ hash_bytes (AssetID p)
              @ uint32_bytes (word_of_nat (length (big_bytes a))) @ big_bytes a
              @ uint64_bytes (Nonce p) @ uint64_bytes (ExpiryEpoch p))"
  by (auto simp: CanonicalBytes_def Let_def not_less split: option.splits)

lemma CanonicalBytes_Signature [simp]: "CanonicalBytes (p\<lparr>Signature := s\<rparr>) = CanonicalBytes p"
  by (auto simp: CanonicalBytes_def Let_def split: option.splits)

lemma word32_of_length_inj:
  "m < 2 ^ 32 \<Longrightarrow> n < 2 ^ 32 \<Longrightarrow> (word_of_nat m :: uint32) = word_of_nat n \<longleftrightarrow> m = n"
proof
  assume lt: "m < 2 ^ 32" "n < 2 ^ 32" and "(word_of_nat m :: uint32) = word_of_nat n"
  then have "unat (word_of_nat m :: uint32) = unat (word_of_nat n :: uint32)" by simp
  then show "m = n" using lt by (simp add: unat_of_nat)
qed simp

text \<open>
  C27. The canonical encoding is injective up to the signature: two well-typed intents with the
  same encoding agree on version, chain, participants, shards, asset, amount, nonce and expiry.
\<close>

theorem CanonicalBytes_inj:
  assumes "CanonicalBytes p = Inr b" "CanonicalBytes q = Inr b" "wt_intent p" "wt_intent q"
  shows "same_payment p q"
proof -
  obtain a where a: "Amount p = Some a" "0 < a" "length (big_bytes a) < 2 ^ 32"
    using assms(1) by (auto simp: CanonicalBytes_Inr)
  obtain a' where a': "Amount q = Some a'" "0 < a'" "length (big_bytes a') < 2 ^ 32"
    using assms(2) by (auto simp: CanonicalBytes_Inr)
  have eqs: "Version p = Version q" "ChainID p = ChainID q" "Sender p = Sender q"
      "Recipient p = Recipient q"
      "uint64_of_int64 (SourceShard p) = uint64_of_int64 (SourceShard q)"
      "uint64_of_int64 (DestinationShard p) = uint64_of_int64 (DestinationShard q)"
      "AssetID p = AssetID q"
      "(word_of_nat (length (big_bytes a)) :: uint32) = word_of_nat (length (big_bytes a'))"
    and rest: "big_bytes a @ uint64_bytes (Nonce p) @ uint64_bytes (ExpiryEpoch p)
             = big_bytes a' @ uint64_bytes (Nonce q) @ uint64_bytes (ExpiryEpoch q)"
    using assms(1,2) a(1) a'(1) by (auto simp: CanonicalBytes_Inr append_eq_same_length)
  have "length (big_bytes a) = length (big_bytes a')"
    using eqs(8) a(3) a'(3) by (simp add: word32_of_length_inj)
  then have "big_bytes a = big_bytes a'" "Nonce p = Nonce q" "ExpiryEpoch p = ExpiryEpoch q"
    using rest by (auto simp: append_eq_same_length)
  moreover have "SourceShard p = SourceShard q" "DestinationShard p = DestinationShard q"
    using assms(3,4) eqs(5,6) by (auto simp: wt_intent_def intro: uint64_of_int64_inj)
  ultimately show ?thesis
    using eqs a a' big_bytes_inj [of a a'] by (simp add: same_payment_def)
qed

definition example_intent :: PaymentIntent where
  "example_intent =
     \<lparr>Version = 1, ChainID = 11, Sender = 1, Recipient = 2, SourceShard = 0,
      DestinationShard = 1, AssetID = 0, Amount = Some 300, Nonce = 0, ExpiryEpoch = 2,
      Signature = [7]\<rparr>"

lemma CanonicalBytes_inj_witness:
  "\<exists>b. CanonicalBytes example_intent = Inr b
     \<and> CanonicalBytes (example_intent\<lparr>Signature := [1, 2]\<rparr>) = Inr b
     \<and> same_payment example_intent (example_intent\<lparr>Signature := [1, 2]\<rparr>)"
proof -
  have len: "length (big_bytes 300) < 2 ^ 32"
    by (simp add: big_bytes_def big_bytes_nat.simps)
  obtain b where b: "CanonicalBytes example_intent = Inr b"
    using len by (auto simp: CanonicalBytes_Inr example_intent_def)
  then have b': "CanonicalBytes (example_intent\<lparr>Signature := [1, 2]\<rparr>) = Inr b"
    by simp
  have wt: "wt_intent example_intent" "wt_intent (example_intent\<lparr>Signature := [1, 2]\<rparr>)"
    by (simp_all add: wt_intent_def int64_range_def example_intent_def)
  show ?thesis
    using b b' CanonicalBytes_inj [OF b b' wt] by blast
qed

text \<open>The identifier does not depend on the signature, and nothing else is left out of it.\<close>

lemma ID_Signature [simp]: "ID H (p\<lparr>Signature := s\<rparr>) = ID H p"
  by (simp add: ID_def)

lemma ID_Inr: "ID H p = Inr i \<longleftrightarrow> (\<exists>b. CanonicalBytes p = Inr b \<and> i = H b)"
  by (auto simp: ID_def bind_res_eq_Inr)

lemma ID_Inr_amount: "ID H p = Inr i \<Longrightarrow> \<exists>a > 0. Amount p = Some a"
  by (auto simp: ID_Inr CanonicalBytes_Inr)

text \<open>The preimage an intent's identifier is the hash of.\<close>

definition id_preimages :: "PaymentIntent set \<Rightarrow> bytes set" where
  "id_preimages P = {b. \<exists>p \<in> P. CanonicalBytes p = Inr b}"

lemma ID_inj:
  assumes "ID H p = Inr i" "ID H q = Inr i" "wt_intent p" "wt_intent q"
    and "inj_on H (id_preimages {p, q})"
  shows "same_payment p q"
proof -
  obtain b b' where b: "CanonicalBytes p = Inr b" "CanonicalBytes q = Inr b'" "H b = H b'"
    using assms(1,2) by (auto simp: ID_Inr)
  then have "b = b'"
    using assms(5) by (auto simp: id_preimages_def intro: inj_onD)
  then show ?thesis
    using b CanonicalBytes_inj assms(3,4) by blast
qed

end
