(* ===== verification/Merkle.thy ===== *)
theory Merkle
  imports Errors
begin

text \<open>
  The domain-separated Merkle tree of \<open>pkg/netting/merkle/tree.go\<close>. \<open>Build\<close> sorts the leaves
  by key, rejects duplicate keys and hashes level by level, duplicating the last node of an odd
  level; \<open>Tree_Proof\<close> collects the siblings of one leaf and \<open>Verify\<close> folds them back to the root.

  The interface a client relies on is the locale \<open>vector_commitment\<close>: every leaf can be opened
  against the root, and, where the hash has no collision on the strings involved, nothing else
  can, so that the root determines the set of payloads. It is interpreted on the tree below.
\<close>

unbundle bit_operations_syntax

section \<open>Data\<close>

record Leaf =
  Key :: bytes
  Payload :: bytes

record Step =
  Sibling :: hash256
  SiblingOnLeft :: bool

record Proof =
  Steps :: "Step list"

record Tree =
  tree_domain :: string
  tree_leaves :: "Leaf list"
  tree_indexes :: "bytes \<rightharpoonup> nat"
  tree_levels :: "hash256 list list"
  tree_root :: hash256

definition emptyRootDomain :: string where
  "emptyRootDomain = ''BLOCKEMULATOR_MERKLE_EMPTY_V1''"

section \<open>Operations\<close>

definition leaf_preimage :: "string \<Rightarrow> bytes \<Rightarrow> bytes" where
  "leaf_preimage domain payload = [0x00] @ str_bytes domain @ payload"

definition node_preimage :: "hash256 \<Rightarrow> hash256 \<Rightarrow> bytes" where
  "node_preimage left right = [0x01] @ hash_bytes left @ hash_bytes right"

definition hashLeaf :: "hasher \<Rightarrow> string \<Rightarrow> bytes \<Rightarrow> hash256" where
  "hashLeaf H domain payload = H (leaf_preimage domain payload)"

definition hashNode :: "hasher \<Rightarrow> hash256 \<Rightarrow> hash256 \<Rightarrow> hash256" where
  "hashNode H left right = H (node_preimage left right)"

definition emptyRoot :: "hasher \<Rightarrow> hash256" where
  "emptyRoot H = H (str_bytes emptyRootDomain)"

text \<open>One pass of the inner loop of \<open>Build\<close>: pairs of nodes, the last one alone if odd.\<close>

fun parent_level :: "hasher \<Rightarrow> hash256 list \<Rightarrow> hash256 list" where
  "parent_level H [] = []"
| "parent_level H [x] = [hashNode H x x]"
| "parent_level H (x # y # zs) = hashNode H x y # parent_level H zs"

lemma length_parent_level [simp]: "length (parent_level H xs) = (length xs + 1) div 2"
  by (induction H xs rule: parent_level.induct) auto

text \<open>The outer loop: levels from the leaves up, until one hash is left.\<close>

function build_levels :: "hasher \<Rightarrow> hash256 list \<Rightarrow> hash256 list list" where
  "build_levels H level =
     (if length level > 1 then level # build_levels H (parent_level H level) else [level])"
  by pat_completeness auto
termination
  by (relation "measure (\<lambda>(H, level). length level)") auto

declare build_levels.simps [simp del]

text \<open>The loop that records each key's index and stops at the first duplicate.\<close>

fun build_indexes :: "nat \<Rightarrow> Leaf list \<Rightarrow> (bytes \<rightharpoonup> nat) \<Rightarrow> (bytes \<rightharpoonup> nat) res" where
  "build_indexes idx [] indexes = Inr indexes"
| "build_indexes idx (leaf # leaves) indexes =
     fail_if (indexes (Key leaf) \<noteq> None) ErrDuplicateKey
       (build_indexes (Suc idx) leaves (indexes(Key leaf \<mapsto> idx)))"

definition Build :: "hasher \<Rightarrow> string \<Rightarrow> Leaf list \<Rightarrow> Tree res" where
  "Build H domain input =
     fail_if (domain = []) ErrEmptyDomain (
     let leaves = sort_key Key input in
     bind_res (build_indexes 0 leaves Map.empty) (\<lambda>indexes.
       if leaves = [] then
         Inr \<lparr>tree_domain = domain, tree_leaves = leaves, tree_indexes = indexes,
              tree_levels = [], tree_root = emptyRoot H\<rparr>
       else
         let levels = build_levels H (map (\<lambda>leaf. hashLeaf H domain (Payload leaf)) leaves) in
         Inr \<lparr>tree_domain = domain, tree_leaves = leaves, tree_indexes = indexes,
              tree_levels = levels, tree_root = last levels ! 0\<rparr>))"

definition Root :: "Tree \<Rightarrow> hash256" where
  "Root t = tree_root t"

definition Len :: "Tree \<Rightarrow> nat" where
  "Len t = length (tree_leaves t)"

text \<open>The loop of \<open>Proof\<close> visits every level but the last.\<close>

fun proof_steps :: "hash256 list list \<Rightarrow> nat \<Rightarrow> Step list" where
  "proof_steps (level # level' # levels) index =
     (let siblingIndex = (if index XOR 1 \<ge> length level then index else index XOR 1) in
      \<lparr>Sibling = level ! siblingIndex, SiblingOnLeft = siblingIndex < index\<rparr>
        # proof_steps (level' # levels) (index div 2))"
| "proof_steps _ index = []"

definition Tree_Proof :: "Tree \<Rightarrow> bytes \<Rightarrow> Proof res" where
  "Tree_Proof t key =
     (case tree_indexes t key of
        None \<Rightarrow> Inl ErrLeafNotFound
      | Some index \<Rightarrow> Inr \<lparr>Steps = proof_steps (tree_levels t) index\<rparr>)"

definition verify_step :: "hasher \<Rightarrow> hash256 \<Rightarrow> Step \<Rightarrow> hash256" where
  "verify_step H current step =
     (if SiblingOnLeft step then hashNode H (Sibling step) current
      else hashNode H current (Sibling step))"

definition Verify :: "hasher \<Rightarrow> string \<Rightarrow> bytes \<Rightarrow> Proof \<Rightarrow> hash256 \<Rightarrow> bool" where
  "Verify H domain payload prf expectedRoot \<longleftrightarrow>
     foldl (verify_step H) (hashLeaf H domain payload) (Steps prf) = expectedRoot"

section \<open>The strings a tree and a proof hash\<close>

text \<open>
  Collision freedom is only ever assumed on explicit finite sets: the strings hashed by a tree
  (its leaves, and any two of its hashes joined) and those hashed by one verification.
\<close>

definition tree_hashes :: "Tree \<Rightarrow> hash256 set" where
  "tree_hashes t = \<Union> (set ` set (tree_levels t))"

definition tree_preimages :: "Tree \<Rightarrow> bytes set" where
  "tree_preimages t =
     insert (str_bytes emptyRootDomain)
       (leaf_preimage (tree_domain t) ` Payload ` set (tree_leaves t)
        \<union> (\<lambda>(x, y). node_preimage x y) ` (tree_hashes t \<times> tree_hashes t))"

fun path_preimages :: "hasher \<Rightarrow> hash256 \<Rightarrow> Step list \<Rightarrow> bytes set" where
  "path_preimages H current [] = {}"
| "path_preimages H current (s # ss) =
     insert (if SiblingOnLeft s then node_preimage (Sibling s) current
             else node_preimage current (Sibling s))
       (path_preimages H (verify_step H current s) ss)"

definition proof_preimages :: "hasher \<Rightarrow> string \<Rightarrow> bytes \<Rightarrow> Proof \<Rightarrow> bytes set" where
  "proof_preimages H domain payload prf =
     insert (leaf_preimage domain payload)
       (path_preimages H (hashLeaf H domain payload) (Steps prf))"

section \<open>Structure of a built tree\<close>

lemma nth_parent_level:
  "j < (length xs + 1) div 2 \<Longrightarrow>
     parent_level H xs ! j
     = hashNode H (xs ! (2 * j)) (xs ! (if 2 * j + 1 < length xs then 2 * j + 1 else 2 * j))"
proof (induction H xs arbitrary: j rule: parent_level.induct)
  case (3 H x y zs)
  then show ?case by (cases j) auto
qed auto

lemma build_indexes_Inr:
  "build_indexes n leaves m = Inr m' \<Longrightarrow>
     distinct (map Key leaves) \<and> Key ` set leaves \<inter> dom m = {}
     \<and> (\<forall>i < length leaves. m' (Key (leaves ! i)) = Some (n + i))
     \<and> (\<forall>k. k \<notin> Key ` set leaves \<longrightarrow> m' k = m k)"
proof (induction leaves arbitrary: n m)
  case (Cons l leaves)
  then have fresh: "m (Key l) = None"
    and "build_indexes (Suc n) leaves (m(Key l \<mapsto> n)) = Inr m'"
    by (auto simp: fail_if_eq_Inr)
  note IH = Cons.IH [OF this(2)]
  have "Key l \<notin> Key ` set leaves" "Key ` set leaves \<inter> dom m = {}"
    using IH by auto
  moreover have "m' (Key ((l # leaves) ! i)) = Some (n + i)" if "i < length (l # leaves)" for i
    using IH that \<open>Key l \<notin> Key ` set leaves\<close> by (cases i) auto
  moreover have "m' k = m k" if "k \<notin> Key ` set (l # leaves)" for k
    using IH that by auto
  moreover have "distinct (map Key leaves)"
    using IH by blast
  ultimately show ?case
    using fresh by (auto simp del: nth_Cons_0)
qed simp

lemma build_indexes_ok:
  "distinct (map Key leaves) \<Longrightarrow> Key ` set leaves \<inter> dom m = {} \<Longrightarrow>
     \<exists>m'. build_indexes n leaves m = Inr m'"
proof (induction leaves arbitrary: n m)
  case (Cons l leaves)
  have "Key ` set leaves \<inter> dom (m(Key l \<mapsto> n)) = {}"
    unfolding dom_fun_upd using Cons.prems by auto
  then have "\<exists>m'. build_indexes (Suc n) leaves (m(Key l \<mapsto> n)) = Inr m'"
    using Cons.IH Cons.prems(1) by simp
  moreover have "m (Key l) = None"
    using Cons.prems(2) by auto
  ultimately show ?case by simp
qed simp

text \<open>What a successful \<open>Build\<close> returns.\<close>

lemma Build_Inr:
  assumes "Build H domain input = Inr t"
  shows "domain \<noteq> []" "distinct (map Key input)" "tree_domain t = domain"
    "tree_leaves t = sort_key Key input"
    "tree_levels t = (if input = [] then []
       else build_levels H (map (\<lambda>leaf. hashLeaf H domain (Payload leaf)) (sort_key Key input)))"
    "Root t = (if input = [] then emptyRoot H else last (tree_levels t) ! 0)"
    "i < length input \<Longrightarrow> tree_indexes t (Key (sort_key Key input ! i)) = Some i"
    "k \<notin> Key ` set input \<Longrightarrow> tree_indexes t k = None"
proof -
  obtain idx where dom: "domain \<noteq> []"
    and idx: "build_indexes 0 (sort_key Key input) Map.empty = Inr idx"
    and t: "t = (if input = [] then
         \<lparr>tree_domain = domain, tree_leaves = sort_key Key input, tree_indexes = idx,
              tree_levels = [], tree_root = emptyRoot H\<rparr>
       else
         \<lparr>tree_domain = domain, tree_leaves = sort_key Key input, tree_indexes = idx,
           tree_levels = build_levels H (map (\<lambda>leaf. hashLeaf H domain (Payload leaf))
             (sort_key Key input)),
           tree_root = last (build_levels H (map (\<lambda>leaf. hashLeaf H domain (Payload leaf))
             (sort_key Key input))) ! 0\<rparr>)"
    using assms
    by (auto simp: Build_def Let_def res_elims Root_def split: if_splits)
  show "domain \<noteq> []" "tree_domain t = domain" "tree_leaves t = sort_key Key input"
    "tree_levels t = (if input = [] then []
       else build_levels H (map (\<lambda>leaf. hashLeaf H domain (Payload leaf)) (sort_key Key input)))"
    "Root t = (if input = [] then emptyRoot H else last (tree_levels t) ! 0)"
    by (simp_all add: dom t Root_def)
  have ti: "tree_indexes t = idx" by (simp add: t)
  note * = build_indexes_Inr [OF idx]
  show "distinct (map Key input)" using * by simp
  show "i < length input \<Longrightarrow> tree_indexes t (Key (sort_key Key input ! i)) = Some i"
    using * ti by simp
  show "k \<notin> Key ` set input \<Longrightarrow> tree_indexes t k = None"
    using * ti by simp
qed

lemma Build_ok: "domain \<noteq> [] \<Longrightarrow> distinct (map Key input) \<Longrightarrow> \<exists>t. Build H domain input = Inr t"
proof -
  assume d: "domain \<noteq> []" "distinct (map Key input)"
  then have "\<exists>m'. build_indexes 0 (sort_key Key input) Map.empty = Inr m'"
    by (intro build_indexes_ok) auto
  then show ?thesis using d by (auto simp: Build_def Let_def)
qed

section \<open>Completeness\<close>

lemma build_levels_not_Nil [simp]: "build_levels H xs \<noteq> []"
  by (subst build_levels.simps) simp

lemma proof_steps_build_levels:
  "length xs > 1 \<Longrightarrow> proof_steps (build_levels H xs) i =
     (let s = (if i XOR 1 \<ge> length xs then i else i XOR 1) in
      \<lparr>Sibling = xs ! s, SiblingOnLeft = s < i\<rparr>
        # proof_steps (build_levels H (parent_level H xs)) (i div 2))"
proof -
  assume "length xs > 1"
  moreover obtain l ls where "build_levels H (parent_level H xs) = l # ls"
    using build_levels_not_Nil by (meson neq_Nil_conv)
  ultimately show ?thesis
    by (subst build_levels.simps) simp
qed

lemma verify_step_parent:
  assumes "i < length xs" "length xs > 1"
    and s: "s = (if i XOR 1 \<ge> length xs then i else i XOR 1)"
  shows "verify_step H (xs ! i) \<lparr>Sibling = xs ! s, SiblingOnLeft = s < i\<rparr>
       = parent_level H xs ! (i div 2)"
proof -
  have j: "i div 2 < (length xs + 1) div 2" using assms(1) by auto
  show ?thesis
  proof (cases "even i")
    case True
    then have "i XOR 1 = Suc i" "2 * (i div 2) = i" by (simp_all add: xor_Suc_0_eq)
    then show ?thesis
      using nth_parent_level [OF j, of H] s by (auto simp: verify_step_def)
  next
    case False
    then have "i XOR 1 = i - 1" "2 * (i div 2) = i - 1" "i \<noteq> 0"
      by (auto simp: xor_Suc_0_eq elim: oddE)
    then show ?thesis
      using nth_parent_level [OF j, of H] s assms(1) by (auto simp: verify_step_def)
  qed
qed

lemma foldl_proof_steps:
  "i < length xs \<Longrightarrow>
     foldl (verify_step H) (xs ! i) (proof_steps (build_levels H xs) i) = last (build_levels H xs) ! 0"
proof (induction H xs arbitrary: i rule: build_levels.induct)
  case (1 H xs)
  show ?case
  proof (cases "length xs > 1")
    case True
    have "i div 2 < length (parent_level H xs)" using "1.prems" by auto
    then have "foldl (verify_step H) (parent_level H xs ! (i div 2))
        (proof_steps (build_levels H (parent_level H xs)) (i div 2))
      = last (build_levels H (parent_level H xs)) ! 0"
      using "1.IH" True by blast
    moreover have "last (build_levels H xs) = last (build_levels H (parent_level H xs))"
      using True by (simp add: build_levels.simps [of H xs])
    ultimately show ?thesis
      using verify_step_parent [OF "1.prems" True refl, of H]
      by (simp add: proof_steps_build_levels [OF True] Let_def del: One_nat_def)
  next
    case False
    with "1.prems" obtain x where "xs = [x]" "i = 0"
      by (cases xs) auto
    moreover have "build_levels H [x] = [[x]]" for x
      by (simp add: build_levels.simps)
    ultimately show ?thesis by simp
  qed
qed

lemma merkle_complete:
  assumes "Build H domain input = Inr t" "leaf \<in> set input"
  shows "\<exists>prf. Tree_Proof t (Key leaf) = Inr prf \<and> Verify H domain (Payload leaf) prf (Root t)"
proof -
  define xs where "xs = map (\<lambda>leaf. hashLeaf H domain (Payload leaf)) (sort_key Key input)"
  obtain i where i: "i < length input" "sort_key Key input ! i = leaf"
    using assms(2) by (metis in_set_conv_nth length_sort set_sort)
  then have ne: "input \<noteq> []" by auto
  have "Tree_Proof t (Key leaf) = Inr \<lparr>Steps = proof_steps (build_levels H xs) i\<rparr>"
    using Build_Inr(5,7) [OF assms(1)] i ne by (auto simp: Tree_Proof_def xs_def)
  moreover have "hashLeaf H domain (Payload leaf) = xs ! i" "i < length xs"
    using i by (simp_all add: xs_def)
  ultimately show ?thesis
    using foldl_proof_steps [of i xs H] Build_Inr(5,6) [OF assms(1)] ne
    by (simp add: Verify_def xs_def)
qed

section \<open>Soundness\<close>

lemma node_preimage_inj [simp]:
  "node_preimage x y = node_preimage x' y' \<longleftrightarrow> x = x' \<and> y = y'"
  by (simp add: node_preimage_def append_eq_same_length)

lemma leaf_preimage_inj [simp]: "leaf_preimage d p = leaf_preimage d q \<longleftrightarrow> p = q"
  by (simp add: leaf_preimage_def)

lemma preimages_distinct [simp]:
  "leaf_preimage d p \<noteq> node_preimage x y" "node_preimage x y \<noteq> leaf_preimage d p"
  "leaf_preimage d p \<noteq> str_bytes emptyRootDomain" "node_preimage x y \<noteq> str_bytes emptyRootDomain"
  by (simp_all add: leaf_preimage_def node_preimage_def str_bytes_def emptyRootDomain_def)

lemma in_parent_level:
  "h \<in> set (parent_level H xs) \<Longrightarrow> \<exists>x \<in> set xs. \<exists>y \<in> set xs. h = hashNode H x y"
  by (induction H xs rule: parent_level.induct) auto

text \<open>Every hash of a tree is that of one of its leaves or joins two hashes of the tree.\<close>

lemma build_levels_hashes:
  "level \<in> set (build_levels H xs) \<Longrightarrow> h \<in> set level \<Longrightarrow>
     h \<in> set xs \<or> (\<exists>x \<in> \<Union> (set ` set (build_levels H xs)).
       \<exists>y \<in> \<Union> (set ` set (build_levels H xs)). h = hashNode H x y)"
proof (induction H xs arbitrary: level rule: build_levels.induct)
  case (1 H xs)
  let ?sub = "build_levels H (parent_level H xs)"
  show ?case
  proof (cases "length xs > 1 \<and> level \<noteq> xs")
    case True
    then have all: "set (build_levels H xs) = insert xs (set ?sub)" and sub: "level \<in> set ?sub"
      using "1.prems" by (auto simp: build_levels.simps [of H xs])
    have "h \<in> set (parent_level H xs)
        \<or> (\<exists>x \<in> \<Union> (set ` set ?sub). \<exists>y \<in> \<Union> (set ` set ?sub). h = hashNode H x y)"
      using "1.IH" True sub "1.prems"(2) by blast
    then show ?thesis
      unfolding all using in_parent_level [of h H xs] by blast
  next
    case False
    then have "level = xs"
      using "1.prems" by (auto simp: build_levels.simps [of H xs] split: if_splits)
    with "1.prems" show ?thesis by blast
  qed
qed

lemma tree_hashes_cases [consumes 2, case_names leaf node]:
  assumes "Build H domain input = Inr t" "h \<in> tree_hashes t"
  obtains (leaf) l where "l \<in> set input" "h = hashLeaf H domain (Payload l)"
    | (node) x y where "x \<in> tree_hashes t" "y \<in> tree_hashes t" "h = hashNode H x y"
proof -
  let ?xs = "map (\<lambda>leaf. hashLeaf H domain (Payload leaf)) (sort_key Key input)"
  have lv: "tree_levels t = build_levels H ?xs" "input \<noteq> []"
    using assms by (auto simp: Build_Inr(5) [OF assms(1)] tree_hashes_def split: if_splits)
  then obtain level where level: "level \<in> set (build_levels H ?xs)" "h \<in> set level"
    using assms(2) by (auto simp: tree_hashes_def)
  have "h \<in> set ?xs \<or> (\<exists>x \<in> tree_hashes t. \<exists>y \<in> tree_hashes t. h = hashNode H x y)"
    unfolding tree_hashes_def lv(1) by (rule build_levels_hashes [OF level])
  then show thesis
    using leaf node by auto
qed

lemma Root_in_tree_hashes:
  assumes "Build H domain input = Inr t" "input \<noteq> []"
  shows "Root t \<in> tree_hashes t"
proof -
  obtain l where l: "l \<in> set input" using assms(2) by (meson last_in_set)
  define xs where "xs = map (\<lambda>leaf. hashLeaf H domain (Payload leaf)) (sort_key Key input)"
  have "xs \<noteq> [] \<Longrightarrow> last (build_levels H xs) \<noteq> []" for xs
  proof (induction H xs rule: build_levels.induct)
    case (1 H xs)
    have "length (parent_level H xs) > 0"
      using "1.prems" by (cases xs) auto
    then have "parent_level H xs \<noteq> []" by blast
    then show ?case
      using "1" by (auto simp: build_levels.simps [of H xs])
  qed
  moreover have "xs \<noteq> []" using assms(2) by (simp add: xs_def)
  ultimately have "last (build_levels H xs) \<noteq> []" by blast
  then have "last (build_levels H xs) ! 0 \<in> \<Union> (set ` set (build_levels H xs))"
    by (metis UN_I build_levels_not_Nil last_in_set length_greater_0_conv nth_mem)
  then show ?thesis
    using Build_Inr(5,6) [OF assms(1)] assms(2) by (simp add: tree_hashes_def xs_def)
qed

text \<open>
  Walking a verification path backwards from a hash of the tree stays inside the tree, as long
  as the strings involved do not collide.
\<close>

lemma foldl_verify_in_tree:
  assumes "Build H domain input = Inr t"
    and "inj_on H (tree_preimages t \<union> path_preimages H c ss)"
    and "foldl (verify_step H) c ss \<in> tree_hashes t"
  shows "c \<in> tree_hashes t"
  using assms(2,3)
proof (induction ss arbitrary: c)
  case (Cons s ss)
  let ?c = "verify_step H c s"
  let ?pre = "if SiblingOnLeft s then node_preimage (Sibling s) c else node_preimage c (Sibling s)"
  have c: "?c = H ?pre" by (simp add: verify_step_def hashNode_def)
  have inj: "inj_on H (tree_preimages t \<union> {?pre})"
    using Cons.prems(1) by (rule inj_on_subset) auto
  have inj': "inj_on H (tree_preimages t \<union> path_preimages H ?c ss)"
    using Cons.prems(1) by (rule inj_on_subset) auto
  have "?c \<in> tree_hashes t"
    using Cons.IH [OF inj'] Cons.prems(2) by simp
  with assms(1) show ?case
  proof (cases rule: tree_hashes_cases)
    case (leaf l)
    have "leaf_preimage domain (Payload l) \<in> tree_preimages t"
      using leaf(1) Build_Inr(3,4) [OF assms(1)] by (auto simp: tree_preimages_def)
    then have "leaf_preimage domain (Payload l) = ?pre"
      using leaf(2) c inj by (auto simp: hashLeaf_def dest: inj_onD)
    then show ?thesis by (simp split: if_splits)
  next
    case (node x y)
    have "node_preimage x y \<in> tree_preimages t"
      using node(1,2) by (auto simp: tree_preimages_def)
    then have "node_preimage x y = ?pre"
      using node(3) c inj by (auto simp: hashNode_def dest: inj_onD)
    then show ?thesis using node(1,2) by (auto split: if_splits)
  qed
qed simp

lemma merkle_sound:
  assumes "Build H domain input = Inr t"
    and "inj_on H (tree_preimages t \<union> proof_preimages H domain payload prf)"
    and "Verify H domain payload prf (Root t)"
  shows "payload \<in> Payload ` set input"
proof -
  let ?c = "hashLeaf H domain payload"
  have inj: "inj_on H (tree_preimages t \<union> path_preimages H ?c (Steps prf))"
    and injl: "inj_on H (tree_preimages t \<union> {leaf_preimage domain payload})"
    using assms(2) by (auto simp: proof_preimages_def intro: inj_on_subset)
  have fold: "foldl (verify_step H) ?c (Steps prf) = Root t"
    using assms(3) by (simp add: Verify_def)
  show ?thesis
  proof (cases "input = []")
    case True
    then have root: "Root t = H (str_bytes emptyRootDomain)"
      using Build_Inr(6) [OF assms(1)] by (simp add: emptyRoot_def)
    obtain pre where pre: "foldl (verify_step H) ?c (Steps prf) = H pre"
        "pre \<in> proof_preimages H domain payload prf" "pre \<noteq> str_bytes emptyRootDomain"
    proof -
      have "\<exists>pre. foldl (verify_step H) c ss = H pre \<and> pre \<noteq> str_bytes emptyRootDomain
          \<and> pre \<in> insert b (path_preimages H c ss)"
        if "c = H b" "b \<noteq> str_bytes emptyRootDomain" for c b ss
        using that
      proof (induction ss arbitrary: c b)
        case (Cons s ss)
        have "verify_step H c s = H (if SiblingOnLeft s then node_preimage (Sibling s) c
            else node_preimage c (Sibling s))"
          by (simp add: verify_step_def hashNode_def)
        from Cons.IH [OF this] show ?case by auto
      qed auto
      from this [of ?c "leaf_preimage domain payload" "Steps prf"] show thesis
        using that by (auto simp: hashLeaf_def proof_preimages_def)
    qed
    have "str_bytes emptyRootDomain \<in> tree_preimages t"
      by (simp add: tree_preimages_def)
    then have False
      using pre root fold assms(2) by (auto dest: inj_onD)
    then show ?thesis ..
  next
    case False
    have "?c \<in> tree_hashes t"
      using foldl_verify_in_tree [OF assms(1) inj] fold Root_in_tree_hashes [OF assms(1) False]
      by simp
    with assms(1) show ?thesis
    proof (cases rule: tree_hashes_cases)
      case (leaf l)
      have "leaf_preimage domain (Payload l) \<in> tree_preimages t"
        using leaf(1) Build_Inr(3,4) [OF assms(1)] by (auto simp: tree_preimages_def)
      then have "leaf_preimage domain (Payload l) = leaf_preimage domain payload"
        using leaf(2) injl by (auto simp: hashLeaf_def dest: inj_onD)
      then show ?thesis using leaf(1) by auto
    next
      case (node x y)
      have "node_preimage x y \<in> tree_preimages t"
        using node(1,2) by (auto simp: tree_preimages_def)
      then have "node_preimage x y = leaf_preimage domain payload"
        using node(3) injl by (auto simp: hashNode_def hashLeaf_def dest: inj_onD)
      then show ?thesis by simp
    qed
  qed
qed

section \<open>The interface of a vector commitment\<close>

text \<open>
  \<open>separates t v p\<close> says that no two of the strings hashed by the tree \<open>t\<close> and by checking
  \<open>v\<close> with the proof \<open>p\<close> collide, \<open>disjoint t t'\<close> the same of two trees.
\<close>

locale vector_commitment =
  fixes commit :: "'l list \<Rightarrow> 'e + 't"
    and root :: "'t \<Rightarrow> 'h"
    and reveal :: "'t \<Rightarrow> 'k \<Rightarrow> 'e + 'p"
    and check :: "'v \<Rightarrow> 'p \<Rightarrow> 'h \<Rightarrow> bool"
    and key :: "'l \<Rightarrow> 'k"
    and val :: "'l \<Rightarrow> 'v"
    and separates :: "'t \<Rightarrow> 'v \<Rightarrow> 'p \<Rightarrow> bool"
    and disjoint :: "'t \<Rightarrow> 't \<Rightarrow> bool"
  assumes complete: "commit ls = Inr t \<Longrightarrow> l \<in> set ls \<Longrightarrow>
      \<exists>p. reveal t (key l) = Inr p \<and> check (val l) p (root t)"
    and sound: "commit ls = Inr t \<Longrightarrow> separates t v p \<Longrightarrow> check v p (root t) \<Longrightarrow> v \<in> val ` set ls"
    and separates_reveal: "commit ls = Inr t \<Longrightarrow> commit ls' = Inr t' \<Longrightarrow> disjoint t t' \<Longrightarrow>
      l \<in> set ls' \<Longrightarrow> reveal t' (key l) = Inr p \<Longrightarrow> separates t (val l) p"
    and disjoint_sym: "disjoint t t' \<Longrightarrow> disjoint t' t"
begin

lemma root_subset:
  assumes "commit ls = Inr t" "commit ls' = Inr t'" "root t = root t'" "disjoint t t'"
  shows "val ` set ls' \<subseteq> val ` set ls"
proof
  fix v
  assume "v \<in> val ` set ls'"
  then obtain l where l: "l \<in> set ls'" "v = val l" by auto
  obtain p where p: "reveal t' (key l) = Inr p" "check (val l) p (root t')"
    using complete [OF assms(2) l(1)] by auto
  have "separates t (val l) p"
    by (rule separates_reveal [OF assms(1,2,4) l(1) p(1)])
  then show "v \<in> val ` set ls"
    using sound [OF assms(1)] p(2) assms(3) l(2) by simp
qed

lemma binding:
  assumes "commit ls = Inr t" "commit ls' = Inr t'" "root t = root t'" "disjoint t t'"
  shows "val ` set ls = val ` set ls'"
  using root_subset [OF assms] root_subset [OF assms(2,1) assms(3) [symmetric] disjoint_sym [OF assms(4)]]
  by (rule equalityI [rotated])

end

definition node_preimages :: "hash256 list list \<Rightarrow> bytes set" where
  "node_preimages levels =
     (\<lambda>(x, y). node_preimage x y) ` (\<Union> (set ` set levels) \<times> \<Union> (set ` set levels))"

lemma node_preimages_mono: "set ls \<subseteq> set ls' \<Longrightarrow> node_preimages ls \<subseteq> node_preimages ls'"
  unfolding node_preimages_def by (rule image_mono) auto

lemma node_preimagesI:
  "l \<in> set levels \<Longrightarrow> x \<in> set l \<Longrightarrow> y \<in> set l \<Longrightarrow> node_preimage x y \<in> node_preimages levels"
  by (auto simp: node_preimages_def)

lemma path_preimages_proof_steps:
  "i < length xs \<Longrightarrow>
     path_preimages H (xs ! i) (proof_steps (build_levels H xs) i) \<subseteq> node_preimages (build_levels H xs)"
proof (induction H xs arbitrary: i rule: build_levels.induct)
  case (1 H xs)
  show ?case
  proof (cases "length xs > 1")
    case True
    define s where "s = (if i XOR 1 \<ge> length xs then i else i XOR 1)"
    let ?up = "parent_level H xs"
    let ?step = "\<lparr>Sibling = xs ! s, SiblingOnLeft = s < i\<rparr>"
    have s: "s < length xs" using "1.prems" by (auto simp: s_def)
    have all: "set (build_levels H xs) = insert xs (set (build_levels H ?up))"
      using True by (simp add: build_levels.simps [of H xs])
    have steps: "proof_steps (build_levels H xs) i = ?step # proof_steps (build_levels H ?up) (i div 2)"
      unfolding proof_steps_build_levels [OF True] s_def Let_def ..
    have "path_preimages H (?up ! (i div 2)) (proof_steps (build_levels H ?up) (i div 2))
        \<subseteq> node_preimages (build_levels H ?up)"
      using "1.IH" [OF True, of "i div 2"] "1.prems" by fastforce
    also have "\<dots> \<subseteq> node_preimages (build_levels H xs)"
      by (rule node_preimages_mono) (simp add: all subset_insertI)
    finally have "path_preimages H (verify_step H (xs ! i) ?step)
        (proof_steps (build_levels H ?up) (i div 2)) \<subseteq> node_preimages (build_levels H xs)"
      by (simp only: verify_step_parent [OF "1.prems" True s_def])
    moreover have "node_preimage (xs ! i) (xs ! s) \<in> node_preimages (build_levels H xs)"
      "node_preimage (xs ! s) (xs ! i) \<in> node_preimages (build_levels H xs)"
      using "1.prems" s all by (auto intro!: node_preimagesI [of xs])
    ultimately show ?thesis
      by (simp add: steps)
  next
    case False
    with "1.prems" obtain x where "xs = [x]" "i = 0"
      by (cases xs) auto
    moreover have "build_levels H [x] = [[x]]" for x
      by (simp add: build_levels.simps)
    ultimately show ?thesis by simp
  qed
qed

text \<open>An honest proof hashes nothing that its tree did not hash.\<close>

lemma proof_preimages_honest:
  assumes "Build H domain input = Inr t" "l \<in> set input" "Tree_Proof t (Key l) = Inr prf"
  shows "proof_preimages H domain (Payload l) prf \<subseteq> tree_preimages t"
proof -
  define xs where "xs = map (\<lambda>leaf. hashLeaf H domain (Payload leaf)) (sort_key Key input)"
  obtain i where i: "i < length input" "sort_key Key input ! i = l"
    using assms(2) by (metis in_set_conv_nth length_sort set_sort)
  then have ne: "input \<noteq> []" by auto
  have lv: "tree_levels t = build_levels H xs"
    using Build_Inr(5) [OF assms(1)] ne by (simp add: xs_def)
  have "Steps prf = proof_steps (build_levels H xs) i"
    using Build_Inr(7) [OF assms(1) i(1)] assms(3) i(2) lv by (auto simp: Tree_Proof_def)
  moreover have "hashLeaf H domain (Payload l) = xs ! i" "i < length xs"
    using i by (simp_all add: xs_def)
  ultimately have "path_preimages H (hashLeaf H domain (Payload l)) (Steps prf)
      \<subseteq> (\<lambda>(x, y). node_preimage x y) ` (tree_hashes t \<times> tree_hashes t)"
    using path_preimages_proof_steps [of i xs H] by (simp add: tree_hashes_def node_preimages_def lv)
  moreover have "leaf_preimage domain (Payload l) \<in> leaf_preimage (tree_domain t) ` Payload ` set (tree_leaves t)"
    using assms(2) Build_Inr(3,4) [OF assms(1)] by auto
  ultimately show ?thesis
    by (auto simp: proof_preimages_def tree_preimages_def)
qed

interpretation mk: vector_commitment
  "Build H domain" Root Tree_Proof "Verify H domain" Key Payload
  "\<lambda>t v p. inj_on H (tree_preimages t \<union> proof_preimages H domain v p)"
  "\<lambda>t t'. inj_on H (tree_preimages t \<union> tree_preimages t')"
  for H :: hasher and domain :: string
proof unfold_locales
  fix ls ls' t t' l p
  assume t': "Build H domain ls' = Inr t'" "l \<in> set ls'" "Tree_Proof t' (Key l) = Inr p"
    and inj: "inj_on H (tree_preimages t \<union> tree_preimages t')"
  from t' have "proof_preimages H domain (Payload l) p \<subseteq> tree_preimages t'"
    by (rule proof_preimages_honest)
  then show "inj_on H (tree_preimages t \<union> proof_preimages H domain (Payload l) p)"
    by (intro inj_on_subset [OF inj]) auto
qed (auto intro: merkle_complete merkle_sound simp: Un_commute)

section \<open>Properties\<close>

text \<open>
  C25. Completeness: for every leaf of a successfully built tree, \<open>Proof\<close> returns a proof of its
  key and \<open>Verify\<close> accepts it for the leaf's payload against the root.
\<close>

theorem Proof_Verify_complete:
  assumes "Build H domain input = Inr t" "leaf \<in> set input"
  shows "\<exists>prf. Tree_Proof t (Key leaf) = Inr prf \<and> Verify H domain (Payload leaf) prf (Root t)"
  by (rule mk.complete [OF assms])

text \<open>
  C24. Soundness: whatever proof \<open>Verify\<close> accepts against the root of a built tree, the payload is
  that of one of the leaves, unless the hash collides on the strings of the tree and the proof.
\<close>

theorem Verify_sound:
  assumes "Build H domain input = Inr t" "Verify H domain payload prf (Root t)"
    and "inj_on H (tree_preimages t \<union> proof_preimages H domain payload prf)"
  shows "payload \<in> Payload ` set input"
  by (rule mk.sound [OF assms(1) assms(3) assms(2)])

text \<open>Trees of the same shape with one root have the same hashes at the leaves.\<close>

lemma parent_level_eqD:
  "parent_level H xs = parent_level H ys \<Longrightarrow> length xs = length ys \<Longrightarrow> inj_on H A
     \<Longrightarrow> (\<And>x y. x \<in> set xs \<Longrightarrow> y \<in> set xs \<Longrightarrow> node_preimage x y \<in> A) \<Longrightarrow> (\<And>x y. x \<in> set ys \<Longrightarrow> y \<in> set ys \<Longrightarrow> node_preimage x y \<in> A) \<Longrightarrow> xs = ys"
proof (induction H xs arbitrary: ys rule: parent_level.induct)
  case (2 H x)
  then obtain y where y: "ys = [y]" by (cases ys) auto
  then have "H (node_preimage x x) = H (node_preimage y y)" using 2(1) by (simp add: hashNode_def)
  then show ?case using y 2(3-5) by (auto dest: inj_onD)
next
  case (3 H x y zs)
  then obtain x' y' zs' where ys: "ys = x' # y' # zs'" by (cases ys; cases "tl ys") auto
  then have "H (node_preimage x y) = H (node_preimage x' y')" and t: "parent_level H zs = parent_level H zs'" using 3(2) by (simp_all add: hashNode_def)
  then have "node_preimage x y = node_preimage x' y'" using 3(4-6) ys by (intro inj_onD [OF 3(4)]) auto
  moreover have "zs = zs'" using 3(3,5,6) ys by (intro 3(1) [OF t _ 3(4)]) auto
  ultimately show ?case using ys by simp
qed simp

lemma build_levels_eqD:
  "last (build_levels H xs) ! 0 = last (build_levels H ys) ! 0 \<Longrightarrow> length xs = length ys \<Longrightarrow> inj_on H A
     \<Longrightarrow> (\<And>l x y. l \<in> set (build_levels H xs) \<Longrightarrow> x \<in> set l \<Longrightarrow> y \<in> set l \<Longrightarrow> node_preimage x y \<in> A)
     \<Longrightarrow> (\<And>l x y. l \<in> set (build_levels H ys) \<Longrightarrow> x \<in> set l \<Longrightarrow> y \<in> set l \<Longrightarrow> node_preimage x y \<in> A) \<Longrightarrow> xs = ys"
proof (induction H xs arbitrary: ys rule: build_levels.induct)
  case (1 H xs)
  show ?case
  proof (cases "length xs > 1")
    case True
    have l: "build_levels H xs = xs # build_levels H (parent_level H xs)" "build_levels H ys = ys # build_levels H (parent_level H ys)"
      using True 1(3) by (simp_all add: build_levels.simps [of H xs] build_levels.simps [of H ys])
    have "parent_level H xs = parent_level H ys"
    proof (rule 1(1) [OF True _ _ 1(4)])
      show "last (build_levels H (parent_level H xs)) ! 0 = last (build_levels H (parent_level H ys)) ! 0" using 1(2) l by simp
      show "length (parent_level H xs) = length (parent_level H ys)" using 1(3) by simp
      show "node_preimage x y \<in> A" if "k \<in> set (build_levels H (parent_level H xs))" "x \<in> set k" "y \<in> set k" for k x y
        by (rule 1(5) [OF _ that(2,3)]) (simp add: l that(1))
      show "node_preimage x y \<in> A" if "k \<in> set (build_levels H (parent_level H ys))" "x \<in> set k" "y \<in> set k" for k x y
        by (rule 1(6) [OF _ that(2,3)]) (simp add: l that(1))
    qed
    then show ?thesis using 1(3,4) 1(5) [of xs] 1(6) [of ys] l by (intro parent_level_eqD [of H xs ys A]) auto
  next
    case False
    then have "build_levels H xs = [xs]" "build_levels H ys = [ys]" using 1(3) by (simp_all add: build_levels.simps [of H xs] build_levels.simps [of H ys])
    then show ?thesis using 1(2,3) False by (cases xs; cases ys) auto
  qed
qed

lemma leaves_binding:
  assumes t: "Build H domain input = Inr t" "Build H domain input' = Inr t'" "Root t = Root t'"
    and inj: "inj_on H (tree_preimages t \<union> tree_preimages t')" and len: "length input = length input'"
  shows "map Payload (sort_key Key input) = map Payload (sort_key Key input')"
proof (cases "input = []")
  case False
  let ?A = "tree_preimages t \<union> tree_preimages t'" and ?h = "map (\<lambda>leaf. hashLeaf H domain (Payload leaf))"
  have ne: "input' \<noteq> []" using False len by auto
  note l = Build_Inr(5) [OF t(1)] Build_Inr(5) [OF t(2)]
  have n: "node_preimage x y \<in> tree_preimages u" if "k \<in> set (tree_levels u)" "x \<in> set k" "y \<in> set k" for u k x y
    using that by (auto simp: tree_preimages_def tree_hashes_def)
  have "last (build_levels H (?h (sort_key Key input))) ! 0 = last (build_levels H (?h (sort_key Key input'))) ! 0"
    using t(3) Build_Inr(6) [OF t(1)] Build_Inr(6) [OF t(2)] l False ne by simp
  then have h: "?h (sort_key Key input) = ?h (sort_key Key input')"
    by (rule build_levels_eqD [OF _ _ inj]) (use l False ne len n [of _ t] n [of _ t'] in auto)
  have m: "leaf_preimage domain (Payload leaf) \<in> ?A" if "leaf \<in> set input \<union> set input'" for leaf
    using that Build_Inr(3,4) [OF t(1)] Build_Inr(3,4) [OF t(2)] by (auto simp: tree_preimages_def)
  show ?thesis
  proof (rule nth_equalityI)
    fix i assume i: "i < length (map Payload (sort_key Key input))"
    have "sort_key Key input ! i \<in> set input" "sort_key Key input' ! i \<in> set input'" using i len by (metis length_map length_sort nth_mem set_sort)+
    moreover have "H (leaf_preimage domain (Payload (sort_key Key input ! i))) = H (leaf_preimage domain (Payload (sort_key Key input' ! i)))"
      using arg_cong [OF h, of "\<lambda>xs. xs ! i"] i len by (simp add: hashLeaf_def)
    ultimately have "leaf_preimage domain (Payload (sort_key Key input ! i)) = leaf_preimage domain (Payload (sort_key Key input' ! i))"
      using m by (intro inj_onD [OF inj]) auto
    then show "map Payload (sort_key Key input) ! i = map Payload (sort_key Key input') ! i" using i len by simp
  qed (simp add: len)
qed (use len in simp)

text \<open>
  C23. Binding: two trees of the same domain with the same root hold the same set of payloads, and the same sequence of
  payloads in the order of their keys when they have the same number of leaves or no payload occurs twice in either, unless the hash
  collides on the strings of the two trees. The keys themselves are not hashed; they only order the leaves.
\<close>

theorem Root_binding:
  assumes "Build H domain input = Inr t" "Build H domain input' = Inr t'" "Root t = Root t'"
    and "inj_on H (tree_preimages t \<union> tree_preimages t')"
  shows "Payload ` set input = Payload ` set input'
    \<and> (length input = length input' \<or> distinct (map Payload input) \<and> distinct (map Payload input')
        \<longrightarrow> map Payload (sort_key Key input) = map Payload (sort_key Key input'))"
proof -
  have s: "Payload ` set input = Payload ` set input'" by (rule mk.binding [OF assms])
  have "length input = length input'" if "distinct (map Payload input)" "distinct (map Payload input')"
    using distinct_card [OF that(1)] distinct_card [OF that(2)] s by simp
  then show ?thesis using s leaves_binding [OF assms] by blast
qed

text \<open>
  Without that condition the number of leaves is not bound: the last node of an odd level is joined with itself, so that a tree of three
  leaves has the root of the tree in which the last payload occurs once more.
\<close>

lemma last_leaf_twice:
  assumes "Build H domain [\<lparr>Key = [1], Payload = a\<rparr>, \<lparr>Key = [2], Payload = b\<rparr>, \<lparr>Key = [3], Payload = c\<rparr>] = Inr t"
    and "Build H domain [\<lparr>Key = [1], Payload = a\<rparr>, \<lparr>Key = [2], Payload = b\<rparr>, \<lparr>Key = [3], Payload = c\<rparr>, \<lparr>Key = [4], Payload = c\<rparr>] = Inr t'"
  shows "Root t = Root t'"
  using Build_Inr(5,6) [OF assms(1)] Build_Inr(5,6) [OF assms(2)] by (simp add: build_levels.simps)

section \<open>Witnesses\<close>

text \<open>
  Three leaves, so that a level of odd length is involved; the length of the hashed string
  serves as hash where only completeness is at stake.
\<close>

definition example_leaves :: "Leaf list" where
  "example_leaves = [\<lparr>Key = [3], Payload = [3, 30]\<rparr>, \<lparr>Key = [1], Payload = [1, 10]\<rparr>,
     \<lparr>Key = [2], Payload = [2, 20]\<rparr>]"

definition length_hash :: hasher where
  "length_hash b = word_of_nat (length b)"

lemma Proof_Verify_complete_witness:
  "\<exists>t prf. Build length_hash ''d'' example_leaves = Inr t \<and> Tree_Proof t [2] = Inr prf
     \<and> Verify length_hash ''d'' [2, 20] prf (Root t)"
proof -
  obtain t where t: "Build length_hash ''d'' example_leaves = Inr t"
    using Build_ok [of "''d''" example_leaves] by (auto simp: example_leaves_def)
  have "\<lparr>Key = [2], Payload = [2, 20]\<rparr> \<in> set example_leaves"
    by (simp add: example_leaves_def)
  from Proof_Verify_complete [OF t this] t show ?thesis by auto
qed

text \<open>A one-leaf tree, where the length hash separates the strings involved.\<close>

definition one_leaf :: "byte \<Rightarrow> Leaf list" where
  "one_leaf k = [\<lparr>Key = [k], Payload = [1, 10]\<rparr>]"

lemma Build_one_leaf:
  "\<exists>t. Build length_hash ''d'' (one_leaf k) = Inr t \<and> tree_hashes t = {4} \<and> Root t = 4
     \<and> tree_preimages t = {str_bytes emptyRootDomain, leaf_preimage ''d'' [1, 10], node_preimage 4 4}"
proof -
  obtain t where t: "Build length_hash ''d'' (one_leaf k) = Inr t"
    using Build_ok [of "''d''" "one_leaf k"] by (auto simp: one_leaf_def)
  have "hashLeaf length_hash ''d'' [1, 10] = 4"
    by (simp add: hashLeaf_def length_hash_def leaf_preimage_def str_bytes_def)
  then have lv: "tree_levels t = [[4]]"
    using Build_Inr(5) [OF t] by (simp add: one_leaf_def build_levels.simps)
  then have "tree_hashes t = {4}" by (simp add: tree_hashes_def)
  moreover have "Root t = 4"
    using Build_Inr(6) [OF t] lv by (simp add: one_leaf_def)
  ultimately show ?thesis
    using t Build_Inr(3,4) [OF t] by (auto simp: tree_preimages_def one_leaf_def)
qed

lemma length_hash_separates:
  "inj_on length_hash {str_bytes emptyRootDomain, leaf_preimage ''d'' [1, 10], node_preimage 4 4}"
  by (simp add: length_hash_def inj_on_def str_bytes_def emptyRootDomain_def leaf_preimage_def
      node_preimage_def)

lemma Verify_sound_witness:
  "\<exists>t. Build length_hash ''d'' (one_leaf 1) = Inr t
     \<and> Verify length_hash ''d'' [1, 10] \<lparr>Steps = []\<rparr> (Root t) \<and> [1, 10] \<in> Payload ` set (one_leaf 1)"
proof -
  obtain t where t: "Build length_hash ''d'' (one_leaf 1) = Inr t" "Root t = 4"
    "tree_preimages t = {str_bytes emptyRootDomain, leaf_preimage ''d'' [1, 10], node_preimage 4 4}"
    using Build_one_leaf [of 1] by blast
  have v: "Verify length_hash ''d'' [1, 10] \<lparr>Steps = []\<rparr> (Root t)"
    by (simp add: Verify_def t(2) hashLeaf_def length_hash_def leaf_preimage_def str_bytes_def)
  have "inj_on length_hash
      (tree_preimages t \<union> proof_preimages length_hash ''d'' [1, 10] \<lparr>Steps = []\<rparr>)"
    using length_hash_separates by (simp add: t(3) proof_preimages_def insert_commute)
  from Verify_sound [OF t(1) v this] show ?thesis using t v by blast
qed

lemma Root_binding_witness:
  "\<exists>t t'. Build length_hash ''d'' (one_leaf 1) = Inr t \<and> Build length_hash ''d'' (one_leaf 9) = Inr t'
     \<and> Root t = Root t' \<and> map Payload (sort_key Key (one_leaf 1)) = map Payload (sort_key Key (one_leaf 9))"
proof -
  obtain t where t: "Build length_hash ''d'' (one_leaf 1) = Inr t" "Root t = 4"
    "tree_preimages t = {str_bytes emptyRootDomain, leaf_preimage ''d'' [1, 10], node_preimage 4 4}"
    using Build_one_leaf [of 1] by blast
  obtain t' where t': "Build length_hash ''d'' (one_leaf 9) = Inr t'" "Root t' = 4"
    "tree_preimages t' = {str_bytes emptyRootDomain, leaf_preimage ''d'' [1, 10], node_preimage 4 4}"
    using Build_one_leaf [of 9] by blast
  have "inj_on length_hash (tree_preimages t \<union> tree_preimages t')"
    using length_hash_separates by (simp add: t(3) t'(3))
  moreover have "length (one_leaf 1) = length (one_leaf 9)" by (simp add: one_leaf_def)
  ultimately have "map Payload (sort_key Key (one_leaf 1)) = map Payload (sort_key Key (one_leaf 9))"
    using Root_binding [OF t(1) t'(1)] t(2) t'(2) by simp
  with t t' show ?thesis by auto
qed

end
