(* ===== verification/Commitment.thy ===== *)
theory Commitment
  imports Merkle
begin

text \<open>
  The roots a batch commits to, \<open>pkg/netting/commitment/commitment.go\<close>: three Merkle trees over
  cuts, intent results and shard settlements, the \<open>MatchRoot\<close> over their roots and the
  \<open>BatchID\<close> chained to the previous batch.
\<close>

section \<open>Data and operations\<close>

definition CutLeafDomain :: string where
  "CutLeafDomain = ''BLOCKEMULATOR_SHARD_CUT_V1''"

definition IntentResultLeafDomain :: string where
  "IntentResultLeafDomain = ''BLOCKEMULATOR_INTENT_RESULT_V1''"

definition ShardSettlementLeafDomain :: string where
  "ShardSettlementLeafDomain = ''BLOCKEMULATOR_SHARD_SETTLEMENT_V1''"

definition matchRootDomain :: string where
  "matchRootDomain = ''BLOCKEMULATOR_MATCH_ROOT_V1''"

definition batchIDDomain :: string where
  "batchIDDomain = ''BLOCKEMULATOR_BATCH_ID_V1''"

record Roots =
  roots_CutRoot :: hash256
  roots_IntentResultRoot :: hash256
  roots_ShardSettlementRoot :: hash256

record Trees =
  trees_Cuts :: Tree
  trees_IntentResults :: Tree
  trees_ShardSettlements :: Tree

definition BuildTrees :: "hasher \<Rightarrow> Leaf list \<Rightarrow> Leaf list \<Rightarrow> Leaf list \<Rightarrow> Trees res" where
  "BuildTrees H cuts intentResults shardSettlements =
     bind_res (Build H CutLeafDomain cuts) (\<lambda>cutTree.
     bind_res (Build H IntentResultLeafDomain intentResults) (\<lambda>intentResultTree.
     bind_res (Build H ShardSettlementLeafDomain shardSettlements) (\<lambda>shardSettlementTree.
       Inr \<lparr>trees_Cuts = cutTree, trees_IntentResults = intentResultTree,
            trees_ShardSettlements = shardSettlementTree\<rparr>)))"

definition Trees_Roots :: "Trees \<Rightarrow> Roots" where
  "Trees_Roots t =
     \<lparr>roots_CutRoot = Root (trees_Cuts t), roots_IntentResultRoot = Root (trees_IntentResults t),
      roots_ShardSettlementRoot = Root (trees_ShardSettlements t)\<rparr>"

definition BuildRoots :: "hasher \<Rightarrow> Leaf list \<Rightarrow> Leaf list \<Rightarrow> Leaf list \<Rightarrow> Roots res" where
  "BuildRoots H cuts intentResults shardSettlements =
     bind_res (BuildTrees H cuts intentResults shardSettlements) (\<lambda>trees. Inr (Trees_Roots trees))"

definition match_root_preimage :: "Roots \<Rightarrow> bytes" where
  "match_root_preimage roots =
     str_bytes matchRootDomain @ hash_bytes (roots_CutRoot roots)
     @ hash_bytes (roots_IntentResultRoot roots) @ hash_bytes (roots_ShardSettlementRoot roots)"

definition MatchRoot_of :: "hasher \<Rightarrow> Roots \<Rightarrow> hash256" where
  "MatchRoot_of H roots = H (match_root_preimage roots)"

definition batch_id_preimage :: "hash256 \<Rightarrow> uint64 \<Rightarrow> hash256 \<Rightarrow> bytes" where
  "batch_id_preimage previousBatchID windowID matchRoot =
     str_bytes batchIDDomain @ hash_bytes previousBatchID @ uint64_bytes windowID @ hash_bytes matchRoot"

definition BatchID_of :: "hasher \<Rightarrow> hash256 \<Rightarrow> uint64 \<Rightarrow> hash256 \<Rightarrow> hash256" where
  "BatchID_of H previousBatchID windowID matchRoot = H (batch_id_preimage previousBatchID windowID matchRoot)"

section \<open>Binding\<close>

lemma match_root_preimage_inj: "match_root_preimage r = match_root_preimage r' \<Longrightarrow> r = r'"
  by (cases r; cases r') (simp add: match_root_preimage_def append_eq_same_length)

lemma batch_id_preimage_inj [simp]:
  "batch_id_preimage b w m = batch_id_preimage b' w' m' \<longleftrightarrow> b = b' \<and> w = w' \<and> m = m'"
  by (simp add: batch_id_preimage_def append_eq_same_length)

lemma CutLeafDomain_not_Nil [simp]:
  "CutLeafDomain \<noteq> []" "IntentResultLeafDomain \<noteq> []" "ShardSettlementLeafDomain \<noteq> []"
  by (simp_all add: CutLeafDomain_def IntentResultLeafDomain_def ShardSettlementLeafDomain_def)

text \<open>
  C26. A batch identifier commits to the whole header it was computed from: equal identifiers come
  from the same previous batch, the same window and the same three roots, unless the hash
  collides on the four strings hashed for the two headers.
\<close>

theorem BatchID_binding:
  assumes "BatchID_of H prev w (MatchRoot_of H roots) = BatchID_of H prev' w' (MatchRoot_of H roots')"
    and "inj_on H {batch_id_preimage prev w (MatchRoot_of H roots), match_root_preimage roots,
                   batch_id_preimage prev' w' (MatchRoot_of H roots'), match_root_preimage roots'}"
  shows "prev = prev' \<and> w = w' \<and> roots = roots'"
proof -
  have "batch_id_preimage prev w (MatchRoot_of H roots)
      = batch_id_preimage prev' w' (MatchRoot_of H roots')"
    using assms by (auto simp: BatchID_of_def dest: inj_onD)
  then have eq: "prev = prev'" "w = w'" "MatchRoot_of H roots = MatchRoot_of H roots'"
    by simp_all
  then have "match_root_preimage roots = match_root_preimage roots'"
    using assms(2) by (auto simp: MatchRoot_of_def dest: inj_onD)
  with eq show ?thesis by (simp add: match_root_preimage_inj)
qed

definition example_roots :: Roots where
  "example_roots = \<lparr>roots_CutRoot = 1, roots_IntentResultRoot = 2, roots_ShardSettlementRoot = 3\<rparr>"

lemma BatchID_binding_witness:
  "\<exists>H. BatchID_of H 0 1 (MatchRoot_of H example_roots) = BatchID_of H 0 1 (MatchRoot_of H example_roots)
     \<and> batch_id_preimage 0 1 (MatchRoot_of H example_roots) \<noteq> match_root_preimage example_roots
     \<and> (0 :: hash256) = 0 \<and> (1 :: uint64) = 1 \<and> example_roots = example_roots"
proof -
  let ?H = length_hash
  have ne: "batch_id_preimage 0 1 (MatchRoot_of ?H example_roots) \<noteq> match_root_preimage example_roots"
    by (rule notI, drule arg_cong [where f = length])
      (simp add: batch_id_preimage_def match_root_preimage_def str_bytes_def batchIDDomain_def
        matchRootDomain_def)
  have "inj_on ?H {batch_id_preimage 0 1 (MatchRoot_of ?H example_roots), match_root_preimage example_roots,
      batch_id_preimage 0 1 (MatchRoot_of ?H example_roots), match_root_preimage example_roots}"
    by (simp add: inj_on_def length_hash_def batch_id_preimage_def match_root_preimage_def
        str_bytes_def batchIDDomain_def matchRootDomain_def)
  from BatchID_binding [OF refl this] ne show ?thesis by blast
qed

end
