(* ===== verification/Model.thy ===== *)
theory Model
  imports Intent Commitment
begin

text \<open>
  The protocol records shared by the netting components, \<open>pkg/netting/model\<close>: shard cuts and
  finalized receipts, intent results with their construction and validation, and the batch,
  settlement and fallback records. The deep copies (\<open>Clone\<close>) of the package have no counterpart:
  values of the model are immutable. Instants (\<open>time.Time\<close>) are integers.
\<close>

section \<open>Windows and receipts\<close>

record ShardCheckpoint =
  cp_Height :: uint64
  cp_BlockHash :: hash256

record ShardCut =
  cut_ShardID :: int
  cut_PreviousHeight :: uint64
  cut_EndHeight :: uint64
  cut_EndBlockHash :: hash256

record FinalizedBlockReceipt =
  rc_ShardID :: int
  rc_Height :: uint64
  rc_BlockHash :: hash256
  rc_ParentHash :: hash256
  rc_StateRoot :: hash256
  rc_Epoch :: int
  rc_Intents :: "PaymentIntent list"
  rc_CommitTime :: int

section \<open>Intent results\<close>

record IntentResult =
  ir_Intent :: PaymentIntent
  ir_IntentID :: hash256
  ir_MatchedAmount :: "int option"
  ir_FallbackAmount :: "int option"

text \<open>\<open>matched == nil || matched.Sign() < 0 || matched.Cmp(payment.Amount) > 0\<close>\<close>

definition bad_part :: "int option \<Rightarrow> int \<Rightarrow> bool" where
  "bad_part v limit \<longleftrightarrow> (case v of None \<Rightarrow> True | Some x \<Rightarrow> x < 0 \<or> x > limit)"

definition NewIntentResult :: "hasher \<Rightarrow> PaymentIntent \<Rightarrow> int option \<Rightarrow> IntentResult res" where
  "NewIntentResult H payment matched =
     (case Amount payment of
        None \<Rightarrow> Inl ErrInvalidOriginalAmount
      | Some amount \<Rightarrow>
          fail_if (amount \<le> 0) ErrInvalidOriginalAmount (
          fail_if (bad_part matched amount) ErrInvalidMatchedAmount (
          bind_res (ID H payment) (\<lambda>id.
            Inr \<lparr>ir_Intent = payment, ir_IntentID = id, ir_MatchedAmount = matched,
                 ir_FallbackAmount = map_option (\<lambda>m. amount - m) matched\<rparr>))))"

definition IntentResult_Validate :: "hasher \<Rightarrow> IntentResult \<Rightarrow> unit res" where
  "IntentResult_Validate H r =
     (case Amount (ir_Intent r) of
        None \<Rightarrow> Inl ErrInvalidOriginalAmount
      | Some amount \<Rightarrow>
          fail_if (amount \<le> 0) ErrInvalidOriginalAmount (
          fail_if (bad_part (ir_MatchedAmount r) amount) ErrInvalidMatchedAmount (
          fail_if (bad_part (ir_FallbackAmount r) amount) ErrInvalidFallbackAmount (
          bind_res (ID H (ir_Intent r)) (\<lambda>id.
          fail_if (id \<noteq> ir_IntentID r) ErrIntentIDMismatch (
          bind_res (deref_big (ir_MatchedAmount r)) (\<lambda>m.
          bind_res (deref_big (ir_FallbackAmount r)) (\<lambda>f.
          fail_if (m + f \<noteq> amount) ErrAmountConservation (Inr ())))))))))"

section \<open>Batches, settlements and fallbacks\<close>

record MatchRootBlockBody =
  BatchID :: hash256
  PreviousBatchID :: hash256
  WindowID :: uint64
  MatcherMode :: string
  CutRoot :: hash256
  IntentResultRoot :: hash256
  ShardSettlementRoot :: hash256
  MatchRoot :: hash256
  Cuts :: "ShardCut list"

record ShardSettlement =
  ss_BatchID :: hash256
  ss_WindowID :: uint64
  ss_ShardID :: int
  ss_ChunkIndex :: uint32
  ss_ChunkCount :: uint32
  ss_Outgoing :: "IntentResult list"
  ss_Incoming :: "IntentResult list"

record ShardCommitment =
  sc_ShardID :: int
  sc_ShardRoot :: hash256
  sc_ChunkCount :: uint32

record BatchSidecar =
  FinalizedBlocks :: "FinalizedBlockReceipt list"
  IntentResults :: "IntentResult list"
  ShardSettlements :: "ShardSettlement list"

record BatchProposal =
  Header :: MatchRootBlockBody
  Sidecar :: BatchSidecar

record SettlementPackage =
  pk_Header :: MatchRootBlockBody
  pk_Settlement :: ShardSettlement
  pk_ChunkProof :: Proof
  pk_ShardCommitment :: ShardCommitment
  pk_ShardProof :: Proof

record FallbackKey =
  fk_IntentID :: hash256
  fk_BatchID :: hash256

record ReservedFallback =
  fb_IntentID :: hash256
  fb_BatchID :: hash256
  fb_Sender :: address
  fb_Recipient :: address
  fb_SourceShard :: int
  fb_DestinationShard :: int
  fb_Amount :: "int option"
  fb_Proof :: SettlementPackage

definition fallback_Key :: "ReservedFallback \<Rightarrow> FallbackKey" where
  "fallback_Key f = \<lparr>fk_IntentID = fb_IntentID f, fk_BatchID = fb_BatchID f\<rparr>"

definition header_roots :: "MatchRootBlockBody \<Rightarrow> Roots" where
  "header_roots h =
     \<lparr>roots_CutRoot = CutRoot h, roots_IntentResultRoot = IntentResultRoot h,
      roots_ShardSettlementRoot = ShardSettlementRoot h\<rparr>"

section \<open>Conserving results\<close>

text \<open>What \<open>Validate\<close> establishes of a result: its amounts are present, bounded and add up.\<close>

definition conserving :: "IntentResult \<Rightarrow> bool" where
  "conserving r \<longleftrightarrow> (\<exists>a m f. Amount (ir_Intent r) = Some a \<and> ir_MatchedAmount r = Some m
     \<and> ir_FallbackAmount r = Some f \<and> 0 < a \<and> 0 \<le> m \<and> 0 \<le> f \<and> m + f = a)"

text \<open>The amounts of a result whose fields are present.\<close>

definition matched_of :: "IntentResult \<Rightarrow> int" where
  "matched_of r = (case ir_MatchedAmount r of None \<Rightarrow> 0 | Some m \<Rightarrow> m)"

definition fallback_of :: "IntentResult \<Rightarrow> int" where
  "fallback_of r = (case ir_FallbackAmount r of None \<Rightarrow> 0 | Some f \<Rightarrow> f)"

definition amount_of :: "PaymentIntent \<Rightarrow> int" where
  "amount_of p = (case Amount p of None \<Rightarrow> 0 | Some a \<Rightarrow> a)"

lemma bad_part_simps [simp]:
  "bad_part None t" "bad_part (Some x) t \<longleftrightarrow> x < 0 \<or> x > t"
  by (simp_all add: bad_part_def)

lemma not_bad_part: "\<not> bad_part v t \<longleftrightarrow> (\<exists>x. v = Some x \<and> 0 \<le> x \<and> x \<le> t)"
  by (cases v) (auto simp: not_less)

lemma IntentResult_Validate_ok_iff:
  "IntentResult_Validate H r = Inr () \<longleftrightarrow> conserving r \<and> ID H (ir_Intent r) = Inr (ir_IntentID r)"
proof (cases "Amount (ir_Intent r)")
  case None
  then show ?thesis by (simp add: IntentResult_Validate_def conserving_def)
next
  case (Some a)
  then show ?thesis
    by (auto simp: IntentResult_Validate_def conserving_def res_elims not_bad_part deref_big_eq_Inr)
qed

lemma NewIntentResult_Inr:
  "NewIntentResult H p m = Inr r \<longleftrightarrow>
     (\<exists>a x i. Amount p = Some a \<and> m = Some x \<and> 0 < a \<and> 0 \<le> x \<and> x \<le> a \<and> ID H p = Inr i
       \<and> r = \<lparr>ir_Intent = p, ir_IntentID = i, ir_MatchedAmount = Some x,
              ir_FallbackAmount = Some (a - x)\<rparr>)"
  by (cases "Amount p") (auto simp: NewIntentResult_def res_elims not_bad_part)

text \<open>A constructed result passes its own validation.\<close>

lemma NewIntentResult_Validate:
  "NewIntentResult H p m = Inr r \<Longrightarrow> IntentResult_Validate H r = Inr ()"
  unfolding IntentResult_Validate_ok_iff by (auto simp: NewIntentResult_Inr conserving_def)

lemma conserving_amounts:
  assumes "conserving r"
  shows "ir_MatchedAmount r = Some (matched_of r)" "ir_FallbackAmount r = Some (fallback_of r)"
    "Amount (ir_Intent r) = Some (amount_of (ir_Intent r))" "0 \<le> matched_of r" "0 \<le> fallback_of r"
    "0 < amount_of (ir_Intent r)" "matched_of r + fallback_of r = amount_of (ir_Intent r)"
  using assms by (auto simp: conserving_def matched_of_def fallback_of_def amount_of_def)

section \<open>Example payments\<close>

text \<open>Two opposite payments between the shards 0 and 1, of 300 and of 20.\<close>

definition back_intent :: PaymentIntent where
  "back_intent = example_intent\<lparr>SourceShard := 1, DestinationShard := 0, Amount := Some 20\<rparr>"

lemma example_encodings:
  "\<exists>b. CanonicalBytes example_intent = Inr b \<and> length b = 150"
  "\<exists>b. CanonicalBytes back_intent = Inr b \<and> length b = 149"
  by (simp_all add: CanonicalBytes_Inr example_intent_def back_intent_def big_bytes_def
      big_bytes_nat.simps str_bytes_def idDomain_def)

lemma example_pids: "pid length_hash example_intent = 150" "pid length_hash back_intent = 149"
  using example_encodings by (auto simp: pid_def ID_def length_hash_def)

lemma example_IDs: "ID length_hash example_intent = Inr 150" "ID length_hash back_intent = Inr 149"
  using example_encodings by (auto simp: ID_def length_hash_def)

end
