(* ===== verification/Geth.thy ===== *)
theory Geth
  imports Model
begin

text \<open>
  The part of go-ethereum and uint256 that the shard state is kept with. None of that code is in
  the repository: the operations are the record \<open>geth\<close>, a parameter of every definition that uses
  the state, and their documented behaviour is the locale \<open>geth_laws\<close>. Reverting to a snapshot
  gives back the state value the snapshot was taken of.
\<close>

record 's geth =
  g_Exist :: "'s \<Rightarrow> address \<Rightarrow> bool"
  g_GetBalance :: "'s \<Rightarrow> address \<Rightarrow> 256 word"
  g_SetBalance :: "address \<Rightarrow> 256 word \<Rightarrow> 's \<Rightarrow> 's"
  g_AddBalance :: "address \<Rightarrow> 256 word \<Rightarrow> 's \<Rightarrow> 's"
  g_SubBalance :: "address \<Rightarrow> 256 word \<Rightarrow> 's \<Rightarrow> 's"
  g_GetNonce :: "'s \<Rightarrow> address \<Rightarrow> uint64"
  g_SetNonce :: "address \<Rightarrow> uint64 \<Rightarrow> 's \<Rightarrow> 's"
  g_GetState :: "'s \<Rightarrow> address \<Rightarrow> hash256 \<Rightarrow> hash256"
  g_SetState :: "address \<Rightarrow> hash256 \<Rightarrow> hash256 \<Rightarrow> 's \<Rightarrow> 's"
  g_CanTransfer :: "'s \<Rightarrow> address \<Rightarrow> 256 word \<Rightarrow> bool"
  g_FromBig :: "int \<Rightarrow> 256 word option"
  g_BigToHash :: "int \<Rightarrow> hash256"
  g_HashBig :: "hash256 \<Rightarrow> int"

locale geth_laws =
  fixes G :: "'s geth"
  assumes SetBalance [simp]:
      "g_GetBalance G (g_SetBalance G a x s) b = (if b = a then x else g_GetBalance G s b)"
      "g_GetNonce G (g_SetBalance G a x s) b = g_GetNonce G s b"
      "g_GetState G (g_SetBalance G a x s) b k = g_GetState G s b k"
      "g_Exist G (g_SetBalance G a x s) b \<longleftrightarrow> b = a \<or> g_Exist G s b"
    and AddBalance [simp]:
      "g_GetBalance G (g_AddBalance G a x s) b = (if b = a then g_GetBalance G s a + x else g_GetBalance G s b)"
      "g_GetNonce G (g_AddBalance G a x s) b = g_GetNonce G s b"
      "g_GetState G (g_AddBalance G a x s) b k = g_GetState G s b k"
      "g_Exist G (g_AddBalance G a x s) b \<longleftrightarrow> b = a \<or> g_Exist G s b"
    and SubBalance [simp]:
      "g_GetBalance G (g_SubBalance G a x s) b = (if b = a then g_GetBalance G s a - x else g_GetBalance G s b)"
      "g_GetNonce G (g_SubBalance G a x s) b = g_GetNonce G s b"
      "g_GetState G (g_SubBalance G a x s) b k = g_GetState G s b k"
      "g_Exist G (g_SubBalance G a x s) b \<longleftrightarrow> b = a \<or> g_Exist G s b"
    and SetNonce [simp]:
      "g_GetBalance G (g_SetNonce G a n s) b = g_GetBalance G s b"
      "g_GetNonce G (g_SetNonce G a n s) b = (if b = a then n else g_GetNonce G s b)"
      "g_GetState G (g_SetNonce G a n s) b k = g_GetState G s b k"
      "g_Exist G (g_SetNonce G a n s) b \<longleftrightarrow> b = a \<or> g_Exist G s b"
    and SetState [simp]:
      "g_GetBalance G (g_SetState G a k v s) b = g_GetBalance G s b"
      "g_GetNonce G (g_SetState G a k v s) b = g_GetNonce G s b"
      "g_GetState G (g_SetState G a k v s) b j = (if b = a \<and> j = k then v else g_GetState G s b j)"
      "g_Exist G (g_SetState G a k v s) b \<longleftrightarrow> b = a \<or> g_Exist G s b"
    and CanTransfer [simp]: "g_CanTransfer G s a x \<longleftrightarrow> x \<le> g_GetBalance G s a"
    and FromBig: "0 \<le> i \<Longrightarrow> g_FromBig G i = (if i < 2 ^ 256 then Some (word_of_int i) else None)"
    and BigToHash: "0 \<le> i \<Longrightarrow> i < 2 ^ 256 \<Longrightarrow> g_BigToHash G i = word_of_int i"
    and HashBig [simp]: "g_HashBig G h = uint h"
begin

lemma FromBig_Some: "0 \<le> x \<Longrightarrow> g_FromBig G x = Some w \<Longrightarrow> x < 2 ^ 256 \<and> uint w = x"
  by (auto simp: FromBig unsigned_of_int take_bit_eq_mod split: if_splits)

lemma HashBig_BigToHash [simp]: "0 \<le> x \<Longrightarrow> x < 2 ^ 256 \<Longrightarrow> g_HashBig G (g_BigToHash G x) = x"
  by (simp add: BigToHash unsigned_of_int take_bit_eq_mod)

lemma uint_BigToHash: "0 \<le> x \<Longrightarrow> x < 2 ^ 256 \<Longrightarrow> uint (g_BigToHash G x) = x"
  by (simp add: BigToHash unsigned_of_int take_bit_eq_mod)

end

section \<open>A reference state\<close>

record mem_state =
  mem_exist :: "address set"
  mem_balance :: "address \<Rightarrow> 256 word"
  mem_nonce :: "address \<Rightarrow> uint64"
  mem_store :: "address \<Rightarrow> hash256 \<Rightarrow> hash256"

definition mem_touch :: "address \<Rightarrow> mem_state \<Rightarrow> mem_state" where
  "mem_touch a s = s\<lparr>mem_exist := insert a (mem_exist s)\<rparr>"

definition mem_geth :: "mem_state geth" where
  "mem_geth = \<lparr>
     g_Exist = (\<lambda>s a. a \<in> mem_exist s),
     g_GetBalance = (\<lambda>s a. mem_balance s a),
     g_SetBalance = (\<lambda>a x s. mem_touch a (s\<lparr>mem_balance := (mem_balance s)(a := x)\<rparr>)),
     g_AddBalance = (\<lambda>a x s. mem_touch a (s\<lparr>mem_balance := (mem_balance s)(a := mem_balance s a + x)\<rparr>)),
     g_SubBalance = (\<lambda>a x s. mem_touch a (s\<lparr>mem_balance := (mem_balance s)(a := mem_balance s a - x)\<rparr>)),
     g_GetNonce = (\<lambda>s a. mem_nonce s a),
     g_SetNonce = (\<lambda>a n s. mem_touch a (s\<lparr>mem_nonce := (mem_nonce s)(a := n)\<rparr>)),
     g_GetState = (\<lambda>s a k. mem_store s a k),
     g_SetState = (\<lambda>a k v s. mem_touch a (s\<lparr>mem_store := (mem_store s)(a := (mem_store s a)(k := v))\<rparr>)),
     g_CanTransfer = (\<lambda>s a x. x \<le> mem_balance s a),
     g_FromBig = (\<lambda>x. if 0 \<le> x \<and> x < 2 ^ 256 then Some (word_of_int x) else None),
     g_BigToHash = word_of_int,
     g_HashBig = uint\<rparr>"

interpretation mem: geth_laws mem_geth
  by unfold_locales (auto simp: mem_geth_def mem_touch_def)

end
