(* ===== verification/Registry.thy ===== *)
theory Registry
  imports Geth
begin

text \<open>
  The intent registry, \<open>pkg/netting/registry/registry.go\<close>: reservations of payment intents in the
  storage of a system account of the shard state, with the reserved amounts held by an escrow
  account. An operation that changes the state returns the new state beside its result, on the
  error paths too.
\<close>

section \<open>Addresses and slots\<close>

definition escrowAddressDomain :: string where
  "escrowAddressDomain = ''BLOCKEMULATOR_NETTING_ESCROW_V1''"

definition registryAddressDomain :: string where
  "registryAddressDomain = ''BLOCKEMULATOR_NETTING_REGISTRY_V1''"

definition systemAddress :: "hasher \<Rightarrow> string \<Rightarrow> address" where
  "systemAddress H domain = ucast (H (str_bytes domain))"

definition EscrowAccountAddress :: "hasher \<Rightarrow> address" where
  "EscrowAccountAddress H = systemAddress H escrowAddressDomain"

definition IntentRegistryAddress :: "hasher \<Rightarrow> address" where
  "IntentRegistryAddress H = systemAddress H registryAddressDomain"

definition amountSlotDomain :: string where "amountSlotDomain = ''intent:amount''"
definition matchedSlotDomain :: string where "matchedSlotDomain = ''intent:matched''"
definition fallbackSlotDomain :: string where "fallbackSlotDomain = ''intent:fallback''"
definition batchSlotDomain :: string where "batchSlotDomain = ''intent:batch''"
definition statusSlotDomain :: string where "statusSlotDomain = ''intent:status''"
definition nonceSlotDomain :: string where "nonceSlotDomain = ''intent:nonce''"

definition intentSlot :: "hasher \<Rightarrow> string \<Rightarrow> hash256 \<Rightarrow> hash256" where
  "intentSlot H domain i = H (str_bytes domain @ hash_bytes i)"

definition nonceSlot :: "hasher \<Rightarrow> address \<Rightarrow> hash256" where
  "nonceSlot H sender = H (str_bytes nonceSlotDomain @ addr_bytes sender)"

section \<open>Reservations\<close>

datatype ReservationStatus =
  ReservationUnknown | ReservationReserved | ReservationConsumed | ReservationExpired

fun status_number :: "ReservationStatus \<Rightarrow> int" where
  "status_number ReservationUnknown = 0"
| "status_number ReservationReserved = 1"
| "status_number ReservationConsumed = 2"
| "status_number ReservationExpired = 3"

definition status_of_number :: "int \<Rightarrow> ReservationStatus" where
  "status_of_number n =
     (if n = 0 then ReservationUnknown else if n = 1 then ReservationReserved
      else if n = 2 then ReservationConsumed else ReservationExpired)"

record Reservation =
  rv_IntentID :: hash256
  rv_Sender :: address
  rv_Recipient :: address
  rv_Amount :: int
  rv_MatchedAmount :: int
  rv_FallbackAmount :: int
  rv_Nonce :: uint64
  rv_ExpiryEpoch :: uint64
  rv_BatchID :: hash256
  rv_Status :: ReservationStatus

definition intentValue :: "'s geth \<Rightarrow> hasher \<Rightarrow> 's \<Rightarrow> string \<Rightarrow> hash256 \<Rightarrow> hash256" where
  "intentValue G H s domain i = g_GetState G s (IntentRegistryAddress H) (intentSlot H domain i)"

definition setIntentValue :: "'s geth \<Rightarrow> hasher \<Rightarrow> string \<Rightarrow> hash256 \<Rightarrow> hash256 \<Rightarrow> 's \<Rightarrow> 's" where
  "setIntentValue G H domain i v s = g_SetState G (IntentRegistryAddress H) (intentSlot H domain i) v s"

definition status :: "'s geth \<Rightarrow> hasher \<Rightarrow> 's \<Rightarrow> hash256 \<Rightarrow> ReservationStatus res" where
  "status G H s i =
     (let value = g_HashBig G (intentValue G H s statusSlotDomain i) in
      fail_if (\<not> (0 \<le> value \<and> value < 2 ^ 64) \<or> value > status_number ReservationExpired) ErrInvalidStatus (
      Inr (status_of_number value)))"

text \<open>\<open>Big().Uint64()\<close> of a slot: its low 64 bits.\<close>

definition NextNonce :: "'s geth \<Rightarrow> hasher \<Rightarrow> 's \<Rightarrow> address \<Rightarrow> uint64" where
  "NextNonce G H s sender =
     word_of_int (g_HashBig G (g_GetState G s (IntentRegistryAddress H) (nonceSlot H sender)))"

definition EscrowBalance :: "'s geth \<Rightarrow> hasher \<Rightarrow> 's \<Rightarrow> 256 word" where
  "EscrowBalance G H s = g_GetBalance G s (EscrowAccountAddress H)"

definition setNonce :: "'s geth \<Rightarrow> hasher \<Rightarrow> address \<Rightarrow> uint64 \<Rightarrow> 's \<Rightarrow> 's" where
  "setNonce G H sender n s =
     g_SetState G (IntentRegistryAddress H) (nonceSlot H sender) (g_BigToHash G (uint n)) s"

definition ensureRegistryAccount :: "'s geth \<Rightarrow> hasher \<Rightarrow> 's \<Rightarrow> 's" where
  "ensureRegistryAccount G H s =
     (if g_GetNonce G s (IntentRegistryAddress H) = 0
      then g_SetNonce G (IntentRegistryAddress H) 1 s else s)"

definition registry_Get :: "'s geth \<Rightarrow> hasher \<Rightarrow> 's \<Rightarrow> PaymentIntent \<Rightarrow> Reservation res" where
  "registry_Get G H s p =
     bind_res (ID H p) (\<lambda>i.
     bind_res (status G H s i) (\<lambda>st.
     fail_if (st = ReservationUnknown) ErrReservationNotFound (
     Inr \<lparr>rv_IntentID = i, rv_Sender = Sender p, rv_Recipient = Recipient p,
          rv_Amount = g_HashBig G (intentValue G H s amountSlotDomain i),
          rv_MatchedAmount = g_HashBig G (intentValue G H s matchedSlotDomain i),
          rv_FallbackAmount = g_HashBig G (intentValue G H s fallbackSlotDomain i),
          rv_Nonce = Nonce p, rv_ExpiryEpoch = ExpiryEpoch p,
          rv_BatchID = intentValue G H s batchSlotDomain i, rv_Status = st\<rparr>)))"

text \<open>The checks of \<open>Reserve\<close> before it changes the state; they yield the ID, nonce and amounts.\<close>

definition reserve_checks ::
    "'s geth \<Rightarrow> hasher \<Rightarrow> PaymentIntent \<Rightarrow> ValidationContext \<Rightarrow> 's \<Rightarrow> (hash256 \<times> uint64 \<times> int \<times> 256 word) res" where
  "reserve_checks G H p ctx s =
     bind_res (Validate p ctx) (\<lambda>_.
     bind_res (ID H p) (\<lambda>i.
     bind_res (status G H s i) (\<lambda>st.
     fail_if (st \<noteq> ReservationUnknown) ErrReservationExists (
     let nextNonce = NextNonce G H s (Sender p) in
     fail_if (Nonce p \<noteq> nextNonce) ErrNonceMismatch (
     fail_if (nextNonce = - 1) ErrNonceExhausted (
     bind_res (deref_big (Amount p)) (\<lambda>a.
     case g_FromBig G a of
       None \<Rightarrow> Inl ErrInvalidAmount
     | Some amount \<Rightarrow>
         fail_if (\<not> g_CanTransfer G s (Sender p) amount) ErrInsufficientBalance (
         Inr (i, nextNonce, a, amount)))))))))"

definition reserve_effects ::
    "'s geth \<Rightarrow> hasher \<Rightarrow> PaymentIntent \<Rightarrow> hash256 \<times> uint64 \<times> int \<times> 256 word \<Rightarrow> 's \<Rightarrow> 's" where
  "reserve_effects G H p v s =
     (case v of (i, nextNonce, a, amount) \<Rightarrow>
       setNonce G H (Sender p) (nextNonce + 1)
         (setIntentValue G H statusSlotDomain i (g_BigToHash G (status_number ReservationReserved))
           (setIntentValue G H amountSlotDomain i (g_BigToHash G a)
             (ensureRegistryAccount G H
               (g_AddBalance G (EscrowAccountAddress H) amount
                 (g_SubBalance G (Sender p) amount s))))))"

definition Reserve ::
    "'s geth \<Rightarrow> hasher \<Rightarrow> PaymentIntent \<Rightarrow> ValidationContext \<Rightarrow> 's \<Rightarrow> 's \<times> Reservation res" where
  "Reserve G H p ctx s =
     (case reserve_checks G H p ctx s of
        Inl e \<Rightarrow> (s, Inl e)
      | Inr v \<Rightarrow> (let s' = reserve_effects G H p v s in (s', registry_Get G H s' p)))"

definition consume_checks :: "'s geth \<Rightarrow> hasher \<Rightarrow> IntentResult \<Rightarrow> 's \<Rightarrow> unit res" where
  "consume_checks G H r s =
     bind_res (IntentResult_Validate H r) (\<lambda>_.
     bind_res (registry_Get G H s (ir_Intent r)) (\<lambda>reservation.
     fail_if (rv_Status reservation \<noteq> ReservationReserved) ErrInvalidStatus (
     bind_res (deref_big (Amount (ir_Intent r))) (\<lambda>a.
     fail_if (rv_Amount reservation \<noteq> a \<or> rv_Nonce reservation \<noteq> Nonce (ir_Intent r))
       (ErrOther ''reservation differs from intent'') (
     Inr ())))))"

definition consume_effects :: "'s geth \<Rightarrow> hasher \<Rightarrow> IntentResult \<Rightarrow> hash256 \<Rightarrow> 's \<Rightarrow> 's" where
  "consume_effects G H r batchID s =
     setIntentValue G H statusSlotDomain (ir_IntentID r) (g_BigToHash G (status_number ReservationConsumed))
       (setIntentValue G H batchSlotDomain (ir_IntentID r) batchID
         (setIntentValue G H fallbackSlotDomain (ir_IntentID r) (g_BigToHash G (fallback_of r))
           (setIntentValue G H matchedSlotDomain (ir_IntentID r) (g_BigToHash G (matched_of r))
             (ensureRegistryAccount G H s))))"

definition Consume :: "'s geth \<Rightarrow> hasher \<Rightarrow> IntentResult \<Rightarrow> hash256 \<Rightarrow> 's \<Rightarrow> 's \<times> unit res" where
  "Consume G H r batchID s =
     (case consume_checks G H r s of
        Inl e \<Rightarrow> (s, Inl e)
      | Inr _ \<Rightarrow> (consume_effects G H r batchID s, Inr ()))"

end
