(* ===== verification/Matcher.thy ===== *)
theory Matcher
  imports Model "HOL-Library.Product_Lexorder"
begin

text \<open>
  The deterministic bilateral matcher, \<open>pkg/netting/matcher/matcher.go\<close>. Payments are grouped by
  unordered shard pair and asset; in each group equal amounts are paired first, then the
  direction with the smaller remaining total is covered from the other one, by the smallest
  counter payment that suffices or, in full mode, by splitting over the largest ones.

  The code shares \<open>*workItem\<close> pointers between the item list, the group slices, the amount
  buckets and the tree. Here the two slices of a group own the items and an item is identified by
  its intent ID, which \<open>prepare\<close> makes unique: changing an item replaces it in its slice
  (\<open>set_item\<close>). An item is only changed while it is outside the tree, so the tree can hold
  values. \<open>buildResults\<close> sorts all items by ID, hence the order of collecting them is irrelevant.

  The ordered set is \<open>github.com/google/btree\<close>, a parameter: its operations are the record
  \<open>btree\<close> and their documented behaviour the locale \<open>btree_laws\<close>.
\<close>

section \<open>Data\<close>

datatype Phase = ExactPhase | BestFitPhase | SplitPhase

type_synonym Mode = string

definition FullMode :: Mode where "FullMode = ''full''"

definition BestFitMode :: Mode where "BestFitMode = ''best_fit''"

definition ExactOnlyMode :: Mode where "ExactOnlyMode = ''exact_only''"

record GroupKey =
  LowerShard :: int
  HigherShard :: int
  GroupAssetID :: hash256

record Allocation =
  Group :: GroupKey
  LowerToHigherIntentID :: hash256
  HigherToLowerIntentID :: hash256
  AllocAmount :: int
  AllocPhase :: Phase

record Output =
  Results :: "IntentResult list"
  Allocations :: "Allocation list"

record workItem =
  payment :: PaymentIntent
  wid :: hash256
  remaining :: int
  matched :: int
  isLowerToHigher :: bool

record matchGroup =
  gkey :: GroupKey
  lowerToHigher :: "workItem list"
  higherToLower :: "workItem list"

text \<open>
  The B-tree operations the matcher calls. \<open>bt_AscendGreaterOrEqual pivot t\<close> lists the items the
  iterator would be called with, in order, if it never returned false.
\<close>

record 't btree =
  bt_New :: 't
  bt_ReplaceOrInsert :: "workItem \<Rightarrow> 't \<Rightarrow> 't"
  bt_Delete :: "workItem \<Rightarrow> 't \<Rightarrow> 't \<times> bool"
  bt_AscendGreaterOrEqual :: "workItem \<Rightarrow> 't \<Rightarrow> workItem list"
  bt_Max :: "'t \<Rightarrow> workItem option"

section \<open>Preparation\<close>

definition NormalizeMode :: "Mode \<Rightarrow> Mode" where
  "NormalizeMode mode =
     (if mode = [] \<or> mode = FullMode then FullMode
      else if mode = BestFitMode \<or> mode = ExactOnlyMode then mode
      else FullMode)"

definition validatePaymentShape :: "PaymentIntent \<Rightarrow> uint64 \<Rightarrow> unit res" where
  "validatePaymentShape p chainID =
     fail_if (Version p \<noteq> CurrentVersion) ErrUnsupportedVersion (
     fail_if (ChainID p \<noteq> chainID) ErrWrongChain (
     fail_if (bad_amount (Amount p)) ErrInvalidAmount (
     fail_if (Sender p = Recipient p) ErrSameParticipant (
     fail_if (SourceShard p < 0) ErrInvalidSourceShard (
     fail_if (DestinationShard p < 0) ErrInvalidDestinationShard (
     fail_if (SourceShard p = DestinationShard p) ErrSameShard (
     fail_if (AssetID p \<noteq> NativeAssetID) ErrUnsupportedAsset (
     Inr ()))))))))"

definition group_key :: "PaymentIntent \<Rightarrow> GroupKey" where
  "group_key p =
     (if SourceShard p > DestinationShard p
      then \<lparr>LowerShard = DestinationShard p, HigherShard = SourceShard p, GroupAssetID = AssetID p\<rparr>
      else \<lparr>LowerShard = SourceShard p, HigherShard = DestinationShard p, GroupAssetID = AssetID p\<rparr>)"

definition new_item :: "PaymentIntent \<Rightarrow> hash256 \<Rightarrow> workItem" where
  "new_item p i =
     \<lparr>payment = p, wid = i, remaining = amount_of p, matched = 0,
      isLowerToHigher = \<not> SourceShard p > DestinationShard p\<rparr>"

definition add_to_group :: "workItem \<Rightarrow> matchGroup \<Rightarrow> matchGroup" where
  "add_to_group w g =
     (if isLowerToHigher w then g\<lparr>lowerToHigher := lowerToHigher g @ [w]\<rparr>
      else g\<lparr>higherToLower := higherToLower g @ [w]\<rparr>)"

definition group_at :: "(GroupKey \<times> matchGroup) list \<Rightarrow> GroupKey \<Rightarrow> matchGroup" where
  "group_at groups k =
     (case map_of groups k of
        None \<Rightarrow> \<lparr>gkey = k, lowerToHigher = [], higherToLower = []\<rparr>
      | Some g \<Rightarrow> g)"

fun prepare_loop ::
    "hasher \<Rightarrow> uint64 \<Rightarrow> hash256 list \<Rightarrow> (GroupKey \<times> matchGroup) list \<Rightarrow> PaymentIntent list
     \<Rightarrow> (GroupKey \<times> matchGroup) list res" where
  "prepare_loop H chainID seen groups [] = Inr groups"
| "prepare_loop H chainID seen groups (p # ps) =
     bind_res (wrap_err ErrInvalidIntent (validatePaymentShape p chainID)) (\<lambda>_.
     bind_res (wrap_err ErrInvalidIntent (ID H p)) (\<lambda>id.
     fail_if (id \<in> set seen) ErrMatcherDuplicateIntent (
     let key = group_key p;
         group = add_to_group (new_item p id) (group_at groups key)
     in prepare_loop H chainID (id # seen) (alist_set key group groups) ps)))"

definition prepare :: "hasher \<Rightarrow> PaymentIntent list \<Rightarrow> (GroupKey \<times> matchGroup) list res" where
  "prepare H payments =
     prepare_loop H (case payments of [] \<Rightarrow> 0 | p # _ \<Rightarrow> ChainID p) [] [] payments"

definition gk_order :: "GroupKey \<Rightarrow> int \<times> int \<times> hash256" where
  "gk_order k = (LowerShard k, HigherShard k, GroupAssetID k)"

text \<open>\<open>sortedGroupKeys\<close>, with each key's group beside it.\<close>

definition sortedGroups :: "(GroupKey \<times> matchGroup) list \<Rightarrow> (GroupKey \<times> matchGroup) list" where
  "sortedGroups groups = sort_key (\<lambda>kg. gk_order (fst kg)) groups"

section \<open>Allocation\<close>

definition set_item :: "workItem \<Rightarrow> workItem list \<Rightarrow> workItem list" where
  "set_item w items = map (\<lambda>x. if wid x = wid w then w else x) items"

definition take_part :: "int \<Rightarrow> workItem \<Rightarrow> workItem" where
  "take_part amount w = w\<lparr>remaining := remaining w - amount, matched := matched w + amount\<rparr>"

definition allocate ::
    "GroupKey \<Rightarrow> workItem \<Rightarrow> workItem \<Rightarrow> int \<Rightarrow> Phase \<Rightarrow> workItem \<times> workItem \<times> Allocation" where
  "allocate k lower higher amount phase =
     (take_part amount lower, take_part amount higher,
      \<lparr>Group = k, LowerToHigherIntentID = wid lower, HigherToLowerIntentID = wid higher,
       AllocAmount = amount, AllocPhase = phase\<rparr>)"

text \<open>The result lists the active item first.\<close>

definition allocateByDirection ::
    "GroupKey \<Rightarrow> workItem \<Rightarrow> workItem \<Rightarrow> int \<Rightarrow> Phase \<Rightarrow> bool \<Rightarrow> workItem \<times> workItem \<times> Allocation" where
  "allocateByDirection k active counter amount phase activeIsLower =
     (if activeIsLower then allocate k active counter amount phase
      else (case allocate k counter active amount phase of (c, a, al) \<Rightarrow> (a, c, al)))"

section \<open>Exact matching\<close>

text \<open>A bucket map is keyed by the decimal string of the amount; the amount itself is used here.\<close>

fun bucketByAmount :: "workItem list \<Rightarrow> (int \<times> workItem list) list" where
  "bucketByAmount [] = []"
| "bucketByAmount (w # ws) =
     (let buckets = bucketByAmount ws in
      if remaining w > 0 then
        alist_set (remaining w) (w # (case map_of buckets (remaining w) of None \<Rightarrow> [] | Some b \<Rightarrow> b)) buckets
      else buckets)"

definition commonAmountsDescending ::
    "(int \<times> workItem list) list \<Rightarrow> (int \<times> workItem list) list \<Rightarrow> int list" where
  "commonAmountsDescending left right =
     sort_key (\<lambda>a. - a) (filter (\<lambda>a. map_of right a \<noteq> None) (map fst left))"

definition bucket_of :: "(int \<times> workItem list) list \<Rightarrow> int \<Rightarrow> workItem list" where
  "bucket_of buckets a = (case map_of buckets a of None \<Rightarrow> [] | Some b \<Rightarrow> b)"

definition exact_pairs :: "matchGroup \<Rightarrow> (workItem \<times> workItem) list" where
  "exact_pairs g =
     (let lowerBuckets = bucketByAmount (lowerToHigher g);
          higherBuckets = bucketByAmount (higherToLower g)
      in concat (map (\<lambda>amount. zip (sort_key wid (bucket_of lowerBuckets amount))
                                    (sort_key wid (bucket_of higherBuckets amount)))
                  (commonAmountsDescending lowerBuckets higherBuckets)))"

text \<open>Every pair of \<open>exact_pairs\<close> is allocated the common amount of its two items.\<close>

fun allocate_pairs ::
    "matchGroup \<Rightarrow> (workItem \<times> workItem) list \<Rightarrow> matchGroup \<times> Allocation list" where
  "allocate_pairs g [] = (g, [])"
| "allocate_pairs g ((lower, higher) # ps) =
     (case allocate (gkey g) lower higher (remaining lower) ExactPhase of (l, h, al) \<Rightarrow>
      case allocate_pairs (g\<lparr>lowerToHigher := set_item l (lowerToHigher g),
                            higherToLower := set_item h (higherToLower g)\<rparr>) ps of (g', als) \<Rightarrow>
        (g', al # als))"

definition matchExact :: "matchGroup \<Rightarrow> matchGroup \<times> Allocation list" where
  "matchExact g = allocate_pairs g (exact_pairs g)"

section \<open>Best fit and splitting\<close>

definition sumRemaining :: "workItem list \<Rightarrow> int" where
  "sumRemaining items = sum_list (map remaining items)"

definition sumMatched :: "workItem list \<Rightarrow> int" where
  "sumMatched items = sum_list (map matched items)"

definition positiveRemaining :: "workItem list \<Rightarrow> workItem list" where
  "positiveRemaining items = filter (\<lambda>w. remaining w > 0) items"

definition item_order :: "workItem \<Rightarrow> int \<times> hash256" where
  "item_order w = (remaining w, wid w)"

definition lessWorkItem :: "workItem \<Rightarrow> workItem \<Rightarrow> bool" where
  "lessWorkItem l r \<longleftrightarrow>
     (if remaining l \<noteq> remaining r then remaining l < remaining r else wid l < wid r)"

definition pivot_item :: "int \<Rightarrow> workItem" where
  "pivot_item amount =
     \<lparr>payment = \<lparr>Version = 0, ChainID = 0, Sender = 0, Recipient = 0, SourceShard = 0,
        DestinationShard = 0, AssetID = 0, Amount = None, Nonce = 0, ExpiryEpoch = 0, Signature = []\<rparr>,
      wid = 0, remaining = amount, matched = 0, isLowerToHigher = False\<rparr>"

definition lowerBound :: "'t btree \<Rightarrow> 't \<Rightarrow> int \<Rightarrow> workItem option" where
  "lowerBound bt tree amount =
     (case bt_AscendGreaterOrEqual bt (pivot_item amount) tree of [] \<Rightarrow> None | found # _ \<Rightarrow> Some found)"

definition largestAmountSmallestID :: "'t btree \<Rightarrow> 't \<Rightarrow> workItem option" where
  "largestAmountSmallestID bt tree =
     (case bt_Max bt tree of None \<Rightarrow> None | Some maximum \<Rightarrow> lowerBound bt tree (remaining maximum))"

definition deleteItem :: "'t btree \<Rightarrow> 't \<Rightarrow> workItem \<Rightarrow> 't res" where
  "deleteItem bt tree item =
     (case bt_Delete bt item tree of (tree', deleted) \<Rightarrow>
        fail_if (\<not> deleted) ErrMatchingInvariant (Inr tree'))"

definition reinsert :: "'t btree \<Rightarrow> workItem \<Rightarrow> 't \<Rightarrow> 't" where
  "reinsert bt c tree = (if remaining c > 0 then bt_ReplaceOrInsert bt c tree else tree)"

text \<open>The state of the loop of \<open>matchRemaining\<close>: the two slices, the tree and the allocations.\<close>

record 't rloop =
  rl_active :: "workItem list"
  rl_counter :: "workItem list"
  rl_tree :: 't
  rl_allocs :: "Allocation list"

definition rl_allocate ::
    "'t btree \<Rightarrow> GroupKey \<Rightarrow> bool \<Rightarrow> Phase \<Rightarrow> workItem \<Rightarrow> workItem \<Rightarrow> int \<Rightarrow> 't \<Rightarrow> 't rloop
     \<Rightarrow> workItem \<times> 't rloop" where
  "rl_allocate bt k activeIsLower phase a c amount tree st =
     (case allocateByDirection k a c amount phase activeIsLower of (a', c', al) \<Rightarrow>
        (a', \<lparr>rl_active = set_item a' (rl_active st), rl_counter = set_item c' (rl_counter st),
              rl_tree = reinsert bt c' tree, rl_allocs = rl_allocs st @ [al]\<rparr>))"

text \<open>
  The inner loop splits one active item over the largest counter items; the fuel bounds its
  iterations, and \<open>split_loop_ok\<close> shows that the fuel given suffices.
\<close>

fun split_loop ::
    "nat \<Rightarrow> 't btree \<Rightarrow> GroupKey \<Rightarrow> bool \<Rightarrow> 't rloop \<Rightarrow> workItem \<Rightarrow> 't rloop res" where
  "split_loop 0 bt k activeIsLower st a = Inl OutOfFuel"
| "split_loop (Suc fuel) bt k activeIsLower st a =
     (if remaining a > 0 then
        (case largestAmountSmallestID bt (rl_tree st) of
           None \<Rightarrow> Inl ErrMatchingInvariant
         | Some c \<Rightarrow>
             bind_res (deleteItem bt (rl_tree st) c) (\<lambda>tree.
             case rl_allocate bt k activeIsLower SplitPhase a c (min (remaining a) (remaining c)) tree st of
               (a', st') \<Rightarrow> split_loop fuel bt k activeIsLower st' a'))
      else Inr st)"

definition match_active ::
    "nat \<Rightarrow> 't btree \<Rightarrow> GroupKey \<Rightarrow> bool \<Rightarrow> bool \<Rightarrow> 't rloop \<Rightarrow> workItem \<Rightarrow> 't rloop res" where
  "match_active fuel bt k activeIsLower allowSplit st a =
     (case lowerBound bt (rl_tree st) (remaining a) of
        Some c \<Rightarrow>
          bind_res (deleteItem bt (rl_tree st) c) (\<lambda>tree.
          Inr (snd (rl_allocate bt k activeIsLower BestFitPhase a c (remaining a) tree st)))
      | None \<Rightarrow>
          if \<not> allowSplit then Inr st
          else split_loop fuel bt k activeIsLower st a)"

definition matchRemaining ::
    "'t btree \<Rightarrow> matchGroup \<Rightarrow> bool \<Rightarrow> (matchGroup \<times> Allocation list) res" where
  "matchRemaining bt g allowSplit =
     (let activeIsLower = \<not> sumRemaining (lowerToHigher g) > sumRemaining (higherToLower g);
          active = (if activeIsLower then lowerToHigher g else higherToLower g);
          counter = (if activeIsLower then higherToLower g else lowerToHigher g);
          queue = sort_key (\<lambda>w. (- remaining w, wid w)) (positiveRemaining active);
          tree = foldl (\<lambda>t w. bt_ReplaceOrInsert bt w t) (bt_New bt) (positiveRemaining counter);
          st = \<lparr>rl_active = active, rl_counter = counter, rl_tree = tree, rl_allocs = []\<rparr>
      in bind_res (fold_res (match_active (Suc (length counter)) bt (gkey g) activeIsLower allowSplit) st queue)
           (\<lambda>st'. Inr (if activeIsLower
              then g\<lparr>lowerToHigher := rl_active st', higherToLower := rl_counter st'\<rparr>
              else g\<lparr>lowerToHigher := rl_counter st', higherToLower := rl_active st'\<rparr>, rl_allocs st')))"

section \<open>Results\<close>

definition validateGroup :: "matchGroup \<Rightarrow> unit res" where
  "validateGroup g =
     fail_if (sumMatched (lowerToHigher g) \<noteq> sumMatched (higherToLower g)) ErrMatchingInvariant (
     fold_res (\<lambda>_ w.
       fail_if (remaining w < 0 \<or> matched w < 0) ErrMatchingInvariant (
       fail_if (remaining w + matched w \<noteq> amount_of (payment w)) ErrMatchingInvariant (Inr ())))
       () (lowerToHigher g @ higherToLower g))"

definition buildResults :: "hasher \<Rightarrow> workItem list \<Rightarrow> IntentResult list res" where
  "buildResults H items =
     map_res (\<lambda>w. NewIntentResult H (payment w) (Some (matched w))) (sort_key wid items)"

definition match_group :: "'t btree \<Rightarrow> Mode \<Rightarrow> matchGroup \<Rightarrow> (matchGroup \<times> Allocation list) res" where
  "match_group bt mode g =
     (case matchExact g of (g1, al1) \<Rightarrow>
      bind_res (if mode \<noteq> ExactOnlyMode then matchRemaining bt g1 (mode = FullMode) else Inr (g1, []))
        (\<lambda>(g2, al2). bind_res (validateGroup g2) (\<lambda>_. Inr (g2, al1 @ al2))))"

definition group_items :: "matchGroup \<Rightarrow> workItem list" where
  "group_items g = lowerToHigher g @ higherToLower g"

definition MatchWithMode :: "'t btree \<Rightarrow> hasher \<Rightarrow> PaymentIntent list \<Rightarrow> Mode \<Rightarrow> Output res" where
  "MatchWithMode bt H payments mode0 =
     (let mode = NormalizeMode mode0 in
      bind_res (prepare H payments) (\<lambda>groups.
      bind_res (map_res (\<lambda>kg. match_group bt mode (snd kg)) (sortedGroups groups)) (\<lambda>done.
      bind_res (buildResults H (concat (map (\<lambda>ga. group_items (fst ga)) done))) (\<lambda>results.
        Inr \<lparr>Results = results, Allocations = concat (map snd done)\<rparr>))))"

definition Match :: "'t btree \<Rightarrow> hasher \<Rightarrow> PaymentIntent list \<Rightarrow> Output res" where
  "Match bt H payments = MatchWithMode bt H payments FullMode"

end
