(* ===== verification/Matcher_Exact.thy ===== *)
theory Matcher_Exact
  imports Matcher
begin

text \<open>
  The invariant of a matching group and the exact phase of the matcher. \<open>ginv\<close> says that every
  item conserves its amount and that both directions have matched the same total, \<open>accounted\<close>
  that the allocations explain what each item has matched. Both are kept by \<open>allocate\<close> and by
  \<open>matchExact\<close>, the phase that pairs equal amounts.
\<close>

section \<open>Items and slices\<close>

definition item_ok :: "workItem \<Rightarrow> bool" where
  "item_ok w \<longleftrightarrow> 0 \<le> remaining w \<and> 0 \<le> matched w \<and> remaining w + matched w = amount_of (payment w)"

text \<open>What no phase changes of an item.\<close>

definition static :: "workItem \<Rightarrow> PaymentIntent \<times> hash256 \<times> bool" where
  "static w = (payment w, wid w, isLowerToHigher w)"

lemma take_part_simps [simp]:
  "remaining (take_part a w) = remaining w - a" "matched (take_part a w) = matched w + a"
  "wid (take_part a w) = wid w" "payment (take_part a w) = payment w"
  "static (take_part a w) = static w"
  by (simp_all add: take_part_def static_def)

lemma take_part_take_part [simp]: "take_part b (take_part a w) = take_part (a + b) w"
  by (simp add: take_part_def)

lemma take_part_0 [simp]: "take_part 0 w = w"
  by (simp add: take_part_def)

lemma item_ok_take_part: "item_ok w \<Longrightarrow> 0 \<le> a \<Longrightarrow> a \<le> remaining w \<Longrightarrow> item_ok (take_part a w)"
  by (simp add: item_ok_def)

lemma wid_inj: "distinct (map wid xs) \<Longrightarrow> x \<in> set xs \<Longrightarrow> y \<in> set xs \<Longrightarrow> wid x = wid y \<Longrightarrow> x = y"
  by (meson distinct_map inj_on_def)

lemma set_item_Cons:
  "set_item w (x # xs) = (if wid x = wid w then w else x) # set_item w xs"
  by (simp add: set_item_def)

lemma set_item_absent: "wid w \<notin> wid ` set xs \<Longrightarrow> set_item w xs = xs"
  by (induction xs) (auto simp: set_item_def)

lemma map_wid_set_item [simp]: "map wid (set_item w xs) = map wid xs"
  by (auto simp: set_item_def)

lemma set_set_item:
  assumes "distinct (map wid xs)" "w \<in> set xs" "wid w' = wid w"
  shows "set (set_item w' xs) = insert w' (set xs - {w})"
  using assms(2,3) wid_inj [OF assms(1)] by (auto simp: set_item_def image_iff)

lemma sum_set_item:
  fixes f :: "workItem \<Rightarrow> int"
  assumes "distinct (map wid xs)" "w \<in> set xs" "wid w' = wid w"
  shows "sum_list (map f (set_item w' xs)) = sum_list (map f xs) - f w + f w'"
  using assms
proof (induction xs)
  case (Cons x xs)
  show ?case
  proof (cases "x = w")
    case True
    then have "wid w' \<notin> wid ` set xs" using Cons.prems by auto
    then show ?thesis using True Cons.prems(3) by (simp add: set_item_Cons set_item_absent)
  next
    case False
    then have "w \<in> set xs" "wid x \<noteq> wid w'" using Cons.prems by auto
    then show ?thesis using Cons by (simp add: set_item_Cons)
  qed
qed simp

lemma map_static_set_item:
  assumes "distinct (map wid xs)" "w \<in> set xs" "static w' = static w"
  shows "map static (set_item w' xs) = map static xs"
proof -
  have w: "wid w' = wid w" using assms(3) by (simp add: static_def)
  have "static (if wid x = wid w' then w' else x) = static x" if "x \<in> set xs" for x
  proof (cases "wid x = wid w")
    case True
    then have "x = w" by (rule wid_inj [OF assms(1) that assms(2)])
    then show ?thesis using assms(3) by simp
  qed (simp add: w)
  then show ?thesis by (simp add: set_item_def)
qed

lemmas set_item_laws = set_set_item sum_set_item map_static_set_item

lemma static_wid: "map static xs = map static ys \<Longrightarrow> map wid xs = map wid ys"
  by (drule arg_cong [where f = "map (\<lambda>(_, i, _). i)"]) (simp add: static_def comp_def)

lemma static_payment: "map static xs = map static ys \<Longrightarrow> map payment xs = map payment ys"
  by (drule arg_cong [where f = "map (\<lambda>(p, _, _). p)"]) (simp add: static_def comp_def)

lemma sum_parts:
  "\<forall>w \<in> set xs. item_ok w \<Longrightarrow> sumRemaining xs + sumMatched xs = sum_list (map (\<lambda>w. amount_of (payment w)) xs)"
  by (induction xs) (auto simp: sumRemaining_def sumMatched_def item_ok_def)

lemma sumRemaining_nonneg: "\<forall>w \<in> set xs. item_ok w \<Longrightarrow> 0 \<le> sumRemaining xs"
  by (auto simp: sumRemaining_def item_ok_def intro!: sum_list_nonneg)

lemma remaining_le_sum:
  "\<forall>w \<in> set xs. item_ok w \<Longrightarrow> w \<in> set xs \<Longrightarrow> remaining w \<le> sumRemaining xs"
  unfolding sumRemaining_def by (rule member_le_sum_list) (auto simp: item_ok_def)

lemma sumRemaining_positive: "\<forall>w \<in> set xs. item_ok w \<Longrightarrow> sumRemaining (positiveRemaining xs) = sumRemaining xs"
  by (induction xs) (auto simp: sumRemaining_def positiveRemaining_def item_ok_def)

section \<open>The group invariant\<close>

definition ginv :: "matchGroup \<Rightarrow> bool" where
  "ginv g \<longleftrightarrow> distinct (map wid (lowerToHigher g)) \<and> distinct (map wid (higherToLower g))
     \<and> (\<forall>w \<in> set (group_items g). item_ok w)
     \<and> sumMatched (lowerToHigher g) = sumMatched (higherToLower g)"

definition same_static :: "matchGroup \<Rightarrow> matchGroup \<Rightarrow> bool" where
  "same_static g g' \<longleftrightarrow> gkey g' = gkey g
     \<and> map static (lowerToHigher g') = map static (lowerToHigher g)
     \<and> map static (higherToLower g') = map static (higherToLower g)"

lemma same_static_refl [simp]: "same_static g g"
  by (simp add: same_static_def)

lemma same_static_trans: "same_static g g' \<Longrightarrow> same_static g' g'' \<Longrightarrow> same_static g g''"
  by (simp add: same_static_def)

lemma allocate_keeps_ginv:
  assumes "ginv g" "l \<in> set (lowerToHigher g)" "h \<in> set (higherToLower g)"
    and "0 \<le> a" "a \<le> remaining l" "a \<le> remaining h"
    and "g' = g\<lparr>lowerToHigher := set_item (take_part a l) (lowerToHigher g),
                higherToLower := set_item (take_part a h) (higherToLower g)\<rparr>"
  shows "ginv g'" "same_static g g'"
proof -
  have d: "distinct (map wid (lowerToHigher g))" "distinct (map wid (higherToLower g))"
    using assms(1) by (simp_all add: ginv_def)
  have ok: "item_ok (take_part a l)" "item_ok (take_part a h)"
    using assms(1-6) by (auto simp: ginv_def group_items_def intro: item_ok_take_part)
  show "ginv g'"
    using assms(1,2,3,7) d ok
    by (auto simp: ginv_def group_items_def sumMatched_def sum_set_item set_set_item)
  show "same_static g g'"
    using assms(2,3,7) d by (simp add: same_static_def map_static_set_item)
qed

text \<open>
  The allocations account for the items: what an item has matched is the sum of the allocations
  that name it in its direction.
\<close>

definition lower_sum :: "hash256 \<Rightarrow> Allocation list \<Rightarrow> int" where
  "lower_sum i als = sum_list (map AllocAmount (filter (\<lambda>al. LowerToHigherIntentID al = i) als))"

definition higher_sum :: "hash256 \<Rightarrow> Allocation list \<Rightarrow> int" where
  "higher_sum i als = sum_list (map AllocAmount (filter (\<lambda>al. HigherToLowerIntentID al = i) als))"

lemma lower_sum_append [simp]: "lower_sum i (xs @ ys) = lower_sum i xs + lower_sum i ys"
  by (simp add: lower_sum_def)

lemma higher_sum_append [simp]: "higher_sum i (xs @ ys) = higher_sum i xs + higher_sum i ys"
  by (simp add: higher_sum_def)

definition alloc_ok :: "matchGroup \<Rightarrow> Allocation \<Rightarrow> bool" where
  "alloc_ok g al \<longleftrightarrow> Group al = gkey g \<and> 0 < AllocAmount al
     \<and> LowerToHigherIntentID al \<in> wid ` set (lowerToHigher g)
     \<and> HigherToLowerIntentID al \<in> wid ` set (higherToLower g)"

definition accounted :: "matchGroup \<Rightarrow> Allocation list \<Rightarrow> bool" where
  "accounted g als \<longleftrightarrow> (\<forall>al \<in> set als. alloc_ok g al)
     \<and> (\<forall>w \<in> set (lowerToHigher g). matched w = lower_sum (wid w) als)
     \<and> (\<forall>w \<in> set (higherToLower g). matched w = higher_sum (wid w) als)"

lemma alloc_ok_static: "same_static g g' \<Longrightarrow> alloc_ok g' al = alloc_ok g al"
  unfolding alloc_ok_def same_static_def by (metis list.set_map static_wid)

lemma allocate_keeps_accounted:
  assumes "ginv g" "accounted g als" "l \<in> set (lowerToHigher g)" "h \<in> set (higherToLower g)"
    and "0 < a" "a \<le> remaining l" "a \<le> remaining h"
    and "g' = g\<lparr>lowerToHigher := set_item (take_part a l) (lowerToHigher g),
                higherToLower := set_item (take_part a h) (higherToLower g)\<rparr>"
  shows "accounted g' (als @ [snd (snd (allocate (gkey g) l h a phase))])"
proof -
  have d: "distinct (map wid (lowerToHigher g))" "distinct (map wid (higherToLower g))"
    using assms(1) by (simp_all add: ginv_def)
  have "same_static g g'" using allocate_keeps_ginv(2) [OF assms(1,3,4)] assms(5-8) by simp
  then have "\<forall>al \<in> set als. alloc_ok g' al" using assms(2) by (simp add: accounted_def alloc_ok_static)
  moreover have "alloc_ok g' (snd (snd (allocate (gkey g) l h a phase)))"
    using assms(3-5,8) d by (simp add: alloc_ok_def allocate_def set_set_item)
  moreover have l: "w = l" if "w \<in> set (lowerToHigher g)" "wid l = wid w" for w
    using wid_inj [OF d(1)] that assms(3) by metis
  have "\<forall>w \<in> set (lowerToHigher g'). matched w = lower_sum (wid w) (als @ [snd (snd (allocate (gkey g) l h a phase))])"
    using assms(2,3,8) d(1) by (auto simp: accounted_def set_set_item allocate_def lower_sum_def dest: l)
  moreover have h: "w = h" if "w \<in> set (higherToLower g)" "wid h = wid w" for w
    using wid_inj [OF d(2)] that assms(4) by metis
  have "\<forall>w \<in> set (higherToLower g'). matched w = higher_sum (wid w) (als @ [snd (snd (allocate (gkey g) l h a phase))])"
    using assms(2,4,8) d(2) by (auto simp: accounted_def set_set_item allocate_def higher_sum_def dest: h)
  ultimately show ?thesis by (simp add: accounted_def)
qed

section \<open>Exact matching\<close>

lemma bucket_of_bucketByAmount:
  "bucket_of (bucketByAmount xs) a = (if a > 0 then filter (\<lambda>w. remaining w = a) xs else [])"
  by (induction xs) (auto simp: bucket_of_def Let_def map_of_alist_set split: option.splits if_splits)

lemma distinct_bucketByAmount: "distinct (map fst (bucketByAmount xs))"
  by (induction xs) (auto simp: Let_def intro: distinct_alist_set)

lemma distinct_map_concat:
  assumes "distinct xs" "\<And>x. x \<in> set xs \<Longrightarrow> distinct (map f (g x))"
    and "\<And>x y. x \<in> set xs \<Longrightarrow> y \<in> set xs \<Longrightarrow> x \<noteq> y \<Longrightarrow> f ` set (g x) \<inter> f ` set (g y) = {}"
  shows "distinct (map f (concat (map g xs)))"
  using assms
proof (induction xs)
  case (Cons x xs)
  have "distinct (map f (concat (map g xs)))" using Cons.prems by (intro Cons.IH) auto
  moreover have "f ` set (g x) \<inter> f ` set (g y) = {}" if "y \<in> set xs" for y
    using Cons.prems(1) that by (intro Cons.prems(3)) auto
  then have "f ` set (g x) \<inter> f ` set (concat (map g xs)) = {}" by fastforce
  ultimately show ?case using Cons.prems(2) [of x] by simp
qed simp

lemma exact_pairs_zip:
  "exact_pairs g = concat (map (\<lambda>a. zip
      (sort_key wid (if a > 0 then filter (\<lambda>w. remaining w = a) (lowerToHigher g) else []))
      (sort_key wid (if a > 0 then filter (\<lambda>w. remaining w = a) (higherToLower g) else [])))
    (commonAmountsDescending (bucketByAmount (lowerToHigher g)) (bucketByAmount (higherToLower g))))"
  by (simp add: exact_pairs_def bucket_of_bucketByAmount)

lemma distinct_commonAmounts:
  "distinct (commonAmountsDescending (bucketByAmount xs) (bucketByAmount ys))"
  using distinct_bucketByAmount [of xs]
  by (simp add: commonAmountsDescending_def)

lemma exact_pairs_props:
  assumes "(l, h) \<in> set (exact_pairs g)"
  shows "l \<in> set (lowerToHigher g)" "h \<in> set (higherToLower g)" "remaining l = remaining h" "remaining l > 0"
proof -
  obtain a where a: "(l, h) \<in> set (zip
      (sort_key wid (if a > 0 then filter (\<lambda>w. remaining w = a) (lowerToHigher g) else []))
      (sort_key wid (if a > 0 then filter (\<lambda>w. remaining w = a) (higherToLower g) else [])))"
    using assms by (auto simp: exact_pairs_zip)
  from set_zip_leftD [OF a] set_zip_rightD [OF a]
  show "l \<in> set (lowerToHigher g)" "h \<in> set (higherToLower g)" "remaining l = remaining h" "remaining l > 0"
    by (auto split: if_splits)
qed

lemma exact_pairs_distinct:
  assumes "distinct (map wid (lowerToHigher g))" "distinct (map wid (higherToLower g))"
  shows "distinct (map (wid \<circ> fst) (exact_pairs g))" "distinct (map (wid \<circ> snd) (exact_pairs g))"
proof -
  define L where "L a = sort_key wid (if a > 0 then filter (\<lambda>w. remaining w = a) (lowerToHigher g) else [])" for a
  define R where "R a = sort_key wid (if a > 0 then filter (\<lambda>w. remaining w = a) (higherToLower g) else [])" for a
  have dL: "distinct (map wid (L a))" and dR: "distinct (map wid (R a))" for a
    using assms by (simp_all add: L_def R_def distinct_map_filter)
  have zl: "distinct (map (wid \<circ> fst) (zip (L a) (R a)))" for a
    using dL [of a] by (simp flip: map_map take_map add: map_fst_zip_take distinct_take)
  have zr: "distinct (map (wid \<circ> snd) (zip (L a) (R a)))" for a
    using dR [of a] by (simp flip: map_map take_map add: map_snd_zip_take distinct_take)
  have inL: "fst p \<in> set (lowerToHigher g) \<and> remaining (fst p) = a" if "p \<in> set (zip (L a) (R a))" for a p
    using that set_zip_leftD [of "fst p" "snd p"] by (fastforce simp: L_def split: if_splits)
  have inR: "snd p \<in> set (higherToLower g) \<and> remaining (snd p) = a" if "p \<in> set (zip (L a) (R a))" for a p
    using that set_zip_rightD [of "fst p" "snd p"] by (fastforce simp: R_def split: if_splits)
  have sl: "(wid \<circ> fst) ` set (zip (L a) (R a)) \<inter> (wid \<circ> fst) ` set (zip (L b) (R b)) = {}" if "a \<noteq> b" for a b
  proof -
    have False if "p \<in> set (zip (L a) (R a))" "q \<in> set (zip (L b) (R b))" "wid (fst p) = wid (fst q)" for p q
      using that(3) inL [OF that(1)] inL [OF that(2)] wid_inj [OF assms(1)] \<open>a \<noteq> b\<close> by metis
    then show ?thesis by (auto simp del: set_zip)
  qed
  have sr: "(wid \<circ> snd) ` set (zip (L a) (R a)) \<inter> (wid \<circ> snd) ` set (zip (L b) (R b)) = {}" if "a \<noteq> b" for a b
  proof -
    have False if "p \<in> set (zip (L a) (R a))" "q \<in> set (zip (L b) (R b))" "wid (snd p) = wid (snd q)" for p q
      using that(3) inR [OF that(1)] inR [OF that(2)] wid_inj [OF assms(2)] \<open>a \<noteq> b\<close> by metis
    then show ?thesis by (auto simp del: set_zip)
  qed
  have e: "exact_pairs g = concat (map (\<lambda>a. zip (L a) (R a))
      (commonAmountsDescending (bucketByAmount (lowerToHigher g)) (bucketByAmount (higherToLower g))))"
    by (simp add: exact_pairs_zip L_def R_def)
  show "distinct (map (wid \<circ> fst) (exact_pairs g))"
    unfolding e by (rule distinct_map_concat [OF distinct_commonAmounts zl sl])
  show "distinct (map (wid \<circ> snd) (exact_pairs g))"
    unfolding e by (rule distinct_map_concat [OF distinct_commonAmounts zr sr])
qed

text \<open>Allocating a list of pairs with pairwise different items keeps the group invariant.\<close>

lemma allocate_pairs_ok:
  assumes "ginv g" "accounted g pre" "distinct (map (wid \<circ> fst) ps)" "distinct (map (wid \<circ> snd) ps)"
    and "\<forall>(l, h) \<in> set ps. l \<in> set (lowerToHigher g) \<and> h \<in> set (higherToLower g)
           \<and> remaining l = remaining h \<and> remaining l > 0"
    and "allocate_pairs g ps = (g'', als)"
  shows "ginv g'' \<and> same_static g g'' \<and> accounted g'' (pre @ als)"
  using assms
proof (induction g ps arbitrary: pre g'' als rule: allocate_pairs.induct)
  case (2 g l h ps)
  define g' where "g' = g\<lparr>lowerToHigher := set_item (take_part (remaining l) l) (lowerToHigher g),
                          higherToLower := set_item (take_part (remaining l) h) (higherToLower g)\<rparr>"
  define al where "al = snd (snd (allocate (gkey g) l h (remaining l) ExactPhase))"
  have lh: "l \<in> set (lowerToHigher g)" "h \<in> set (higherToLower g)" "remaining l = remaining h" "remaining l > 0"
    using "2.prems"(5) by auto
  have d: "distinct (map wid (lowerToHigher g))" "distinct (map wid (higherToLower g))"
    using "2.prems"(1) by (simp_all add: ginv_def)
  have g': "ginv g'" "same_static g g'" "accounted g' (pre @ [al])"
    using allocate_keeps_ginv [OF "2.prems"(1) lh(1,2)] lh(3,4)
      allocate_keeps_accounted [OF "2.prems"(1,2) lh(1,2)] by (simp_all add: g'_def al_def)
  obtain als' where als: "allocate_pairs g' ps = (g'', als')" "als = al # als'"
    using "2.prems"(6) by (auto simp: allocate_def g'_def al_def split: prod.splits)
  have "\<forall>(x, y) \<in> set ps. x \<in> set (lowerToHigher g') \<and> y \<in> set (higherToLower g')
           \<and> remaining x = remaining y \<and> remaining x > 0"
    using "2.prems"(3-5) d lh by (force simp: g'_def set_set_item)
  then have "ginv g'' \<and> same_static g' g'' \<and> accounted g'' ((pre @ [al]) @ als')"
    using "2.IH" [OF allocate_def [symmetric] refl, of "pre @ [al]" g'' als'] g' als(1) "2.prems"(3,4)
    by (simp add: g'_def)
  then show ?case using g'(2) als(2) by (auto intro: same_static_trans)
qed simp

lemma matchExact_ok:
  assumes "ginv g" "accounted g []" "matchExact g = (g', als)"
  shows "ginv g'" "same_static g g'" "accounted g' als"
proof -
  have "distinct (map wid (lowerToHigher g))" "distinct (map wid (higherToLower g))"
    using assms(1) by (simp_all add: ginv_def)
  note d = exact_pairs_distinct [OF this]
  have "\<forall>(l, h) \<in> set (exact_pairs g). l \<in> set (lowerToHigher g) \<and> h \<in> set (higherToLower g)
           \<and> remaining l = remaining h \<and> remaining l > 0"
    using exact_pairs_props by blast
  from allocate_pairs_ok [OF assms(1,2) d this] assms(3)
  show "ginv g'" "same_static g g'" "accounted g' als" by (auto simp: matchExact_def)
qed

end
