(* ===== verification/Matcher_Split.thy ===== *)
theory Matcher_Split
  imports Matcher_Exact
begin

text \<open>
  The best-fit and split phases of the matcher (\<open>matchRemaining\<close>). The laws of the ordered set the
  code takes from \<open>github.com/google/btree\<close> are the locale \<open>btree_laws\<close>; inside it the loops are
  shown to keep the group invariant, never to run into an internal error and, when splitting is
  allowed, to exhaust the smaller direction.
\<close>

section \<open>The order of the tree\<close>

lemma lessWorkItem_iff: "lessWorkItem l r \<longleftrightarrow> item_order l < item_order r"
  by (auto simp: lessWorkItem_def item_order_def)

text \<open>
  The ordered set, as its documentation states it for the order \<open>lessWorkItem\<close>: two items are the
  same element when neither is less than the other; inserting replaces an equal element; deleting
  removes the equal element and says whether there was one; the iteration from a pivot is
  ascending and visits every element that is not less than the pivot.
\<close>

locale btree_laws =
  fixes bt :: "'t btree" and elems :: "'t \<Rightarrow> workItem set" and valid :: "'t \<Rightarrow> bool"
  assumes New: "valid (bt_New bt)" "elems (bt_New bt) = {}"
    and Insert: "valid t \<Longrightarrow> valid (bt_ReplaceOrInsert bt w t)"
      "valid t \<Longrightarrow> elems (bt_ReplaceOrInsert bt w t)
                   = insert w {x \<in> elems t. lessWorkItem x w \<or> lessWorkItem w x}"
    and Delete: "valid t \<Longrightarrow> valid (fst (bt_Delete bt w t))"
      "valid t \<Longrightarrow> elems (fst (bt_Delete bt w t)) = {x \<in> elems t. lessWorkItem x w \<or> lessWorkItem w x}"
      "valid t \<Longrightarrow> snd (bt_Delete bt w t) \<longleftrightarrow> (\<exists>x \<in> elems t. \<not> lessWorkItem x w \<and> \<not> lessWorkItem w x)"
    and Ascend: "valid t \<Longrightarrow> set (bt_AscendGreaterOrEqual bt p t) = {x \<in> elems t. \<not> lessWorkItem x p}"
      "valid t \<Longrightarrow> sorted_wrt lessWorkItem (bt_AscendGreaterOrEqual bt p t)"
    and Max: "valid t \<Longrightarrow> bt_Max bt t = None \<longleftrightarrow> elems t = {}"
      "valid t \<Longrightarrow> bt_Max bt t = Some m \<Longrightarrow> m \<in> elems t \<and> (\<forall>x \<in> elems t. \<not> lessWorkItem m x)"
begin

lemma lowerBound_None:
  assumes "valid t" "lowerBound bt t a = None"
  shows "\<forall>x \<in> elems t. remaining x < a"
proof -
  have "{x \<in> elems t. \<not> lessWorkItem x (pivot_item a)} = {}"
    using assms Ascend(1) [of t "pivot_item a"] by (auto simp: lowerBound_def split: list.splits)
  then show ?thesis by (auto simp: lessWorkItem_def pivot_item_def split: if_splits)
qed

lemma lowerBound_Some:
  assumes "valid t" "lowerBound bt t a = Some c"
  shows "c \<in> elems t" "a \<le> remaining c"
proof -
  have "c \<in> set (bt_AscendGreaterOrEqual bt (pivot_item a) t)"
    using assms by (auto simp: lowerBound_def split: list.splits)
  then have "c \<in> elems t \<and> \<not> lessWorkItem c (pivot_item a)"
    using assms(1) Ascend(1) by auto
  then show "c \<in> elems t" "a \<le> remaining c"
    by (auto simp: lessWorkItem_def pivot_item_def split: if_splits)
qed

lemma largest_None:
  assumes "valid t" "largestAmountSmallestID bt t = None" shows "elems t = {}"
proof (cases "bt_Max bt t")
  case None then show ?thesis using Max(1) assms(1) by blast
next
  case (Some m)
  then have "lowerBound bt t (remaining m) = None"
    using assms(2) by (simp add: largestAmountSmallestID_def)
  then show ?thesis using lowerBound_None [OF assms(1)] Max(2) [OF assms(1) Some] by (metis less_irrefl)
qed

lemma largest_Some:
  assumes "valid t" "largestAmountSmallestID bt t = Some c" shows "c \<in> elems t"
  using assms lowerBound_Some(1) by (auto simp: largestAmountSmallestID_def split: option.splits)

lemma deleteItem_ok:
  assumes "valid t" "c \<in> elems t"
  obtains t' where "deleteItem bt t c = Inr t'" "valid t'"
    "elems t' = {x \<in> elems t. item_order x \<noteq> item_order c}"
proof
  show "deleteItem bt t c = Inr (fst (bt_Delete bt c t))"
    using assms Delete(3) [OF assms(1), of c]
    by (auto simp: deleteItem_def fail_if_def lessWorkItem_iff split: prod.splits)
  show "elems (fst (bt_Delete bt c t)) = {x \<in> elems t. item_order x \<noteq> item_order c}"
    using Delete(2) [OF assms(1)] by (auto simp: lessWorkItem_iff neq_iff)
qed (rule Delete(1) [OF assms(1)])

end

section \<open>The loop invariant\<close>

definition st_group :: "GroupKey \<Rightarrow> bool \<Rightarrow> 't rloop \<Rightarrow> matchGroup" where
  "st_group k activeIsLower st =
     (if activeIsLower then \<lparr>gkey = k, lowerToHigher = rl_active st, higherToLower = rl_counter st\<rparr>
      else \<lparr>gkey = k, lowerToHigher = rl_counter st, higherToLower = rl_active st\<rparr>)"

lemma set_item_twice: "wid w = wid w' \<Longrightarrow> set_item w' (set_item w xs) = set_item w' xs"
  by (auto simp: set_item_def)

lemma set_item_same: "distinct (map wid xs) \<Longrightarrow> w \<in> set xs \<Longrightarrow> set_item w xs = xs"
  using wid_inj by (fastforce simp: set_item_def intro: map_idI)

lemma length_positive: "int (length (positiveRemaining xs)) = sum_list (map (\<lambda>w. of_bool (remaining w > 0)) xs)"
  by (induction xs) (auto simp: positiveRemaining_def)

lemma positiveRemaining_set_item:
  assumes "distinct (map wid xs)" "c \<in> set xs" "remaining c > 0" "wid c' = wid c" "\<not> remaining c' > 0"
  shows "length (positiveRemaining (set_item c' xs)) < length (positiveRemaining xs)"
proof -
  have "int (length (positiveRemaining (set_item c' xs))) = int (length (positiveRemaining xs)) - 1"
    unfolding length_positive using assms by (subst sum_set_item [OF assms(1,2,4)]) simp
  then show ?thesis by simp
qed

text \<open>The effect of giving the active item \<open>a\<close> the amount \<open>r\<close>, in one or several allocations.\<close>

definition given :: "'t rloop \<Rightarrow> workItem \<Rightarrow> int \<Rightarrow> 't rloop \<Rightarrow> bool" where
  "given st a r st' \<longleftrightarrow>
     rl_active st' = set_item (take_part r a) (rl_active st)
     \<and> map static (rl_active st') = map static (rl_active st)
     \<and> map static (rl_counter st') = map static (rl_counter st)
     \<and> sumRemaining (rl_active st') = sumRemaining (rl_active st) - r
     \<and> sumRemaining (rl_counter st') = sumRemaining (rl_counter st) - r"

lemma given_trans:
  assumes "given st a r st'" "given st' (take_part r a) s st''"
  shows "given st a (r + s) st''"
  unfolding given_def
proof (intro conjI)
  note g = assms [unfolded given_def]
  show "rl_active st'' = set_item (take_part (r + s) a) (rl_active st)"
    using g by (simp add: set_item_twice)
  show "map static (rl_active st'') = map static (rl_active st)"
    "map static (rl_counter st'') = map static (rl_counter st)" using g by metis+
  show "sumRemaining (rl_active st'') = sumRemaining (rl_active st) - (r + s)"
    "sumRemaining (rl_counter st'') = sumRemaining (rl_counter st) - (r + s)" using g by linarith+
qed

context btree_laws
begin

definition linv :: "GroupKey \<Rightarrow> bool \<Rightarrow> Allocation list \<Rightarrow> 't rloop \<Rightarrow> bool" where
  "linv k b pre st \<longleftrightarrow> ginv (st_group k b st) \<and> accounted (st_group k b st) (pre @ rl_allocs st)
     \<and> valid (rl_tree st) \<and> elems (rl_tree st) = set (positiveRemaining (rl_counter st))"

lemma linv_slices:
  assumes "linv k b pre st"
  shows "distinct (map wid (rl_active st))" "distinct (map wid (rl_counter st))"
    "\<forall>w \<in> set (rl_active st). item_ok w" "\<forall>w \<in> set (rl_counter st). item_ok w"
  using assms by (auto simp: linv_def ginv_def st_group_def group_items_def split: if_splits)

lemma linv_elems: "linv k b pre st \<Longrightarrow> c \<in> elems (rl_tree st) \<longleftrightarrow> c \<in> set (rl_counter st) \<and> remaining c > 0"
  by (auto simp: linv_def positiveRemaining_def)

text \<open>One allocation between an active item and a counter item taken from the tree.\<close>

lemma rl_step:
  assumes I: "linv k b pre st" and a: "a \<in> set (rl_active st)" and c: "c \<in> elems (rl_tree st)"
    and r: "0 < r" "r \<le> remaining a" "r \<le> remaining c"
  obtains tree st' where "deleteItem bt (rl_tree st) c = Inr tree"
    "rl_allocate bt k b phase a c r tree st = (take_part r a, st')"
    "linv k b pre st'" "given st a r st'" "rl_counter st' = set_item (take_part r c) (rl_counter st)"
proof -
  have c': "c \<in> set (rl_counter st)" "remaining c > 0" using c linv_elems [OF I] by auto
  note d = linv_slices(1,2) [OF I]
  obtain tree where t: "deleteItem bt (rl_tree st) c = Inr tree" "valid tree"
    "elems tree = {x \<in> elems (rl_tree st). item_order x \<noteq> item_order c}"
    by (rule deleteItem_ok [of "rl_tree st" c]) (use I c in \<open>auto simp: linv_def\<close>)
  define st' where "st' = snd (rl_allocate bt k b phase a c r tree st)"
  have st': "rl_allocate bt k b phase a c r tree st = (take_part r a, st')"
    "rl_active st' = set_item (take_part r a) (rl_active st)"
    "rl_counter st' = set_item (take_part r c) (rl_counter st)"
    "rl_tree st' = reinsert bt (take_part r c) tree"
    "pre @ rl_allocs st' = (pre @ rl_allocs st) @ [snd (snd (allocate k (if b then a else c) (if b then c else a) r phase))]"
    by (simp_all add: st'_def rl_allocate_def allocateByDirection_def allocate_def split: prod.splits)
  have "ginv (st_group k b st') \<and> accounted (st_group k b st') (pre @ rl_allocs st')"
  proof (cases b)
    case True
    then show ?thesis
      using allocate_keeps_ginv(1) [of "st_group k b st" a c r] allocate_keeps_accounted [of "st_group k b st" "pre @ rl_allocs st" a c r _ phase]
        I a c' r unfolding st'(5) by (simp add: linv_def st_group_def st'(2,3))
  next
    case False
    then show ?thesis
      using allocate_keeps_ginv(1) [of "st_group k b st" c a r] allocate_keeps_accounted [of "st_group k b st" "pre @ rl_allocs st" c a r _ phase]
        I a c' r unfolding st'(5) by (simp add: linv_def st_group_def st'(2,3))
  qed
  moreover have "valid (rl_tree st') \<and> elems (rl_tree st') = set (positiveRemaining (rl_counter st'))"
  proof -
    have "item_order x \<noteq> item_order c" if "x \<in> set (rl_counter st)" "x \<noteq> c" for x
      using wid_inj [OF d(2) that(1) c'(1)] that(2) by (auto simp: item_order_def)
    then have "elems tree = set (positiveRemaining (rl_counter st)) - {c}"
      using I t(3) by (auto simp: linv_def positiveRemaining_def)
    moreover have "lessWorkItem x (take_part r c) \<or> lessWorkItem (take_part r c) x"
      if "x \<in> set (rl_counter st)" "x \<noteq> c" for x
      using wid_inj [OF d(2) that(1) c'(1)] that(2) by (auto simp: lessWorkItem_def not_less_iff_gr_or_eq)
    moreover have "take_part r c \<noteq> c" using r(1) by (metis add_cancel_left_right less_irrefl take_part_simps(2))
    ultimately show ?thesis
      using t(2) Insert [OF t(2)] c' unfolding st'(3,4)
      by (auto simp: reinsert_def positiveRemaining_def set_set_item [OF d(2) c'(1)])
  qed
  ultimately have "linv k b pre st'" by (simp add: linv_def)
  moreover have "given st a r st'"
    using d a c' unfolding given_def st'(2,3)
    by (simp add: map_static_set_item sumRemaining_def sum_set_item)
  ultimately show thesis using that t(1) st'(1,3) by blast
qed

section \<open>The split loop\<close>

lemma positive_exists:
  assumes "\<forall>w \<in> set xs. item_ok w" "0 < sumRemaining xs"
  shows "\<exists>c \<in> set xs. remaining c > 0"
proof (rule ccontr)
  assume "\<not> ?thesis"
  then have "map remaining xs = map (\<lambda>_. 0) xs"
    using assms(1) by (intro map_cong) (auto simp: item_ok_def order.order_iff_strict)
  then have "sumRemaining xs = sum_list (map (\<lambda>_. 0) xs)" unfolding sumRemaining_def by (rule arg_cong)
  then show False using assms(2) by simp
qed

lemma split_loop_ok:
  assumes "linv k b pre st" "a \<in> set (rl_active st)"
    and "sumRemaining (rl_active st) \<le> sumRemaining (rl_counter st)"
    and "0 < fuel" "remaining a > 0 \<Longrightarrow> length (positiveRemaining (rl_counter st)) < fuel"
  shows "\<exists>st'. split_loop fuel bt k b st a = Inr st' \<and> linv k b pre st' \<and> given st a (remaining a) st'"
  using assms
proof (induction fuel arbitrary: st a)
  case (Suc fuel)
  note I = Suc.prems(1) and a = Suc.prems(2)
  note sl = linv_slices [OF I]
  show ?case
  proof (cases "remaining a > 0")
    case False
    then have "remaining a = 0" using a sl(3) by (auto simp: item_ok_def)
    then show ?thesis
      using I a sl(1) False by (auto simp: given_def set_item_same)
  next
    case True
    have "0 < sumRemaining (rl_counter st)"
      using remaining_le_sum [OF sl(3) a] True Suc.prems(3) by linarith
    then have "elems (rl_tree st) \<noteq> {}"
      using positive_exists [OF sl(4)] linv_elems [OF I] by blast
    then obtain c where c: "largestAmountSmallestID bt (rl_tree st) = Some c" "c \<in> elems (rl_tree st)"
      using largest_None largest_Some I unfolding linv_def by (cases "largestAmountSmallestID bt (rl_tree st)") auto
    then have c': "c \<in> set (rl_counter st)" "remaining c > 0" using linv_elems [OF I] by auto
    define r where "r = min (remaining a) (remaining c)"
    obtain tree st' where st': "deleteItem bt (rl_tree st) c = Inr tree"
      "rl_allocate bt k b SplitPhase a c r tree st = (take_part r a, st')"
      "linv k b pre st'" "given st a r st'" "rl_counter st' = set_item (take_part r c) (rl_counter st)"
      using rl_step [OF I a c(2), of r SplitPhase] True c'(2) by (auto simp: r_def)
    have "take_part r a \<in> set (rl_active st')"
      using st'(4) a sl(1) by (simp add: given_def set_set_item)
    moreover have "sumRemaining (rl_active st') \<le> sumRemaining (rl_counter st')"
      using st'(4) Suc.prems(3) unfolding given_def by linarith
    moreover have "0 < length (positiveRemaining (rl_counter st))"
      using c' by (auto simp: positiveRemaining_def filter_empty_conv)
    then have "0 < fuel" using Suc.prems(5) [OF True] by linarith
    moreover have "length (positiveRemaining (rl_counter st')) < fuel" if "remaining (take_part r a) > 0"
      using positiveRemaining_set_item [OF sl(2) c', of "take_part r c"] that Suc.prems(5) [OF True]
      unfolding st'(5) by (auto simp: r_def)
    ultimately obtain st'' where "split_loop fuel bt k b st' (take_part r a) = Inr st''"
      "linv k b pre st''" "given st' (take_part r a) (remaining (take_part r a)) st''"
      using Suc.IH [OF st'(3)] by blast
    then show ?thesis
      using given_trans [OF st'(4)] True c(1) st'(1,2) by (fastforce simp: r_def)
  qed
qed simp

lemma match_active_ok:
  assumes I: "linv k b pre st" and a: "a \<in> set (rl_active st)" "remaining a > 0"
    and s: "split \<Longrightarrow> sumRemaining (rl_active st) \<le> sumRemaining (rl_counter st)"
    and f: "length (rl_counter st) < fuel"
  shows "\<exists>st' r. match_active fuel bt k b split st a = Inr st' \<and> linv k b pre st' \<and> given st a r st'
           \<and> (split \<longrightarrow> r = remaining a)"
proof (cases "lowerBound bt (rl_tree st) (remaining a)")
  case (Some c)
  have v: "valid (rl_tree st)" using I by (simp add: linv_def)
  obtain tree st' where "deleteItem bt (rl_tree st) c = Inr tree"
      "rl_allocate bt k b BestFitPhase a c (remaining a) tree st = (take_part (remaining a) a, st')"
      "linv k b pre st'" "given st a (remaining a) st'"
    using rl_step [OF I a(1) lowerBound_Some(1) [OF v Some], of "remaining a" BestFitPhase] lowerBound_Some(2) [OF v Some] a(2)
    by blast
  then show ?thesis using Some by (auto simp: match_active_def)
next
  case None
  show ?thesis
  proof (cases split)
    case True
    have "length (positiveRemaining (rl_counter st)) < fuel"
      using f by (simp add: positiveRemaining_def le_less_trans [OF length_filter_le])
    moreover have "0 < fuel" using f by simp
    ultimately show ?thesis
      using split_loop_ok [OF I a(1) s [OF True]] None True by (auto simp: match_active_def)
  next
    case False
    have "given st a 0 st" using a(1) linv_slices(1) [OF I] by (simp add: given_def set_item_same)
    then show ?thesis using None False I by (auto simp: match_active_def)
  qed
qed

text \<open>The queue lists active items; each is still untouched when its turn comes.\<close>

lemma match_queue_ok:
  assumes "linv k b pre st" "distinct (map wid queue)" "set queue \<subseteq> set (rl_active st)"
    and "\<forall>w \<in> set queue. remaining w > 0"
    and "split \<Longrightarrow> sumRemaining (rl_active st) \<le> sumRemaining (rl_counter st)"
    and "length (rl_counter st) < fuel"
  shows "\<exists>st'. fold_res (match_active fuel bt k b split) st queue = Inr st' \<and> linv k b pre st'
           \<and> map static (rl_active st') = map static (rl_active st)
           \<and> map static (rl_counter st') = map static (rl_counter st)
           \<and> (split \<longrightarrow> sumRemaining (rl_active st') = sumRemaining (rl_active st) - sumRemaining queue)"
  using assms
proof (induction queue arbitrary: st)
  case Nil then show ?case by (simp add: sumRemaining_def)
next
  case (Cons a queue)
  obtain st' r where st': "match_active fuel bt k b split st a = Inr st'" "linv k b pre st'"
    "given st a r st'" "split \<longrightarrow> r = remaining a"
    using match_active_ok [OF Cons.prems(1), of a split fuel] Cons.prems(3-6) by auto
  have a: "a \<in> set (rl_active st)" using Cons.prems(3) by simp
  have "set queue \<subseteq> set (rl_active st')"
    using Cons.prems(2,3) st'(3) set_set_item [OF linv_slices(1) [OF Cons.prems(1)] a, of "take_part r a"]
    by (auto simp: given_def)
  moreover have "sumRemaining (rl_active st') \<le> sumRemaining (rl_counter st')" if split
    using st'(3) Cons.prems(5) that unfolding given_def by linarith
  moreover have "length (rl_counter st') < fuel"
    using st'(3) Cons.prems(6) unfolding given_def by (metis length_map)
  ultimately obtain st'' where st'': "fold_res (match_active fuel bt k b split) st' queue = Inr st''"
    "linv k b pre st''" "map static (rl_active st'') = map static (rl_active st')"
    "map static (rl_counter st'') = map static (rl_counter st')"
    "split \<longrightarrow> sumRemaining (rl_active st'') = sumRemaining (rl_active st') - sumRemaining queue"
    using Cons.IH [OF st'(2)] Cons.prems(2,4) by auto
  have "sumRemaining (rl_active st'') = sumRemaining (rl_active st) - sumRemaining (a # queue)" if split
  proof -
    have "sumRemaining (a # queue) = remaining a + sumRemaining queue" by (simp add: sumRemaining_def)
    then show ?thesis using that st''(5) st'(3,4) unfolding given_def by linarith
  qed
  moreover have "map static (rl_active st'') = map static (rl_active st)"
    "map static (rl_counter st'') = map static (rl_counter st)"
    using st''(3,4) st'(3) unfolding given_def by metis+
  ultimately show ?case
    using st'(1) st''(1,2) by (intro exI [of _ st'']) simp
qed

section \<open>The whole phase\<close>

lemma tree_of_items:
  assumes "valid t" "distinct (map wid xs)" "wid ` elems t \<inter> wid ` set xs = {}"
  shows "valid (foldl (\<lambda>t w. bt_ReplaceOrInsert bt w t) t xs)
       \<and> elems (foldl (\<lambda>t w. bt_ReplaceOrInsert bt w t) t xs) = elems t \<union> set xs"
  using assms
proof (induction xs arbitrary: t)
  case (Cons w xs)
  have "item_order x \<noteq> item_order w" if "x \<in> elems t" for x
    using Cons.prems(3) that by (auto simp: item_order_def dest: image_eqI [where f = wid, OF sym])
  then have e: "elems (bt_ReplaceOrInsert bt w t) = insert w (elems t)"
    using Insert(2) [OF Cons.prems(1)] by (auto simp: lessWorkItem_iff neq_iff)
  show ?case
    using Cons.IH [OF Insert(1) [OF Cons.prems(1)], of w] Cons.prems(2,3) by (simp add: e)
qed simp

lemma matchRemaining_ok:
  assumes "ginv g" "accounted g pre"
  shows "\<exists>g' als. matchRemaining bt g split = Inr (g', als) \<and> ginv g' \<and> same_static g g'
           \<and> accounted g' (pre @ als)
           \<and> (split \<longrightarrow> sumRemaining (lowerToHigher g') = 0 \<or> sumRemaining (higherToLower g') = 0)"
proof -
  define b where "b = (\<not> sumRemaining (lowerToHigher g) > sumRemaining (higherToLower g))"
  define active where "active = (if b then lowerToHigher g else higherToLower g)"
  define counter where "counter = (if b then higherToLower g else lowerToHigher g)"
  define queue where "queue = sort_key (\<lambda>w. (- remaining w, wid w)) (positiveRemaining active)"
  define tree where "tree = foldl (\<lambda>t w. bt_ReplaceOrInsert bt w t) (bt_New bt) (positiveRemaining counter)"
  define st where "st = \<lparr>rl_active = active, rl_counter = counter, rl_tree = tree, rl_allocs = []\<rparr>"
  have d: "distinct (map wid active)" "distinct (map wid counter)" "\<forall>w \<in> set active. item_ok w"
    using assms(1) by (auto simp: active_def counter_def ginv_def group_items_def)
  have g: "st_group (gkey g) b st = g"
    by (simp add: st_group_def st_def active_def counter_def)
  have "valid tree \<and> elems tree = set (positiveRemaining counter)"
    using tree_of_items [OF New(1), of "positiveRemaining counter"] New(2) d(2)
    by (simp add: tree_def positiveRemaining_def distinct_map_filter)
  then have I: "linv (gkey g) b pre st"
    using assms by (simp add: linv_def g) (simp add: st_def)
  have q: "distinct (map wid queue)" "set queue \<subseteq> set (rl_active st)" "\<forall>w \<in> set queue. remaining w > 0"
    using d(1) by (auto simp: queue_def st_def positiveRemaining_def distinct_map_filter)
  have le: "sumRemaining (rl_active st) \<le> sumRemaining (rl_counter st)"
    by (simp add: st_def active_def counter_def b_def)
  have sq: "sumRemaining queue = sumRemaining active"
    unfolding queue_def sumRemaining_positive [OF d(3), symmetric] by (simp add: sumRemaining_def)
  obtain st' where st': "fold_res (match_active (Suc (length counter)) bt (gkey g) b split) st queue = Inr st'"
    "linv (gkey g) b pre st'" "map static (rl_active st') = map static (rl_active st)"
    "map static (rl_counter st') = map static (rl_counter st)"
    "split \<longrightarrow> sumRemaining (rl_active st') = sumRemaining (rl_active st) - sumRemaining queue"
    using match_queue_ok [OF I q, of split "Suc (length counter)"] le by (auto simp: st_def)
  have "matchRemaining bt g split = bind_res (Inr st') (\<lambda>st'. Inr (st_group (gkey g) b st', rl_allocs st'))"
    unfolding st'(1) [symmetric] unfolding st_def tree_def queue_def active_def counter_def b_def
    by (cases g) (simp add: matchRemaining_def Let_def st_group_def)
  then have r: "matchRemaining bt g split = Inr (st_group (gkey g) b st', rl_allocs st')" by simp
  have "same_static g (st_group (gkey g) b st')"
    using st'(3,4) by (auto simp: same_static_def st_group_def st_def active_def counter_def)
  moreover have "split \<longrightarrow> sumRemaining (rl_active st') = 0"
    using st'(5) sq by (simp add: st_def)
  ultimately show ?thesis
    using r st'(2) by (auto simp: linv_def st_group_def)
qed

end

section \<open>A reference ordered set\<close>

text \<open>
  The laws hold for the ascending list of the elements, which shows that they are consistent and
  gives an executable instance. Here \<open>item_order\<close> decides the position.
\<close>

definition list_btree :: "workItem list btree" where
  "list_btree =
     \<lparr>bt_New = [],
      bt_ReplaceOrInsert = (\<lambda>w t. filter (\<lambda>x. lessWorkItem x w) t @ w # filter (\<lambda>x. lessWorkItem w x) t),
      bt_Delete = (\<lambda>w t. (filter (\<lambda>x. lessWorkItem x w \<or> lessWorkItem w x) t,
                          \<exists>x \<in> set t. \<not> lessWorkItem x w \<and> \<not> lessWorkItem w x)),
      bt_AscendGreaterOrEqual = (\<lambda>p t. filter (\<lambda>x. \<not> lessWorkItem x p) t),
      bt_Max = (\<lambda>t. if t = [] then None else Some (last t))\<rparr>"

lemma lessWorkItem_trans: "lessWorkItem x y \<Longrightarrow> lessWorkItem y z \<Longrightarrow> lessWorkItem x z"
  by (simp add: lessWorkItem_iff)

lemma sorted_last_max:
  assumes "sorted_wrt lessWorkItem t" "x \<in> set t" shows "\<not> lessWorkItem (last t) x"
  using assms
proof (induction t)
  case (Cons y t)
  then show ?case
    by (cases "t = []") (auto simp: lessWorkItem_iff dest!: last_in_set)
qed simp

interpretation lbt: btree_laws list_btree set "sorted_wrt lessWorkItem"
proof unfold_locales
  fix t :: "workItem list" and w m p :: workItem
  assume t: "sorted_wrt lessWorkItem t"
  show "sorted_wrt lessWorkItem (bt_ReplaceOrInsert list_btree w t)"
    using t by (auto simp: list_btree_def sorted_wrt_append sorted_wrt_filter intro: lessWorkItem_trans)
  show "set (bt_ReplaceOrInsert list_btree w t) = insert w {x \<in> set t. lessWorkItem x w \<or> lessWorkItem w x}"
    "sorted_wrt lessWorkItem (fst (bt_Delete list_btree w t))"
    "set (fst (bt_Delete list_btree w t)) = {x \<in> set t. lessWorkItem x w \<or> lessWorkItem w x}"
    "snd (bt_Delete list_btree w t) = (\<exists>x \<in> set t. \<not> lessWorkItem x w \<and> \<not> lessWorkItem w x)"
    "set (bt_AscendGreaterOrEqual list_btree p t) = {x \<in> set t. \<not> lessWorkItem x p}"
    "sorted_wrt lessWorkItem (bt_AscendGreaterOrEqual list_btree p t)"
    "(bt_Max list_btree t = None) = (set t = {})"
    using t by (auto simp: list_btree_def sorted_wrt_filter)
  show "m \<in> set t \<and> (\<forall>x \<in> set t. \<not> lessWorkItem m x)" if "bt_Max list_btree t = Some m"
    using that sorted_last_max [OF t] by (auto simp: list_btree_def split: if_splits)
qed (simp_all add: list_btree_def)

end
