(* ===== verification/Matcher_Correct.thy ===== *)
theory Matcher_Correct
  imports Matcher_Split
begin

text \<open>
  Correctness of the matcher as a whole: when \<open>MatchWithMode\<close> succeeds, what its results and
  allocations are, that both directions of a shard pair match the same amount, and that full mode
  matches as much as the pair allows.
\<close>

section \<open>Grouping the payments\<close>

definition mk_item :: "hasher \<Rightarrow> PaymentIntent \<Rightarrow> workItem" where
  "mk_item H p = new_item p (pid H p)"

lemma mk_item_simps [simp]:
  "payment (mk_item H p) = p" "wid (mk_item H p) = pid H p" "matched (mk_item H p) = 0"
  "remaining (mk_item H p) = amount_of p"
  "isLowerToHigher (mk_item H p) \<longleftrightarrow> \<not> SourceShard p > DestinationShard p"
  by (simp_all add: mk_item_def new_item_def)

text \<open>What the matcher accepts of one payment, and of the list.\<close>

definition acceptable :: "hasher \<Rightarrow> uint64 \<Rightarrow> PaymentIntent \<Rightarrow> bool" where
  "acceptable H chainID p \<longleftrightarrow> validatePaymentShape p chainID = Inr () \<and> (\<exists>i. ID H p = Inr i)"

definition matchable :: "hasher \<Rightarrow> PaymentIntent list \<Rightarrow> bool" where
  "matchable H ps \<longleftrightarrow> (\<forall>p \<in> set ps. acceptable H (ChainID (hd ps)) p) \<and> distinct (map (pid H) ps)"

definition spec_group :: "workItem list \<Rightarrow> GroupKey \<Rightarrow> matchGroup" where
  "spec_group items k =
     \<lparr>gkey = k,
      lowerToHigher = filter (\<lambda>w. group_key (payment w) = k \<and> isLowerToHigher w) items,
      higherToLower = filter (\<lambda>w. group_key (payment w) = k \<and> \<not> isLowerToHigher w) items\<rparr>"

definition groups_ok :: "workItem list \<Rightarrow> (GroupKey \<times> matchGroup) list \<Rightarrow> bool" where
  "groups_ok items groups \<longleftrightarrow> distinct (map fst groups)
     \<and> (\<forall>k. map_of groups k = (if k \<in> (\<lambda>w. group_key (payment w)) ` set items
                                 then Some (spec_group items k) else None))"

lemma group_at_ok: "groups_ok items groups \<Longrightarrow> group_at groups k = spec_group items k"
  by (auto simp: groups_ok_def group_at_def spec_group_def filter_empty_conv eq_commute [of "[]"])

lemma groups_ok_add:
  assumes "groups_ok items groups" "group_key (payment w) = k"
  shows "groups_ok (items @ [w]) (alist_set k (add_to_group w (group_at groups k)) groups)"
  using assms(1) unfolding group_at_ok [OF assms(1)]
  by (auto simp: groups_ok_def distinct_alist_set map_of_alist_set add_to_group_def spec_group_def assms(2))

lemma prepare_loop_Inr:
  assumes "groups_ok items groups" "prepare_loop H c seen groups ps = Inr gs"
  shows "groups_ok (items @ map (mk_item H) ps) gs \<and> (\<forall>p \<in> set ps. acceptable H c p)
       \<and> distinct (map (pid H) ps) \<and> pid H ` set ps \<inter> set seen = {}"
  using assms
proof (induction ps arbitrary: items groups seen)
  case (Cons p ps)
  obtain i where i: "validatePaymentShape p c = Inr ()" "ID H p = Inr i" "i \<notin> set seen"
    "prepare_loop H c (i # seen)
       (alist_set (group_key p) (add_to_group (new_item p i) (group_at groups (group_key p))) groups) ps = Inr gs"
    using Cons.prems(2) by (auto simp: res_elims Let_def)
  have p: "pid H p = i" "new_item p i = mk_item H p" using i(2) by (simp_all add: pid_def mk_item_def)
  have "groups_ok (items @ [mk_item H p])
      (alist_set (group_key p) (add_to_group (mk_item H p) (group_at groups (group_key p))) groups)"
    by (rule groups_ok_add [OF Cons.prems(1)]) simp
  from Cons.IH [OF this, of "i # seen"] i p show ?case by (auto simp: acceptable_def)
qed simp

lemma prepare_loop_succeeds:
  assumes "\<forall>p \<in> set ps. acceptable H c p" "distinct (map (pid H) ps)" "pid H ` set ps \<inter> set seen = {}"
  shows "\<exists>gs. prepare_loop H c seen groups ps = Inr gs"
  using assms
proof (induction ps arbitrary: groups seen)
  case (Cons p ps)
  obtain i where i: "validatePaymentShape p c = Inr ()" "ID H p = Inr i"
    using Cons.prems(1) by (auto simp: acceptable_def)
  then have "pid H p = i" by (simp add: pid_def)
  then show ?case using Cons.IH [of "i # seen"] Cons.prems i by (auto simp: Let_def fail_if_def)
qed simp

lemma groups_ok_Nil: "groups_ok [] []"
  by (simp add: groups_ok_def)

lemma prepare_Inr:
  assumes "prepare H ps = Inr groups"
  shows "groups_ok (map (mk_item H) ps) groups" "matchable H ps"
proof -
  have "prepare_loop H (case ps of [] \<Rightarrow> 0 | p # _ \<Rightarrow> ChainID p) [] [] ps = Inr groups"
    using assms by (simp add: prepare_def)
  from prepare_loop_Inr [OF groups_ok_Nil this]
  show "groups_ok (map (mk_item H) ps) groups" "matchable H ps"
    by (auto simp: matchable_def split: list.splits)
qed

lemma prepare_succeeds: "matchable H ps \<Longrightarrow> \<exists>groups. prepare H ps = Inr groups"
  unfolding prepare_def matchable_def by (rule prepare_loop_succeeds) (auto split: list.splits)

lemma acceptable_amount: "acceptable H c p \<Longrightarrow> 0 < amount_of p \<and> Amount p = Some (amount_of p)"
  by (auto simp: acceptable_def amount_of_def dest: ID_Inr_amount)

lemma acceptable_ID: "acceptable H c p \<Longrightarrow> ID H p = Inr (pid H p)"
  by (auto simp: acceptable_def pid_def)

lemma acceptable_shards:
  "acceptable H c p \<Longrightarrow> SourceShard p \<noteq> DestinationShard p \<and> AssetID p = NativeAssetID"
  by (auto simp: acceptable_def validatePaymentShape_def fail_if_eq_Inr)

section \<open>Solving one group\<close>

lemma spec_group_start:
  assumes "matchable H ps"
  shows "ginv (spec_group (map (mk_item H) ps) k)" "accounted (spec_group (map (mk_item H) ps) k) []"
proof -
  have "distinct (map wid (map (mk_item H) ps))"
    using assms by (simp add: matchable_def comp_def)
  then have "distinct (map wid (filter P (map (mk_item H) ps)))" for P by (rule distinct_map_filter)
  moreover have "item_ok (mk_item H p)" if "p \<in> set ps" for p
    using assms that acceptable_amount by (fastforce simp: matchable_def item_ok_def)
  moreover have "sumMatched (filter P (map (mk_item H) ps)) = 0" for P
    by (induction ps) (auto simp: sumMatched_def)
  ultimately show "ginv (spec_group (map (mk_item H) ps) k)"
    by (auto simp: ginv_def spec_group_def group_items_def)
  show "accounted (spec_group (map (mk_item H) ps) k) []"
    by (auto simp: accounted_def spec_group_def lower_sum_def higher_sum_def)
qed

lemma validateGroup_ok:
  assumes "ginv g" shows "validateGroup g = Inr ()"
proof -
  have "fold_res (\<lambda>_ w. fail_if (remaining w < 0 \<or> matched w < 0) ErrMatchingInvariant (
       fail_if (remaining w + matched w \<noteq> amount_of (payment w)) ErrMatchingInvariant (Inr ()))) () xs = Inr ()"
    if "\<forall>w \<in> set xs. item_ok w" for xs
    using that by (induction xs) (auto simp: item_ok_def fail_if_def)
  then show ?thesis
    using assms by (simp add: validateGroup_def ginv_def group_items_def)
qed

definition one_side_done :: "matchGroup \<Rightarrow> bool" where
  "one_side_done g \<longleftrightarrow> sumRemaining (lowerToHigher g) = 0 \<or> sumRemaining (higherToLower g) = 0"

context btree_laws
begin

lemma match_group_ok:
  assumes "ginv g" "accounted g []"
  shows "\<exists>g' als. match_group bt mode g = Inr (g', als) \<and> ginv g' \<and> same_static g g'
           \<and> accounted g' als \<and> (mode = FullMode \<longrightarrow> one_side_done g')"
proof -
  obtain g1 al1 where e: "matchExact g = (g1, al1)" by fastforce
  note ok1 = matchExact_ok [OF assms e]
  show ?thesis
  proof (cases "mode = ExactOnlyMode")
    case True
    then show ?thesis
      using e ok1 validateGroup_ok by (auto simp: match_group_def FullMode_def ExactOnlyMode_def)
  next
    case False
    obtain g2 al2 where "matchRemaining bt g1 (mode = FullMode) = Inr (g2, al2)" "ginv g2"
      "same_static g1 g2" "accounted g2 (al1 @ al2)" "mode = FullMode \<longrightarrow> one_side_done g2"
      using matchRemaining_ok [OF ok1(1,3)] unfolding one_side_done_def by blast
    then show ?thesis
      using e ok1(2) False validateGroup_ok same_static_trans by (fastforce simp: match_group_def)
  qed
qed

end

section \<open>Solving all groups\<close>

definition solved :: "workItem list \<Rightarrow> bool \<Rightarrow> (matchGroup \<times> Allocation list) list \<Rightarrow> bool" where
  "solved items full xs \<longleftrightarrow> distinct (map (gkey \<circ> fst) xs)
     \<and> (gkey \<circ> fst) ` set xs = (\<lambda>w. group_key (payment w)) ` set items
     \<and> (\<forall>(g, als) \<in> set xs. ginv g \<and> accounted g als \<and> same_static (spec_group items (gkey g)) g
          \<and> (full \<longrightarrow> one_side_done g))"

definition solved_items :: "(matchGroup \<times> Allocation list) list \<Rightarrow> workItem list" where
  "solved_items xs = concat (map (\<lambda>ga. group_items (fst ga)) xs)"

definition result_of :: "workItem \<Rightarrow> IntentResult" where
  "result_of w = \<lparr>ir_Intent = payment w, ir_IntentID = wid w, ir_MatchedAmount = Some (matched w),
     ir_FallbackAmount = Some (remaining w)\<rparr>"

lemma groups_ok_entries:
  assumes "groups_ok items groups" "(k, g) \<in> set groups" shows "g = spec_group items k"
  using assms by (metis groups_ok_def map_of_eq_Some_iff option.distinct(1) option.inject)

lemma groups_ok_keys: "groups_ok items groups \<Longrightarrow> fst ` set groups = (\<lambda>w. group_key (payment w)) ` set items"
  unfolding dom_map_of_conv_image_fst [symmetric] by (auto simp: groups_ok_def dom_def split: if_splits)

context btree_laws
begin

lemma groups_solved:
  assumes "matchable H ps" "groups_ok (map (mk_item H) ps) groups"
  shows "\<exists>xs. map_res (\<lambda>kg. match_group bt mode (snd kg)) (sortedGroups groups) = Inr xs
           \<and> solved (map (mk_item H) ps) (mode = FullMode) xs"
proof -
  let ?items = "map (mk_item H) ps"
  define f where "f kg = projr (match_group bt mode (snd kg))" for kg :: "GroupKey \<times> matchGroup"
  have f: "match_group bt mode g = Inr (f (k, g)) \<and> (case f (k, g) of (g', als) \<Rightarrow>
      ginv g' \<and> gkey g' = k \<and> accounted g' als \<and> same_static (spec_group ?items k) g' \<and> (mode = FullMode \<longrightarrow> one_side_done g'))"
    if "(k, g) \<in> set groups" for k g
    using match_group_ok [OF spec_group_start [OF assms(1)], of mode k] groups_ok_entries [OF assms(2) that]
    by (auto simp: f_def same_static_def spec_group_def)
  have m: "map_res (\<lambda>kg. match_group bt mode (snd kg)) (sortedGroups groups) = Inr (map f (sortedGroups groups))"
    using f by (intro map_res_total) (auto simp: sortedGroups_def)
  have k: "gkey (fst (f kg)) = fst kg" if "kg \<in> set (sortedGroups groups)" for kg
    using f [of "fst kg" "snd kg"] that by (auto simp: sortedGroups_def split: prod.splits)
  then have "map (gkey \<circ> fst) (map f (sortedGroups groups)) = map fst (sortedGroups groups)" by simp
  then have "distinct (map (gkey \<circ> fst) (map f (sortedGroups groups)))"
    using assms(2) by (simp only: sortedGroups_def distinct_map_sort_key groups_ok_def)
  moreover have "(gkey \<circ> fst) ` set (map f (sortedGroups groups)) = fst ` set (sortedGroups groups)"
    using k by (auto simp: image_image intro!: image_cong)
  moreover have "\<forall>(g, als) \<in> set (map f (sortedGroups groups)). ginv g \<and> accounted g als
      \<and> same_static (spec_group ?items (gkey g)) g \<and> (mode = FullMode \<longrightarrow> one_side_done g)"
    using f by (fastforce simp: sortedGroups_def)
  ultimately show ?thesis
    using m groups_ok_keys [OF assms(2)] by (auto simp: solved_def sortedGroups_def)
qed

end

text \<open>The solved groups hold exactly the items of the payments, up to what was matched.\<close>

lemma mset_split_by_key:
  assumes "distinct ks" "\<forall>x \<in> set xs. key x \<in> set ks"
  shows "mset (concat (map (\<lambda>k. filter (\<lambda>x. key x = k) xs) ks)) = mset xs"
  using assms
proof (induction ks arbitrary: xs)
  case (Cons k ks)
  let ?r = "filter (\<lambda>x. key x \<noteq> k) xs"
  have "filter (\<lambda>x. key x = k') xs = filter (\<lambda>x. key x = k') ?r" if "k' \<in> set ks" for k'
    using Cons.prems(1) that by (auto intro: filter_cong)
  then have "concat (map (\<lambda>k. filter (\<lambda>x. key x = k) xs) ks) = concat (map (\<lambda>k. filter (\<lambda>x. key x = k) ?r) ks)"
    by (metis (no_types, lifting) map_cong)
  then have "mset (concat (map (\<lambda>k. filter (\<lambda>x. key x = k) xs) ks)) = mset ?r"
    using Cons.IH [of ?r] Cons.prems by auto
  then show ?case by (simp flip: multiset_partition)
qed simp

lemma static_group_items:
  "same_static g g' \<Longrightarrow> map static (group_items g') = map static (group_items g)"
  by (simp add: same_static_def group_items_def)

lemma mset_spec_group:
  "mset (map static (group_items (spec_group items k)))
     = mset (map static (filter (\<lambda>w. group_key (payment w) = k) items))"
  by (induction items) (auto simp: group_items_def spec_group_def)

lemma solved_mset:
  assumes "solved items full xs" shows "mset (map static (solved_items xs)) = mset (map static items)"
proof -
  let ?key = "\<lambda>w. group_key (payment w)"
  have "mset (map static (group_items (fst ga))) = mset (map static (filter (\<lambda>w. ?key w = gkey (fst ga)) items))"
    if "ga \<in> set xs" for ga
  proof -
    have "same_static (spec_group items (gkey (fst ga))) (fst ga)" using assms that by (auto simp: solved_def)
    then show ?thesis by (simp only: static_group_items mset_spec_group)
  qed
  then have "mset (map static (solved_items xs))
      = mset (map static (concat (map (\<lambda>ga. filter (\<lambda>w. ?key w = gkey (fst ga)) items) xs)))"
    unfolding solved_items_def by (induction xs) auto
  also have "\<dots> = mset (map static (concat (map (\<lambda>k. filter (\<lambda>w. ?key w = k) items) (map (gkey \<circ> fst) xs))))"
    by (simp add: comp_def)
  also have "\<dots> = mset (map static items)"
    using mset_split_by_key [of "map (gkey \<circ> fst) xs" items ?key] assms
    by (simp only: mset_map) (force simp: solved_def)
  finally show ?thesis .
qed

lemma solved_payments:
  assumes "solved (map (mk_item H) ps) full xs" shows "mset (map payment (solved_items xs)) = mset ps"
  using arg_cong [OF solved_mset [OF assms], of "image_mset fst"]
  by (simp add: static_def multiset.map_comp comp_def)

lemma solved_wids:
  assumes "solved (map (mk_item H) ps) full xs" shows "mset (map wid (solved_items xs)) = mset (map (pid H) ps)"
  using arg_cong [OF solved_mset [OF assms], of "image_mset (\<lambda>x. fst (snd x))"]
  by (simp add: static_def multiset.map_comp comp_def)

lemma solved_item:
  assumes "solved (map (mk_item H) ps) full xs" "w \<in> set (solved_items xs)"
  shows "item_ok w" "payment w \<in> set ps" "wid w = pid H (payment w)"
proof -
  show "item_ok w"
    using assms by (fastforce simp: solved_def solved_items_def ginv_def)
  have "static w \<in> set (map static (map (mk_item H) ps))"
    using assms(2) unfolding mset_eq_setD [OF solved_mset [OF assms(1)], symmetric] by simp
  then show "payment w \<in> set ps" "wid w = pid H (payment w)"
    by (auto simp: static_def)
qed

lemma buildResults_ok:
  assumes "matchable H ps" "solved (map (mk_item H) ps) full xs"
  shows "buildResults H (solved_items xs) = Inr (map result_of (sort_key wid (solved_items xs)))"
  unfolding buildResults_def
proof (rule map_res_total)
  fix w assume "w \<in> set (sort_key wid (solved_items xs))"
  then have "w \<in> set (solved_items xs)" by simp
  note w = solved_item [OF assms(2) this]
  have "acceptable H (ChainID (hd ps)) (payment w)" using assms(1) w(2) by (auto simp: matchable_def)
  from acceptable_ID [OF this] acceptable_amount [OF this] w(1,3)
  show "NewIntentResult H (payment w) (Some (matched w)) = Inr (result_of w)"
    by (auto simp: NewIntentResult_Inr result_of_def item_ok_def)
qed

context btree_laws
begin

lemma Match_succeeds:
  assumes "matchable H ps"
  obtains xs where "solved (map (mk_item H) ps) (NormalizeMode mode = FullMode) xs"
    "MatchWithMode bt H ps mode = Inr \<lparr>Results = map result_of (sort_key wid (solved_items xs)),
       Allocations = concat (map snd xs)\<rparr>"
proof -
  obtain groups where g: "prepare H ps = Inr groups" using prepare_succeeds [OF assms] by blast
  obtain xs where xs: "map_res (\<lambda>kg. match_group bt (NormalizeMode mode) (snd kg)) (sortedGroups groups) = Inr xs"
    "solved (map (mk_item H) ps) (NormalizeMode mode = FullMode) xs"
    using groups_solved [OF assms prepare_Inr(1) [OF g]] by blast
  show thesis
  proof (rule that [OF xs(2)])
    show "MatchWithMode bt H ps mode = Inr \<lparr>Results = map result_of (sort_key wid (solved_items xs)),
       Allocations = concat (map snd xs)\<rparr>"
      using g xs(1) buildResults_ok [OF assms xs(2)]
      by (simp add: MatchWithMode_def Let_def solved_items_def)
  qed
qed

lemma Match_matchable: "MatchWithMode bt H ps mode = Inr out \<Longrightarrow> matchable H ps"
  by (auto simp: MatchWithMode_def Let_def bind_res_eq_Inr dest: prepare_Inr)

lemma Match_solved:
  assumes "MatchWithMode bt H ps mode = Inr out"
  obtains xs where "matchable H ps" "solved (map (mk_item H) ps) (NormalizeMode mode = FullMode) xs"
    "Results out = map result_of (sort_key wid (solved_items xs))" "Allocations out = concat (map snd xs)"
  using Match_succeeds [OF Match_matchable [OF assms], of mode] assms Match_matchable [OF assms] that
  by (metis Output.select_convs sum.inject(2))

end

section \<open>Sums over the results\<close>

text \<open>The results that go from shard \<open>s\<close> to shard \<open>d\<close>, and the total of a quantity over them.\<close>

definition from_to :: "int \<Rightarrow> int \<Rightarrow> IntentResult \<Rightarrow> bool" where
  "from_to s d r \<longleftrightarrow> SourceShard (ir_Intent r) = s \<and> DestinationShard (ir_Intent r) = d"

definition flow_total :: "(IntentResult \<Rightarrow> int) \<Rightarrow> int \<Rightarrow> int \<Rightarrow> IntentResult list \<Rightarrow> int" where
  "flow_total f s d rs = sum_list (map f (filter (from_to s d) rs))"

lemma flow_total_perm: "mset xs = mset ys \<Longrightarrow> flow_total f s d xs = flow_total f s d ys"
  unfolding flow_total_def by (metis mset_filter mset_map sum_mset_sum_list)

lemma flow_total_concat: "flow_total f s d (concat xss) = sum_list (map (flow_total f s d) xss)"
  by (induction xss) (simp_all add: flow_total_def)

lemma flow_total_results:
  "flow_total f s d (map result_of (sort_key wid (solved_items xs)))
     = sum_list (map (\<lambda>ga. flow_total f s d (map result_of (group_items (fst ga)))) xs)"
proof -
  have "flow_total f s d (map result_of (sort_key wid (solved_items xs))) = flow_total f s d (map result_of (solved_items xs))"
    by (rule flow_total_perm) (simp add: mset_map_sort_key)
  also have "\<dots> = flow_total f s d (concat (map (\<lambda>ga. map result_of (group_items (fst ga))) xs))"
    by (simp add: solved_items_def map_concat comp_def)
  finally show ?thesis by (simp add: flow_total_concat comp_def)
qed

definition pair_key :: "int \<Rightarrow> int \<Rightarrow> GroupKey" where
  "pair_key s d = \<lparr>LowerShard = min s d, HigherShard = max s d, GroupAssetID = NativeAssetID\<rparr>"

lemma solved_sides:
  assumes "matchable H ps" "solved (map (mk_item H) ps) full xs" "(g, als) \<in> set xs"
  shows "w \<in> set (lowerToHigher g) \<Longrightarrow> SourceShard (payment w) < DestinationShard (payment w)
           \<and> gkey g = pair_key (SourceShard (payment w)) (DestinationShard (payment w))"
    and "w \<in> set (higherToLower g) \<Longrightarrow> DestinationShard (payment w) < SourceShard (payment w)
           \<and> gkey g = pair_key (SourceShard (payment w)) (DestinationShard (payment w))"
proof -
  have s: "map static (lowerToHigher g) = map static (lowerToHigher (spec_group (map (mk_item H) ps) (gkey g)))"
    "map static (higherToLower g) = map static (higherToLower (spec_group (map (mk_item H) ps) (gkey g)))"
    using assms(2,3) by (auto simp: solved_def same_static_def)
  have ps: "SourceShard p \<noteq> DestinationShard p \<and> AssetID p = NativeAssetID" if "p \<in> set ps" for p
    using assms(1) that by (auto simp: matchable_def dest!: acceptable_shards)
  {
    assume "w \<in> set (lowerToHigher g)"
    then have "static w \<in> set (map static (lowerToHigher (spec_group (map (mk_item H) ps) (gkey g))))"
      unfolding s(1) [symmetric] by simp
    then show "SourceShard (payment w) < DestinationShard (payment w)
           \<and> gkey g = pair_key (SourceShard (payment w)) (DestinationShard (payment w))"
      using ps by (force simp: spec_group_def static_def pair_key_def group_key_def)
  next
    assume "w \<in> set (higherToLower g)"
    then have "static w \<in> set (map static (higherToLower (spec_group (map (mk_item H) ps) (gkey g))))"
      unfolding s(2) [symmetric] by simp
    then show "DestinationShard (payment w) < SourceShard (payment w)
           \<and> gkey g = pair_key (SourceShard (payment w)) (DestinationShard (payment w))"
      using ps by (force simp: spec_group_def static_def pair_key_def group_key_def)
  }
qed

lemma pair_key_eq: "s < d \<Longrightarrow> s' < d' \<Longrightarrow> pair_key s d = pair_key s' d' \<longleftrightarrow> s = s' \<and> d = d'"
  by (simp add: pair_key_def min_def max_def)

lemma pair_key_sym: "pair_key d s = pair_key s d"
  by (simp add: pair_key_def min.commute max.commute)

lemma group_flow:
  assumes m: "matchable H ps" "solved (map (mk_item H) ps) full xs" "(g, als) \<in> set xs" and sd: "s < d"
  shows "flow_total f s d (map result_of (group_items g))
           = (if gkey g = pair_key s d then sum_list (map (\<lambda>w. f (result_of w)) (lowerToHigher g)) else 0)"
    and "flow_total f d s (map result_of (group_items g))
           = (if gkey g = pair_key s d then sum_list (map (\<lambda>w. f (result_of w)) (higherToLower g)) else 0)"
proof -
  have l: "from_to s d (result_of w) \<longleftrightarrow> gkey g = pair_key s d" "\<not> from_to d s (result_of w)"
    if "w \<in> set (lowerToHigher g)" for w
    using solved_sides(1) [OF m that] sd pair_key_eq [of "SourceShard (payment w)" "DestinationShard (payment w)" s d]
    by (auto simp: from_to_def result_of_def)
  have h: "from_to d s (result_of w) \<longleftrightarrow> gkey g = pair_key s d" "\<not> from_to s d (result_of w)"
    if "w \<in> set (higherToLower g)" for w
    using solved_sides(2) [OF m that] sd pair_key_sym [of "SourceShard (payment w)" "DestinationShard (payment w)"]
      pair_key_eq [of "DestinationShard (payment w)" "SourceShard (payment w)" s d]
    by (auto simp: from_to_def result_of_def)
  have F: "filter (from_to s d) (map result_of (group_items g)) = (if gkey g = pair_key s d then map result_of (lowerToHigher g) else [])"
    "filter (from_to d s) (map result_of (group_items g)) = (if gkey g = pair_key s d then map result_of (higherToLower g) else [])"
    using l h by (auto simp: group_items_def filter_map filter_empty_conv comp_def intro!: filter_True filter_False)
  show "flow_total f s d (map result_of (group_items g))
           = (if gkey g = pair_key s d then sum_list (map (\<lambda>w. f (result_of w)) (lowerToHigher g)) else 0)"
    "flow_total f d s (map result_of (group_items g))
           = (if gkey g = pair_key s d then sum_list (map (\<lambda>w. f (result_of w)) (higherToLower g)) else 0)"
    unfolding flow_total_def F by (simp_all add: comp_def)
qed

lemma matched_result [simp]: "matched_of (result_of w) = matched w" "fallback_of (result_of w) = remaining w"
  "ir_Intent (result_of w) = payment w" "ir_IntentID (result_of w) = wid w"
  by (simp_all add: matched_of_def fallback_of_def result_of_def)

lemma sum_list_one_key:
  fixes f :: "'a \<Rightarrow> int"
  assumes "distinct (map key xs)" "x \<in> set xs" "\<And>y. y \<in> set xs \<Longrightarrow> key y \<noteq> key x \<Longrightarrow> f y = 0"
  shows "sum_list (map f xs) = f x"
  using assms
proof (induction xs)
  case (Cons y xs)
  show ?case
  proof (cases "x = y")
    case True
    have "f z = 0" if "z \<in> set xs" for z using Cons.prems(1,3) True that by (force simp: image_iff)
    then have "sum_list (map f xs) = 0" by (metis (no_types, lifting) map_cong sum_list_0)
    then show ?thesis using True by simp
  next
    case False
    then have "x \<in> set xs" "key y \<noteq> key x" using Cons.prems(1,2) by auto
    then show ?thesis using Cons by simp
  qed
qed simp

text \<open>The amounts matched between two shards, in terms of the one group of the pair.\<close>

lemma solved_flows:
  assumes m: "matchable H ps" "solved (map (mk_item H) ps) full xs" and sd: "s < d"
    and rs: "rs = map result_of (sort_key wid (solved_items xs))"
  shows "(\<forall>f. flow_total f s d rs = 0 \<and> flow_total f d s rs = 0)
       \<or> (\<exists>(g, als) \<in> set xs. gkey g = pair_key s d \<and> (\<forall>f.
            flow_total f s d rs = sum_list (map (\<lambda>w. f (result_of w)) (lowerToHigher g))
          \<and> flow_total f d s rs = sum_list (map (\<lambda>w. f (result_of w)) (higherToLower g))))"
proof (cases "\<exists>ga \<in> set xs. gkey (fst ga) = pair_key s d")
  case False
  then have "flow_total f s d (map result_of (group_items (fst ga))) = 0
      \<and> flow_total f d s (map result_of (group_items (fst ga))) = 0" if "ga \<in> set xs" for f ga
    using group_flow [OF m _ sd, of "fst ga" "snd ga" f] that by auto
  then show ?thesis
    unfolding rs flow_total_results by (intro disjI1) (simp cong: map_cong)
next
  case True
  then obtain ga where ga: "ga \<in> set xs" "gkey (fst ga) = pair_key s d" by blast
  have d: "distinct (map (gkey \<circ> fst) xs)" using m(2) by (simp add: solved_def)
  have z: "flow_total f s d (map result_of (group_items (fst ha))) = 0
      \<and> flow_total f d s (map result_of (group_items (fst ha))) = 0"
    if "ha \<in> set xs" "(gkey \<circ> fst) ha \<noteq> (gkey \<circ> fst) ga" for f ha
    using group_flow [OF m _ sd, of "fst ha" "snd ha" f] that ga(2) by auto
  have "flow_total f s d rs = flow_total f s d (map result_of (group_items (fst ga)))
      \<and> flow_total f d s rs = flow_total f d s (map result_of (group_items (fst ga)))" for f
    unfolding rs flow_total_results using z by (intro conjI sum_list_one_key [OF d ga(1)]) auto
  then have "\<forall>f. flow_total f s d rs = sum_list (map (\<lambda>w. f (result_of w)) (lowerToHigher (fst ga)))
          \<and> flow_total f d s rs = sum_list (map (\<lambda>w. f (result_of w)) (higherToLower (fst ga)))"
    using group_flow [OF m _ sd, of "fst ga" "snd ga"] ga by simp
  then show ?thesis using ga by (intro disjI2 bexI [of _ ga]) (auto split: prod.splits)
qed

section \<open>The allocations\<close>

lemma sum_list_0_filter: "(\<And>x. x \<in> set xs \<Longrightarrow> \<not> P x) \<Longrightarrow> sum_list (map (f :: 'a \<Rightarrow> int) (filter P xs)) = 0"
  by (induction xs) auto

lemma lower_sum_concat: "lower_sum i (concat xss) = sum_list (map (lower_sum i) xss)"
  by (induction xss) (simp_all add: lower_sum_def)

lemma higher_sum_concat: "higher_sum i (concat xss) = sum_list (map (higher_sum i) xss)"
  by (induction xss) (simp_all add: higher_sum_def)

lemma solved_key_of_wid:
  assumes m: "matchable H ps" "solved (map (mk_item H) ps) full xs"
    and "(g, als) \<in> set xs" "w \<in> set (group_items g)" "(g', als') \<in> set xs" "w' \<in> set (group_items g')"
    and "wid w = wid w'"
  shows "gkey g = gkey g'"
proof -
  have in_items: "w \<in> set (solved_items xs)" "w' \<in> set (solved_items xs)"
    using assms(3-6) by (force simp: solved_items_def)+
  have "payment w = payment w'"
    using solved_item [OF m(2) in_items(1)] solved_item [OF m(2) in_items(2)] assms(7) m(1)
    by (auto simp: matchable_def distinct_map dest: inj_onD)
  then show ?thesis
    using solved_sides [OF m assms(3), of w] solved_sides [OF m assms(5), of w'] assms(4,6)
    by (auto simp: group_items_def)
qed

lemma solved_sums:
  assumes m: "matchable H ps" "solved (map (mk_item H) ps) full xs" and g: "(g, als) \<in> set xs"
  shows "w \<in> set (lowerToHigher g) \<Longrightarrow> lower_sum (wid w) (concat (map snd xs)) = matched w"
    and "w \<in> set (higherToLower g) \<Longrightarrow> higher_sum (wid w) (concat (map snd xs)) = matched w"
proof -
  have d: "distinct (map (gkey \<circ> fst) xs)" using m(2) by (simp add: solved_def)
  have ok: "accounted (fst ga) (snd ga)" if "ga \<in> set xs" for ga
    using m(2) that by (auto simp: solved_def)
  have other: "w' \<notin> set (group_items (fst ga))"
    if "ga \<in> set xs" "(gkey \<circ> fst) ga \<noteq> (gkey \<circ> fst) (g, als)" "w \<in> set (group_items g)" "wid w' = wid w" for ga w w'
    using solved_key_of_wid [OF m g that(3), of "fst ga" "snd ga" w'] that by auto
  show "lower_sum (wid w) (concat (map snd xs)) = matched w" if w: "w \<in> set (lowerToHigher g)"
  proof -
    have "lower_sum (wid w) (snd ga) = 0" if "ga \<in> set xs" "(gkey \<circ> fst) ga \<noteq> (gkey \<circ> fst) (g, als)" for ga
      using ok [OF that(1)] other [OF that, of w] w
      by (auto simp: accounted_def alloc_ok_def lower_sum_def group_items_def filter_empty_conv
          intro!: sum_list_0_filter)
    then show ?thesis
      using sum_list_one_key [OF d g, of "\<lambda>ga. lower_sum (wid w) (snd ga)"] ok [OF g] w
      by (simp add: lower_sum_concat comp_def accounted_def)
  qed
  show "higher_sum (wid w) (concat (map snd xs)) = matched w" if w: "w \<in> set (higherToLower g)"
  proof -
    have "higher_sum (wid w) (snd ga) = 0" if "ga \<in> set xs" "(gkey \<circ> fst) ga \<noteq> (gkey \<circ> fst) (g, als)" for ga
      using ok [OF that(1)] other [OF that, of w] w
      by (auto simp: accounted_def alloc_ok_def higher_sum_def group_items_def filter_empty_conv
          intro!: sum_list_0_filter)
    then show ?thesis
      using sum_list_one_key [OF d g, of "\<lambda>ga. higher_sum (wid w) (snd ga)"] ok [OF g] w
      by (simp add: higher_sum_concat comp_def accounted_def)
  qed
qed

section \<open>Properties of the matcher\<close>

lemma acceptable_iff:
  "acceptable H c p \<longleftrightarrow> Version p = 1 \<and> ChainID p = c \<and> 0 < amount_of p
     \<and> length (big_bytes (amount_of p)) < 2 ^ 32 \<and> Sender p \<noteq> Recipient p
     \<and> 0 \<le> SourceShard p \<and> 0 \<le> DestinationShard p \<and> SourceShard p \<noteq> DestinationShard p
     \<and> AssetID p = 0"
  by (cases "Amount p") (auto simp: acceptable_def validatePaymentShape_def fail_if_eq_Inr amount_of_def
      ID_Inr CanonicalBytes_Inr CurrentVersion_def NativeAssetID_def not_less)

text \<open>
  C22. Matching succeeds exactly when every payment has the supported version, the chain of the
  first one, a positive amount that can be encoded, different participants, two different
  non-negative shards and the native asset, and no two payments have the same identifier. In
  particular no internal invariant check of the matcher can fail, in any mode, and its loops end.
\<close>

theorem MatchWithMode_succeeds_iff:
  assumes "btree_laws bt elems valid"
  shows "(\<exists>out. MatchWithMode bt H ps mode = Inr out) \<longleftrightarrow>
     (\<forall>p \<in> set ps. Version p = 1 \<and> ChainID p = ChainID (hd ps) \<and> 0 < amount_of p
       \<and> length (big_bytes (amount_of p)) < 2 ^ 32 \<and> Sender p \<noteq> Recipient p
       \<and> 0 \<le> SourceShard p \<and> 0 \<le> DestinationShard p \<and> SourceShard p \<noteq> DestinationShard p
       \<and> AssetID p = 0)
     \<and> distinct (map (pid H) ps)"
  unfolding acceptable_iff [symmetric, where H = H] matchable_def [symmetric]
  using btree_laws.Match_matchable [OF assms] btree_laws.Match_succeeds [OF assms] by metis

lemma Match_results:
  assumes "btree_laws bt elems valid" "MatchWithMode bt H ps mode = Inr out"
  shows "mset (map ir_Intent (Results out)) = mset ps
     \<and> sorted_wrt (<) (map ir_IntentID (Results out))
     \<and> (\<forall>r \<in> set (Results out). IntentResult_Validate H r = Inr ())"
proof (intro conjI)
  obtain xs where m: "matchable H ps" "solved (map (mk_item H) ps) (NormalizeMode mode = FullMode) xs"
    and rs: "Results out = map result_of (sort_key wid (solved_items xs))"
    by (rule btree_laws.Match_solved [OF assms])
  show "mset (map ir_Intent (Results out)) = mset ps"
    using solved_payments [OF m(2)] unfolding rs by (simp add: comp_def mset_map_sort_key)
  have "distinct (map wid (solved_items xs))"
    using m(1) mset_eq_imp_distinct_iff [OF solved_wids [OF m(2)]] by (simp add: matchable_def)
  then show "sorted_wrt (<) (map ir_IntentID (Results out))"
    unfolding rs by (simp add: comp_def strict_sorted_map_sort_key)
  show "\<forall>r \<in> set (Results out). IntentResult_Validate H r = Inr ()"
  proof
    fix r assume "r \<in> set (Results out)"
    then obtain w where w: "w \<in> set (solved_items xs)" "r = result_of w" unfolding rs by auto
    note i = solved_item [OF m(2) w(1)]
    have "acceptable H (ChainID (hd ps)) (payment w)" using m(1) i(2) by (auto simp: matchable_def)
    then show "IntentResult_Validate H r = Inr ()"
      using i(1,3) acceptable_ID acceptable_amount unfolding IntentResult_Validate_ok_iff w(2)
      by (fastforce simp: conserving_def item_ok_def result_of_def)
  qed
qed

text \<open>
  C20. The results are one per payment, in ascending order of the intent identifiers; each carries
  its payment's identifier, passes its own validation (its matched and fallback amounts are
  non-negative and add up to the amount) and no payment is lost, duplicated or invented.
\<close>

theorem MatchWithMode_results:
  assumes "btree_laws bt elems valid" "MatchWithMode bt H ps mode = Inr out"
  shows "mset (map ir_Intent (Results out)) = mset ps
     \<and> sorted_wrt (<) (map ir_IntentID (Results out))
     \<and> (\<forall>r \<in> set (Results out). IntentResult_Validate H r = Inr ())"
  using assms by (rule Match_results)

lemma Match_balanced:
  assumes "btree_laws bt elems valid" "MatchWithMode bt H ps mode = Inr out"
  shows "flow_total matched_of s d (Results out) = flow_total matched_of d s (Results out)"
proof -
  have *: "flow_total matched_of s d (Results out) = flow_total matched_of d s (Results out)" if "s < d" for s d
  proof -
    obtain xs where m: "matchable H ps" "solved (map (mk_item H) ps) (NormalizeMode mode = FullMode) xs"
      and rs: "Results out = map result_of (sort_key wid (solved_items xs))"
      by (rule btree_laws.Match_solved [OF assms])
    from solved_flows [OF m that rs] m(2) show ?thesis
      by (fastforce simp: solved_def ginv_def sumMatched_def)
  qed
  then show ?thesis by (metis linorder_neqE)
qed

text \<open>
  C4. Netting is bilateral: between any two shards the total matched in one direction equals the
  total matched in the other, so that no shard gains or loses value by the matched parts.
\<close>

theorem MatchWithMode_balanced:
  assumes "btree_laws bt elems valid" "MatchWithMode bt H ps mode = Inr out"
  shows "flow_total matched_of s d (Results out) = flow_total matched_of d s (Results out)"
  using assms by (rule Match_balanced)

text \<open>
  C19. Full mode matches as much as possible: between two different shards the matched total is
  the smaller of the two directions' payment totals.
\<close>

theorem MatchWithMode_full_optimal:
  assumes "btree_laws bt elems valid" "MatchWithMode bt H ps mode = Inr out"
    and "NormalizeMode mode = FullMode" "s \<noteq> d"
  shows "flow_total matched_of s d (Results out)
     = min (flow_total (\<lambda>r. amount_of (ir_Intent r)) s d (Results out))
           (flow_total (\<lambda>r. amount_of (ir_Intent r)) d s (Results out))"
proof -
  have *: "flow_total matched_of s d (Results out) = min (flow_total (\<lambda>r. amount_of (ir_Intent r)) s d (Results out))
           (flow_total (\<lambda>r. amount_of (ir_Intent r)) d s (Results out))
    \<and> flow_total matched_of d s (Results out) = min (flow_total (\<lambda>r. amount_of (ir_Intent r)) s d (Results out))
           (flow_total (\<lambda>r. amount_of (ir_Intent r)) d s (Results out))" if "s < d" for s d
  proof -
    obtain xs where m: "matchable H ps" "solved (map (mk_item H) ps) (NormalizeMode mode = FullMode) xs"
      and rs: "Results out = map result_of (sort_key wid (solved_items xs))"
      by (rule btree_laws.Match_solved [OF assms(1,2)])
    have "sumMatched (lowerToHigher g) = min (sum_list (map (\<lambda>w. amount_of (payment w)) (lowerToHigher g)))
        (sum_list (map (\<lambda>w. amount_of (payment w)) (higherToLower g)))
      \<and> sumMatched (higherToLower g) = sumMatched (lowerToHigher g)" if "(g, als) \<in> set xs" for g als
    proof -
      have g: "ginv g" "one_side_done g" using m(2) that assms(3) by (auto simp: solved_def)
      have ok: "\<forall>w \<in> set (lowerToHigher g). item_ok w" "\<forall>w \<in> set (higherToLower g). item_ok w"
        using g(1) by (auto simp: ginv_def group_items_def)
      show ?thesis
        using g sum_parts [OF ok(1)] sum_parts [OF ok(2)] sumRemaining_nonneg [OF ok(1)] sumRemaining_nonneg [OF ok(2)]
        unfolding ginv_def one_side_done_def by linarith
    qed
    then show ?thesis
      using solved_flows [OF m that rs] by (fastforce simp: sumMatched_def)
  qed
  show ?thesis
    using * [of s d] * [of d s] assms(4) by (cases "s < d") (auto simp: min.commute)
qed

text \<open>
  C21. The allocations explain the results: what an intent has matched is the sum of the
  allocations that name it in its direction, and every allocation moves a positive amount between
  one intent from the lower to the higher shard of its group and one in the opposite direction.
\<close>

theorem MatchWithMode_allocations:
  assumes "btree_laws bt elems valid" "MatchWithMode bt H ps mode = Inr out"
  shows "(\<forall>r \<in> set (Results out). matched_of r =
       (if SourceShard (ir_Intent r) < DestinationShard (ir_Intent r)
        then lower_sum (ir_IntentID r) (Allocations out) else higher_sum (ir_IntentID r) (Allocations out)))
   \<and> (\<forall>al \<in> set (Allocations out). 0 < AllocAmount al
       \<and> (\<exists>r \<in> set (Results out). ir_IntentID r = LowerToHigherIntentID al
            \<and> from_to (LowerShard (Group al)) (HigherShard (Group al)) r)
       \<and> (\<exists>r \<in> set (Results out). ir_IntentID r = HigherToLowerIntentID al
            \<and> from_to (HigherShard (Group al)) (LowerShard (Group al)) r))"
proof (intro conjI)
  obtain xs where m: "matchable H ps" "solved (map (mk_item H) ps) (NormalizeMode mode = FullMode) xs"
    and rs: "Results out = map result_of (sort_key wid (solved_items xs))" "Allocations out = concat (map snd xs)"
    by (rule btree_laws.Match_solved [OF assms])
  have lo: "from_to (LowerShard (gkey g)) (HigherShard (gkey g)) (result_of w) \<and> result_of w \<in> set (Results out)"
    if "(g, als) \<in> set xs" "w \<in> set (lowerToHigher g)" for g als w
    using solved_sides(1) [OF m that] that
    by (force simp: from_to_def pair_key_def rs(1) solved_items_def group_items_def)
  have hi: "from_to (HigherShard (gkey g)) (LowerShard (gkey g)) (result_of w) \<and> result_of w \<in> set (Results out)"
    if "(g, als) \<in> set xs" "w \<in> set (higherToLower g)" for g als w
    using solved_sides(2) [OF m that] that
    by (force simp: from_to_def pair_key_def rs(1) solved_items_def group_items_def)
  show "\<forall>r \<in> set (Results out). matched_of r =
       (if SourceShard (ir_Intent r) < DestinationShard (ir_Intent r)
        then lower_sum (ir_IntentID r) (Allocations out) else higher_sum (ir_IntentID r) (Allocations out))"
  proof
    fix r assume "r \<in> set (Results out)"
    then obtain g als w where w: "(g, als) \<in> set xs" "w \<in> set (lowerToHigher g) \<or> w \<in> set (higherToLower g)" "r = result_of w"
      unfolding rs(1) by (force simp: solved_items_def group_items_def)
    then show "matched_of r = (if SourceShard (ir_Intent r) < DestinationShard (ir_Intent r)
        then lower_sum (ir_IntentID r) (Allocations out) else higher_sum (ir_IntentID r) (Allocations out))"
      using solved_sums [OF m w(1), of w] solved_sides [OF m w(1), of w] by (auto simp: rs(2))
  qed
  show "\<forall>al \<in> set (Allocations out). 0 < AllocAmount al
       \<and> (\<exists>r \<in> set (Results out). ir_IntentID r = LowerToHigherIntentID al
            \<and> from_to (LowerShard (Group al)) (HigherShard (Group al)) r)
       \<and> (\<exists>r \<in> set (Results out). ir_IntentID r = HigherToLowerIntentID al
            \<and> from_to (HigherShard (Group al)) (LowerShard (Group al)) r)"
  proof
    fix al assume "al \<in> set (Allocations out)"
    then obtain g als where g: "(g, als) \<in> set xs" "al \<in> set als" by (auto simp: rs(2))
    then have "alloc_ok g al" using m(2) by (auto simp: solved_def accounted_def)
    then obtain w w' where "w \<in> set (lowerToHigher g)" "LowerToHigherIntentID al = wid w"
      "w' \<in> set (higherToLower g)" "HigherToLowerIntentID al = wid w'" "Group al = gkey g" "0 < AllocAmount al"
      by (auto simp: alloc_ok_def)
    then show "0 < AllocAmount al
       \<and> (\<exists>r \<in> set (Results out). ir_IntentID r = LowerToHigherIntentID al
            \<and> from_to (LowerShard (Group al)) (HigherShard (Group al)) r)
       \<and> (\<exists>r \<in> set (Results out). ir_IntentID r = HigherToLowerIntentID al
            \<and> from_to (HigherShard (Group al)) (LowerShard (Group al)) r)"
      using lo [OF g(1)] hi [OF g(1)] matched_result(4) by metis
  qed
qed

section \<open>Witnesses\<close>

lemma example_matchable: "matchable length_hash [example_intent, back_intent]"
proof -
  have "acceptable length_hash 11 example_intent" "acceptable length_hash 11 back_intent"
    unfolding acceptable_iff
    by (simp_all add: example_intent_def back_intent_def amount_of_def big_bytes_def big_bytes_nat.simps)
  then show ?thesis
    by (simp add: matchable_def example_pids) (simp add: example_intent_def)
qed

lemma example_match: "\<exists>out. MatchWithMode list_btree length_hash [example_intent, back_intent] mode = Inr out"
  using lbt.Match_succeeds [OF example_matchable] by blast

lemma MatchWithMode_succeeds_iff_witness:
  "btree_laws list_btree set (sorted_wrt lessWorkItem)
   \<and> (\<exists>out. MatchWithMode list_btree length_hash [example_intent, back_intent] ''full'' = Inr out)"
  unfolding MatchWithMode_succeeds_iff [OF lbt.btree_laws_axioms]
  using lbt.btree_laws_axioms by (simp add: example_pids)
    (simp add: example_intent_def back_intent_def amount_of_def big_bytes_def big_bytes_nat.simps)

lemma MatchWithMode_results_witness:
  "\<exists>out. MatchWithMode list_btree length_hash [example_intent, back_intent] ''full'' = Inr out
     \<and> mset (map ir_Intent (Results out)) = {#example_intent, back_intent#}"
  using example_match MatchWithMode_results [OF lbt.btree_laws_axioms] by fastforce

lemma MatchWithMode_balanced_witness:
  "\<exists>out. MatchWithMode list_btree length_hash [example_intent, back_intent] ''best_fit'' = Inr out
     \<and> flow_total matched_of 0 1 (Results out) = flow_total matched_of 1 0 (Results out)"
  using example_match MatchWithMode_balanced [OF lbt.btree_laws_axioms] by blast

lemma example_totals:
  assumes "mset (map ir_Intent rs) = {#example_intent, back_intent#}"
  shows "flow_total (\<lambda>r. amount_of (ir_Intent r)) 0 1 rs = 300"
    and "flow_total (\<lambda>r. amount_of (ir_Intent r)) 1 0 rs = 20"
proof -
  have f: "flow_total (\<lambda>r. amount_of (ir_Intent r)) s d rs
     = sum_mset (image_mset amount_of (filter_mset (\<lambda>p. SourceShard p = s \<and> DestinationShard p = d) (mset (map ir_Intent rs))))" for s d
    unfolding flow_total_def sum_mset_sum_list [symmetric]
    by (simp add: filter_mset_image_mset multiset.map_comp comp_def from_to_def)
  show "flow_total (\<lambda>r. amount_of (ir_Intent r)) 0 1 rs = 300"
    "flow_total (\<lambda>r. amount_of (ir_Intent r)) 1 0 rs = 20"
    unfolding f assms by (simp_all add: example_intent_def back_intent_def amount_of_def)
qed

lemma MatchWithMode_full_optimal_witness:
  "\<exists>out. MatchWithMode list_btree length_hash [example_intent, back_intent] ''full'' = Inr out
     \<and> NormalizeMode ''full'' = FullMode \<and> flow_total matched_of 0 1 (Results out) = 20"
proof -
  obtain out where out: "MatchWithMode list_btree length_hash [example_intent, back_intent] ''full'' = Inr out"
    using example_match by blast
  obtain xs where m: "solved (map (mk_item length_hash) [example_intent, back_intent]) (NormalizeMode ''full'' = FullMode) xs"
    and rs: "Results out = map result_of (sort_key wid (solved_items xs))"
    by (rule lbt.Match_solved [OF out])
  have "mset (map ir_Intent (Results out)) = {#example_intent, back_intent#}"
    using solved_payments [OF m] unfolding rs by (simp add: comp_def mset_map_sort_key)
  note t = example_totals [OF this]
  have "NormalizeMode ''full'' = FullMode" by (simp add: NormalizeMode_def FullMode_def)
  then show ?thesis
    using MatchWithMode_full_optimal [OF lbt.btree_laws_axioms out, of 0 1] t out by simp
qed

lemma MatchWithMode_allocations_witness:
  "\<exists>out. MatchWithMode list_btree length_hash [example_intent, back_intent] ''full'' = Inr out
     \<and> (\<forall>al \<in> set (Allocations out). 0 < AllocAmount al)"
  using example_match MatchWithMode_allocations [OF lbt.btree_laws_axioms] by blast

end
