(* ===== verification/Window.thy ===== *)
theory Window
  imports Model "HOL-Library.Product_Lexorder"
begin

text \<open>
  The window manager, \<open>pkg/netting/window/manager.go\<close> and \<open>state.go\<close>. It reassembles the
  finalized blocks of every shard into a hash chain, collects the payment intents of the blocks
  taken, and seals them into numbered windows, each with one cut per shard.

  A manager is a value of the record \<open>Manager\<close>; an operation returns the manager it leaves behind,
  on the error paths too. Every Go map that is iterated or counted is an association list;
  \<open>SeenHashes\<close> is only looked up and is a partial map. The clock is the sequence of instants it
  will return, with the number of calls so far in the manager. An instant is an integer.
\<close>

section \<open>Data\<close>

record StreamState =
  NextExpectedHeight :: uint64
  ContinuousHeight :: uint64
  ContinuousHash :: hash256
  BufferedBlocks :: "(uint64 \<times> FinalizedBlockReceipt) list"
  UnassignedBlocks :: "(uint64 \<times> FinalizedBlockReceipt) list"
  SeenHashes :: "uint64 \<rightharpoonup> hash256"

record Config =
  cfg_ShardCount :: int
  cfg_BatchSize :: int
  cfg_MaxWindowDuration :: int

record Watermark =
  wk_Height :: uint64
  wk_BlockHash :: hash256

record FrozenWindow =
  fw_WindowID :: uint64
  fw_OpenedAt :: int
  fw_SealedAt :: int
  fw_CloseReason :: string
  fw_Cuts :: "ShardCut list"
  fw_Receipts :: "FinalizedBlockReceipt list"
  fw_Intents :: "PaymentIntent list"

record State =
  st_NextWindowID :: uint64
  st_OpenedAt :: "int option"
  st_Pending :: "(hash256 \<times> PaymentIntent) list"
  st_Assigned :: "(hash256 \<times> uint64) list"
  st_LastAssigned :: "(int \<times> uint64) list"
  st_Streams :: "(int \<times> StreamState) list"
  st_Frozen :: "FrozenWindow list"

record Manager =
  wm_cfg :: Config
  wm_clock :: "nat \<Rightarrow> int"
  wm_ticks :: nat
  wm_nextWindowID :: uint64
  wm_openedAt :: "int option"
  wm_pending :: "(hash256 \<times> PaymentIntent) list"
  wm_assigned :: "(hash256 \<times> uint64) list"
  wm_lastAssigned :: "(int \<times> uint64) list"
  wm_streams :: "(int \<times> StreamState) list"
  wm_frozen :: "FrozenWindow list"

definition Now :: "Manager \<Rightarrow> int \<times> Manager" where
  "Now m = (wm_clock m (wm_ticks m), m\<lparr>wm_ticks := Suc (wm_ticks m)\<rparr>)"

text \<open>\<open>for shardID := range cfg.ShardCount\<close>\<close>

definition shard_range :: "Config \<Rightarrow> int list" where
  "shard_range cfg = [0..cfg_ShardCount cfg - 1]"

text \<open>
  The stream of a shard. \<open>New\<close> and \<open>Restore\<close> create one for every shard of the range and no
  operation removes one, so that the zero value is never looked at (\<open>winv\<close> below).
\<close>

definition nil_stream :: StreamState where
  "nil_stream = \<lparr>NextExpectedHeight = 0, ContinuousHeight = 0, ContinuousHash = 0, BufferedBlocks = [],
     UnassignedBlocks = [], SeenHashes = (\<lambda>_. None)\<rparr>"

definition stream_of :: "Manager \<Rightarrow> int \<Rightarrow> StreamState" where
  "stream_of m s = (case map_of (wm_streams m) s of None \<Rightarrow> nil_stream | Some st \<Rightarrow> st)"

definition last_of :: "Manager \<Rightarrow> int \<Rightarrow> uint64" where
  "last_of m s = (case map_of (wm_lastAssigned m) s of None \<Rightarrow> 0 | Some h \<Rightarrow> h)"

definition set_stream :: "int \<Rightarrow> StreamState \<Rightarrow> Manager \<Rightarrow> Manager" where
  "set_stream s st m = m\<lparr>wm_streams := alist_set s st (wm_streams m)\<rparr>"

section \<open>Construction\<close>

definition validateConfig :: "Config \<Rightarrow> unit res" where
  "validateConfig cfg =
     fail_if (cfg_ShardCount cfg \<le> 0) ErrInvalidConfig (
     fail_if (cfg_BatchSize cfg \<le> 0) ErrInvalidConfig (
     fail_if (cfg_MaxWindowDuration cfg \<le> 0) ErrInvalidConfig (Inr ())))"

definition initial_stream :: "ShardCheckpoint \<Rightarrow> StreamState" where
  "initial_stream cp =
     \<lparr>NextExpectedHeight = cp_Height cp + 1, ContinuousHeight = cp_Height cp,
      ContinuousHash = cp_BlockHash cp, BufferedBlocks = [], UnassignedBlocks = [],
      SeenHashes = [cp_Height cp \<mapsto> cp_BlockHash cp]\<rparr>"

definition New_shard :: "(int \<times> ShardCheckpoint) list \<Rightarrow> Manager \<Rightarrow> int \<Rightarrow> Manager res" where
  "New_shard checkpoints m shardID =
     (case map_of checkpoints shardID of
        None \<Rightarrow> Inl ErrMissingCheckpoint
      | Some cp \<Rightarrow>
          fail_if (cp_Height cp = - 1) ErrMissingCheckpoint (
          Inr (set_stream shardID (initial_stream cp)
                (m\<lparr>wm_lastAssigned := alist_set shardID (cp_Height cp) (wm_lastAssigned m)\<rparr>))))"

definition New :: "Config \<Rightarrow> (nat \<Rightarrow> int) \<Rightarrow> (int \<times> ShardCheckpoint) list \<Rightarrow> Manager res" where
  "New cfg clock checkpoints =
     bind_res (validateConfig cfg) (\<lambda>_.
     fail_if (int (length checkpoints) \<noteq> cfg_ShardCount cfg) ErrMissingCheckpoint (
     fold_res (New_shard checkpoints)
       \<lparr>wm_cfg = cfg, wm_clock = clock, wm_ticks = 0, wm_nextWindowID = 1, wm_openedAt = None,
        wm_pending = [], wm_assigned = [], wm_lastAssigned = [], wm_streams = [], wm_frozen = []\<rparr>
       (shard_range cfg)))"

section \<open>Sealing\<close>

definition sortedPendingIntents :: "(hash256 \<times> PaymentIntent) list \<Rightarrow> PaymentIntent list" where
  "sortedPendingIntents pending = map snd (sort_key fst pending)"

definition cut_of :: "Manager \<Rightarrow> int \<Rightarrow> ShardCut" where
  "cut_of m s =
     \<lparr>cut_ShardID = s, cut_PreviousHeight = last_of m s,
      cut_EndHeight = ContinuousHeight (stream_of m s),
      cut_EndBlockHash = ContinuousHash (stream_of m s)\<rparr>"

definition in_cut :: "Manager \<Rightarrow> int \<Rightarrow> uint64 \<times> FinalizedBlockReceipt \<Rightarrow> bool" where
  "in_cut m s hr \<longleftrightarrow> last_of m s < fst hr \<and> fst hr \<le> ContinuousHeight (stream_of m s)"

text \<open>One iteration of the loop over the shards: the cut, the receipts taken, the new manager.\<close>

definition seal_shard ::
    "Manager \<times> ShardCut list \<times> FinalizedBlockReceipt list \<Rightarrow> int
     \<Rightarrow> Manager \<times> ShardCut list \<times> FinalizedBlockReceipt list" where
  "seal_shard acc s =
     (case acc of (m, cuts, receipts) \<Rightarrow>
       let stream = stream_of m s in
       (set_stream s (stream\<lparr>UnassignedBlocks := filter (\<lambda>hr. \<not> in_cut m s hr) (UnassignedBlocks stream)\<rparr>)
          (m\<lparr>wm_lastAssigned := alist_set s (ContinuousHeight stream) (wm_lastAssigned m)\<rparr>),
        cuts @ [cut_of m s],
        receipts @ map snd (filter (in_cut m s) (UnassignedBlocks stream))))"

definition seal :: "string \<Rightarrow> Manager \<Rightarrow> FrozenWindow \<times> Manager" where
  "seal closeReason m0 =
     (case Now m0 of (now, m) \<Rightarrow>
      case foldl seal_shard (m, [], []) (shard_range (wm_cfg m)) of (m1, cuts, receipts) \<Rightarrow>
      let window =
        \<lparr>fw_WindowID = wm_nextWindowID m,
         fw_OpenedAt = (case wm_openedAt m of None \<Rightarrow> 0 | Some t \<Rightarrow> t), fw_SealedAt = now,
         fw_CloseReason = closeReason, fw_Cuts = cuts,
         fw_Receipts = sort_key (\<lambda>r. (rc_ShardID r, rc_Height r)) receipts,
         fw_Intents = sortedPendingIntents (wm_pending m)\<rparr>
      in (window,
          m1\<lparr>wm_assigned := foldl (\<lambda>as ip. alist_set (fst ip) (fw_WindowID window) as) (wm_assigned m1) (wm_pending m1),
             wm_pending := [], wm_openedAt := None, wm_nextWindowID := wm_nextWindowID m1 + 1,
             wm_frozen := wm_frozen m1 @ [window]\<rparr>))"

definition TryClose :: "Manager \<Rightarrow> FrozenWindow option \<times> Manager" where
  "TryClose m =
     (case wm_openedAt m of
        None \<Rightarrow> (None, m)
      | Some openedAt \<Rightarrow>
          if wm_pending m = [] then (None, m)
          else
            let sizeReady = int (length (wm_pending m)) \<ge> cfg_BatchSize (wm_cfg m) in
            case Now m of (now, m1) \<Rightarrow>
            let timeReady = \<not> now < openedAt + cfg_MaxWindowDuration (wm_cfg m1) in
            if \<not> sizeReady \<and> \<not> timeReady then (None, m1)
            else case seal (if sizeReady then ''batch_size'' else ''max_window_duration'') m1 of
                   (window, m2) \<Rightarrow> (Some window, m2))"

section \<open>Receipts\<close>

fun validate_intents ::
    "hasher \<Rightarrow> Manager \<Rightarrow> int \<Rightarrow> hash256 list \<Rightarrow> PaymentIntent list \<Rightarrow> hash256 list res" where
  "validate_intents H m shardID seen [] = Inr []"
| "validate_intents H m shardID seen (p # ps) =
     fail_if (SourceShard p \<noteq> shardID) ErrInvalidReceipt (
     bind_res (wrap_err ErrInvalidReceipt (ID H p)) (\<lambda>id.
     fail_if (id \<in> set seen) ErrWindowDuplicateIntent (
     fail_if (map_of (wm_pending m) id \<noteq> None) ErrWindowDuplicateIntent (
     fail_if (map_of (wm_assigned m) id \<noteq> None) ErrWindowDuplicateIntent (
     bind_res (validate_intents H m shardID (id # seen) ps) (\<lambda>ids. Inr (id # ids)))))))"

definition validateReceiptIntents :: "hasher \<Rightarrow> Manager \<Rightarrow> FinalizedBlockReceipt \<Rightarrow> hash256 list res" where
  "validateReceiptIntents H m receipt = validate_intents H m (rc_ShardID receipt) [] (rc_Intents receipt)"

definition dropBuffered :: "StreamState \<Rightarrow> uint64 \<Rightarrow> StreamState" where
  "dropBuffered stream height =
     stream\<lparr>BufferedBlocks := alist_del height (BufferedBlocks stream),
            SeenHashes := (SeenHashes stream)(height := None)\<rparr>"

text \<open>The part of an iteration of \<open>advanceStream\<close> that takes a validated receipt.\<close>

definition take_receipt ::
    "int \<Rightarrow> FinalizedBlockReceipt \<Rightarrow> hash256 list \<Rightarrow> Manager \<Rightarrow> Manager" where
  "take_receipt shardID receipt intentIDs m =
     (let stream = stream_of m shardID;
          m1 = set_stream shardID
            (stream\<lparr>BufferedBlocks := alist_del (rc_Height receipt) (BufferedBlocks stream),
                    UnassignedBlocks := alist_set (rc_Height receipt) receipt (UnassignedBlocks stream),
                    ContinuousHeight := rc_Height receipt, ContinuousHash := rc_BlockHash receipt,
                    NextExpectedHeight := NextExpectedHeight stream + 1\<rparr>) m;
          m2 = m1\<lparr>wm_pending := foldl (\<lambda>ps ip. alist_set (fst ip) (snd ip) ps) (wm_pending m1)
                                  (zip intentIDs (rc_Intents receipt))\<rparr>
      in if intentIDs \<noteq> [] \<and> wm_openedAt m2 = None
         then case Now m2 of (now, m3) \<Rightarrow> m3\<lparr>wm_openedAt := Some now\<rparr>
         else m2)"

text \<open>
  The loop of \<open>advanceStream\<close>; every iteration that continues removes a buffered block, so the
  fuel given, one more than the buffered blocks, is never used up (\<open>advance_total\<close>).
\<close>

fun advance ::
    "nat \<Rightarrow> hasher \<Rightarrow> int \<Rightarrow> FrozenWindow option \<Rightarrow> Manager \<Rightarrow> Manager \<times> FrozenWindow option \<times> err option" where
  "advance 0 H shardID firstSealed m = (m, firstSealed, Some OutOfFuel)"
| "advance (Suc fuel) H shardID firstSealed m =
     (let stream = stream_of m shardID in
      case map_of (BufferedBlocks stream) (NextExpectedHeight stream) of
        None \<Rightarrow> (m, firstSealed, None)
      | Some receipt \<Rightarrow>
          if rc_ParentHash receipt \<noteq> ContinuousHash stream
          then (set_stream shardID (dropBuffered stream (rc_Height receipt)) m, firstSealed, Some ErrParentHashMismatch)
          else
            case validateReceiptIntents H m receipt of
              Inl e \<Rightarrow> (set_stream shardID (dropBuffered stream (rc_Height receipt)) m, firstSealed, Some e)
            | Inr intentIDs \<Rightarrow>
                case TryClose (take_receipt shardID receipt intentIDs m) of (sealed, m') \<Rightarrow>
                advance fuel H shardID (if firstSealed = None then sealed else firstSealed) m')"

definition advanceStream ::
    "hasher \<Rightarrow> int \<Rightarrow> Manager \<Rightarrow> Manager \<times> FrozenWindow option \<times> err option" where
  "advanceStream H shardID m =
     advance (Suc (length (BufferedBlocks (stream_of m shardID)))) H shardID None m"

definition AddReceipt ::
    "hasher \<Rightarrow> FinalizedBlockReceipt \<Rightarrow> Manager \<Rightarrow> Manager \<times> FrozenWindow option \<times> err option" where
  "AddReceipt H receipt m =
     (case map_of (wm_streams m) (rc_ShardID receipt) of
        None \<Rightarrow> (m, None, Some ErrUnknownShard)
      | Some stream \<Rightarrow>
          if rc_Height receipt = 0 then (m, None, Some ErrInvalidReceipt)
          else case SeenHashes stream (rc_Height receipt) of
            Some seenHash \<Rightarrow>
              if seenHash \<noteq> rc_BlockHash receipt then (m, None, Some ErrConflictingReceipt)
              else (case TryClose m of (w, m') \<Rightarrow> (m', w, None))
          | None \<Rightarrow>
              if rc_Height receipt < NextExpectedHeight stream then (m, None, Some ErrStaleReceipt)
              else
                case advanceStream H (rc_ShardID receipt)
                  (set_stream (rc_ShardID receipt)
                    (stream\<lparr>BufferedBlocks := alist_set (rc_Height receipt) receipt (BufferedBlocks stream),
                            SeenHashes := (SeenHashes stream)(rc_Height receipt \<mapsto> rc_BlockHash receipt)\<rparr>) m)
                of (m1, firstSealed, e) \<Rightarrow>
                  if e \<noteq> None then (m1, firstSealed, e)
                  else case TryClose m1 of (lastSealed, m2) \<Rightarrow>
                    (m2, if firstSealed \<noteq> None then firstSealed else lastSealed, None))"

section \<open>Observers and the frozen queue\<close>

definition PendingIntentCount :: "Manager \<Rightarrow> nat" where
  "PendingIntentCount m = length (wm_pending m)"

definition FrozenWindowCount :: "Manager \<Rightarrow> nat" where
  "FrozenWindowCount m = length (wm_frozen m)"

definition Watermark_of :: "Manager \<Rightarrow> int \<Rightarrow> Watermark res" where
  "Watermark_of m shardID =
     (case map_of (wm_streams m) shardID of
        None \<Rightarrow> Inl ErrUnknownShard
      | Some stream \<Rightarrow> Inr \<lparr>wk_Height = ContinuousHeight stream, wk_BlockHash = ContinuousHash stream\<rparr>)"

definition PeekFrozen :: "Manager \<Rightarrow> FrozenWindow option" where
  "PeekFrozen m = (case wm_frozen m of [] \<Rightarrow> None | w # _ \<Rightarrow> Some w)"

definition AcknowledgeFrozen :: "uint64 \<Rightarrow> Manager \<Rightarrow> Manager res" where
  "AcknowledgeFrozen windowID m =
     (case wm_frozen m of
        [] \<Rightarrow> Inl ErrFrozenQueueEmpty
      | w # ws \<Rightarrow> fail_if (fw_WindowID w \<noteq> windowID) ErrUnexpectedWindow (Inr (m\<lparr>wm_frozen := ws\<rparr>)))"

section \<open>Snapshots\<close>

definition height_range :: "uint64 \<Rightarrow> uint64 \<Rightarrow> uint64 list" where
  "height_range a b = map word_of_nat [Suc (unat a)..<Suc (unat b)]"

fun collectReceiptIntentIDs :: "hasher \<Rightarrow> hash256 list \<Rightarrow> PaymentIntent list \<Rightarrow> hash256 list res" where
  "collectReceiptIntentIDs H ids [] = Inr ids"
| "collectReceiptIntentIDs H ids (p # ps) =
     bind_res (wrap_err ErrInvalidState (ID H p)) (\<lambda>id.
     fail_if (id \<in> set ids) ErrInvalidState (
     collectReceiptIntentIDs H (id # ids) ps))"

definition validate_unassigned ::
    "hasher \<Rightarrow> int \<Rightarrow> StreamState \<Rightarrow> hash256 \<times> hash256 list \<Rightarrow> uint64 \<Rightarrow> (hash256 \<times> hash256 list) res" where
  "validate_unassigned H shardID stream acc height =
     (case map_of (UnassignedBlocks stream) height of
        None \<Rightarrow> Inl ErrInvalidState
      | Some receipt \<Rightarrow>
          fail_if (rc_ShardID receipt \<noteq> shardID \<or> rc_Height receipt \<noteq> height
                   \<or> rc_ParentHash receipt \<noteq> fst acc) ErrInvalidState (
          fail_if (SeenHashes stream height \<noteq> Some (rc_BlockHash receipt)) ErrInvalidState (
          bind_res (collectReceiptIntentIDs H (snd acc) (rc_Intents receipt)) (\<lambda>ids.
          Inr (rc_BlockHash receipt, ids)))))"

definition validateStreamState ::
    "hasher \<Rightarrow> int \<Rightarrow> uint64 \<Rightarrow> StreamState \<Rightarrow> hash256 list \<Rightarrow> hash256 list res" where
  "validateStreamState H shardID lastAssigned stream blockIntentIDs =
     fail_if (ContinuousHeight stream = - 1 \<or> NextExpectedHeight stream \<noteq> ContinuousHeight stream + 1)
       ErrInvalidState (
     fail_if (lastAssigned > ContinuousHeight stream) ErrInvalidState (
     fail_if (SeenHashes stream (ContinuousHeight stream) \<noteq> Some (ContinuousHash stream)) ErrInvalidState (
     case SeenHashes stream lastAssigned of
       None \<Rightarrow> Inl ErrInvalidState
     | Some parentHash \<Rightarrow>
         bind_res (fold_res (validate_unassigned H shardID stream) (parentHash, blockIntentIDs)
                    (height_range lastAssigned (ContinuousHeight stream))) (\<lambda>acc.
         fail_if (\<exists>(height, receipt) \<in> set (UnassignedBlocks stream).
                    height \<le> lastAssigned \<or> height > ContinuousHeight stream
                    \<or> rc_ShardID receipt \<noteq> shardID \<or> rc_Height receipt \<noteq> height) ErrInvalidState (
         fail_if (\<exists>(height, receipt) \<in> set (BufferedBlocks stream).
                    height \<le> NextExpectedHeight stream \<or> rc_ShardID receipt \<noteq> shardID
                    \<or> rc_Height receipt \<noteq> height
                    \<or> SeenHashes stream height \<noteq> Some (rc_BlockHash receipt)) ErrInvalidState (
         Inr (snd acc)))))))"

definition validate_shard_state :: "hasher \<Rightarrow> State \<Rightarrow> hash256 list \<Rightarrow> int \<Rightarrow> hash256 list res" where
  "validate_shard_state H state ids shardID =
     (case map_of (st_Streams state) shardID of
        None \<Rightarrow> Inl ErrInvalidState
      | Some stream \<Rightarrow>
          (case map_of (st_LastAssigned state) shardID of
             None \<Rightarrow> Inl ErrInvalidState
           | Some lastAssigned \<Rightarrow> validateStreamState H shardID lastAssigned stream ids))"

definition validatePendingState :: "hasher \<Rightarrow> State \<Rightarrow> hash256 list \<Rightarrow> unit res" where
  "validatePendingState H state blockIntentIDs =
     fail_if (length blockIntentIDs \<noteq> length (st_Pending state)) ErrInvalidState (
     fail_if (\<exists>(id, payment) \<in> set (st_Pending state). ID H payment \<noteq> Inr id
                \<or> id \<notin> set blockIntentIDs \<or> map_of (st_Assigned state) id \<noteq> None) ErrInvalidState (
     Inr ()))"

definition validateAssignedState :: "State \<Rightarrow> unit res" where
  "validateAssignedState state =
     fail_if (\<exists>(id, windowID) \<in> set (st_Assigned state). windowID = 0 \<or> windowID \<ge> st_NextWindowID state)
       ErrInvalidState (Inr ())"

fun validate_frozen :: "Config \<Rightarrow> uint64 \<Rightarrow> uint64 option \<Rightarrow> FrozenWindow list \<Rightarrow> unit res" where
  "validate_frozen cfg next previous [] = Inr ()"
| "validate_frozen cfg next previous (w # ws) =
     fail_if (fw_WindowID w = 0 \<or> fw_WindowID w \<ge> next) ErrInvalidState (
     fail_if (case previous of None \<Rightarrow> False | Some p \<Rightarrow> fw_WindowID w \<le> p) ErrInvalidState (
     fail_if (int (length (fw_Cuts w)) \<noteq> cfg_ShardCount cfg \<or> fw_SealedAt w < fw_OpenedAt w) ErrInvalidState (
     validate_frozen cfg next (Some (fw_WindowID w)) ws)))"

definition validateFrozenQueue :: "Config \<Rightarrow> State \<Rightarrow> unit res" where
  "validateFrozenQueue cfg state = validate_frozen cfg (st_NextWindowID state) None (st_Frozen state)"

definition validateState :: "hasher \<Rightarrow> Config \<Rightarrow> State \<Rightarrow> unit res" where
  "validateState H cfg state =
     fail_if (st_NextWindowID state = 0) ErrInvalidState (
     fail_if (int (length (st_Streams state)) \<noteq> cfg_ShardCount cfg
              \<or> int (length (st_LastAssigned state)) \<noteq> cfg_ShardCount cfg) ErrInvalidState (
     fail_if ((st_Pending state = []) \<noteq> (st_OpenedAt state = None)) ErrInvalidState (
     bind_res (fold_res (validate_shard_state H state) [] (shard_range cfg)) (\<lambda>blockIntentIDs.
     bind_res (validatePendingState H state blockIntentIDs) (\<lambda>_.
     bind_res (validateAssignedState state) (\<lambda>_.
     validateFrozenQueue cfg state))))))"

definition Restore :: "hasher \<Rightarrow> Config \<Rightarrow> (nat \<Rightarrow> int) \<Rightarrow> State \<Rightarrow> Manager res" where
  "Restore H cfg clock state =
     bind_res (validateConfig cfg) (\<lambda>_.
     bind_res (validateState H cfg state) (\<lambda>_.
     Inr \<lparr>wm_cfg = cfg, wm_clock = clock, wm_ticks = 0, wm_nextWindowID = st_NextWindowID state,
          wm_openedAt = st_OpenedAt state, wm_pending = st_Pending state, wm_assigned = st_Assigned state,
          wm_lastAssigned = st_LastAssigned state, wm_streams = st_Streams state,
          wm_frozen = st_Frozen state\<rparr>))"

definition Snapshot :: "Manager \<Rightarrow> State" where
  "Snapshot m =
     \<lparr>st_NextWindowID = wm_nextWindowID m, st_OpenedAt = wm_openedAt m, st_Pending = wm_pending m,
      st_Assigned = wm_assigned m, st_LastAssigned = wm_lastAssigned m, st_Streams = wm_streams m,
      st_Frozen = wm_frozen m\<rparr>"

end
