(* ===== verification/Window_Inv.thy ===== *)
theory Window_Inv
  imports Window
begin

text \<open>
  The invariant of the window manager and its preservation by every operation. \<open>sinv\<close> speaks of
  the stream of one shard (the taken blocks form a hash chain without gaps), \<open>winv\<close> of the
  manager (the pending intents are exactly those of the taken, unassigned blocks).
\<close>

section \<open>Views of a manager\<close>

lemma stream_of_set_stream [simp]: "stream_of (set_stream s st m) = (stream_of m)(s := st)"
  by (auto simp: stream_of_def set_stream_def map_of_alist_set)

lemma set_stream_simps [simp]:
  "wm_cfg (set_stream s st m) = wm_cfg m" "wm_clock (set_stream s st m) = wm_clock m"
  "wm_ticks (set_stream s st m) = wm_ticks m" "wm_nextWindowID (set_stream s st m) = wm_nextWindowID m"
  "wm_openedAt (set_stream s st m) = wm_openedAt m" "wm_pending (set_stream s st m) = wm_pending m"
  "wm_assigned (set_stream s st m) = wm_assigned m" "wm_lastAssigned (set_stream s st m) = wm_lastAssigned m"
  "wm_frozen (set_stream s st m) = wm_frozen m" "last_of (set_stream s st m) = last_of m"
  by (simp_all add: set_stream_def last_of_def fun_eq_iff)

lemma view_updates [simp]:
  "stream_of (m\<lparr>wm_pending := p\<rparr>) = stream_of m" "stream_of (m\<lparr>wm_openedAt := t\<rparr>) = stream_of m"
  "stream_of (m\<lparr>wm_ticks := n\<rparr>) = stream_of m" "stream_of (m\<lparr>wm_lastAssigned := l\<rparr>) = stream_of m"
  "stream_of (m\<lparr>wm_assigned := a\<rparr>) = stream_of m" "stream_of (m\<lparr>wm_frozen := f\<rparr>) = stream_of m"
  "stream_of (m\<lparr>wm_nextWindowID := i\<rparr>) = stream_of m"
  "last_of (m\<lparr>wm_pending := p\<rparr>) = last_of m" "last_of (m\<lparr>wm_openedAt := t\<rparr>) = last_of m"
  "last_of (m\<lparr>wm_ticks := n\<rparr>) = last_of m" "last_of (m\<lparr>wm_streams := ss\<rparr>) = last_of m"
  "last_of (m\<lparr>wm_assigned := a\<rparr>) = last_of m" "last_of (m\<lparr>wm_frozen := f\<rparr>) = last_of m"
  "last_of (m\<lparr>wm_nextWindowID := i\<rparr>) = last_of m"
  by (simp_all add: stream_of_def last_of_def fun_eq_iff)

lemma last_of_set [simp]:
  "last_of (m\<lparr>wm_lastAssigned := alist_set s h (wm_lastAssigned m)\<rparr>) = (last_of m)(s := h)"
  by (auto simp: last_of_def map_of_alist_set)

lemma set_shard_range: "set (shard_range cfg) = {0..<cfg_ShardCount cfg}"
  by (auto simp: shard_range_def)

lemma distinct_shard_range [simp]: "distinct (shard_range cfg)"
  by (simp add: shard_range_def)

lemma length_shard_range: "0 \<le> cfg_ShardCount cfg \<Longrightarrow> length (shard_range cfg) = nat (cfg_ShardCount cfg)"
  by (simp add: shard_range_def)

section \<open>Heights\<close>

lemma map_unat_height_range: "map unat (height_range a b) = [Suc (unat a)..<Suc (unat b)]"
proof -
  have "unat (word_of_nat n :: uint64) = n" if "n \<in> set [Suc (unat a)..<Suc (unat b)]" for n
  proof -
    have "n < 2 ^ LENGTH(64)" using that unsigned_less [of b, where 'a = nat] by (simp del: upt_Suc)
    then show ?thesis by (simp add: unat_of_nat)
  qed
  then show ?thesis unfolding height_range_def map_map by (auto intro!: map_idI simp del: upt_Suc)
qed

lemma set_height_range: "set (height_range a b) = {h. a < h \<and> h \<le> b}"
proof -
  have "unat h \<in> unat ` set (height_range a b) \<longleftrightarrow> a < h \<and> h \<le> b" for h
    unfolding set_map [symmetric] map_unat_height_range
    by (auto simp: word_less_nat_alt word_le_nat_alt simp del: upt_Suc)
  moreover have "inj (unat :: uint64 \<Rightarrow> nat)" by (rule injI) (rule unsigned_word_eqI)
  ultimately show ?thesis by (auto simp: inj_image_mem_iff)
qed

lemma sorted_height_range: "sorted_wrt (<) (height_range a b)"
proof -
  have "sorted_wrt (<) (map unat (height_range a b))" unfolding map_unat_height_range by (rule sorted_wrt_upt)
  then show ?thesis unfolding sorted_wrt_map
    by (rule sorted_wrt_mono_rel [rotated]) (simp add: word_less_nat_alt)
qed

lemma distinct_height_range: "distinct (height_range a b)"
  using sorted_height_range [of a b] by (simp add: strict_sorted_iff)

lemma height_range_same [simp]: "height_range a a = []"
  by (simp add: height_range_def)

lemma heights_extend:
  fixes c h :: uint64
  assumes "h = c + 1" "h \<noteq> 0" "l \<le> c"
  shows "{x. l < x \<and> x \<le> h} = insert h {x. l < x \<and> x \<le> c}" "c < h" "l \<le> h"
proof -
  have u: "unat h = unat c + 1" using assms by (metis Suc_eq_plus1 add.commute unatSuc)
  show "c < h" using u by (simp add: word_less_nat_alt)
  then show "l \<le> h" using assms(3) by simp
  show "{x. l < x \<and> x \<le> h} = insert h {x. l < x \<and> x \<le> c}"
    using u assms(3) by (auto simp: word_less_nat_alt word_le_nat_alt) (metis le_antisym not_less_eq_eq unsigned_word_eqI)
qed

section \<open>The invariant\<close>

definition sinv :: "int \<Rightarrow> uint64 \<Rightarrow> StreamState \<Rightarrow> bool" where
  "sinv s l st \<longleftrightarrow>
     NextExpectedHeight st = ContinuousHeight st + 1 \<and> l \<le> ContinuousHeight st
     \<and> SeenHashes st (ContinuousHeight st) = Some (ContinuousHash st) \<and> SeenHashes st l \<noteq> None
     \<and> distinct (map fst (UnassignedBlocks st))
     \<and> fst ` set (UnassignedBlocks st) = {h. l < h \<and> h \<le> ContinuousHeight st}
     \<and> (\<forall>(h, r) \<in> set (UnassignedBlocks st). rc_ShardID r = s \<and> rc_Height r = h
          \<and> SeenHashes st h = Some (rc_BlockHash r) \<and> SeenHashes st (h - 1) = Some (rc_ParentHash r))
     \<and> distinct (map fst (BufferedBlocks st))
     \<and> (\<forall>(h, r) \<in> set (BufferedBlocks st). h \<noteq> 0 \<and> NextExpectedHeight st \<le> h \<and> rc_ShardID r = s
          \<and> rc_Height r = h \<and> SeenHashes st h = Some (rc_BlockHash r))"

definition receipt_ids :: "hasher \<Rightarrow> FinalizedBlockReceipt \<Rightarrow> hash256 list" where
  "receipt_ids H r = map (pid H) (rc_Intents r)"

definition ids_of :: "hasher \<Rightarrow> StreamState \<Rightarrow> hash256 list" where
  "ids_of H st = concat (map (\<lambda>hr. receipt_ids H (snd hr)) (UnassignedBlocks st))"

definition all_ids :: "hasher \<Rightarrow> Manager \<Rightarrow> hash256 list" where
  "all_ids H m = concat (map (\<lambda>s. ids_of H (stream_of m s)) (shard_range (wm_cfg m)))"

definition keys_ok :: "Config \<Rightarrow> (int \<times> 'a) list \<Rightarrow> bool" where
  "keys_ok cfg xs \<longleftrightarrow> distinct (map fst xs) \<and> fst ` set xs = {0..<cfg_ShardCount cfg}"

definition wcore :: "hasher \<Rightarrow> Manager \<Rightarrow> bool" where
  "wcore H m \<longleftrightarrow> validateConfig (wm_cfg m) = Inr ()
     \<and> keys_ok (wm_cfg m) (wm_streams m) \<and> keys_ok (wm_cfg m) (wm_lastAssigned m)
     \<and> (\<forall>s \<in> {0..<cfg_ShardCount (wm_cfg m)}. sinv s (last_of m s) (stream_of m s))
     \<and> distinct (map fst (wm_pending m)) \<and> (\<forall>(i, p) \<in> set (wm_pending m). ID H p = Inr i)
     \<and> mset (all_ids H m) = mset (map fst (wm_pending m))
     \<and> distinct (map fst (wm_assigned m)) \<and> fst ` set (wm_pending m) \<inter> fst ` set (wm_assigned m) = {}"

definition winv :: "hasher \<Rightarrow> Manager \<Rightarrow> bool" where
  "winv H m \<longleftrightarrow> wcore H m \<and> (wm_openedAt m = None \<longleftrightarrow> wm_pending m = [])"

lemma wcore_updates [simp]:
  "wcore H (m\<lparr>wm_ticks := n\<rparr>) = wcore H m" "wcore H (m\<lparr>wm_openedAt := t\<rparr>) = wcore H m"
  "wcore H (m\<lparr>wm_frozen := f\<rparr>) = wcore H m" "wcore H (m\<lparr>wm_nextWindowID := i\<rparr>) = wcore H m"
  by (simp_all add: wcore_def all_ids_def)

text \<open>The stream has nothing left to take.\<close>

definition settled :: "Manager \<Rightarrow> bool" where
  "settled m \<longleftrightarrow> (\<forall>s \<in> {0..<cfg_ShardCount (wm_cfg m)}. NextExpectedHeight (stream_of m s)
     \<notin> fst ` set (BufferedBlocks (stream_of m s)))"

lemma validateConfig_pos: "validateConfig cfg = Inr () \<Longrightarrow> 0 < cfg_ShardCount cfg"
  by (simp add: validateConfig_def fail_if_eq_Inr)

lemma keys_ok_length: "keys_ok cfg xs \<Longrightarrow> 0 \<le> cfg_ShardCount cfg \<Longrightarrow> int (length xs) = cfg_ShardCount cfg"
  unfolding keys_ok_def by (metis card_atLeastLessThan_int diff_zero distinct_card length_map list.set_map nat_0_le)

lemma keys_ok_set: "keys_ok cfg xs \<Longrightarrow> s \<in> {0..<cfg_ShardCount cfg} \<Longrightarrow> keys_ok cfg (alist_set s v xs)"
  by (simp add: keys_ok_def distinct_alist_set keys_alist_set insert_absorb)

lemma keys_ok_lookup: "keys_ok cfg xs \<Longrightarrow> map_of xs s = None \<longleftrightarrow> s \<notin> {0..<cfg_ShardCount cfg}"
  by (simp add: keys_ok_def map_of_eq_None_iff)

lemma mset_concat_update:
  assumes "distinct ss" "s \<in> set ss"
  shows "mset (concat (map (\<lambda>x. if x = s then f x @ ys else f x) ss)) = mset (concat (map f ss)) + mset ys"
  using assms
proof (induction ss)
  case (Cons t ss)
  show ?case
  proof (cases "t = s")
    case True
    then have e: "map (\<lambda>x. if x = s then f x @ ys else f x) ss = map f ss" using Cons.prems by auto
    show ?thesis using True by (simp del: map_eq_conv add: e)
  qed (use Cons in auto)
qed simp

section \<open>Taking a receipt\<close>

lemma validate_intents_Inr:
  assumes "validate_intents H m s seen ps = Inr ids"
  shows "ids = map (pid H) ps" "\<forall>p \<in> set ps. SourceShard p = s \<and> ID H p = Inr (pid H p)"
    "distinct ids" "set ids \<inter> set seen = {}" "set ids \<inter> fst ` set (wm_pending m) = {}"
    "set ids \<inter> fst ` set (wm_assigned m) = {}"
proof -
  have "ids = map (pid H) ps \<and> (\<forall>p \<in> set ps. SourceShard p = s \<and> ID H p = Inr (pid H p))
      \<and> distinct ids \<and> set ids \<inter> set seen = {} \<and> set ids \<inter> fst ` set (wm_pending m) = {}
      \<and> set ids \<inter> fst ` set (wm_assigned m) = {}"
    using assms
  proof (induction ps arbitrary: seen ids)
    case (Cons p ps)
    obtain i js where i: "SourceShard p = s" "ID H p = Inr i" "i \<notin> set seen"
      "i \<notin> fst ` set (wm_pending m)" "i \<notin> fst ` set (wm_assigned m)"
      "validate_intents H m s (i # seen) ps = Inr js" "ids = i # js"
      using Cons.prems by (auto simp: res_elims map_of_eq_None_iff)
    then have "pid H p = i" by (simp add: pid_def)
    then show ?case using Cons.IH [OF i(6)] i by clarsimp
  qed simp
  then show "ids = map (pid H) ps" "\<forall>p \<in> set ps. SourceShard p = s \<and> ID H p = Inr (pid H p)"
    "distinct ids" "set ids \<inter> set seen = {}" "set ids \<inter> fst ` set (wm_pending m) = {}"
    "set ids \<inter> fst ` set (wm_assigned m) = {}" by blast+
qed

lemma foldl_alist_set_fresh:
  assumes "distinct (map fst xs)" "fst ` set xs \<inter> fst ` set ps = {}"
  shows "foldl (\<lambda>ps ip. alist_set (fst ip) (snd ip) ps) ps xs = ps @ xs"
  using assms
proof (induction xs arbitrary: ps)
  case (Cons x xs)
  then have "alist_set (fst x) (snd x) ps = ps @ [x]" by (auto simp: alist_set_fresh)
  then show ?case using Cons by auto
qed simp

lemma sinv_take:
  assumes "sinv s l st" "map_of (BufferedBlocks st) (NextExpectedHeight st) = Some r"
    and "rc_ParentHash r = ContinuousHash st"
    and "st' = st\<lparr>BufferedBlocks := alist_del (rc_Height r) (BufferedBlocks st),
                   UnassignedBlocks := alist_set (rc_Height r) r (UnassignedBlocks st),
                   ContinuousHeight := rc_Height r, ContinuousHash := rc_BlockHash r,
                   NextExpectedHeight := NextExpectedHeight st + 1\<rparr>"
  shows "sinv s l st'" "UnassignedBlocks st' = UnassignedBlocks st @ [(rc_Height r, r)]"
proof -
  define h where "h = NextExpectedHeight st"
  have r: "(h, r) \<in> set (BufferedBlocks st)" using assms(2) map_of_SomeD by (force simp: h_def)
  note i = assms(1) [unfolded sinv_def]
  have h: "h \<noteq> 0" "rc_Height r = h" "rc_ShardID r = s" "SeenHashes st h = Some (rc_BlockHash r)"
    using r i by auto
  have hc: "h = ContinuousHeight st + 1" using i by (simp add: h_def)
  note ext = heights_extend [OF hc h(1), of l]
  have le: "l \<le> ContinuousHeight st" using i by simp
  have un: "h \<notin> fst ` set (UnassignedBlocks st)" using i ext(2) [OF le] by (auto simp: h_def)
  show u: "UnassignedBlocks st' = UnassignedBlocks st @ [(rc_Height r, r)]"
    using un by (simp add: assms(4) h(2) alist_set_fresh)
  have nw: "h + 1 \<le> x" if "x \<noteq> h" "h \<le> x" for x
    using that by (metis inc_le order_less_le)
  have "SeenHashes st (h - 1) = Some (rc_ParentHash r)"
    using i assms(3) hc by simp
  moreover have "distinct (map fst (alist_del h (BufferedBlocks st)))"
    using i by (simp add: distinct_alist_del)
  ultimately show "sinv s l st'"
    unfolding sinv_def u using i h hc un ext(1,3) [OF le] nw
    by (auto simp: assms(4) alist_del_def h_def [symmetric])
qed

lemma ids_of_take: "UnassignedBlocks st' = UnassignedBlocks st @ [(h, r)] \<Longrightarrow> ids_of H st' = ids_of H st @ receipt_ids H r"
  by (simp add: ids_of_def)

lemma keys_ok_set_stream:
  "keys_ok cfg (wm_streams m) \<Longrightarrow> s \<in> {0..<cfg_ShardCount cfg} \<Longrightarrow> keys_ok cfg (wm_streams (set_stream s st m))"
  by (simp add: set_stream_def keys_ok_set)

lemma winv_take_receipt:
  assumes I: "winv H m" and s: "s \<in> {0..<cfg_ShardCount (wm_cfg m)}"
    and r: "map_of (BufferedBlocks (stream_of m s)) (NextExpectedHeight (stream_of m s)) = Some r"
    and p: "rc_ParentHash r = ContinuousHash (stream_of m s)"
    and v: "validateReceiptIntents H m r = Inr ids"
  shows "winv H (take_receipt s r ids m)"
proof -
  define st' where "st' = (stream_of m s)\<lparr>BufferedBlocks := alist_del (rc_Height r) (BufferedBlocks (stream_of m s)),
      UnassignedBlocks := alist_set (rc_Height r) r (UnassignedBlocks (stream_of m s)),
      ContinuousHeight := rc_Height r, ContinuousHash := rc_BlockHash r,
      NextExpectedHeight := NextExpectedHeight (stream_of m s) + 1\<rparr>"
  define m2 where "m2 = (set_stream s st' m)\<lparr>wm_pending := wm_pending m @ zip ids (rc_Intents r)\<rparr>"
  note w = I [unfolded winv_def wcore_def]
  note vi = validate_intents_Inr [OF v [unfolded validateReceiptIntents_def]]
  have len: "length ids = length (rc_Intents r)" using vi(1) by simp
  have fz: "map fst (zip ids (rc_Intents r)) = ids" using len by simp
  have fs: "fst ` set (zip ids (rc_Intents r)) = set ids" using fz by (metis set_map)
  have pend: "foldl (\<lambda>ps ip. alist_set (fst ip) (snd ip) ps) (wm_pending m) (zip ids (rc_Intents r))
      = wm_pending m @ zip ids (rc_Intents r)"
    using vi(3,5) fz fs by (intro foldl_alist_set_fresh) auto
  have t: "take_receipt s r ids m = (if ids \<noteq> [] \<and> wm_openedAt m2 = None
      then (m2\<lparr>wm_ticks := Suc (wm_ticks m2), wm_openedAt := Some (wm_clock m2 (wm_ticks m2))\<rparr>) else m2)"
    by (simp add: take_receipt_def Let_def Now_def m2_def st'_def pend)
  have si: "sinv s (last_of m s) (stream_of m s)" using w s by simp
  note st' = sinv_take [OF si r p st'_def]
  have "mset (all_ids H m2) = mset (all_ids H m) + mset ids"
  proof -
    have "(\<lambda>x. ids_of H (stream_of m2 x)) = (\<lambda>x. if x = s then ids_of H (stream_of m x) @ ids else ids_of H (stream_of m x))"
      using ids_of_take [OF st'(2), of H] vi(1) by (auto simp: m2_def receipt_ids_def)
    then show ?thesis
      using mset_concat_update [of "shard_range (wm_cfg m)" s "\<lambda>x. ids_of H (stream_of m x)" ids] s
      unfolding all_ids_def by (simp add: m2_def set_shard_range)
  qed
  moreover have "\<forall>(i, q) \<in> set (zip ids (rc_Intents r)). ID H q = Inr i"
    using vi(1,2) by (auto simp: set_zip)
  moreover have "\<forall>x \<in> {0..<cfg_ShardCount (wm_cfg m)}. sinv x (last_of m2 x) (stream_of m2 x)"
    using w st'(1) by (simp add: m2_def)
  moreover have "keys_ok (wm_cfg m) (wm_streams m2)"
    using w s by (simp add: m2_def keys_ok_set_stream)
  moreover have "distinct (map fst (wm_pending m2))"
    using w vi(3,5) by (simp add: m2_def fz Int_commute)
  moreover have "fst ` set (wm_pending m2) \<inter> fst ` set (wm_assigned m) = {}"
    using w vi(6) by (simp add: m2_def image_Un fs Int_Un_distrib2)
  moreover have "wm_pending m2 = [] \<longleftrightarrow> wm_pending m = [] \<and> ids = []"
    using len by (auto simp: m2_def)
  ultimately have "wcore H m2"
    using w unfolding wcore_def by (intro conjI) (simp_all add: m2_def fz ball_Un)
  then show ?thesis
    using w \<open>wm_pending m2 = [] \<longleftrightarrow> wm_pending m = [] \<and> ids = []\<close> unfolding t winv_def by (auto simp: m2_def)
qed

section \<open>Sealing\<close>

definition taken :: "Manager \<Rightarrow> int \<Rightarrow> FinalizedBlockReceipt list" where
  "taken m s = map snd (filter (in_cut m s) (UnassignedBlocks (stream_of m s)))"

definition sealed_stream :: "Manager \<Rightarrow> int \<Rightarrow> StreamState" where
  "sealed_stream m s = (stream_of m s)\<lparr>UnassignedBlocks :=
     filter (\<lambda>hr. \<not> in_cut m s hr) (UnassignedBlocks (stream_of m s))\<rparr>"

lemma sealing_views:
  assumes "stream_of m1 t = stream_of m t" "last_of m1 t = last_of m t"
  shows "cut_of m1 t = cut_of m t" "taken m1 t = taken m t" "sealed_stream m1 t = sealed_stream m t"
proof -
  have "in_cut m1 t = in_cut m t" using assms by (simp add: fun_eq_iff in_cut_def)
  then show "cut_of m1 t = cut_of m t" "taken m1 t = taken m t" "sealed_stream m1 t = sealed_stream m t"
    using assms by (simp_all add: cut_of_def taken_def sealed_stream_def)
qed

lemma seal_shards:
  assumes "distinct ss" "foldl seal_shard (m, cuts, rs) ss = (m', cuts', rs')"
  shows "cuts' = cuts @ map (cut_of m) ss \<and> rs' = rs @ concat (map (taken m) ss)
     \<and> (\<forall>s. stream_of m' s = (if s \<in> set ss then sealed_stream m s else stream_of m s))
     \<and> (\<forall>s. last_of m' s = (if s \<in> set ss then ContinuousHeight (stream_of m s) else last_of m s))
     \<and> m' = m\<lparr>wm_streams := wm_streams m', wm_lastAssigned := wm_lastAssigned m'\<rparr>
     \<and> (set ss \<subseteq> {0..<cfg_ShardCount (wm_cfg m)} \<longrightarrow> keys_ok (wm_cfg m) (wm_streams m) \<longrightarrow> keys_ok (wm_cfg m) (wm_streams m'))
     \<and> (set ss \<subseteq> {0..<cfg_ShardCount (wm_cfg m)} \<longrightarrow> keys_ok (wm_cfg m) (wm_lastAssigned m) \<longrightarrow> keys_ok (wm_cfg m) (wm_lastAssigned m'))"
  using assms
proof (induction ss arbitrary: m cuts rs)
  case (Cons s ss)
  define m1 where "m1 = set_stream s (sealed_stream m s)
      (m\<lparr>wm_lastAssigned := alist_set s (ContinuousHeight (stream_of m s)) (wm_lastAssigned m)\<rparr>)"
  have f: "foldl seal_shard (m1, cuts @ [cut_of m s], rs @ taken m s) ss = (m', cuts', rs')"
    using Cons.prems(2) seal_shard_def [of "(m, cuts, rs)" s]
    by (simp add: Let_def m1_def sealed_stream_def taken_def)
  have v: "stream_of m1 = (stream_of m)(s := sealed_stream m s)" "last_of m1 = (last_of m)(s := ContinuousHeight (stream_of m s))"
    "wm_cfg m1 = wm_cfg m" "m1 = m\<lparr>wm_streams := wm_streams m1, wm_lastAssigned := wm_lastAssigned m1\<rparr>"
    by (simp_all add: m1_def)
  have o: "cut_of m1 t = cut_of m t" "taken m1 t = taken m t" "sealed_stream m1 t = sealed_stream m t"
    "stream_of m1 t = stream_of m t" if "t \<in> set ss" for t
  proof -
    have t: "stream_of m1 t = stream_of m t" "last_of m1 t = last_of m t" using that Cons.prems(1) v by auto
    show "cut_of m1 t = cut_of m t" "taken m1 t = taken m t" "sealed_stream m1 t = sealed_stream m t"
      "stream_of m1 t = stream_of m t" using sealing_views [OF t] t by simp_all
  qed
  have k: "keys_ok (wm_cfg m) (wm_streams m1)" if "s \<in> {0..<cfg_ShardCount (wm_cfg m)}" "keys_ok (wm_cfg m) (wm_streams m)"
    using that by (simp add: m1_def set_stream_def keys_ok_set)
  have k': "keys_ok (wm_cfg m) (wm_lastAssigned m1)" if "s \<in> {0..<cfg_ShardCount (wm_cfg m)}" "keys_ok (wm_cfg m) (wm_lastAssigned m)"
    using that by (simp add: m1_def keys_ok_set)
  have I: "cuts' = (cuts @ [cut_of m s]) @ map (cut_of m) ss" "rs' = (rs @ taken m s) @ concat (map (taken m) ss)"
    "\<forall>t. stream_of m' t = (if t \<in> set ss then sealed_stream m1 t else stream_of m1 t)"
    "\<forall>t. last_of m' t = (if t \<in> set ss then ContinuousHeight (stream_of m1 t) else last_of m1 t)"
    "m' = m1\<lparr>wm_streams := wm_streams m', wm_lastAssigned := wm_lastAssigned m'\<rparr>"
    "set ss \<subseteq> {0..<cfg_ShardCount (wm_cfg m)} \<longrightarrow> keys_ok (wm_cfg m) (wm_streams m1) \<longrightarrow> keys_ok (wm_cfg m) (wm_streams m')"
    "set ss \<subseteq> {0..<cfg_ShardCount (wm_cfg m)} \<longrightarrow> keys_ok (wm_cfg m) (wm_lastAssigned m1) \<longrightarrow> keys_ok (wm_cfg m) (wm_lastAssigned m')"
    using Cons.IH [OF _ f] Cons.prems(1) o(1,2) v(3) by (simp_all cong: map_cong)
  show ?case
  proof (intro conjI)
    show "\<forall>t. stream_of m' t = (if t \<in> set (s # ss) then sealed_stream m t else stream_of m t)"
      using I(3) o(3) v(1) Cons.prems(1) by auto
    show "\<forall>t. last_of m' t = (if t \<in> set (s # ss) then ContinuousHeight (stream_of m t) else last_of m t)"
      using I(4) o(4) v(2) Cons.prems(1) by auto
    show "m' = m\<lparr>wm_streams := wm_streams m', wm_lastAssigned := wm_lastAssigned m'\<rparr>"
      by (subst I(5), subst v(4)) simp
  qed (use I(1,2,6,7) k k' in auto)
qed simp

lemma in_cut_all:
  assumes "sinv s (last_of m s) (stream_of m s)"
  shows "filter (in_cut m s) (UnassignedBlocks (stream_of m s)) = UnassignedBlocks (stream_of m s)"
    "filter (\<lambda>hr. \<not> in_cut m s hr) (UnassignedBlocks (stream_of m s)) = []"
proof -
  have "\<forall>hr \<in> set (UnassignedBlocks (stream_of m s)). in_cut m s hr"
    using assms by (auto simp: sinv_def in_cut_def)
  then show "filter (in_cut m s) (UnassignedBlocks (stream_of m s)) = UnassignedBlocks (stream_of m s)"
    "filter (\<lambda>hr. \<not> in_cut m s hr) (UnassignedBlocks (stream_of m s)) = []" by simp_all
qed

text \<open>The manager after sealing, in terms of the manager before.\<close>

definition assign_pending :: "Manager \<Rightarrow> (hash256 \<times> uint64) list" where
  "assign_pending m = wm_assigned m @ map (\<lambda>ip. (fst ip, wm_nextWindowID m)) (wm_pending m)"

definition sealed_receipts :: "Manager \<Rightarrow> FinalizedBlockReceipt list" where
  "sealed_receipts m = concat (map (\<lambda>s. map snd (UnassignedBlocks (stream_of m s))) (shard_range (wm_cfg m)))"

lemma seal_result:
  assumes I: "wcore H m" and e: "seal reason m = (w, m')"
  shows "fw_WindowID w = wm_nextWindowID m" "fw_Cuts w = map (cut_of m) (shard_range (wm_cfg m))"
    "fw_Receipts w = sort_key (\<lambda>r. (rc_ShardID r, rc_Height r)) (sealed_receipts m)"
    "fw_Intents w = sortedPendingIntents (wm_pending m)" "fw_SealedAt w = wm_clock m (wm_ticks m)"
    "wm_openedAt m = Some t \<Longrightarrow> fw_OpenedAt w = t"
    and "wm_cfg m' = wm_cfg m" "wm_clock m' = wm_clock m" "wm_ticks m' = Suc (wm_ticks m)"
    "wm_nextWindowID m' = wm_nextWindowID m + 1" "wm_openedAt m' = None" "wm_pending m' = []"
    "wm_assigned m' = assign_pending m" "wm_frozen m' = wm_frozen m @ [w]"
    "keys_ok (wm_cfg m) (wm_streams m')" "keys_ok (wm_cfg m) (wm_lastAssigned m')"
    "\<And>s. s \<in> {0..<cfg_ShardCount (wm_cfg m)} \<Longrightarrow> stream_of m' s = (stream_of m s)\<lparr>UnassignedBlocks := []\<rparr>"
    "\<And>s. s \<in> {0..<cfg_ShardCount (wm_cfg m)} \<Longrightarrow> last_of m' s = ContinuousHeight (stream_of m s)"
proof -
  define m0 where "m0 = m\<lparr>wm_ticks := Suc (wm_ticks m)\<rparr>"
  obtain m1 cuts rs where f: "foldl seal_shard (m0, [], []) (shard_range (wm_cfg m)) = (m1, cuts, rs)"
    by (metis prod_cases3)
  note c = I [unfolded wcore_def]
  have v: "cut_of m0 = cut_of m" "taken m0 = taken m" "sealed_stream m0 = sealed_stream m"
    "stream_of m0 = stream_of m" "last_of m0 = last_of m"
    by (auto simp: m0_def fun_eq_iff intro!: sealing_views)
  note r = seal_shards [OF distinct_shard_range f, unfolded v set_shard_range]
  have si: "sinv s (last_of m s) (stream_of m s)" if "s \<in> {0..<cfg_ShardCount (wm_cfg m)}" for s
    using c that by simp
  have rs: "rs = sealed_receipts m"
    using r si in_cut_all(1) unfolding sealed_receipts_def taken_def
    by (auto simp: set_shard_range intro!: arg_cong [of _ _ concat] map_cong)
  have m1: "m1 = m0\<lparr>wm_streams := wm_streams m1, wm_lastAssigned := wm_lastAssigned m1\<rparr>" using r by blast
  have flds: "wm_cfg m1 = wm_cfg m" "wm_clock m1 = wm_clock m" "wm_ticks m1 = Suc (wm_ticks m)"
    "wm_nextWindowID m1 = wm_nextWindowID m" "wm_pending m1 = wm_pending m" "wm_assigned m1 = wm_assigned m"
    "wm_frozen m1 = wm_frozen m"
    by (subst m1, simp add: m0_def)+
  have "foldl (\<lambda>as ip. alist_set (fst ip) (snd ip) as) (wm_assigned m) (map (\<lambda>ip. (fst ip, wm_nextWindowID m)) (wm_pending m))
      = wm_assigned m @ map (\<lambda>ip. (fst ip, wm_nextWindowID m)) (wm_pending m)"
    using c by (intro foldl_alist_set_fresh) (simp_all add: comp_def image_image)
  then have a: "foldl (\<lambda>as ip. alist_set (fst ip) (wm_nextWindowID m) as) (wm_assigned m) (wm_pending m) = assign_pending m"
    by (simp add: foldl_map assign_pending_def)
  have W: "w = \<lparr>fw_WindowID = wm_nextWindowID m, fw_OpenedAt = (case wm_openedAt m of None \<Rightarrow> 0 | Some t \<Rightarrow> t),
      fw_SealedAt = wm_clock m (wm_ticks m), fw_CloseReason = reason, fw_Cuts = cuts,
      fw_Receipts = sort_key (\<lambda>r. (rc_ShardID r, rc_Height r)) rs, fw_Intents = sortedPendingIntents (wm_pending m)\<rparr>"
    and M: "m' = m1\<lparr>wm_assigned := assign_pending m, wm_pending := [], wm_openedAt := None,
      wm_nextWindowID := wm_nextWindowID m + 1, wm_frozen := wm_frozen m @ [w]\<rparr>"
    using e f by (auto simp: seal_def Now_def Let_def m0_def flds a)
  show "fw_WindowID w = wm_nextWindowID m" "fw_Cuts w = map (cut_of m) (shard_range (wm_cfg m))"
    "fw_Receipts w = sort_key (\<lambda>r. (rc_ShardID r, rc_Height r)) (sealed_receipts m)"
    "fw_Intents w = sortedPendingIntents (wm_pending m)" "fw_SealedAt w = wm_clock m (wm_ticks m)"
    "wm_openedAt m = Some t \<Longrightarrow> fw_OpenedAt w = t"
    using r rs by (simp_all add: W)
  show "wm_cfg m' = wm_cfg m" "wm_clock m' = wm_clock m" "wm_ticks m' = Suc (wm_ticks m)"
    "wm_nextWindowID m' = wm_nextWindowID m + 1" "wm_openedAt m' = None" "wm_pending m' = []"
    "wm_assigned m' = assign_pending m" "wm_frozen m' = wm_frozen m @ [w]"
    by (simp_all add: M flds)
  show "keys_ok (wm_cfg m) (wm_streams m')" "keys_ok (wm_cfg m) (wm_lastAssigned m')"
    using r c by (simp_all add: M m0_def)
  show "stream_of m' s = (stream_of m s)\<lparr>UnassignedBlocks := []\<rparr>" "last_of m' s = ContinuousHeight (stream_of m s)"
    if "s \<in> {0..<cfg_ShardCount (wm_cfg m)}" for s
    using r that in_cut_all(2) [OF si [OF that]] by (auto simp: M sealed_stream_def)
qed

lemma sinv_sealed: "sinv s l st \<Longrightarrow> sinv s (ContinuousHeight st) (st\<lparr>UnassignedBlocks := []\<rparr>)"
  by (auto simp: sinv_def)

lemma winv_seal:
  assumes I: "wcore H m" and e: "seal reason m = (w, m')"
  shows "winv H m'"
proof -
  note c = I [unfolded wcore_def] and r = seal_result [OF I e]
  have "all_ids H m' = []"
    using r(17) by (auto simp: all_ids_def r(7) set_shard_range ids_of_def)
  moreover have "distinct (map fst (assign_pending m))"
    using c by (auto simp: assign_pending_def comp_def)
  ultimately show ?thesis
    using c r(7,11,12,13,15,16,17,18) unfolding winv_def wcore_def
    by (auto intro: sinv_sealed)
qed

lemma TryClose_cases:
  assumes "TryClose m = (wo, m')"
  obtains (quiet) "wo = None" "m' = m \<or> m' = m\<lparr>wm_ticks := Suc (wm_ticks m)\<rparr>"
  | (sealed) w reason where "wo = Some w" "wm_pending m \<noteq> []" "wm_openedAt m \<noteq> None"
      "seal reason (m\<lparr>wm_ticks := Suc (wm_ticks m)\<rparr>) = (w, m')"
  using assms
  by (auto simp: TryClose_def Now_def Let_def split: option.splits if_splits prod.splits)

lemma winv_TryClose: "winv H m \<Longrightarrow> TryClose m = (wo, m') \<Longrightarrow> winv H m'"
  by (erule TryClose_cases) (auto simp: winv_def intro: winv_seal [unfolded winv_def, THEN conjunct1]
      dest: winv_seal [unfolded winv_def, rotated])

end
