(* ===== verification/Window_History.thy ===== *)
theory Window_History
  imports Window_Inv
begin

text \<open>
  The windows a manager has ever sealed. \<open>hinv\<close> relates a manager to the windows acknowledged so
  far: together with the frozen queue they are numbered consecutively, their cuts are contiguous
  for every shard, each window holds exactly the receipts of its cuts and their intents, and no
  intent is in two windows. \<open>wreach\<close> is the step relation of the manager's operations.
\<close>

section \<open>Sealed windows\<close>

definition receipt_key :: "FinalizedBlockReceipt \<Rightarrow> int \<times> uint64" where
  "receipt_key r = (rc_ShardID r, rc_Height r)"

definition window_ids :: "hasher \<Rightarrow> FrozenWindow \<Rightarrow> hash256 list" where
  "window_ids H w = map (pid H) (fw_Intents w)"

definition covers :: "ShardCut list \<Rightarrow> FinalizedBlockReceipt list \<Rightarrow> bool" where
  "covers cuts receipts \<longleftrightarrow> map receipt_key receipts =
     concat (map (\<lambda>c. map (Pair (cut_ShardID c)) (height_range (cut_PreviousHeight c) (cut_EndHeight c))) cuts)"

definition window_ok :: "hasher \<Rightarrow> Config \<Rightarrow> FrozenWindow \<Rightarrow> bool" where
  "window_ok H cfg w \<longleftrightarrow> map cut_ShardID (fw_Cuts w) = shard_range cfg
     \<and> covers (fw_Cuts w) (fw_Receipts w)
     \<and> mset (window_ids H w) = mset (concat (map (receipt_ids H) (fw_Receipts w)))
     \<and> sorted_wrt (<) (window_ids H w) \<and> fw_Intents w \<noteq> []"

text \<open>The span of a shard in a window, and the spans of successive windows joined end to end.\<close>

definition span_of :: "int \<Rightarrow> FrozenWindow \<Rightarrow> uint64 \<times> uint64" where
  "span_of s w = (cut_PreviousHeight (fw_Cuts w ! nat s), cut_EndHeight (fw_Cuts w ! nat s))"

fun contiguous :: "uint64 \<Rightarrow> (uint64 \<times> uint64) list \<Rightarrow> uint64 \<Rightarrow> bool" where
  "contiguous a [] b \<longleftrightarrow> a = b"
| "contiguous a ((p, e) # spans) b \<longleftrightarrow> p = a \<and> a \<le> e \<and> contiguous e spans b"

lemma contiguous_snoc: "contiguous a (spans @ [(p, e)]) b \<longleftrightarrow> contiguous a spans p \<and> p \<le> e \<and> b = e"
  by (induction a spans p rule: contiguous.induct) auto

text \<open>The receipts sealed for one shard.\<close>

lemma keys_of_stream:
  assumes "sinv s l st"
  shows "mset (map (\<lambda>hr. receipt_key (snd hr)) (UnassignedBlocks st)) = mset (map (Pair s) (height_range l (ContinuousHeight st)))"
proof -
  have "map (\<lambda>hr. receipt_key (snd hr)) (UnassignedBlocks st) = map (Pair s) (map fst (UnassignedBlocks st))"
    using assms by (auto simp: sinv_def receipt_key_def)
  moreover have "mset (map fst (UnassignedBlocks st)) = mset (height_range l (ContinuousHeight st))"
    using assms by (subst set_eq_iff_mset_eq_distinct [symmetric]) (auto simp: sinv_def set_height_range distinct_height_range)
  ultimately show ?thesis by (metis mset_map)
qed

lemma mset_concat_cong: "(\<And>x. x \<in> set xs \<Longrightarrow> mset (f x) = mset (g x)) \<Longrightarrow> mset (concat (map f xs)) = mset (concat (map g xs))"
  by (induction xs) auto

lemma sorted_spans:
  "sorted_wrt (<) ss \<Longrightarrow> sorted_wrt (<) (concat (map (\<lambda>s :: int. map (Pair s) (height_range (f s) (g s))) ss))"
  by (induction ss) (auto simp: sorted_wrt_append sorted_wrt_map sorted_height_range)

lemma sorted_shard_range: "sorted_wrt (<) (shard_range cfg)"
  by (simp add: shard_range_def sorted_wrt_upto)

lemma sort_to_sorted:
  fixes f :: "'a \<Rightarrow> 'b :: linorder"
  assumes "mset (map f xs) = mset ys" "sorted_wrt (<) ys"
  shows "map f (sort_key f xs) = ys"
  using assms by (metis mset_sort properties_for_sort sorted_sort_key strict_sorted_imp_sorted mset_map)

lemma mset_concat_image: "mset (concat (map f xs)) = sum_mset (image_mset (\<lambda>x. mset (f x)) (mset xs))"
  by (induction xs) simp_all

lemma concat_map_concat: "concat (map g (concat (map f ss))) = concat (map (\<lambda>s. concat (map g (f s))) ss)"
  by (induction ss) auto

lemma window_ok_seal:
  assumes I: "wcore H m" and e: "seal reason m = (w, m')" and p: "wm_pending m \<noteq> []"
  shows "window_ok H (wm_cfg m) w"
proof -
  note c = I [unfolded wcore_def] and r = seal_result [OF I e]
  let ?ss = "shard_range (wm_cfg m)"
  have si: "sinv s (last_of m s) (stream_of m s)" if "s \<in> set ?ss" for s
    using c that by (simp add: set_shard_range)
  have "mset (map receipt_key (sealed_receipts m)) = mset (concat (map (\<lambda>s. map (Pair s)
      (height_range (last_of m s) (ContinuousHeight (stream_of m s)))) ?ss))"
    unfolding sealed_receipts_def map_concat map_map comp_def
    using keys_of_stream [OF si] by (intro mset_concat_cong) simp
  then have "map receipt_key (sort_key receipt_key (sealed_receipts m)) = concat (map (\<lambda>s. map (Pair s)
      (height_range (last_of m s) (ContinuousHeight (stream_of m s)))) ?ss)"
    by (rule sort_to_sorted) (rule sorted_spans [OF sorted_shard_range])
  then have "covers (fw_Cuts w) (fw_Receipts w)"
    by (simp add: covers_def r(2,3) receipt_key_def [abs_def] cut_of_def comp_def)
  moreover have ids: "map (pid H) (sortedPendingIntents (wm_pending m)) = map fst (sort_key fst (wm_pending m))"
  proof -
    have "pid H (snd x) = fst x" if "x \<in> set (wm_pending m)" for x
      using c that by (auto simp: pid_def)
    then show ?thesis by (simp add: sortedPendingIntents_def)
  qed
  moreover have "mset (concat (map (receipt_ids H) (sealed_receipts m))) = mset (all_ids H m)"
    by (simp add: sealed_receipts_def all_ids_def ids_of_def concat_map_concat comp_def)
  moreover have "mset (concat (map (receipt_ids H) (fw_Receipts w))) = mset (concat (map (receipt_ids H) (sealed_receipts m)))"
    unfolding r(3) mset_concat_image by simp
  ultimately show ?thesis
    unfolding window_ok_def window_ids_def r(4) ids
    using c p by (simp add: r(2) cut_of_def comp_def strict_sorted_map_sort_key)
      (simp add: sortedPendingIntents_def)
qed

section \<open>The history of windows\<close>

definition hinv :: "hasher \<Rightarrow> (int \<Rightarrow> uint64) \<Rightarrow> FrozenWindow list \<Rightarrow> Manager \<Rightarrow> bool" where
  "hinv H base acked m \<longleftrightarrow> (let ws = acked @ wm_frozen m in
     (\<forall>w \<in> set ws. window_ok H (wm_cfg m) w)
     \<and> map fw_WindowID ws = map word_of_nat [1..<Suc (length ws)]
     \<and> wm_nextWindowID m = word_of_nat (Suc (length ws))
     \<and> (\<forall>s \<in> {0..<cfg_ShardCount (wm_cfg m)}. contiguous (base s) (map (span_of s) ws) (last_of m s))
     \<and> mset (wm_assigned m) = mset (concat (map (\<lambda>w. map (\<lambda>i. (i, fw_WindowID w)) (window_ids H w)) ws)))"

lemma hinv_updates [simp]:
  "hinv H base acked (m\<lparr>wm_ticks := n\<rparr>) = hinv H base acked m"
  "hinv H base acked (m\<lparr>wm_openedAt := t\<rparr>) = hinv H base acked m"
  "hinv H base acked (m\<lparr>wm_pending := p\<rparr>) = hinv H base acked m"
  "hinv H base acked (set_stream s st m) = hinv H base acked m"
  by (simp_all add: hinv_def Let_def)

lemma hinv_take_receipt [simp]: "hinv H base acked (take_receipt s r ids m) = hinv H base acked m"
  by (simp add: take_receipt_def Let_def Now_def)

lemma span_of_cuts:
  assumes "fw_Cuts w = map f (shard_range cfg)" "s \<in> {0..<cfg_ShardCount cfg}"
  shows "span_of s w = (cut_PreviousHeight (f s), cut_EndHeight (f s))"
proof -
  have "nat s < length (shard_range cfg)" "shard_range cfg ! nat s = s"
    using assms(2) by (auto simp: shard_range_def)
  then show ?thesis by (simp add: span_of_def assms(1))
qed

lemma hinv_seal:
  assumes I: "wcore H m" and h: "hinv H base acked m" and e: "seal reason m = (w, m')" and p: "wm_pending m \<noteq> []"
  shows "hinv H base acked m'"
proof -
  note c = I [unfolded wcore_def] and r = seal_result [OF I e] and g = h [unfolded hinv_def Let_def]
  define ws where "ws = acked @ wm_frozen m"
  have n: "wm_nextWindowID m = word_of_nat (Suc (length ws))" "map fw_WindowID ws = map word_of_nat [1..<Suc (length ws)]"
    using g by (simp_all add: ws_def)
  have "contiguous (base s) (map (span_of s) ws @ [span_of s w]) (last_of m' s)"
    if "s \<in> {0..<cfg_ShardCount (wm_cfg m)}" for s
  proof -
    have "contiguous (base s) (map (span_of s) ws) (last_of m s)" using g that by (simp add: ws_def)
    moreover have "last_of m s \<le> ContinuousHeight (stream_of m s)" using c that by (simp add: sinv_def)
    ultimately show ?thesis
      using span_of_cuts [OF r(2) that] r(18) [OF that] by (simp add: contiguous_snoc cut_of_def)
  qed
  moreover have "map (\<lambda>i. (i, fw_WindowID w)) (window_ids H w) = map (\<lambda>ip. (fst ip, wm_nextWindowID m)) (sort_key fst (wm_pending m))"
  proof -
    have "pid H (snd x) = fst x" if "x \<in> set (wm_pending m)" for x
      using c that by (auto simp: pid_def)
    then show ?thesis by (simp add: window_ids_def r(1,4) sortedPendingIntents_def)
  qed
  then have "mset (map (\<lambda>i. (i, fw_WindowID w)) (window_ids H w)) = mset (map (\<lambda>ip. (fst ip, wm_nextWindowID m)) (wm_pending m))"
    by (simp add: mset_map_sort_key del: mset_map)
  moreover have "map fw_WindowID (ws @ [w]) = map word_of_nat [1..<Suc (length (ws @ [w]))]"
    using n r(1) by simp
  moreover have "wm_nextWindowID m' = word_of_nat (Suc (length (ws @ [w])))" using n(1) r(10) by simp
  ultimately show ?thesis
    using g window_ok_seal [OF I e p]
    unfolding hinv_def Let_def r(7,13,14) append_assoc [symmetric] ws_def [symmetric] assign_pending_def by simp
qed

lemma hinv_TryClose:
  assumes "winv H m" "hinv H base acked m" "TryClose m = (wo, m')"
  shows "hinv H base acked m'"
  using assms(3)
proof (cases rule: TryClose_cases)
  case (sealed w reason)
  show ?thesis
    by (rule hinv_seal [OF _ _ sealed(4)]) (use assms sealed in \<open>auto simp: winv_def\<close>)
qed (use assms(2) in auto)

section \<open>Advancing a stream\<close>

text \<open>What sealing leaves of a stream: everything but the unassigned blocks.\<close>

definition same_feed :: "Manager \<Rightarrow> Manager \<Rightarrow> bool" where
  "same_feed m m' \<longleftrightarrow> wm_cfg m' = wm_cfg m \<and> wm_clock m' = wm_clock m \<and> (\<forall>s \<in> {0..<cfg_ShardCount (wm_cfg m)}.
     NextExpectedHeight (stream_of m' s) = NextExpectedHeight (stream_of m s)
     \<and> BufferedBlocks (stream_of m' s) = BufferedBlocks (stream_of m s))"

lemma same_feed_TryClose:
  assumes "winv H m" "TryClose m = (wo, m')" shows "same_feed m m'"
  using assms(2)
proof (cases rule: TryClose_cases)
  case (sealed w reason)
  have c: "wcore H (m\<lparr>wm_ticks := Suc (wm_ticks m)\<rparr>)" using assms(1) by (simp add: winv_def)
  note r = seal_result [OF c sealed(4)]
  show ?thesis using r(7,8,17) by (auto simp: same_feed_def)
qed (auto simp: same_feed_def)

definition quiet_elsewhere :: "int \<Rightarrow> Manager \<Rightarrow> bool" where
  "quiet_elsewhere s m \<longleftrightarrow> (\<forall>t \<in> {0..<cfg_ShardCount (wm_cfg m)}. t \<noteq> s \<longrightarrow>
     NextExpectedHeight (stream_of m t) \<notin> fst ` set (BufferedBlocks (stream_of m t)))"

lemma sinv_drop:
  assumes "sinv s l st" "map_of (BufferedBlocks st) (NextExpectedHeight st) = Some r"
  shows "sinv s l (dropBuffered st (rc_Height r))"
    and "NextExpectedHeight st \<notin> fst ` set (BufferedBlocks (dropBuffered st (rc_Height r)))"
proof -
  have r: "(NextExpectedHeight st, r) \<in> set (BufferedBlocks st)" using assms(2) map_of_SomeD by force
  note i = assms(1) [unfolded sinv_def]
  have h: "rc_Height r = NextExpectedHeight st" "NextExpectedHeight st \<noteq> 0" using r i by auto
  have hc: "NextExpectedHeight st = ContinuousHeight st + 1" using i by simp
  have lt: "ContinuousHeight st < NextExpectedHeight st"
    using heights_extend(2) [OF hc h(2)] i by blast
  have ne: "x \<noteq> NextExpectedHeight st" if "x \<le> ContinuousHeight st" for x using that lt by auto
  have ne1: "x - 1 \<noteq> NextExpectedHeight st" if "l < x" "x \<le> ContinuousHeight st" for x
  proof -
    have "x \<noteq> 0" using that(1) by auto
    then have "x - 1 \<le> ContinuousHeight st" using that(2) by (simp add: word_le_nat_alt unat_minus_one)
    then show ?thesis by (rule ne)
  qed
  have ub: "l < fst hr \<and> fst hr \<le> ContinuousHeight st" if "hr \<in> set (UnassignedBlocks st)" for hr
    using i that by (metis (mono_tags, lifting) image_eqI mem_Collect_eq)
  define st' where "st' = dropBuffered st (rc_Height r)"
  have flds: "NextExpectedHeight st' = NextExpectedHeight st" "ContinuousHeight st' = ContinuousHeight st"
    "ContinuousHash st' = ContinuousHash st" "UnassignedBlocks st' = UnassignedBlocks st"
    "BufferedBlocks st' = filter (\<lambda>p. fst p \<noteq> NextExpectedHeight st) (BufferedBlocks st)"
    and seen: "\<And>x. x \<noteq> NextExpectedHeight st \<Longrightarrow> SeenHashes st' x = SeenHashes st x"
    by (simp_all add: st'_def dropBuffered_def alist_del_def h(1))
  have "sinv s l st'"
    unfolding sinv_def flds
  proof (intro conjI)
    show "SeenHashes st' (ContinuousHeight st) = Some (ContinuousHash st)" "SeenHashes st' l \<noteq> None"
      using i ne seen by auto
    show "\<forall>(h, r) \<in> set (UnassignedBlocks st). rc_ShardID r = s \<and> rc_Height r = h
       \<and> SeenHashes st' h = Some (rc_BlockHash r) \<and> SeenHashes st' (h - 1) = Some (rc_ParentHash r)"
      using i ub ne ne1 seen by fastforce
    show "\<forall>(h, r) \<in> set (filter (\<lambda>p. fst p \<noteq> NextExpectedHeight st) (BufferedBlocks st)). h \<noteq> 0
       \<and> NextExpectedHeight st \<le> h \<and> rc_ShardID r = s \<and> rc_Height r = h \<and> SeenHashes st' h = Some (rc_BlockHash r)"
      using i seen by auto
  qed (use i in \<open>simp_all add: distinct_map_filter\<close>)
  then show "sinv s l (dropBuffered st (rc_Height r))" by (simp add: st'_def)
  show "NextExpectedHeight st \<notin> fst ` set (BufferedBlocks (dropBuffered st (rc_Height r)))"
    by (auto simp: dropBuffered_def alist_del_def h(1))
qed

lemma sinv_buffer:
  assumes "sinv s l st" "rc_Height r \<noteq> 0" "SeenHashes st (rc_Height r) = None"
    and "NextExpectedHeight st \<le> rc_Height r" "rc_ShardID r = s"
    and "st' = st\<lparr>BufferedBlocks := alist_set (rc_Height r) r (BufferedBlocks st),
           SeenHashes := (SeenHashes st)(rc_Height r \<mapsto> rc_BlockHash r)\<rparr>"
  shows "sinv s l st'"
proof -
  note i = assms(1) [unfolded sinv_def]
  have fresh: "rc_Height r \<notin> fst ` set (BufferedBlocks st)" using i assms(3) by auto
  have flds: "NextExpectedHeight st' = NextExpectedHeight st" "ContinuousHeight st' = ContinuousHeight st"
    "ContinuousHash st' = ContinuousHash st" "UnassignedBlocks st' = UnassignedBlocks st"
    "BufferedBlocks st' = BufferedBlocks st @ [(rc_Height r, r)]"
    and seen: "\<And>x h. SeenHashes st x = Some h \<Longrightarrow> SeenHashes st' x = Some h"
    and new: "SeenHashes st' (rc_Height r) = Some (rc_BlockHash r)"
    using assms(3) fresh by (auto simp: assms(6) alist_set_fresh)
  show ?thesis
    unfolding sinv_def flds
  proof (intro conjI)
    show "SeenHashes st' (ContinuousHeight st) = Some (ContinuousHash st)" "SeenHashes st' l \<noteq> None"
      using i seen by auto
    show "\<forall>(h, r) \<in> set (UnassignedBlocks st). rc_ShardID r = s \<and> rc_Height r = h
       \<and> SeenHashes st' h = Some (rc_BlockHash r) \<and> SeenHashes st' (h - 1) = Some (rc_ParentHash r)"
      using i seen by fastforce
    show "\<forall>(h, r) \<in> set (BufferedBlocks st @ [(rc_Height r, r)]). h \<noteq> 0
       \<and> NextExpectedHeight st \<le> h \<and> rc_ShardID r = s \<and> rc_Height r = h \<and> SeenHashes st' h = Some (rc_BlockHash r)"
      using i seen new assms(2,4,5) by auto
    show "distinct (map fst (BufferedBlocks st @ [(rc_Height r, r)]))" using i fresh by simp
  qed (use i in simp_all)
qed

lemma winv_set_stream:
  assumes "winv H m" "s \<in> {0..<cfg_ShardCount (wm_cfg m)}" "sinv s (last_of m s) st"
    and "UnassignedBlocks st = UnassignedBlocks (stream_of m s)"
  shows "winv H (set_stream s st m)"
proof -
  note w = assms(1) [unfolded winv_def wcore_def]
  have "(\<lambda>x. ids_of H (stream_of (set_stream s st m) x)) = (\<lambda>x. ids_of H (stream_of m x))"
    using assms(4) by (auto simp: ids_of_def)
  then have "all_ids H (set_stream s st m) = all_ids H m" unfolding all_ids_def by simp
  then show ?thesis
    using w assms(2,3) unfolding winv_def wcore_def by (simp add: keys_ok_set_stream)
qed

lemma stream_take_receipt:
  "stream_of (take_receipt s r ids m) = (stream_of m)(s := (stream_of m s)\<lparr>
     BufferedBlocks := alist_del (rc_Height r) (BufferedBlocks (stream_of m s)),
     UnassignedBlocks := alist_set (rc_Height r) r (UnassignedBlocks (stream_of m s)),
     ContinuousHeight := rc_Height r, ContinuousHash := rc_BlockHash r,
     NextExpectedHeight := NextExpectedHeight (stream_of m s) + 1\<rparr>)"
  "wm_cfg (take_receipt s r ids m) = wm_cfg m" "wm_clock (take_receipt s r ids m) = wm_clock m"
  by (simp_all add: take_receipt_def Let_def Now_def)

lemma validate_intents_Inl: "validate_intents H m s seen ps = Inl e \<Longrightarrow> e \<noteq> OutOfFuel"
  by (induction ps arbitrary: seen)
    (auto simp: bind_res_eq_Inl fail_if_eq_Inl wrap_err_def split: sum.splits)

text \<open>With a clock that does not go back, windows are sealed after they were opened.\<close>

definition tinv :: "Manager \<Rightarrow> bool" where
  "tinv m \<longleftrightarrow> (mono (wm_clock m) \<longrightarrow> (\<forall>w \<in> set (wm_frozen m). fw_OpenedAt w \<le> fw_SealedAt w)
     \<and> (\<forall>t. wm_openedAt m = Some t \<longrightarrow> t \<le> wm_clock m (wm_ticks m)))"

lemma tinv_set_stream [simp]: "tinv (set_stream s st m) = tinv m"
  by (simp add: tinv_def)

lemma tinv_tick: "tinv m \<Longrightarrow> tinv (m\<lparr>wm_ticks := Suc (wm_ticks m)\<rparr>)"
  unfolding tinv_def by simp (meson le_SucI monoD order.refl order.trans)

lemma tinv_take_receipt: "tinv m \<Longrightarrow> tinv (take_receipt s r ids m)"
  by (auto simp: take_receipt_def Let_def Now_def tinv_def intro: monoD)

lemma tinv_TryClose:
  assumes "winv H m" "tinv m" "TryClose m = (wo, m')"
  shows "tinv m'"
  using assms(3)
proof (cases rule: TryClose_cases)
  case (sealed w reason)
  let ?m = "m\<lparr>wm_ticks := Suc (wm_ticks m)\<rparr>"
  have c: "wcore H ?m" using assms(1) by (simp add: winv_def)
  obtain t where t: "wm_openedAt m = Some t" using sealed(3) by auto
  note r = seal_result [OF c sealed(4)]
  show ?thesis
    using tinv_tick [OF assms(2)] r(5,8,11,14) r(6) [of t] t by (auto simp: tinv_def)
qed (use assms(2) tinv_tick in auto)

definition advanced :: "hasher \<Rightarrow> (int \<Rightarrow> uint64) \<Rightarrow> FrozenWindow list \<Rightarrow> Manager \<Rightarrow> Manager \<Rightarrow> bool" where
  "advanced H base acked m m' \<longleftrightarrow> winv H m' \<and> hinv H base acked m' \<and> settled m' \<and> tinv m'
     \<and> wm_cfg m' = wm_cfg m \<and> wm_clock m' = wm_clock m"

lemma advance_ok:
  assumes "winv H m" "hinv H base acked m" "s \<in> {0..<cfg_ShardCount (wm_cfg m)}" "quiet_elsewhere s m"
    and "length (BufferedBlocks (stream_of m s)) < fuel" "advance fuel H s fs m = (m', fw, e)" "tinv m"
  shows "advanced H base acked m m' \<and> e \<noteq> Some OutOfFuel"
  using assms
proof (induction fuel arbitrary: m fs)
  case (Suc fuel)
  let ?st = "stream_of m s"
  have si: "sinv s (last_of m s) ?st" using Suc.prems(1,3) by (simp add: winv_def wcore_def)
  show ?case
  proof (cases "map_of (BufferedBlocks ?st) (NextExpectedHeight ?st)")
    case None
    then have "settled m"
      using Suc.prems(3,4) by (auto simp: settled_def quiet_elsewhere_def map_of_eq_None_iff)
    then show ?thesis using Suc.prems None by (simp add: Let_def advanced_def)
  next
    case (Some r)
    define d where "d = set_stream s (dropBuffered ?st (rc_Height r)) m"
    have "winv H d"
      unfolding d_def by (rule winv_set_stream [OF Suc.prems(1,3) sinv_drop(1) [OF si Some]]) (simp add: dropBuffered_def)
    moreover have "settled d"
      unfolding settled_def
    proof
      fix t assume t: "t \<in> {0..<cfg_ShardCount (wm_cfg d)}"
      show "NextExpectedHeight (stream_of d t) \<notin> fst ` set (BufferedBlocks (stream_of d t))"
      proof (cases "t = s")
        case True
        then show ?thesis using sinv_drop(2) [OF si Some] by (simp add: d_def dropBuffered_def)
      next
        case False
        then show ?thesis using Suc.prems(4) t by (simp add: d_def quiet_elsewhere_def)
      qed
    qed
    ultimately have D: "advanced H base acked m d"
      using Suc.prems(2,7) by (simp add: advanced_def d_def)
    show ?thesis
    proof (cases "rc_ParentHash r = ContinuousHash ?st")
      case False
      then show ?thesis using Suc.prems(6) Some D by (auto simp: Let_def d_def)
    next
      case P: True
      show ?thesis
      proof (cases "validateReceiptIntents H m r")
        case (Inl x)
        then show ?thesis
          using Suc.prems(6) Some D P
          by (auto simp: Let_def d_def validateReceiptIntents_def dest: validate_intents_Inl)
      next
        case (Inr ids)
        define t where "t = take_receipt s r ids m"
        obtain wo m2 where c: "TryClose t = (wo, m2)" by fastforce
        have w: "winv H t" unfolding t_def by (rule winv_take_receipt [OF Suc.prems(1,3) Some P Inr])
        have f: "same_feed t m2" by (rule same_feed_TryClose [OF w c])
        have "rc_Height r = NextExpectedHeight ?st"
          using si map_of_SomeD [OF Some] by (auto simp: sinv_def)
        then have "length (BufferedBlocks (stream_of t s)) < length (BufferedBlocks ?st)"
          using map_of_SomeD [OF Some]
          by (auto simp: t_def stream_take_receipt alist_del_def intro!: length_filter_less)
        then have l: "length (BufferedBlocks (stream_of m2 s)) < fuel"
          using f Suc.prems(3,5) by (simp add: same_feed_def t_def stream_take_receipt)
        have q: "quiet_elsewhere s m2"
          using Suc.prems(4) f by (auto simp: quiet_elsewhere_def same_feed_def t_def stream_take_receipt)
        have cfg: "wm_cfg m2 = wm_cfg m" "wm_clock m2 = wm_clock m"
          using f by (simp_all add: same_feed_def t_def stream_take_receipt)
        have a: "advance fuel H s (if fs = None then wo else fs) m2 = (m', fw, e)"
          using Suc.prems(6) Some P Inr c by (simp add: Let_def t_def)
        have h: "hinv H base acked m2" by (rule hinv_TryClose [OF w _ c]) (simp add: t_def Suc.prems(2))
        show ?thesis
          using Suc.IH [OF winv_TryClose [OF w c] h _ q l a tinv_TryClose [OF w _ c]] Suc.prems(3,7) cfg
          by (simp add: advanced_def t_def tinv_take_receipt)
      qed
    qed
  qed
qed simp

lemma settled_TryClose: "winv H m \<Longrightarrow> settled m \<Longrightarrow> TryClose m = (wo, m') \<Longrightarrow> settled m'"
  using same_feed_TryClose [of H m wo m'] by (simp add: settled_def same_feed_def)

lemma TryClose_advanced:
  assumes "winv H m" "hinv H base acked m" "settled m" "tinv m" "TryClose m = (wo, m')"
  shows "advanced H base acked m m'"
  using winv_TryClose [OF assms(1,5)] hinv_TryClose [OF assms(1,2,5)] settled_TryClose [OF assms(1,3,5)]
    same_feed_TryClose [OF assms(1,5)] tinv_TryClose [OF assms(1,4,5)] by (simp add: advanced_def same_feed_def)

lemma AddReceipt_ok:
  assumes w: "winv H m" and h: "hinv H base acked m" and q: "settled m" and ti: "tinv m"
    and a: "AddReceipt H r m = (m', fw, e)"
  shows "advanced H base acked m m' \<and> e \<noteq> Some OutOfFuel"
proof (cases "map_of (wm_streams m) (rc_ShardID r)")
  case None
  then show ?thesis using a w h q ti by (auto simp: AddReceipt_def advanced_def)
next
  case (Some st)
  define s where "s = rc_ShardID r"
  have st: "stream_of m s = st" using Some by (simp add: stream_of_def s_def)
  have k: "keys_ok (wm_cfg m) (wm_streams m)" using w by (simp add: winv_def wcore_def)
  have s: "s \<in> {0..<cfg_ShardCount (wm_cfg m)}" using keys_ok_lookup [OF k, of s] Some by (simp add: s_def)
  have si: "sinv s (last_of m s) st" using w s st by (auto simp: winv_def wcore_def)
  obtain wo m0 where c: "TryClose m = (wo, m0)" by fastforce
  note T = TryClose_advanced [OF w h q ti c]
  show ?thesis
  proof (cases "rc_Height r = 0 \<or> SeenHashes st (rc_Height r) \<noteq> None \<or> rc_Height r < NextExpectedHeight st")
    case True
    then show ?thesis
      using a w h q ti T c Some by (auto simp: AddReceipt_def advanced_def split: option.splits if_splits)
  next
    case F: False
    define st' where "st' = st\<lparr>BufferedBlocks := alist_set (rc_Height r) r (BufferedBlocks st),
      SeenHashes := (SeenHashes st)(rc_Height r \<mapsto> rc_BlockHash r)\<rparr>"
    define m1 where "m1 = set_stream s st' m"
    have "sinv s (last_of m s) st'"
      by (rule sinv_buffer [OF si _ _ _ _ st'_def]) (use F in \<open>auto simp: s_def not_less\<close>)
    then have w1: "winv H m1"
      unfolding m1_def by (rule winv_set_stream [OF w s]) (simp add: st'_def st)
    have h1: "hinv H base acked m1" using h by (simp add: m1_def)
    have q1: "quiet_elsewhere s m1" using q by (auto simp: quiet_elsewhere_def settled_def m1_def)
    obtain m2 fs e2 where adv: "advanceStream H s m1 = (m2, fs, e2)" by (metis prod_cases3)
    have A: "advanced H base acked m1 m2 \<and> e2 \<noteq> Some OutOfFuel"
      using advance_ok [OF w1 h1 _ q1 _ adv [unfolded advanceStream_def]] s ti by (simp add: m1_def)
    obtain wo3 m3 where c3: "TryClose m2 = (wo3, m3)" by fastforce
    have T3: "advanced H base acked m2 m3"
      using TryClose_advanced [of H m2 base acked, OF _ _ _ _ c3] A by (simp add: advanced_def)
    show ?thesis
      using a F Some adv A c3 T3
      by (auto simp: AddReceipt_def s_def [symmetric] st'_def [symmetric] m1_def advanced_def split: if_splits option.splits)
  qed
qed

section \<open>Construction\<close>

definition base_heights :: "(int \<times> ShardCheckpoint) list \<Rightarrow> int \<Rightarrow> uint64" where
  "base_heights cps s = (case map_of cps s of None \<Rightarrow> 0 | Some cp \<Rightarrow> cp_Height cp)"

lemma New_shards:
  assumes "fold_res (New_shard cps) m ss = Inr m'" "distinct ss"
    "fst ` set (wm_streams m) \<inter> set ss = {}" "fst ` set (wm_lastAssigned m) \<inter> set ss = {}"
  shows "(\<forall>s \<in> set ss. map_of cps s \<noteq> None)
     \<and> m' = m\<lparr>wm_streams := wm_streams m @ map (\<lambda>s. (s, initial_stream (the (map_of cps s)))) ss,
              wm_lastAssigned := wm_lastAssigned m @ map (\<lambda>s. (s, base_heights cps s)) ss\<rparr>"
  using assms
proof (induction ss arbitrary: m)
  case (Cons s ss)
  obtain cp where cp: "map_of cps s = Some cp"
    using Cons.prems(1) by (auto simp: bind_res_eq_Inr New_shard_def split: option.splits)
  have f: "alist_set s x (wm_streams m) = wm_streams m @ [(s, x)]" "alist_set s y (wm_lastAssigned m) = wm_lastAssigned m @ [(s, y)]" for x y
    using Cons.prems(3,4) by (auto intro: alist_set_fresh)
  define m1 where "m1 = m\<lparr>wm_streams := wm_streams m @ [(s, initial_stream cp)], wm_lastAssigned := wm_lastAssigned m @ [(s, cp_Height cp)]\<rparr>"
  have "New_shard cps m s = Inl ErrMissingCheckpoint \<or> New_shard cps m s = Inr m1"
    using cp by (auto simp: New_shard_def set_stream_def f m1_def fail_if_def)
  then have r: "fold_res (New_shard cps) m1 ss = Inr m'"
    using Cons.prems(1) by (auto simp: bind_res_eq_Inr)
  have "(\<forall>s \<in> set ss. map_of cps s \<noteq> None)
     \<and> m' = m1\<lparr>wm_streams := wm_streams m1 @ map (\<lambda>s. (s, initial_stream (the (map_of cps s)))) ss,
              wm_lastAssigned := wm_lastAssigned m1 @ map (\<lambda>s. (s, base_heights cps s)) ss\<rparr>"
    using Cons.prems(2-4) by (intro Cons.IH [OF r]) (auto simp: m1_def)
  then show ?case
    using cp by (auto simp: m1_def base_heights_def)
qed simp

lemma sinv_initial: "sinv s (cp_Height cp) (initial_stream cp)"
  by (auto simp: sinv_def initial_stream_def)

lemma New_ok:
  assumes "New cfg clk cps = Inr m"
  shows "advanced H (base_heights cps) [] m m" "wm_cfg m = cfg" "wm_clock m = clk"
proof -
  define m0 where "m0 = \<lparr>wm_cfg = cfg, wm_clock = clk, wm_ticks = 0, wm_nextWindowID = 1, wm_openedAt = None,
        wm_pending = [], wm_assigned = [], wm_lastAssigned = [], wm_streams = [], wm_frozen = []\<rparr>"
  have v: "validateConfig cfg = Inr ()" and f: "fold_res (New_shard cps) m0 (shard_range cfg) = Inr m"
    using assms by (auto simp: New_def res_elims m0_def)
  have N: "(\<forall>s \<in> set (shard_range cfg). map_of cps s \<noteq> None)
     \<and> m = m0\<lparr>wm_streams := map (\<lambda>s. (s, initial_stream (the (map_of cps s)))) (shard_range cfg),
              wm_lastAssigned := map (\<lambda>s. (s, base_heights cps s)) (shard_range cfg)\<rparr>"
    using New_shards [OF f distinct_shard_range] by (simp add: m0_def)
  have m: "m = m0\<lparr>wm_streams := map (\<lambda>s. (s, initial_stream (the (map_of cps s)))) (shard_range cfg),
              wm_lastAssigned := map (\<lambda>s. (s, base_heights cps s)) (shard_range cfg)\<rparr>"
    using N by blast
  have N1: "map_of cps s \<noteq> None" if "s \<in> {0..<cfg_ShardCount cfg}" for s
    using N that by (simp add: set_shard_range)
  have st: "stream_of m s = initial_stream (the (map_of cps s))" "last_of m s = base_heights cps s"
    if "s \<in> {0..<cfg_ShardCount cfg}" for s
    using that by (simp_all add: m stream_of_def last_of_def map_of_map_restrict set_shard_range)
  have "keys_ok cfg (wm_streams m)" "keys_ok cfg (wm_lastAssigned m)"
    by (simp_all add: m keys_ok_def comp_def image_image set_shard_range)
  moreover have "sinv s (last_of m s) (stream_of m s)" if "s \<in> {0..<cfg_ShardCount cfg}" for s
    unfolding st [OF that] using N1 [OF that] by (auto simp: base_heights_def sinv_initial)
  moreover have "all_ids H m = []"
  proof -
    have "ids_of H (stream_of m s) = []" if "s \<in> set (shard_range cfg)" for s
      using st that by (simp add: set_shard_range ids_of_def initial_stream_def)
    then show ?thesis by (simp add: all_ids_def m m0_def)
  qed
  ultimately have "winv H m"
    using v by (simp add: winv_def wcore_def) (simp add: m m0_def)
  moreover have "hinv H (base_heights cps) [] m"
    using st(2) by (simp add: hinv_def) (simp add: m m0_def)
  moreover have "settled m"
    using st(1) by (simp add: settled_def initial_stream_def) (simp add: m m0_def)
  moreover have "tinv m" by (simp add: tinv_def m m0_def)
  ultimately show "advanced H (base_heights cps) [] m m" by (simp add: advanced_def)
  show "wm_cfg m = cfg" "wm_clock m = clk" by (simp_all add: m m0_def)
qed

section \<open>Reachable managers\<close>

text \<open>
  The second argument lists the windows taken off the frozen queue, oldest first: a ghost of the
  step relation, the manager does not keep them.
\<close>

inductive wreach ::
    "hasher \<Rightarrow> Config \<Rightarrow> (nat \<Rightarrow> int) \<Rightarrow> (int \<times> ShardCheckpoint) list \<Rightarrow> FrozenWindow list \<Rightarrow> Manager \<Rightarrow> bool"
  for H cfg clk cps where
  init: "New cfg clk cps = Inr m \<Longrightarrow> wreach H cfg clk cps [] m"
| receipt: "wreach H cfg clk cps acked m \<Longrightarrow> AddReceipt H r m = (m', fw, e) \<Longrightarrow> wreach H cfg clk cps acked m'"
| close: "wreach H cfg clk cps acked m \<Longrightarrow> TryClose m = (fw, m') \<Longrightarrow> wreach H cfg clk cps acked m'"
| ack: "wreach H cfg clk cps acked m \<Longrightarrow> AcknowledgeFrozen i m = Inr m'
    \<Longrightarrow> wreach H cfg clk cps (acked @ [hd (wm_frozen m)]) m'"

lemma ack_advanced:
  assumes "advanced H base acked m m" "AcknowledgeFrozen i m = Inr m'"
  shows "advanced H base (acked @ [hd (wm_frozen m)]) m' m'" "wm_cfg m' = wm_cfg m" "wm_clock m' = wm_clock m"
proof -
  obtain w ws where f: "wm_frozen m = w # ws" "m' = m\<lparr>wm_frozen := ws\<rparr>"
    using assms(2) by (auto simp: AcknowledgeFrozen_def fail_if_eq_Inr split: list.splits)
  show "advanced H base (acked @ [hd (wm_frozen m)]) m' m'"
    using assms(1) f by (auto simp: advanced_def winv_def hinv_def Let_def settled_def tinv_def)
  show "wm_cfg m' = wm_cfg m" "wm_clock m' = wm_clock m" using f(2) by simp_all
qed

lemma advanced_refl: "advanced H base acked m m' \<Longrightarrow> advanced H base acked m' m'"
  by (simp add: advanced_def)

lemma wreach_inv:
  assumes "wreach H cfg clk cps acked m"
  shows "advanced H (base_heights cps) acked m m \<and> wm_cfg m = cfg \<and> wm_clock m = clk"
  using assms
proof (induction rule: wreach.induct)
  case (init m)
  then show ?case using New_ok by blast
next
  case (receipt acked m r m' fw e)
  then have "advanced H (base_heights cps) acked m m'"
    using AddReceipt_ok [of H m "base_heights cps" acked r m' fw e] by (simp add: advanced_def)
  then show ?case using receipt.IH by (simp add: advanced_def)
next
  case (close acked m fw m')
  then have "advanced H (base_heights cps) acked m m'"
    using TryClose_advanced [of H m "base_heights cps" acked fw m'] by (simp add: advanced_def)
  then show ?case using close.IH by (simp add: advanced_def)
next
  case (ack acked m i m')
  then show ?case using ack_advanced by metis
qed

section \<open>Properties\<close>

text \<open>
  C14. No intent is ever put into two windows, nor twice into one: over all windows sealed since
  the manager was created, acknowledged or still queued, the intent identifiers are pairwise
  different, the recorded assignment names the window of each, and no pending intent is in one.
\<close>

theorem window_intents_unique:
  assumes "wreach H cfg clk cps acked m"
  shows "distinct (concat (map (window_ids H) (acked @ wm_frozen m)))
     \<and> (\<forall>w \<in> set (acked @ wm_frozen m). \<forall>i \<in> set (window_ids H w).
          map_of (wm_assigned m) i = Some (fw_WindowID w) \<and> map_of (wm_pending m) i = None)"
proof -
  define ws where "ws = acked @ wm_frozen m"
  define as where "as = concat (map (\<lambda>w. map (\<lambda>i. (i, fw_WindowID w)) (window_ids H w)) ws)"
  have i: "winv H m" "hinv H (base_heights cps) acked m" using wreach_inv [OF assms] by (auto simp: advanced_def)
  have a: "mset (wm_assigned m) = mset as" using i(2) by (simp add: hinv_def Let_def as_def ws_def)
  have k: "map fst as = concat (map (window_ids H) ws)" by (simp add: as_def map_concat comp_def)
  have d: "distinct (map fst (wm_assigned m))" "fst ` set (wm_pending m) \<inter> fst ` set (wm_assigned m) = {}"
    using i(1) by (simp_all add: winv_def wcore_def)
  have "mset (map fst (wm_assigned m)) = mset (map fst as)" using a by (metis mset_map)
  then have "distinct (map fst as)" using d(1) mset_eq_imp_distinct_iff by blast
  moreover have "(i, fw_WindowID w) \<in> set (wm_assigned m)" if "w \<in> set ws" "i \<in> set (window_ids H w)" for w i
    using mset_eq_setD [OF a] that by (auto simp: as_def)
  then have "map_of (wm_assigned m) i = Some (fw_WindowID w) \<and> map_of (wm_pending m) i = None"
    if "w \<in> set ws" "i \<in> set (window_ids H w)" for w i
    using that d by (force simp: map_of_eq_None_iff)
  ultimately show ?thesis by (simp add: k flip: ws_def)
qed

text \<open>
  Windows are numbered from one without gaps, and for every shard the cuts of successive
  windows join end to end: the first starts at the shard's checkpoint, each starts where the one
  before ended, and the last ends at the height recorded as assigned.
\<close>

lemma window_cuts_contiguous:
  assumes "wreach H cfg clk cps acked m" "s \<in> {0..<cfg_ShardCount cfg}"
  shows "contiguous (base_heights cps s) (map (span_of s) (acked @ wm_frozen m)) (last_of m s)
     \<and> map fw_WindowID (acked @ wm_frozen m) = map word_of_nat [1..<Suc (length (acked @ wm_frozen m))]"
  using wreach_inv [OF assms(1)] assms(2) by (simp add: advanced_def hinv_def Let_def)

text \<open>
  C29. A sealed window is complete: it has one cut per shard in order, its receipts are exactly one
  per shard and height inside its cuts, ordered by shard and height, and its intents are exactly
  the intents of these receipts, at least one, in ascending order of their identifiers.
\<close>

theorem window_complete:
  assumes "wreach H cfg clk cps acked m" "w \<in> set (acked @ wm_frozen m)"
  shows "map cut_ShardID (fw_Cuts w) = shard_range cfg
     \<and> map receipt_key (fw_Receipts w) = concat (map (\<lambda>c. map (Pair (cut_ShardID c))
          (height_range (cut_PreviousHeight c) (cut_EndHeight c))) (fw_Cuts w))
     \<and> mset (window_ids H w) = mset (concat (map (receipt_ids H) (fw_Receipts w)))
     \<and> sorted_wrt (<) (window_ids H w) \<and> fw_Intents w \<noteq> []"
proof -
  have "window_ok H cfg w"
    using wreach_inv [OF assms(1)] assms(2) by (auto simp: advanced_def hinv_def Let_def)
  then show ?thesis by (simp add: window_ok_def covers_def)
qed

text \<open>
  For every receipt the loop that advances a shard's stream ends: the fuel of the model is never used up.
\<close>

lemma AddReceipt_enough_fuel:
  assumes "wreach H cfg clk cps acked m" "AddReceipt H r m = (m', fw, e)"
  shows "e \<noteq> Some OutOfFuel"
  using AddReceipt_ok [of H m "base_heights cps" acked r m' fw e] assms(2) wreach_inv [OF assms(1)] by (simp add: advanced_def)

section \<open>Witnesses\<close>

text \<open>Two shards, windows of one intent, and a first block of shard 0 with one intent.\<close>

definition ex_cfg :: Config where
  "ex_cfg = \<lparr>cfg_ShardCount = 2, cfg_BatchSize = 1, cfg_MaxWindowDuration = 10\<rparr>"

definition ex_checkpoints :: "(int \<times> ShardCheckpoint) list" where
  "ex_checkpoints = [(0, \<lparr>cp_Height = 1, cp_BlockHash = 5\<rparr>), (1, \<lparr>cp_Height = 1, cp_BlockHash = 6\<rparr>)]"

definition ex_receipt :: FinalizedBlockReceipt where
  "ex_receipt = \<lparr>rc_ShardID = 0, rc_Height = 2, rc_BlockHash = 7, rc_ParentHash = 5, rc_StateRoot = 0,
     rc_Epoch = 0, rc_Intents = [example_intent], rc_CommitTime = 0\<rparr>"

definition ex_manager :: Manager where
  "ex_manager = projr (New ex_cfg int ex_checkpoints)"

lemmas window_eval = New_def validateConfig_def shard_range_def New_shard_def initial_stream_def set_stream_def
  AddReceipt_def advanceStream_def TryClose_def Now_def Let_def take_receipt_def stream_of_def last_of_def
  validateReceiptIntents_def seal_def seal_shard_def cut_of_def in_cut_def sortedPendingIntents_def alist_del_def

lemma upto_01: "[0..1 :: int] = [0, 1]"
  by (simp add: upto.simps)

lemma ex_range: "shard_range ex_cfg = [0, 1]"
  by (simp add: shard_range_def ex_cfg_def upto_01)

lemma ex_new:
  "New ex_cfg int ex_checkpoints = Inr ex_manager"
  "ex_manager = \<lparr>wm_cfg = ex_cfg, wm_clock = int, wm_ticks = 0, wm_nextWindowID = 1, wm_openedAt = None,
     wm_pending = [], wm_assigned = [], wm_lastAssigned = [(0, 1), (1, 1)],
     wm_streams = map (\<lambda>(s, cp). (s, initial_stream cp)) ex_checkpoints, wm_frozen = []\<rparr>"
  unfolding ex_manager_def New_def ex_range
  by (simp_all add: ex_checkpoints_def New_shard_def validateConfig_def set_stream_def)
    (simp_all add: ex_cfg_def)

lemma ex_add:
  "\<exists>m' w. AddReceipt length_hash ex_receipt ex_manager = (m', Some w, None)
     \<and> wm_frozen m' = [w] \<and> fw_Intents w = [example_intent]"
proof -
  have src: "SourceShard example_intent = 0" by (simp add: example_intent_def)
  show ?thesis
    by (simp add: window_eval ex_new(2) ex_checkpoints_def ex_receipt_def example_IDs src upto_01 ex_cfg_def)
qed

lemma ex_reach:
  "\<exists>m w. wreach length_hash ex_cfg int ex_checkpoints [] m \<and> wm_frozen m = [w] \<and> fw_Intents w = [example_intent]"
  using ex_add wreach.receipt [OF wreach.init [OF ex_new(1)]] by metis

lemma window_intents_unique_witness:
  "\<exists>m. wreach length_hash ex_cfg int ex_checkpoints [] m \<and> wm_frozen m \<noteq> []
     \<and> distinct (concat (map (window_ids length_hash) (wm_frozen m)))"
  using ex_reach window_intents_unique [of length_hash ex_cfg int ex_checkpoints "[]"] by fastforce

lemma window_cuts_contiguous_witness:
  "\<exists>m. wreach length_hash ex_cfg int ex_checkpoints [] m \<and> wm_frozen m \<noteq> []
     \<and> contiguous 1 (map (span_of 0) (wm_frozen m)) (last_of m 0)"
proof -
  obtain m w where m: "wreach length_hash ex_cfg int ex_checkpoints [] m" "wm_frozen m = [w]"
    using ex_reach by blast
  have s: "0 \<in> {0..<cfg_ShardCount ex_cfg}" "base_heights ex_checkpoints 0 = 1"
    by (simp_all add: ex_cfg_def base_heights_def ex_checkpoints_def)
  show ?thesis using window_cuts_contiguous [OF m(1) s(1)] m s(2) by auto
qed

lemma window_complete_witness:
  "\<exists>m w. wreach length_hash ex_cfg int ex_checkpoints [] m \<and> w \<in> set (wm_frozen m)
     \<and> map cut_ShardID (fw_Cuts w) = [0, 1] \<and> fw_Intents w = [example_intent]"
proof -
  obtain m w where m: "wreach length_hash ex_cfg int ex_checkpoints [] m" "wm_frozen m = [w]" "fw_Intents w = [example_intent]"
    using ex_reach by blast
  show ?thesis using window_complete [OF m(1), of w] m by (auto simp: ex_range)
qed

end
