(* ===== verification/Batch.thy ===== *)
theory Batch
  imports Matcher_Correct Window_History
begin

text \<open>
  The batch builder, \<open>pkg/netting/batch/builder.go\<close>: it turns a frozen window into a batch
  proposal (matching, one settlement chunk per shard, the commitments over them) and a proposal
  into the settlement packages, and verifies a package against its header. The operations of the
  B-tree and the hash function are the parameters of the matcher and of the Merkle trees.
\<close>

section \<open>Payloads\<close>

definition ChunkLeafDomain :: string where
  "ChunkLeafDomain = ''BLOCKEMULATOR_SETTLEMENT_CHUNK_V1''"

definition write_bytes :: "bytes \<Rightarrow> bytes" where
  "write_bytes value = uint32_bytes (word_of_nat (length value)) @ value"

definition int64Key :: "int \<Rightarrow> bytes" where
  "int64Key value = uint64_bytes (uint64_of_int64 value)"

definition CutPayload :: "ShardCut \<Rightarrow> bytes" where
  "CutPayload c =
     uint64_bytes (uint64_of_int64 (cut_ShardID c)) @ uint64_bytes (cut_PreviousHeight c)
     @ uint64_bytes (cut_EndHeight c) @ hash_bytes (cut_EndBlockHash c)"

definition ResultPayload :: "hasher \<Rightarrow> IntentResult \<Rightarrow> bytes res" where
  "ResultPayload H r =
     bind_res (IntentResult_Validate H r) (\<lambda>_.
     Inr (hash_bytes (ir_IntentID r) @ write_bytes (big_bytes (matched_of r)) @ write_bytes (big_bytes (fallback_of r))))"

definition write_results :: "hasher \<Rightarrow> IntentResult list \<Rightarrow> bytes res" where
  "write_results H results =
     bind_res (map_res (\<lambda>r. bind_res (ResultPayload H r) (\<lambda>payload. Inr (write_bytes payload))) results)
       (\<lambda>parts. Inr (uint32_bytes (word_of_nat (length results)) @ concat parts))"

definition SettlementPayload :: "hasher \<Rightarrow> ShardSettlement \<Rightarrow> bytes res" where
  "SettlementPayload H s =
     fail_if (ss_ShardID s < 0 \<or> ss_ChunkCount s = 0 \<or> ss_ChunkIndex s \<ge> ss_ChunkCount s)
       (ErrOther ''invalid settlement coordinates'') (
     bind_res (write_results H (ss_Outgoing s)) (\<lambda>out.
     bind_res (write_results H (ss_Incoming s)) (\<lambda>inc.
     Inr (uint64_bytes (ss_WindowID s) @ uint64_bytes (uint64_of_int64 (ss_ShardID s))
          @ uint32_bytes (ss_ChunkIndex s) @ uint32_bytes (ss_ChunkCount s) @ out @ inc))))"

definition ShardCommitmentPayload :: "ShardCommitment \<Rightarrow> bytes" where
  "ShardCommitmentPayload c =
     uint64_bytes (uint64_of_int64 (sc_ShardID c)) @ hash_bytes (sc_ShardRoot c) @ uint32_bytes (sc_ChunkCount c)"

definition cutLeaves :: "ShardCut list \<Rightarrow> Leaf list" where
  "cutLeaves cuts = map (\<lambda>c. \<lparr>Key = int64Key (cut_ShardID c), Payload = CutPayload c\<rparr>) cuts"

definition resultLeaves :: "hasher \<Rightarrow> IntentResult list \<Rightarrow> Leaf list" where
  "resultLeaves H results =
     map (\<lambda>r. \<lparr>Key = hash_bytes (ir_IntentID r),
               Payload = (case ResultPayload H r of Inl _ \<Rightarrow> [] | Inr payload \<Rightarrow> payload)\<rparr>) results"

section \<open>Building a proposal\<close>

definition sortResults :: "IntentResult list \<Rightarrow> IntentResult list" where
  "sortResults results = sort_key ir_IntentID results"

text \<open>The loop of \<open>canonicalCuts\<close> over the sorted cuts.\<close>

fun check_cuts :: "int option \<Rightarrow> ShardCut list \<Rightarrow> unit res" where
  "check_cuts previous [] = Inr ()"
| "check_cuts previous (c # cs) =
     fail_if (cut_ShardID c < 0 \<or> cut_EndHeight c < cut_PreviousHeight c) ErrInvalidShardCut (
     fail_if (previous = Some (cut_ShardID c)) ErrDuplicateShardCut (
     check_cuts (Some (cut_ShardID c)) cs))"

definition canonicalCuts :: "ShardCut list \<Rightarrow> (ShardCut list \<times> int list) res" where
  "canonicalCuts input =
     (let cuts = sort_key cut_ShardID input in
      bind_res (check_cuts None cuts) (\<lambda>_. Inr (cuts, map cut_ShardID cuts)))"

definition empty_settlement :: "uint64 \<Rightarrow> int \<Rightarrow> ShardSettlement" where
  "empty_settlement windowID shardID =
     \<lparr>ss_BatchID = 0, ss_WindowID = windowID, ss_ShardID = shardID, ss_ChunkIndex = 0, ss_ChunkCount = 1,
      ss_Outgoing = [], ss_Incoming = []\<rparr>"

definition add_outgoing :: "IntentResult \<Rightarrow> ShardSettlement \<Rightarrow> ShardSettlement" where
  "add_outgoing r s = s\<lparr>ss_Outgoing := ss_Outgoing s @ [r]\<rparr>"

definition add_incoming :: "IntentResult \<Rightarrow> ShardSettlement \<Rightarrow> ShardSettlement" where
  "add_incoming r s = s\<lparr>ss_Incoming := ss_Incoming s @ [r]\<rparr>"

text \<open>
  The code updates the settlements through pointers; source and destination differ or are the same
  object, so the second update reads what the first one left.
\<close>

definition place_result ::
    "(int \<times> ShardSettlement) list \<Rightarrow> IntentResult \<Rightarrow> (int \<times> ShardSettlement) list res" where
  "place_result byShard r =
     (case map_of byShard (SourceShard (ir_Intent r)) of
        None \<Rightarrow> Inl ErrMissingShardCut
      | Some outgoing \<Rightarrow>
         (case map_of byShard (DestinationShard (ir_Intent r)) of
            None \<Rightarrow> Inl ErrMissingShardCut
          | Some _ \<Rightarrow>
             (let byShard1 = alist_set (SourceShard (ir_Intent r)) (add_outgoing r outgoing) byShard in
              if matched_of r > 0 then
                (case map_of byShard1 (DestinationShard (ir_Intent r)) of
                   None \<Rightarrow> Inl ErrMissingShardCut
                 | Some incoming \<Rightarrow>
                     Inr (alist_set (DestinationShard (ir_Intent r)) (add_incoming r incoming) byShard1))
              else Inr byShard1)))"

definition commit_settlement ::
    "hasher \<Rightarrow> ShardSettlement \<Rightarrow> (ShardSettlement \<times> Leaf) res" where
  "commit_settlement H s0 =
     (let s = s0\<lparr>ss_Outgoing := sortResults (ss_Outgoing s0), ss_Incoming := sortResults (ss_Incoming s0)\<rparr> in
      bind_res (SettlementPayload H s) (\<lambda>chunkPayload.
      bind_res (Build H ChunkLeafDomain
                 [\<lparr>Key = uint32_bytes (ss_ChunkIndex s), Payload = chunkPayload\<rparr>]) (\<lambda>chunkTree.
      Inr (s, \<lparr>Key = int64Key (ss_ShardID s),
               Payload = ShardCommitmentPayload \<lparr>sc_ShardID = ss_ShardID s, sc_ShardRoot = Root chunkTree,
                                                 sc_ChunkCount = ss_ChunkCount s\<rparr>\<rparr>))))"

definition buildSettlements ::
    "hasher \<Rightarrow> uint64 \<Rightarrow> int list \<Rightarrow> IntentResult list \<Rightarrow> (ShardSettlement list \<times> Leaf list) res" where
  "buildSettlements H windowID shardIDs results =
     bind_res (fold_res place_result
                (foldl (\<lambda>m s. alist_set s (empty_settlement windowID s) m) [] shardIDs) results) (\<lambda>byShard.
     bind_res (map_res (\<lambda>shardID. case map_of byShard shardID of
                          None \<Rightarrow> Inl GoPanic | Some s \<Rightarrow> commit_settlement H s) shardIDs) (\<lambda>parts.
     Inr (map fst parts, map snd parts)))"

definition Build_proposal ::
    "'t btree \<Rightarrow> hasher \<Rightarrow> Mode \<Rightarrow> FrozenWindow \<Rightarrow> hash256 \<Rightarrow> (BatchProposal \<times> Output) res" where
  "Build_proposal bt H builderMode frozen previousBatchID =
     fail_if (fw_Intents frozen = []) ErrEmptyWindow (
     let matcherMode = NormalizeMode builderMode in
     bind_res (canonicalCuts (fw_Cuts frozen)) (\<lambda>(cuts, shardIDs).
     bind_res (MatchWithMode bt H (fw_Intents frozen) matcherMode) (\<lambda>matchOutput.
     let results = sortResults (Results matchOutput) in
     bind_res (buildSettlements H (fw_WindowID frozen) shardIDs results) (\<lambda>(settlements, shardLeaves).
     bind_res (BuildRoots H (cutLeaves cuts) (resultLeaves H results) shardLeaves) (\<lambda>roots.
     let matchRoot = MatchRoot_of H roots;
         batchID = BatchID_of H previousBatchID (fw_WindowID frozen) matchRoot
     in Inr (\<lparr>Header = \<lparr>BatchID = batchID, PreviousBatchID = previousBatchID, WindowID = fw_WindowID frozen,
                         MatcherMode = matcherMode, CutRoot = roots_CutRoot roots,
                         IntentResultRoot = roots_IntentResultRoot roots,
                         ShardSettlementRoot = roots_ShardSettlementRoot roots, MatchRoot = matchRoot,
                         Cuts = cuts\<rparr>,
              Sidecar = \<lparr>FinalizedBlocks = fw_Receipts frozen, IntentResults = results,
                         ShardSettlements = map (\<lambda>s. s\<lparr>ss_BatchID := batchID\<rparr>) settlements\<rparr>\<rparr>,
            matchOutput))))))"

section \<open>Metrics\<close>

record ShardWindowMetric =
  sm_ShardID :: int
  sm_BlockCount :: uint64
  sm_CutHeight :: uint64

text \<open>The durations and sizes that are measured or filled in elsewhere are arguments or left out.\<close>

record NettingBatchMetric =
  bm_BatchID :: hash256
  bm_WindowID :: uint64
  bm_CloseReason :: string
  bm_IntentCount :: nat
  bm_Shards :: "ShardWindowMetric list"
  bm_WatermarkSkew :: uint64
  bm_WindowOpenDuration :: int
  bm_ExactMatchedIntentCount :: nat
  bm_BestFitMatchedIntentCount :: nat
  bm_SplitMatchedIntentCount :: nat
  bm_SplitAllocationCount :: nat
  bm_MatchedIntentCount :: nat
  bm_FallbackIntentCount :: nat
  bm_OriginalValue :: int
  bm_MatchedValue :: int
  bm_FallbackValue :: int

fun cut_bounds :: "(uint64 \<times> uint64) option \<Rightarrow> ShardCut list \<Rightarrow> (uint64 \<times> uint64) option" where
  "cut_bounds b [] = b"
| "cut_bounds b (c # cs) =
     cut_bounds (Some (case b of None \<Rightarrow> (cut_EndHeight c, cut_EndHeight c)
                       | Some (lo, hi) \<Rightarrow> (if cut_EndHeight c < lo then cut_EndHeight c else lo,
                                           if cut_EndHeight c > hi then cut_EndHeight c else hi))) cs"

definition summarizeCuts :: "ShardCut list \<Rightarrow> ShardWindowMetric list \<times> uint64" where
  "summarizeCuts cuts =
     (sort_key sm_ShardID (map (\<lambda>c. \<lparr>sm_ShardID = cut_ShardID c,
        sm_BlockCount = cut_EndHeight c - cut_PreviousHeight c, sm_CutHeight = cut_EndHeight c\<rparr>) cuts),
      case cut_bounds None cuts of None \<Rightarrow> 0 | Some (lo, hi) \<Rightarrow> hi - lo)"

definition phase_intents :: "Phase \<Rightarrow> Allocation list \<Rightarrow> hash256 list" where
  "phase_intents ph als =
     remdups (concat (map (\<lambda>al. [LowerToHigherIntentID al, HigherToLowerIntentID al])
       (filter (\<lambda>al. AllocPhase al = ph) als)))"

definition summarizeBatchMetric :: "FrozenWindow \<Rightarrow> hash256 \<Rightarrow> Output \<Rightarrow> NettingBatchMetric" where
  "summarizeBatchMetric frozen batchID out =
     \<lparr>bm_BatchID = batchID, bm_WindowID = fw_WindowID frozen,
      bm_CloseReason = (if fw_CloseReason frozen = [] then ''unspecified'' else fw_CloseReason frozen),
      bm_IntentCount = length (fw_Intents frozen),
      bm_Shards = fst (summarizeCuts (fw_Cuts frozen)), bm_WatermarkSkew = snd (summarizeCuts (fw_Cuts frozen)),
      bm_WindowOpenDuration = fw_SealedAt frozen - fw_OpenedAt frozen,
      bm_ExactMatchedIntentCount = length (phase_intents ExactPhase (Allocations out)),
      bm_BestFitMatchedIntentCount = length (phase_intents BestFitPhase (Allocations out)),
      bm_SplitMatchedIntentCount = length (phase_intents SplitPhase (Allocations out)),
      bm_SplitAllocationCount = length (filter (\<lambda>al. AllocPhase al = SplitPhase) (Allocations out)),
      bm_MatchedIntentCount = length (filter (\<lambda>r. matched_of r > 0) (Results out)),
      bm_FallbackIntentCount = length (filter (\<lambda>r. fallback_of r > 0) (Results out)),
      bm_OriginalValue = sum_list (map (\<lambda>r. amount_of (ir_Intent r)) (Results out)),
      bm_MatchedValue = sum_list (map matched_of (Results out)),
      bm_FallbackValue = sum_list (map fallback_of (Results out))\<rparr>"

definition BuildMeasured ::
    "'t btree \<Rightarrow> hasher \<Rightarrow> Mode \<Rightarrow> FrozenWindow \<Rightarrow> hash256 \<Rightarrow> (BatchProposal \<times> NettingBatchMetric) res" where
  "BuildMeasured bt H builderMode frozen previousBatchID =
     bind_res (Build_proposal bt H builderMode frozen previousBatchID) (\<lambda>(proposal, out).
     Inr (proposal, summarizeBatchMetric frozen (BatchID (Header proposal)) out))"

definition Builder_Build ::
    "'t btree \<Rightarrow> hasher \<Rightarrow> Mode \<Rightarrow> FrozenWindow \<Rightarrow> hash256 \<Rightarrow> BatchProposal res" where
  "Builder_Build bt H builderMode frozen previousBatchID =
     bind_res (BuildMeasured bt H builderMode frozen previousBatchID) (\<lambda>pm. Inr (fst pm))"

section \<open>Settlement packages\<close>

definition group_by_shard :: "ShardSettlement list \<Rightarrow> (int \<times> ShardSettlement list) list" where
  "group_by_shard ss =
     foldl (\<lambda>m s. alist_set (ss_ShardID s)
       ((case map_of m (ss_ShardID s) of None \<Rightarrow> [] | Some xs \<Rightarrow> xs) @ [s]) m) [] ss"

text \<open>One chunk of a shard, with the length of its group and its position in it.\<close>

definition chunk_leaf :: "hasher \<Rightarrow> nat \<Rightarrow> ShardSettlement \<times> nat \<Rightarrow> Leaf res" where
  "chunk_leaf H n si =
     (case si of (s, idx) \<Rightarrow>
       fail_if (ss_ChunkCount s \<noteq> word_of_nat n \<or> ss_ChunkIndex s \<noteq> word_of_nat idx) ErrInvalidSettlement (
       bind_res (SettlementPayload H s) (\<lambda>payload.
       Inr \<lparr>Key = uint32_bytes (ss_ChunkIndex s), Payload = payload\<rparr>)))"

record shardProofData =
  pd_shardID :: int
  pd_settlements :: "ShardSettlement list"
  pd_commitment :: ShardCommitment
  pd_tree :: Tree

definition shard_proof_data :: "hasher \<Rightarrow> int \<times> ShardSettlement list \<Rightarrow> shardProofData res" where
  "shard_proof_data H grp =
     (let settlements = sort_key ss_ChunkIndex (snd grp) in
      bind_res (map_res (chunk_leaf H (length settlements)) (zip settlements [0..<length settlements])) (\<lambda>leaves.
      bind_res (Build H ChunkLeafDomain leaves) (\<lambda>chunkTree.
      Inr \<lparr>pd_shardID = fst grp, pd_settlements = settlements,
           pd_commitment = \<lparr>sc_ShardID = fst grp, sc_ShardRoot = Root chunkTree,
                            sc_ChunkCount = word_of_nat (length settlements)\<rparr>,
           pd_tree = chunkTree\<rparr>)))"

definition shard_packages ::
    "MatchRootBlockBody \<Rightarrow> Tree \<Rightarrow> shardProofData \<Rightarrow> SettlementPackage list res" where
  "shard_packages header shardTree d =
     bind_res (Tree_Proof shardTree (int64Key (pd_shardID d))) (\<lambda>shardProof.
     map_res (\<lambda>s. bind_res (Tree_Proof (pd_tree d) (uint32_bytes (ss_ChunkIndex s))) (\<lambda>chunkProof.
       Inr \<lparr>pk_Header = header, pk_Settlement = s, pk_ChunkProof = chunkProof,
            pk_ShardCommitment = pd_commitment d, pk_ShardProof = shardProof\<rparr>)) (pd_settlements d))"

definition BuildSettlementPackages :: "hasher \<Rightarrow> BatchProposal \<Rightarrow> SettlementPackage list res" where
  "BuildSettlementPackages H proposal =
     bind_res (map_res (shard_proof_data H)
                (sort_key fst (group_by_shard (ShardSettlements (Sidecar proposal))))) (\<lambda>datas.
     bind_res (Build H ShardSettlementLeafDomain
                (map (\<lambda>d. \<lparr>Key = int64Key (pd_shardID d),
                           Payload = ShardCommitmentPayload (pd_commitment d)\<rparr>) datas)) (\<lambda>shardTree.
     fail_if (Root shardTree \<noteq> ShardSettlementRoot (Header proposal)) ErrInvalidSettlement (
     bind_res (map_res (shard_packages (Header proposal) shardTree) datas) (\<lambda>packs. Inr (concat packs)))))"

definition VerifySettlementPackage :: "hasher \<Rightarrow> SettlementPackage \<Rightarrow> unit res" where
  "VerifySettlementPackage H pack =
     (let s = pk_Settlement pack; h = pk_Header pack; c = pk_ShardCommitment pack in
      fail_if (ss_BatchID s \<noteq> BatchID h \<or> ss_WindowID s \<noteq> WindowID h
               \<or> ss_ShardID s \<noteq> sc_ShardID c \<or> ss_ChunkCount s \<noteq> sc_ChunkCount c) ErrInvalidSettlement (
      bind_res (SettlementPayload H s) (\<lambda>chunkPayload.
      fail_if (\<not> Verify H ChunkLeafDomain chunkPayload (pk_ChunkProof pack) (sc_ShardRoot c)) ErrInvalidSettlement (
      fail_if (\<not> Verify H ShardSettlementLeafDomain (ShardCommitmentPayload c) (pk_ShardProof pack)
                 (ShardSettlementRoot h)) ErrInvalidSettlement (
      fail_if (MatchRoot_of H (header_roots h) \<noteq> MatchRoot h
               \<or> BatchID_of H (PreviousBatchID h) (WindowID h) (MatchRoot h) \<noteq> BatchID h) ErrInvalidSettlement (
      Inr ()))))))"

end
