(* ===== verification/Fallback.thy ===== *)
theory Fallback
  imports Registry Batch
begin

text \<open>
  Reserved fallbacks, \<open>pkg/netting/fallback/outbox.go\<close> and \<open>executor.go\<close>: the outbox a source
  shard keeps in the storage of the registry account for the amounts that were not matched, and
  the credit the destination shard executes once per fallback. The records are stored as \<open>gob\<close>
  bytes in 32-byte words; the encoder and decoder of \<open>encoding/gob\<close> are the parameter \<open>codec\<close>.
\<close>

section \<open>Slots\<close>

record 'a codec =
  enc :: "'a \<Rightarrow> bytes res"
  dec :: "bytes \<Rightarrow> 'a res"

definition statusDomain :: string where "statusDomain = ''fallback:status''"
definition lengthDomain :: string where "lengthDomain = ''fallback:length''"
definition dataDomain :: string where "dataDomain = ''fallback:data''"
definition indexDomain :: string where "indexDomain = ''fallback:index''"
definition countDomain :: string where "countDomain = ''fallback:count''"
definition executedDomain :: string where "executedDomain = ''fallback:executed''"

definition recordKeyDomain :: string where
  "recordKeyDomain = ''BLOCKEMULATOR_RESERVED_FALLBACK_V1''"

definition storageAddress :: "hasher \<Rightarrow> address" where
  "storageAddress H = IntentRegistryAddress H"

definition recordKey :: "hasher \<Rightarrow> FallbackKey \<Rightarrow> hash256" where
  "recordKey H key = H (str_bytes recordKeyDomain @ hash_bytes (fk_IntentID key) @ hash_bytes (fk_BatchID key))"

definition recordSlot :: "hasher \<Rightarrow> string \<Rightarrow> hash256 \<Rightarrow> hash256" where
  "recordSlot H domain key = H (str_bytes domain @ hash_bytes key)"

definition dataSlot :: "hasher \<Rightarrow> hash256 \<Rightarrow> uint64 \<Rightarrow> hash256" where
  "dataSlot H key index = H (str_bytes dataDomain @ hash_bytes key @ uint64_bytes index)"

definition indexSlot :: "hasher \<Rightarrow> uint64 \<Rightarrow> hash256" where
  "indexSlot H index = H (str_bytes indexDomain @ uint64_bytes index)"

definition countSlot :: "hasher \<Rightarrow> hash256" where
  "countSlot H = H (str_bytes countDomain)"

definition credit_executedSlot :: "hasher \<Rightarrow> hash256 \<Rightarrow> hash256" where
  "credit_executedSlot H key = recordSlot H executedDomain key"

section \<open>The outbox\<close>

datatype Status = StatusUnknown | StatusPending | StatusCompleted

fun Status_number :: "Status \<Rightarrow> int" where
  "Status_number StatusUnknown = 0"
| "Status_number StatusPending = 1"
| "Status_number StatusCompleted = 2"

text \<open>\<open>Big().Uint64()\<close> of a storage word.\<close>

definition get_uint64 :: "'s geth \<Rightarrow> hasher \<Rightarrow> 's \<Rightarrow> hash256 \<Rightarrow> uint64" where
  "get_uint64 G H s slot = word_of_int (g_HashBig G (g_GetState G s (storageAddress H) slot))"

definition outbox_count :: "'s geth \<Rightarrow> hasher \<Rightarrow> 's \<Rightarrow> uint64" where
  "outbox_count G H s = get_uint64 G H s (countSlot H)"

definition outbox_status :: "'s geth \<Rightarrow> hasher \<Rightarrow> 's \<Rightarrow> hash256 \<Rightarrow> Status" where
  "outbox_status G H s key =
     (let value = get_uint64 G H s (recordSlot H statusDomain key) in
      if value > 2 then StatusUnknown
      else if value = 0 then StatusUnknown else if value = 1 then StatusPending else StatusCompleted)"

definition setStatus :: "'s geth \<Rightarrow> hasher \<Rightarrow> hash256 \<Rightarrow> Status \<Rightarrow> 's \<Rightarrow> 's" where
  "setStatus G H key st s =
     g_SetState G (storageAddress H) (recordSlot H statusDomain key) (g_BigToHash G (Status_number st)) s"

definition ensureStorageAccount :: "'s geth \<Rightarrow> hasher \<Rightarrow> 's \<Rightarrow> 's" where
  "ensureStorageAccount G H s =
     (if g_GetNonce G s (storageAddress H) = 0 then g_SetNonce G (storageAddress H) 1 s else s)"

text \<open>\<open>copy(word[:], encoded[offset:end])\<close>: a chunk, filled up with zero bytes.\<close>

definition chunk_word :: "bytes \<Rightarrow> hash256" where
  "chunk_word bs = word_of_nat (be_val (bs @ replicate (32 - length bs) 0))"

fun store_chunks :: "'s geth \<Rightarrow> hasher \<Rightarrow> hash256 \<Rightarrow> nat \<Rightarrow> bytes \<Rightarrow> 's \<Rightarrow> 's" where
  "store_chunks G H key idx encoded s =
     (if encoded = [] then s
      else store_chunks G H key (idx + 1) (drop 32 encoded)
             (g_SetState G (storageAddress H) (dataSlot H key (word_of_nat idx)) (chunk_word (take 32 encoded)) s))"

declare store_chunks.simps [simp del]

definition create_effects ::
    "'s geth \<Rightarrow> hasher \<Rightarrow> hash256 \<Rightarrow> bytes \<Rightarrow> 256 word \<Rightarrow> 's \<Rightarrow> 's" where
  "create_effects G H key encoded amount s0 =
     (let s1 = g_SubBalance G (EscrowAccountAddress H) amount (ensureStorageAccount G H s0);
          count = outbox_count G H s1;
          s2 = g_SetState G (storageAddress H) (indexSlot H count) key s1;
          s3 = g_SetState G (storageAddress H) (countSlot H) (g_BigToHash G (uint (count + 1))) s2;
          s4 = g_SetState G (storageAddress H) (recordSlot H lengthDomain key)
                 (g_BigToHash G (uint (word_of_nat (length encoded) :: uint64))) s3
      in setStatus G H key StatusPending (store_chunks G H key 0 encoded s4))"

definition Create ::
    "'s geth \<Rightarrow> hasher \<Rightarrow> ReservedFallback codec \<Rightarrow> ReservedFallback \<Rightarrow> 's \<Rightarrow> 's \<times> unit res" where
  "Create G H gob item s =
     (case fb_Amount item of
        None \<Rightarrow> (s, Inl ErrInvalidFallback)
      | Some a \<Rightarrow>
          if a \<le> 0 \<or> fb_IntentID item = 0 \<or> fb_BatchID item = 0 then (s, Inl ErrInvalidFallback)
          else let key = recordKey H (fallback_Key item) in
          if outbox_status G H s key \<noteq> StatusUnknown then (s, Inr ())
          else (case enc gob item of
                  Inl e \<Rightarrow> (s, Inl e)
                | Inr encoded \<Rightarrow>
                   (case g_FromBig G a of
                      None \<Rightarrow> (s, Inl ErrInsufficientBalance)
                    | Some amount \<Rightarrow>
                        if \<not> g_CanTransfer G s (EscrowAccountAddress H) amount then (s, Inl ErrInsufficientBalance)
                        else (create_effects G H key encoded amount s, Inr ()))))"

definition outbox_load ::
    "'s geth \<Rightarrow> hasher \<Rightarrow> ReservedFallback codec \<Rightarrow> 's \<Rightarrow> hash256 \<Rightarrow> ReservedFallback res" where
  "outbox_load G H gob s key =
     (let len = get_uint64 G H s (recordSlot H lengthDomain key) in
      fail_if (len = 0) ErrFallbackPayload (
      let chunks = (len + 32 - 1) div 32;
          encoded = concat (map (\<lambda>idx. hash_bytes (g_GetState G s (storageAddress H) (dataSlot H key (word_of_nat idx))))
                             [0..<unat chunks])
      in fail_if (unat len > length encoded) GoPanic (
         wrap_err ErrFallbackPayload (dec gob (take (unat len) encoded)))))"

definition pending_at ::
    "'s geth \<Rightarrow> hasher \<Rightarrow> ReservedFallback codec \<Rightarrow> 's \<Rightarrow> nat \<Rightarrow> ReservedFallback list res" where
  "pending_at G H gob s idx =
     (let key = g_GetState G s (storageAddress H) (indexSlot H (word_of_nat idx)) in
      if outbox_status G H s key \<noteq> StatusPending then Inr []
      else bind_res (outbox_load G H gob s key) (\<lambda>item. Inr [item]))"

definition ListPending ::
    "'s geth \<Rightarrow> hasher \<Rightarrow> ReservedFallback codec \<Rightarrow> 's \<Rightarrow> ReservedFallback list res" where
  "ListPending G H gob s =
     bind_res (map_res (pending_at G H gob s) [0..<unat (outbox_count G H s)]) (\<lambda>items. Inr (concat items))"

definition Complete :: "'s geth \<Rightarrow> hasher \<Rightarrow> FallbackKey \<Rightarrow> 's \<Rightarrow> 's \<times> unit res" where
  "Complete G H key s =
     (let rec = recordKey H key in
      case outbox_status G H s rec of
        StatusPending \<Rightarrow> (setStatus G H rec StatusCompleted s, Inr ())
      | StatusCompleted \<Rightarrow> (s, Inr ())
      | StatusUnknown \<Rightarrow> (s, Inl ErrFallbackNotFound))"

definition fallback_Status :: "'s geth \<Rightarrow> hasher \<Rightarrow> 's \<Rightarrow> FallbackKey \<Rightarrow> Status" where
  "fallback_Status G H s key = outbox_status G H s (recordKey H key)"

section \<open>The credit\<close>

text \<open>\<open>account.NormalInitBalanceStr\<close>, given to an account that does not exist yet.\<close>

definition fallbackInitialBalance :: "256 word" where
  "fallbackInitialBalance = 1000000000000000000000000000000000000"

text \<open>
  The search for the fallback among the outgoing results of its proof. The results passed
  verification, so their amounts are present; \<open>Cmp\<close> on a \<open>nil\<close> amount of the item panics.
\<close>

definition credit_matches :: "ReservedFallback \<Rightarrow> IntentResult list \<Rightarrow> unit res" where
  "credit_matches item rs =
     (case find (\<lambda>r. ir_IntentID r = fb_IntentID item) rs of
        None \<Rightarrow> Inl ErrFallbackProof
      | Some r \<Rightarrow>
          bind_res (deref_big (fb_Amount item)) (\<lambda>a.
          bind_res (deref_big (ir_FallbackAmount r)) (\<lambda>f.
          fail_if (f \<noteq> a \<or> Sender (ir_Intent r) \<noteq> fb_Sender item \<or> Recipient (ir_Intent r) \<noteq> fb_Recipient item
                   \<or> SourceShard (ir_Intent r) \<noteq> fb_SourceShard item
                   \<or> DestinationShard (ir_Intent r) \<noteq> fb_DestinationShard item) ErrFallbackProof (
          fail_if (a \<le> 0) ErrFallbackProof (Inr ())))))"

definition credit_checks ::
    "hasher \<Rightarrow> int \<Rightarrow> ReservedFallback \<Rightarrow> MatchRootBlockBody \<Rightarrow> unit res" where
  "credit_checks H shardID item confirmed =
     fail_if (fb_DestinationShard item \<noteq> shardID) ErrFallbackWrongShard (
     fail_if (pk_Header (fb_Proof item) \<noteq> confirmed \<or> fb_BatchID item \<noteq> BatchID confirmed) ErrFallbackProof (
     case VerifySettlementPackage H (fb_Proof item) of
       Inl _ \<Rightarrow> Inl ErrFallbackProof
     | Inr _ \<Rightarrow> credit_matches item (ss_Outgoing (pk_Settlement (fb_Proof item)))))"

definition credit_recipient :: "'s geth \<Rightarrow> 256 word \<Rightarrow> address \<Rightarrow> 's \<Rightarrow> 's" where
  "credit_recipient G initial recipient s =
     (if \<not> g_Exist G s recipient then g_SetBalance G recipient initial s else s)"

definition credit_effects :: "'s geth \<Rightarrow> hasher \<Rightarrow> hash256 \<Rightarrow> address \<Rightarrow> 256 word \<Rightarrow> 's \<Rightarrow> 's" where
  "credit_effects G H key recipient amount s =
     g_SetState G (storageAddress H) (credit_executedSlot H key) (g_BigToHash G 1)
       (ensureStorageAccount G H
         (g_AddBalance G recipient amount (credit_recipient G fallbackInitialBalance recipient s)))"

definition ExecuteCredit ::
    "'s geth \<Rightarrow> hasher \<Rightarrow> int \<Rightarrow> ReservedFallback \<Rightarrow> MatchRootBlockBody \<Rightarrow> 's \<Rightarrow> 's \<times> unit res" where
  "ExecuteCredit G H shardID item confirmed s =
     (case bind_res (credit_checks H shardID item confirmed) (\<lambda>_. deref_big (fb_Amount item)) of
        Inl e \<Rightarrow> (s, Inl e)
      | Inr a \<Rightarrow>
         (let key = recordKey H (fallback_Key item) in
          if g_GetState G s (storageAddress H) (credit_executedSlot H key) \<noteq> 0 then (s, Inr ())
          else (case g_FromBig G a of
                  None \<Rightarrow> (s, Inl ErrInvalidFallback)
                | Some amount \<Rightarrow> (credit_effects G H key (fb_Recipient item) amount s, Inr ()))))"

definition IsCreditExecuted :: "'s geth \<Rightarrow> hasher \<Rightarrow> 's \<Rightarrow> FallbackKey \<Rightarrow> bool" where
  "IsCreditExecuted G H s key \<longleftrightarrow> g_GetState G s (storageAddress H) (credit_executedSlot H (recordKey H key)) \<noteq> 0"

end
