(* ===== verification/Settlement.thy ===== *)
theory Settlement
  imports Fallback
begin

text \<open>
  The execution of settlement chunks, \<open>pkg/netting/settlement/executor.go\<close>, and the inbox that
  releases packages for execution once their match root is confirmed, \<open>inbox.go\<close>.
  \<open>reflect.DeepEqual\<close> on headers is equality; a Go map of balances is an association list.
\<close>

section \<open>The executor\<close>

definition executedSlotDomain :: string where "executedSlotDomain = ''settlement:executed''"

record balanceKey =
  Counterparty :: int
  bk_AssetID :: hash256

definition settlementInitialBalance :: "256 word" where
  "settlementInitialBalance = 1000000000000000000000000000000000000"

definition executedSlot :: "hasher \<Rightarrow> hash256 \<Rightarrow> int \<Rightarrow> uint32 \<Rightarrow> hash256" where
  "executedSlot H batchID shardID chunkIndex =
     H (str_bytes executedSlotDomain @ hash_bytes batchID @ uint64_bytes (uint64_of_int64 shardID)
        @ uint32_bytes chunkIndex)"

definition IsExecuted :: "'s geth \<Rightarrow> hasher \<Rightarrow> 's \<Rightarrow> hash256 \<Rightarrow> int \<Rightarrow> uint32 \<Rightarrow> bool" where
  "IsExecuted G H s batchID shardID chunkIndex \<longleftrightarrow>
     g_GetState G s (IntentRegistryAddress H) (executedSlot H batchID shardID chunkIndex) \<noteq> 0"

definition markExecuted :: "'s geth \<Rightarrow> hasher \<Rightarrow> hash256 \<Rightarrow> int \<Rightarrow> uint32 \<Rightarrow> 's \<Rightarrow> 's" where
  "markExecuted G H batchID shardID chunkIndex s =
     g_SetState G (IntentRegistryAddress H) (executedSlot H batchID shardID chunkIndex) (g_BigToHash G 1)
       (if g_GetNonce G s (IntentRegistryAddress H) = 0
        then g_SetNonce G (IntentRegistryAddress H) 1 s else s)"

definition verifyProofs :: "hasher \<Rightarrow> SettlementPackage \<Rightarrow> unit res" where
  "verifyProofs H pack =
     (case VerifySettlementPackage H pack of Inl _ \<Rightarrow> Inl ErrInvalidProof | Inr _ \<Rightarrow> Inr ())"

type_synonym balances = "(balanceKey \<times> int) list"

definition addAmount :: "balances \<Rightarrow> balanceKey \<Rightarrow> int \<Rightarrow> balances" where
  "addAmount amounts key amount =
     (if amount = 0 then amounts
      else alist_set key ((case map_of amounts key of None \<Rightarrow> 0 | Some x \<Rightarrow> x) + amount) amounts)"

definition equalBalances :: "balances \<Rightarrow> balances \<Rightarrow> bool" where
  "equalBalances left right \<longleftrightarrow>
     (\<forall>(key, amount) \<in> set left. map_of right key = Some amount)
     \<and> (\<forall>(key, amount) \<in> set right. map_of left key = Some amount)"

text \<open>The bodies of the two loops of \<open>validateInstructions\<close>; the state is the balances and the IDs seen.\<close>

definition check_outgoing ::
    "'s geth \<Rightarrow> hasher \<Rightarrow> 's \<Rightarrow> int \<Rightarrow> balances \<times> hash256 set \<Rightarrow> IntentResult \<Rightarrow> (balances \<times> hash256 set) res" where
  "check_outgoing G H s shardID st r =
     (case st of (outgoing, seen) \<Rightarrow>
       bind_res (IntentResult_Validate H r) (\<lambda>_.
       fail_if (SourceShard (ir_Intent r) \<noteq> shardID) ErrWrongShard (
       fail_if (ir_IntentID r \<in> seen) ErrSettlementDuplicateIntent (
       bind_res (registry_Get G H s (ir_Intent r)) (\<lambda>reservation.
       bind_res (deref_big (Amount (ir_Intent r))) (\<lambda>a.
       fail_if (rv_Status reservation \<noteq> ReservationReserved \<or> rv_Amount reservation \<noteq> a) ErrInvalidStatus (
       bind_res (deref_big (ir_MatchedAmount r)) (\<lambda>m.
       Inr (addAmount outgoing \<lparr>Counterparty = DestinationShard (ir_Intent r), bk_AssetID = AssetID (ir_Intent r)\<rparr> m,
            insert (ir_IntentID r) seen)))))))))"

definition check_incoming ::
    "hasher \<Rightarrow> int \<Rightarrow> balances \<times> hash256 set \<Rightarrow> IntentResult \<Rightarrow> (balances \<times> hash256 set) res" where
  "check_incoming H shardID st r =
     (case st of (incoming, seen) \<Rightarrow>
       bind_res (IntentResult_Validate H r) (\<lambda>_.
       bind_res (deref_big (ir_MatchedAmount r)) (\<lambda>m.
       fail_if (DestinationShard (ir_Intent r) \<noteq> shardID \<or> m \<le> 0) ErrWrongShard (
       fail_if (ir_IntentID r \<in> seen) ErrSettlementDuplicateIntent (
       Inr (addAmount incoming \<lparr>Counterparty = SourceShard (ir_Intent r), bk_AssetID = AssetID (ir_Intent r)\<rparr> m,
            insert (ir_IntentID r) seen))))))"

definition validateInstructions ::
    "'s geth \<Rightarrow> hasher \<Rightarrow> 's \<Rightarrow> int \<Rightarrow> ShardSettlement \<Rightarrow> unit res" where
  "validateInstructions G H s shardID settlement =
     bind_res (fold_res (check_outgoing G H s shardID) ([], {}) (ss_Outgoing settlement)) (\<lambda>(outgoing, seen).
     bind_res (fold_res (check_incoming H shardID) ([], seen) (ss_Incoming settlement)) (\<lambda>(incoming, seen').
     fail_if (\<not> equalBalances outgoing incoming) ErrSettlementConservation (Inr ())))"

definition fallback_item :: "SettlementPackage \<Rightarrow> IntentResult \<Rightarrow> ReservedFallback" where
  "fallback_item pack r =
     \<lparr>fb_IntentID = ir_IntentID r, fb_BatchID = ss_BatchID (pk_Settlement pack), fb_Sender = Sender (ir_Intent r),
      fb_Recipient = Recipient (ir_Intent r), fb_SourceShard = SourceShard (ir_Intent r),
      fb_DestinationShard = DestinationShard (ir_Intent r), fb_Amount = ir_FallbackAmount r, fb_Proof = pack\<rparr>"

text \<open>
  The loop over the outgoing results and the one over the incoming results. On an error the
  state they leave does not matter: the caller reverts to its snapshot.
\<close>

definition settle_outgoing ::
    "'s geth \<Rightarrow> hasher \<Rightarrow> ReservedFallback codec \<Rightarrow> SettlementPackage \<Rightarrow> 's \<Rightarrow> IntentResult \<Rightarrow> 's res" where
  "settle_outgoing G H gob pack s r =
     (case Consume G H r (ss_BatchID (pk_Settlement pack)) s of
        (s1, Inl e) \<Rightarrow> Inl e
      | (s1, Inr _) \<Rightarrow>
          bind_res (deref_big (ir_FallbackAmount r)) (\<lambda>f.
          if f > 0 then
            (case Create G H gob (fallback_item pack r) s1 of
               (s2, Inl e) \<Rightarrow> Inl e
             | (s2, Inr _) \<Rightarrow> Inr s2)
          else Inr s1))"

definition settle_incoming :: "'s geth \<Rightarrow> hasher \<Rightarrow> 's \<Rightarrow> IntentResult \<Rightarrow> 's res" where
  "settle_incoming G H s r =
     bind_res (deref_big (ir_MatchedAmount r)) (\<lambda>m.
     case g_FromBig G m of
       None \<Rightarrow> Inl ErrSettlementConservation
     | Some amount \<Rightarrow>
         Inr (g_AddBalance G (Recipient (ir_Intent r)) amount
               (g_SubBalance G (EscrowAccountAddress H) amount
                 (credit_recipient G settlementInitialBalance (Recipient (ir_Intent r)) s))))"

definition execute_header_checks :: "int \<Rightarrow> SettlementPackage \<Rightarrow> MatchRootBlockBody \<Rightarrow> unit res" where
  "execute_header_checks shardID pack confirmed =
     (let settlement = pk_Settlement pack in
      fail_if (pk_Header pack \<noteq> confirmed) ErrUnknownMatchRoot (
      fail_if (ss_ShardID settlement \<noteq> shardID \<or> sc_ShardID (pk_ShardCommitment pack) \<noteq> shardID) ErrWrongShard (
      fail_if (ss_BatchID settlement \<noteq> BatchID confirmed \<or> ss_WindowID settlement \<noteq> WindowID confirmed
               \<or> ss_ChunkCount settlement \<noteq> sc_ChunkCount (pk_ShardCommitment pack)) ErrInvalidProof (
      Inr ()))))"

definition total_incoming :: "ShardSettlement \<Rightarrow> int" where
  "total_incoming settlement = sum_list (map matched_of (ss_Incoming settlement))"

definition total_required :: "ShardSettlement \<Rightarrow> int" where
  "total_required settlement = total_incoming settlement + sum_list (map fallback_of (ss_Outgoing settlement))"

definition execute_checks :: "'s geth \<Rightarrow> hasher \<Rightarrow> int \<Rightarrow> SettlementPackage \<Rightarrow> 's \<Rightarrow> unit res" where
  "execute_checks G H shardID pack s =
     bind_res (verifyProofs H pack) (\<lambda>_.
     bind_res (validateInstructions G H s shardID (pk_Settlement pack)) (\<lambda>_.
     case g_FromBig G (total_required (pk_Settlement pack)) of
       None \<Rightarrow> Inl ErrInsufficientBalance
     | Some amount \<Rightarrow>
         fail_if (\<not> g_CanTransfer G s (EscrowAccountAddress H) amount) ErrInsufficientBalance (Inr ())))"

definition execute_effects ::
    "'s geth \<Rightarrow> hasher \<Rightarrow> ReservedFallback codec \<Rightarrow> int \<Rightarrow> SettlementPackage \<Rightarrow> 's \<Rightarrow> 's res" where
  "execute_effects G H gob shardID pack s =
     (let settlement = pk_Settlement pack in
      bind_res (fold_res (settle_outgoing G H gob pack) s (ss_Outgoing settlement)) (\<lambda>s1.
      bind_res (fold_res (settle_incoming G H) s1 (ss_Incoming settlement)) (\<lambda>s2.
      Inr (markExecuted G H (ss_BatchID settlement) shardID (ss_ChunkIndex settlement) s2))))"

definition Execute ::
    "'s geth \<Rightarrow> hasher \<Rightarrow> ReservedFallback codec \<Rightarrow> int \<Rightarrow> SettlementPackage \<Rightarrow> MatchRootBlockBody \<Rightarrow> 's \<Rightarrow> 's \<times> unit res" where
  "Execute G H gob shardID pack confirmed s =
     (case execute_header_checks shardID pack confirmed of
        Inl e \<Rightarrow> (s, Inl e)
      | Inr _ \<Rightarrow>
         if IsExecuted G H s (ss_BatchID (pk_Settlement pack)) shardID (ss_ChunkIndex (pk_Settlement pack))
         then (s, Inr ())
         else (case execute_checks G H shardID pack s of
                 Inl e \<Rightarrow> (s, Inl e)
               | Inr _ \<Rightarrow>
                  (case execute_effects G H gob shardID pack s of
                     Inl e \<Rightarrow> (s, Inl e)
                   | Inr s' \<Rightarrow> (s', Inr ()))))"

section \<open>The inbox\<close>

record packageKey =
  pkey_BatchID :: hash256
  pkey_ChunkIndex :: uint32

text \<open>
  The collaborators of the inbox are its parameters: \<open>confirm\<close> is \<open>RootConfirmer.ConfirmMatchRoot\<close>
  and \<open>add\<close> is \<open>TransactionAdder.AddTxs\<close> of the package's settlement transaction; both change
  the state \<open>'w\<close> around the inbox and may fail.
\<close>

record Inbox =
  ib_shardID :: int
  ib_confirmed :: "hash256 \<rightharpoonup> MatchRootBlockBody"
  ib_pending :: "(packageKey \<times> SettlementPackage) list"
  ib_enqueued :: "packageKey set"

definition NewInbox :: "int \<Rightarrow> Inbox" where
  "NewInbox shardID = \<lparr>ib_shardID = shardID, ib_confirmed = Map.empty, ib_pending = [], ib_enqueued = {}\<rparr>"

definition package_key :: "SettlementPackage \<Rightarrow> packageKey" where
  "package_key pack = \<lparr>pkey_BatchID = BatchID (pk_Header pack), pkey_ChunkIndex = ss_ChunkIndex (pk_Settlement pack)\<rparr>"

definition enqueue ::
    "(SettlementPackage \<Rightarrow> 'w \<Rightarrow> 'w \<times> unit res) \<Rightarrow> SettlementPackage \<Rightarrow> Inbox \<Rightarrow> 'w \<Rightarrow> (Inbox \<times> 'w) \<times> unit res" where
  "enqueue add pack i w =
     (if ib_confirmed i (BatchID (pk_Header pack)) \<noteq> Some (pk_Header pack) then ((i, w), Inl ErrPackageRootMismatch)
      else (case add pack w of
              (w', Inl e) \<Rightarrow> ((i, w'), Inl e)
            | (w', Inr _) \<Rightarrow> ((i\<lparr>ib_enqueued := insert (package_key pack) (ib_enqueued i)\<rparr>, w'), Inr ())))"

definition AddPackage ::
    "(SettlementPackage \<Rightarrow> 'w \<Rightarrow> 'w \<times> unit res) \<Rightarrow> SettlementPackage \<Rightarrow> Inbox \<Rightarrow> 'w \<Rightarrow> (Inbox \<times> 'w) \<times> unit res" where
  "AddPackage add pack i w =
     (if ss_ShardID (pk_Settlement pack) \<noteq> ib_shardID i then ((i, w), Inl ErrPackageWrongShard)
      else let key = package_key pack in
      if key \<in> ib_enqueued i then ((i, w), Inr ())
      else if map_of (ib_pending i) key \<noteq> None then ((i, w), Inr ())
      else (case ib_confirmed i (pkey_BatchID key) of
              Some confirmed \<Rightarrow>
                if confirmed \<noteq> pk_Header pack then ((i, w), Inl ErrPackageRootMismatch)
                else enqueue add pack i w
            | None \<Rightarrow> ((i\<lparr>ib_pending := alist_set key pack (ib_pending i)\<rparr>, w), Inr ())))"

text \<open>The loop of \<open>Confirm\<close> over the keys waiting for the batch, in the order of their chunks.\<close>

fun release ::
    "(SettlementPackage \<Rightarrow> 'w \<Rightarrow> 'w \<times> unit res) \<Rightarrow> (packageKey \<times> SettlementPackage) list \<Rightarrow> Inbox \<Rightarrow> 'w
      \<Rightarrow> (Inbox \<times> 'w) \<times> unit res" where
  "release add [] i w = ((i, w), Inr ())"
| "release add ((key, pack) # rest) i w =
     (case enqueue add pack i w of
        ((i', w'), Inl e) \<Rightarrow> ((i', w'), Inl e)
      | ((i', w'), Inr _) \<Rightarrow>
          release add rest (i'\<lparr>ib_pending := filter (\<lambda>p. fst p \<noteq> key) (ib_pending i')\<rparr>) w')"

definition Confirm ::
    "(MatchRootBlockBody \<Rightarrow> 'w \<Rightarrow> 'w \<times> unit res) \<Rightarrow> (SettlementPackage \<Rightarrow> 'w \<Rightarrow> 'w \<times> unit res)
      \<Rightarrow> MatchRootBlockBody \<Rightarrow> Inbox \<Rightarrow> 'w \<Rightarrow> (Inbox \<times> 'w) \<times> unit res" where
  "Confirm confirm add header i w =
     (case confirm header w of
        (w', Inl e) \<Rightarrow> ((i, w'), Inl e)
      | (w', Inr _) \<Rightarrow>
          release add
            (sort_key (\<lambda>p. pkey_ChunkIndex (fst p))
              (filter (\<lambda>p. pkey_BatchID (fst p) = BatchID header) (ib_pending i)))
            (i\<lparr>ib_confirmed := (ib_confirmed i)(BatchID header \<mapsto> header)\<rparr>) w')"

end
