(* ===== verification/Transaction.thy ===== *)
theory Transaction
  imports Settlement
begin

text \<open>
  Transactions, account states and blocks: \<open>pkg/core/transaction\<close>, \<open>pkg/core/account\<close> and
  \<open>pkg/core/block\<close>. A struct embedded in another is a field holding a record. \<open>time.Time\<close> is
  the number of nanoseconds since the epoch. \<open>encoding/gob\<close> and go-ethereum's \<open>rlp\<close> are
  parameters: an encoder of each encoded type, and a decoder where the code decodes.
\<close>

section \<open>Signed 64-bit arithmetic\<close>

text \<open>An \<open>int64\<close> result wraps around; \<open>int64(x)\<close> of a \<open>uint64\<close> reads the bits as two's complement.\<close>

definition wrap_int64 :: "int \<Rightarrow> int" where
  "wrap_int64 x = (x + 2 ^ 63) mod 2 ^ 64 - 2 ^ 63"

definition int64_of_uint64 :: "uint64 \<Rightarrow> int" where
  "int64_of_uint64 x = wrap_int64 (uint x)"

lemma wrap_int64_id [simp]: "int64_range x \<Longrightarrow> wrap_int64 x = x"
  by (simp add: wrap_int64_def int64_range_def)

lemma int64_of_uint64_id: "uint x < 2 ^ 63 \<Longrightarrow> int64_of_uint64 x = uint x"
  by (simp add: int64_of_uint64_def wrap_int64_def)

lemma wrap_int64_range: "int64_range (wrap_int64 x)"
  by (simp add: wrap_int64_def int64_range_def)

section \<open>Account states\<close>

definition EmptyAccountAddr :: address where
  "EmptyAccountAddr = 0"

record account_State =
  as_Address :: address
  as_Nonce :: uint64
  as_Balance :: "int option"
  as_StorageRoot :: bytes
  as_Code :: bytes
  as_ShardLocation :: uint64

definition NormalInitBalance :: int where
  "NormalInitBalance = 10 ^ 36"

definition BrokerInitBalance :: int where
  "BrokerInitBalance = 10 ^ 36"

definition NewState :: "address \<Rightarrow> uint64 \<Rightarrow> account_State" where
  "NewState addr loc = \<lparr>as_Address = addr, as_Nonce = 0, as_Balance = Some NormalInitBalance,
     as_StorageRoot = [], as_Code = [], as_ShardLocation = loc\<rparr>"

definition Credit :: "int option \<Rightarrow> account_State \<Rightarrow> account_State res" where
  "Credit value s =
     bind_res (deref_big (as_Balance s)) (\<lambda>b.
     bind_res (deref_big value) (\<lambda>v. Inr (s\<lparr>as_Balance := Some (b + v)\<rparr>)))"

definition Debit :: "int option \<Rightarrow> account_State \<Rightarrow> account_State res" where
  "Debit val s =
     bind_res (deref_big (as_Balance s)) (\<lambda>b.
     bind_res (deref_big val) (\<lambda>v.
     fail_if (b < v) ErrNotEnoughBalance (Inr (s\<lparr>as_Balance := Some (b - v)\<rparr>))))"

section \<open>Transactions\<close>

definition NormalTxType :: uint8 where "NormalTxType = 0"
definition RelayTxType :: uint8 where "RelayTxType = 1"
definition BrokerTxType :: uint8 where "BrokerTxType = 2"
definition CreateContractTxType :: uint8 where "CreateContractTxType = 3"
definition CallContractTxType :: uint8 where "CallContractTxType = 4"
definition IntentSubmitTxType :: uint8 where "IntentSubmitTxType = 5"
definition SettlementTxType :: uint8 where "SettlementTxType = 6"
definition ReservedFallbackTxType :: uint8 where "ReservedFallbackTxType = 7"
definition FallbackCompletedTxType :: uint8 where "FallbackCompletedTxType = 8"

lemmas tx_type_defs = NormalTxType_def RelayTxType_def BrokerTxType_def CreateContractTxType_def
  CallContractTxType_def IntentSubmitTxType_def SettlementTxType_def ReservedFallbackTxType_def
  FallbackCompletedTxType_def

definition Relay1Tx :: uint64 where "Relay1Tx = 1"
definition Relay2Tx :: uint64 where "Relay2Tx = 2"
definition Sigma1BrokerStage :: uint64 where "Sigma1BrokerStage = 1"
definition Sigma2BrokerStage :: uint64 where "Sigma2BrokerStage = 2"

definition defaultGasLimit :: uint64 where
  "defaultGasLimit = 1000000"

record RelayTxOpt =
  RelayStage :: uint64
  ROriginalHash :: bytes

record BrokerTxOpt =
  BrokerStage :: uint64
  Broker :: address
  BOriginalHash :: bytes
  OriginalTxCreateTime :: int
  NonceBroker :: uint64
  HeightLock :: uint64
  HeightCurrent :: uint64

record FallbackTxOpt =
  fo_ReservedFallback :: "ReservedFallback option"
  fo_FallbackCompleted :: "FallbackKey option"

record Transaction =
  tx_Sender :: address
  tx_Recipient :: address
  tx_Value :: "int option"
  tx_PriorityFee :: "int option"
  tx_Nonce :: uint64
  tx_Signature :: bytes
  tx_CreateTime :: int
  tx_Data :: bytes
  tx_GasLimit :: uint64
  tx_Relay :: RelayTxOpt
  tx_Broker :: BrokerTxOpt
  tx_Intent :: "PaymentIntent option"
  tx_Settlement :: "SettlementPackage option"
  tx_Fallback :: FallbackTxOpt

abbreviation tx_ReservedFallback :: "Transaction \<Rightarrow> ReservedFallback option" where
  "tx_ReservedFallback tx \<equiv> fo_ReservedFallback (tx_Fallback tx)"

abbreviation tx_FallbackCompleted :: "Transaction \<Rightarrow> FallbackKey option" where
  "tx_FallbackCompleted tx \<equiv> fo_FallbackCompleted (tx_Fallback tx)"

text \<open>The zero value of the struct; the constructors set fields of it.\<close>

definition zero_tx :: Transaction where
  "zero_tx = \<lparr>tx_Sender = 0, tx_Recipient = 0, tx_Value = None, tx_PriorityFee = None, tx_Nonce = 0,
     tx_Signature = [], tx_CreateTime = 0, tx_Data = [], tx_GasLimit = 0,
     tx_Relay = \<lparr>RelayStage = 0, ROriginalHash = []\<rparr>,
     tx_Broker = \<lparr>BrokerStage = 0, Broker = 0, BOriginalHash = [], OriginalTxCreateTime = 0, NonceBroker = 0,
       HeightLock = 0, HeightCurrent = 0\<rparr>,
     tx_Intent = None, tx_Settlement = None, tx_Fallback = \<lparr>fo_ReservedFallback = None, fo_FallbackCompleted = None\<rparr>\<rparr>"

definition NewTransaction :: "address \<Rightarrow> address \<Rightarrow> int option \<Rightarrow> int option \<Rightarrow> uint64 \<Rightarrow> int \<Rightarrow> Transaction" where
  "NewTransaction sender recipient value priorityFee nonce proposeTime =
     zero_tx\<lparr>tx_Sender := sender, tx_Recipient := recipient, tx_Value := value, tx_PriorityFee := priorityFee,
       tx_Nonce := nonce, tx_CreateTime := proposeTime, tx_GasLimit := defaultGasLimit\<rparr>"

definition NewIntentTransaction :: "PaymentIntent \<Rightarrow> int \<Rightarrow> Transaction" where
  "NewIntentTransaction pay proposeTime =
     zero_tx\<lparr>tx_Sender := Sender pay, tx_Recipient := Recipient pay, tx_Value := Amount pay,
       tx_PriorityFee := Some 0, tx_Nonce := Nonce pay, tx_CreateTime := proposeTime,
       tx_GasLimit := defaultGasLimit, tx_Intent := Some pay\<rparr>"

definition NewSettlementTransaction :: "SettlementPackage \<Rightarrow> int \<Rightarrow> Transaction" where
  "NewSettlementTransaction settlement proposeTime =
     zero_tx\<lparr>tx_Value := Some 0, tx_PriorityFee := Some 0, tx_CreateTime := proposeTime,
       tx_GasLimit := defaultGasLimit, tx_Settlement := Some settlement\<rparr>"

definition NewReservedFallbackTransaction :: "ReservedFallback \<Rightarrow> int \<Rightarrow> Transaction" where
  "NewReservedFallbackTransaction item proposeTime =
     zero_tx\<lparr>tx_Sender := fb_Sender item, tx_Recipient := fb_Recipient item,
       tx_Value := Some (case fb_Amount item of None \<Rightarrow> 0 | Some a \<Rightarrow> a), tx_PriorityFee := Some 0,
       tx_CreateTime := proposeTime, tx_GasLimit := defaultGasLimit,
       tx_Fallback := \<lparr>fo_ReservedFallback = Some item, fo_FallbackCompleted = None\<rparr>\<rparr>"

definition NewFallbackCompletedTransaction :: "FallbackKey \<Rightarrow> int \<Rightarrow> Transaction" where
  "NewFallbackCompletedTransaction key proposeTime =
     zero_tx\<lparr>tx_Value := Some 0, tx_PriorityFee := Some 0, tx_CreateTime := proposeTime,
       tx_GasLimit := defaultGasLimit,
       tx_Fallback := \<lparr>fo_ReservedFallback = None, fo_FallbackCompleted = Some key\<rparr>\<rparr>"

definition TxType :: "Transaction \<Rightarrow> uint8" where
  "TxType tx =
     (if tx_FallbackCompleted tx \<noteq> None then FallbackCompletedTxType
      else if tx_ReservedFallback tx \<noteq> None then ReservedFallbackTxType
      else if tx_Settlement tx \<noteq> None then SettlementTxType
      else if tx_Intent tx \<noteq> None then IntentSubmitTxType
      else if BOriginalHash (tx_Broker tx) \<noteq> [] then BrokerTxType
      else if ROriginalHash (tx_Relay tx) \<noteq> [] then RelayTxType
      else if tx_Data tx = [] then NormalTxType
      else if tx_Recipient tx = EmptyAccountAddr then CreateContractTxType
      else CallContractTxType)"

text \<open>
  \<open>EncodeRLP\<close> hands \<open>rlp\<close> the flat struct in which the pointers are replaced by their gob
  bytes, empty for \<open>nil\<close>.
\<close>

record rlpTransaction =
  rt_Sender :: address
  rt_Recipient :: address
  rt_Value :: "int option"
  rt_PriorityFee :: "int option"
  rt_Nonce :: uint64
  rt_Signature :: bytes
  rt_CreateTime :: int
  rt_Data :: bytes
  rt_GasLimit :: uint64
  rt_RelayStage :: uint64
  rt_ROriginalHash :: bytes
  rt_BrokerStage :: uint64
  rt_Broker :: address
  rt_BOriginalHash :: bytes
  rt_OriginalTxCreateTime :: int
  rt_NonceBroker :: uint64
  rt_HeightLock :: uint64
  rt_HeightCurrent :: uint64
  rt_Intent :: "PaymentIntent option"
  rt_Settlement :: bytes
  rt_ReservedFallback :: bytes
  rt_FallbackCompleted :: bytes

record tx_codecs =
  gob_package :: "SettlementPackage codec"
  gob_fallback :: "ReservedFallback codec"
  gob_key :: "FallbackKey codec"
  rlp_tx :: "rlpTransaction \<Rightarrow> bytes res"

definition gob_pointer :: "'a codec \<Rightarrow> 'a option \<Rightarrow> bytes res" where
  "gob_pointer gob v = (case v of None \<Rightarrow> Inr [] | Some x \<Rightarrow> enc gob x)"

definition to_rlpTransaction :: "Transaction \<Rightarrow> bytes \<Rightarrow> bytes \<Rightarrow> bytes \<Rightarrow> rlpTransaction" where
  "to_rlpTransaction tx settlementBytes fallbackBytes completedBytes =
     \<lparr>rt_Sender = tx_Sender tx, rt_Recipient = tx_Recipient tx, rt_Value = tx_Value tx,
      rt_PriorityFee = tx_PriorityFee tx, rt_Nonce = tx_Nonce tx, rt_Signature = tx_Signature tx,
      rt_CreateTime = tx_CreateTime tx, rt_Data = tx_Data tx, rt_GasLimit = tx_GasLimit tx,
      rt_RelayStage = RelayStage (tx_Relay tx), rt_ROriginalHash = ROriginalHash (tx_Relay tx),
      rt_BrokerStage = BrokerStage (tx_Broker tx), rt_Broker = Broker (tx_Broker tx),
      rt_BOriginalHash = BOriginalHash (tx_Broker tx),
      rt_OriginalTxCreateTime = OriginalTxCreateTime (tx_Broker tx), rt_NonceBroker = NonceBroker (tx_Broker tx),
      rt_HeightLock = HeightLock (tx_Broker tx), rt_HeightCurrent = HeightCurrent (tx_Broker tx),
      rt_Intent = tx_Intent tx, rt_Settlement = settlementBytes,
      rt_ReservedFallback = fallbackBytes, rt_FallbackCompleted = completedBytes\<rparr>"

definition tx_Encode :: "tx_codecs \<Rightarrow> Transaction \<Rightarrow> bytes res" where
  "tx_Encode tc tx =
     bind_res (gob_pointer (gob_package tc) (tx_Settlement tx)) (\<lambda>settlementBytes.
     bind_res (gob_pointer (gob_fallback tc) (tx_ReservedFallback tx)) (\<lambda>fallbackBytes.
     bind_res (gob_pointer (gob_key tc) (tx_FallbackCompleted tx)) (\<lambda>completedBytes.
     rlp_tx tc (to_rlpTransaction tx settlementBytes fallbackBytes completedBytes))))"

definition tx_Hash :: "hasher \<Rightarrow> tx_codecs \<Rightarrow> Transaction \<Rightarrow> bytes res" where
  "tx_Hash H tc tx = bind_res (tx_Encode tc tx) (\<lambda>b. Inr (hash_bytes (H b)))"

section \<open>Blocks\<close>

definition TxBlockType :: uint8 where "TxBlockType = 1"
definition MigrationBlockType :: uint8 where "MigrationBlockType = 2"

text \<open>
  A bloom filter holds a set of bits of the package \<open>bitset\<close>, here the list of its bits (the
  operations on it are parameters, theory \<open>Bloom\<close>), and the names of its hash functions.
\<close>

type_synonym BitSet = "bool list"

record Filter =
  bits :: BitSet
  FilterHashFs :: "string list"

record TxHeaderOpt =
  TxRoot :: bytes
  Bloom :: Filter

record BlockHeader =
  ParentBlockHash :: bytes
  StateRoot :: bytes
  bh_Number :: uint64
  bh_Type :: uint8
  Miner :: address
  bh_CreateTime :: int
  LocationRoot :: bytes
  bh_Tx :: TxHeaderOpt
  MigratedAccountsRoot :: bytes

record MigrationOpt =
  MigratedAddrs :: "address list"
  MigratedStates :: "account_State list"

record Block =
  b_Header :: BlockHeader
  TxList :: "Transaction list"
  b_Migration :: MigrationOpt

definition NewBlock :: "BlockHeader \<Rightarrow> Transaction list \<Rightarrow> MigrationOpt \<Rightarrow> Block" where
  "NewBlock h body mOpt = \<lparr>b_Header = h, TxList = body, b_Migration = mOpt\<rparr>"

definition zero_tx_header :: TxHeaderOpt where
  "zero_tx_header = \<lparr>TxRoot = [], Bloom = \<lparr>bits = [], FilterHashFs = []\<rparr>\<rparr>"

record block_codecs =
  rlp_header :: "BlockHeader \<Rightarrow> bytes res"
  gob_Block :: "Block codec"
  gob_State :: "account_State codec"
  gob_loc :: "uint64 codec"

text \<open>\<open>Header.Hash\<close>: SHA-256 over the RLP encoding of the header.\<close>

definition header_Hash :: "hasher \<Rightarrow> block_codecs \<Rightarrow> BlockHeader \<Rightarrow> bytes res" where
  "header_Hash H bc h = bind_res (rlp_header bc h) (\<lambda>b. Inr (hash_bytes (H b)))"

section \<open>Properties\<close>

text \<open>
  Every constructor of a transaction yields a transaction that is dispatched as its own kind:
  payment intents, settlements, reserved fallbacks and fallback completions never fall into another
  branch of the execution, and a plain transfer is a normal transaction.
\<close>

lemma constructors_TxType:
  "TxType (NewTransaction sender recipient value fee n t) = NormalTxType
   \<and> TxType (NewIntentTransaction p t) = IntentSubmitTxType
   \<and> TxType (NewSettlementTransaction pack t) = SettlementTxType
   \<and> TxType (NewReservedFallbackTransaction item t) = ReservedFallbackTxType
   \<and> TxType (NewFallbackCompletedTransaction key t) = FallbackCompletedTxType
   \<and> distinct [NormalTxType, RelayTxType, BrokerTxType, CreateContractTxType, CallContractTxType, IntentSubmitTxType,
       SettlementTxType, ReservedFallbackTxType, FallbackCompletedTxType]"
  by (simp add: TxType_def NewTransaction_def NewIntentTransaction_def NewSettlementTransaction_def
      NewReservedFallbackTransaction_def NewFallbackCompletedTransaction_def zero_tx_def tx_type_defs)

end
