(* ===== verification/Bloom.thy ===== *)
theory Bloom
  imports Transaction
begin

text \<open>
  The bloom filter of a block header, \<open>pkg/core/bloom\<close>. The bit set of \<open>bits-and-blooms/bitset\<close>
  is the parameter \<open>bitset\<close> with its documented laws in the locale \<open>bitset_laws\<close>; SHA-256,
  SHA-512 and SHA-1 are the parameter \<open>digests\<close>.
\<close>

section \<open>Parameters\<close>

record bitset =
  bs_New :: "uint64 \<Rightarrow> BitSet"
  bs_Set :: "uint64 \<Rightarrow> BitSet \<Rightarrow> BitSet"
  bs_Test :: "BitSet \<Rightarrow> uint64 \<Rightarrow> bool"
  bs_Len :: "BitSet \<Rightarrow> uint64"
  bs_Equal :: "BitSet \<Rightarrow> BitSet \<Rightarrow> bool"

record digests =
  Sha256 :: "bytes \<Rightarrow> bytes"
  Sha512 :: "bytes \<Rightarrow> bytes"
  Sha1 :: "bytes \<Rightarrow> bytes"

locale bitset_laws =
  fixes B :: bitset
  assumes Test_Set [simp]: "bs_Test B (bs_Set B i b) j \<longleftrightarrow> j = i \<or> bs_Test B b j"
    and Len_Set [simp]: "i < bs_Len B b \<Longrightarrow> bs_Len B (bs_Set B i b) = bs_Len B b"
    and Len_New [simp]: "bs_Len B (bs_New B n) = n"
    and Equal_refl [simp]: "bs_Equal B b b"

section \<open>The filter\<close>

definition hashByteLen :: nat where "hashByteLen = 8"

definition maxBitsetLen :: int where "maxBitsetLen = 2 ^ 24"

record BloomFilterCfg =
  BitsetLen :: int
  FilterHashFunc :: "string list"

definition filterFuncRegistry :: "digests \<Rightarrow> string \<Rightarrow> (bytes \<Rightarrow> bytes) option" where
  "filterFuncRegistry D n =
     (if n = ''sha256'' then Some (Sha256 D) else if n = ''sha512'' then Some (Sha512 D)
      else if n = ''sha1'' then Some (Sha1 D) else None)"

definition defaultFilterFs :: "digests \<Rightarrow> (bytes \<Rightarrow> bytes) list" where
  "defaultFilterFs D = [Sha256 D, Sha512 D, Sha1 D]"

definition NewFilter :: "bitset \<Rightarrow> BloomFilterCfg \<Rightarrow> Filter res" where
  "NewFilter B cfg =
     fail_if (BitsetLen cfg > maxBitsetLen) (ErrOther ''length of Bitset must be bounded'') (
     Inr \<lparr>bits = bs_New B (uint64_of_int64 (BitsetLen cfg)), FilterHashFs = FilterHashFunc cfg\<rparr>)"

definition getFilterHashFs :: "digests \<Rightarrow> Filter \<Rightarrow> (bytes \<Rightarrow> bytes) list" where
  "getFilterHashFs D f =
     (if list_all (\<lambda>n. filterFuncRegistry D n \<noteq> None) (FilterHashFs f)
      then map (\<lambda>n. the (filterFuncRegistry D n)) (FilterHashFs f) else defaultFilterFs D)"

text \<open>The last eight bytes, padded with zeros in front when there are fewer.\<close>

definition byte2uint :: "bytes \<Rightarrow> uint64" where
  "byte2uint b =
     (let b' = (if length b < hashByteLen then replicate (hashByteLen - length b) 0 @ b else b) in
      word_of_nat (be_val (drop (length b' - hashByteLen) b')))"

text \<open>The remainder by the length of the set panics when the set is empty.\<close>

definition bit_index :: "bitset \<Rightarrow> BitSet \<Rightarrow> bytes \<Rightarrow> uint64 res" where
  "bit_index B b digest = fail_if (bs_Len B b = 0) GoPanic (Inr (byte2uint digest mod bs_Len B b))"

definition set_bit_of :: "bitset \<Rightarrow> bytes \<Rightarrow> BitSet \<Rightarrow> (bytes \<Rightarrow> bytes) \<Rightarrow> BitSet res" where
  "set_bit_of B element b h = bind_res (bit_index B b (h element)) (\<lambda>i. Inr (bs_Set B i b))"

definition Filter_Add :: "bitset \<Rightarrow> digests \<Rightarrow> bytes list \<Rightarrow> Filter \<Rightarrow> Filter res" where
  "Filter_Add B D elements f =
     bind_res (fold_res (\<lambda>b element. fold_res (set_bit_of B element) b (getFilterHashFs D f)) (bits f) elements)
       (\<lambda>b. Inr (f\<lparr>bits := b\<rparr>))"

fun tests_all :: "bitset \<Rightarrow> BitSet \<Rightarrow> bytes \<Rightarrow> (bytes \<Rightarrow> bytes) list \<Rightarrow> bool res" where
  "tests_all B b hash [] = Inr True"
| "tests_all B b hash (h # hs) =
     bind_res (bit_index B b (h hash)) (\<lambda>i. if bs_Test B b i then tests_all B b hash hs else Inr False)"

definition Filter_Contains :: "bitset \<Rightarrow> digests \<Rightarrow> Filter \<Rightarrow> bytes \<Rightarrow> bool res" where
  "Filter_Contains B D f hash = tests_all B (bits f) hash (getFilterHashFs D f)"

definition Filter_Equal :: "bitset \<Rightarrow> Filter \<Rightarrow> Filter \<Rightarrow> bool" where
  "Filter_Equal B f other = bs_Equal B (bits f) (bits other)"

section \<open>No false negatives\<close>

context bitset_laws
begin

lemma tests_all_iff:
  "bs_Len B b \<noteq> 0 \<Longrightarrow> tests_all B b hash hs = Inr True \<longleftrightarrow> (\<forall>h \<in> set hs. bs_Test B b (byte2uint (h hash) mod bs_Len B b))"
  by (induction hs) (auto simp: bit_index_def)

lemma set_bits:
  assumes "fold_res (set_bit_of B element) b hs = Inr b'" "bs_Len B b \<noteq> 0"
  shows "bs_Len B b' = bs_Len B b
    \<and> (\<forall>j. bs_Test B b' j \<longleftrightarrow> bs_Test B b j \<or> (\<exists>h \<in> set hs. j = byte2uint (h element) mod bs_Len B b))"
  using assms
proof (induction hs arbitrary: b)
  case (Cons h hs)
  let ?i = "byte2uint (h element) mod bs_Len B b"
  have i: "?i < bs_Len B b" using Cons.prems(2) by (simp add: word_mod_less_divisor word_gt_0)
  have f: "fold_res (set_bit_of B element) (bs_Set B ?i b) hs = Inr b'"
    using Cons.prems by (simp add: set_bit_of_def [of _ _ b] bit_index_def)
  have "bs_Len B (bs_Set B ?i b) \<noteq> 0" using i Cons.prems(2) by simp
  from Cons.IH [OF f this] show ?case using i by auto
qed simp

lemma add_elements:
  assumes "fold_res (\<lambda>b element. fold_res (set_bit_of B element) b hs) b elements = Inr b'" "bs_Len B b \<noteq> 0"
  shows "bs_Len B b' = bs_Len B b
    \<and> (\<forall>j. bs_Test B b' j \<longleftrightarrow> bs_Test B b j \<or> (\<exists>e \<in> set elements. \<exists>h \<in> set hs. j = byte2uint (h e) mod bs_Len B b))"
  using assms
proof (induction elements arbitrary: b)
  case (Cons e elements)
  obtain b1 where b1: "fold_res (set_bit_of B e) b hs = Inr b1"
      "fold_res (\<lambda>b element. fold_res (set_bit_of B element) b hs) b1 elements = Inr b'"
    using Cons.prems(1) by (auto simp: bind_res_eq_Inr)
  note one = set_bits [OF b1(1) Cons.prems(2)]
  have "bs_Len B b1 \<noteq> 0" using one Cons.prems(2) by simp
  from Cons.IH [OF b1(2) this] show ?case using one by auto
qed simp

lemma set_bits_total:
  "bs_Len B b \<noteq> 0 \<Longrightarrow> \<exists>b'. fold_res (set_bit_of B element) b hs = Inr b'"
  by (induction hs arbitrary: b) (auto simp: set_bit_of_def bit_index_def word_mod_less_divisor word_gt_0)

lemma add_elements_total:
  "bs_Len B b \<noteq> 0 \<Longrightarrow> \<exists>b'. fold_res (\<lambda>b element. fold_res (set_bit_of B element) b hs) b elements = Inr b'"
proof (induction elements arbitrary: b)
  case (Cons e elements)
  obtain b1 where b1: "fold_res (set_bit_of B e) b hs = Inr b1" using set_bits_total [OF Cons.prems] by blast
  then have "bs_Len B b1 \<noteq> 0" using set_bits [OF b1 Cons.prems] Cons.prems by simp
  then show ?case using Cons.IH b1 by simp
qed simp

end

section \<open>A reference bit set\<close>

definition list_Set :: "uint64 \<Rightarrow> BitSet \<Rightarrow> BitSet" where
  "list_Set i b = (if unat i < length b then b[unat i := True] else b @ replicate (unat i - length b) False @ [True])"

definition list_bits :: bitset where
  "list_bits = \<lparr>bs_New = (\<lambda>n. replicate (unat n) False), bs_Set = list_Set,
     bs_Test = (\<lambda>b i. unat i < length b \<and> b ! unat i), bs_Len = (\<lambda>b. word_of_nat (length b)), bs_Equal = (=)\<rparr>"

lemma list_Set_test: "(unat j < length (list_Set i b) \<and> list_Set i b ! unat j) \<longleftrightarrow> j = i \<or> (unat j < length b \<and> b ! unat j)"
  by (auto simp: list_Set_def nth_append nth_list_update word_unat_eq_iff)

lemma list_Set_length: "i < word_of_nat (length b) \<Longrightarrow> length (list_Set i b) = length b"
proof -
  assume "i < word_of_nat (length b)"
  then have "unat i < unat (word_of_nat (length b) :: uint64)" by (simp add: word_less_nat_alt)
  also have "\<dots> \<le> length b" by (simp add: unat_of_nat)
  finally show ?thesis by (simp add: list_Set_def)
qed

interpretation lb: bitset_laws list_bits
  by unfold_locales (simp_all add: list_bits_def list_Set_test list_Set_length)

section \<open>Properties\<close>

text \<open>
  The filter has no false negatives: adding elements to a filter with at least one bit always
  succeeds, afterwards every added element and everything the filter contained before is contained,
  and the number of bits is unchanged.
\<close>

lemma Filter_no_false_negatives:
  assumes "bitset_laws B" "bs_Len B (bits f) \<noteq> 0"
  shows "\<exists>f'. Filter_Add B D elements f = Inr f' \<and> bs_Len B (bits f') = bs_Len B (bits f)
    \<and> (\<forall>x. x \<in> set elements \<or> Filter_Contains B D f x = Inr True \<longrightarrow> Filter_Contains B D f' x = Inr True)"
proof -
  obtain b' where b': "fold_res (\<lambda>b element. fold_res (set_bit_of B element) b (getFilterHashFs D f)) (bits f) elements = Inr b'"
    using bitset_laws.add_elements_total [OF assms] by blast
  note a = bitset_laws.add_elements [OF assms(1) b' assms(2)]
  have g: "getFilterHashFs D (f\<lparr>bits := b'\<rparr>) = getFilterHashFs D f" by (simp add: getFilterHashFs_def)
  have ne: "bs_Len B b' \<noteq> 0" using a assms(2) by simp
  have "Filter_Contains B D (f\<lparr>bits := b'\<rparr>) x = Inr True"
    if "x \<in> set elements \<or> Filter_Contains B D f x = Inr True" for x
    using that a unfolding Filter_Contains_def g
    by (auto simp: bitset_laws.tests_all_iff [OF assms(1) ne] bitset_laws.tests_all_iff [OF assms])
  then show ?thesis using a b' by (auto simp: Filter_Add_def)
qed

definition example_digests :: digests where
  "example_digests = \<lparr>Sha256 = (\<lambda>b. b), Sha512 = rev, Sha1 = (\<lambda>b. [])\<rparr>"

definition example_filter :: Filter where
  "example_filter = \<lparr>bits = replicate 16 False, FilterHashFs = [''sha256'', ''sha1'']\<rparr>"

lemma Filter_no_false_negatives_witness:
  "\<exists>f'. Filter_Add list_bits example_digests [[5], [6, 7]] example_filter = Inr f'
     \<and> Filter_Contains list_bits example_digests f' [6, 7] = Inr True"
proof -
  have "bs_Len list_bits (bits example_filter) \<noteq> 0" by (simp add: list_bits_def example_filter_def)
  from Filter_no_false_negatives [OF lb.bitset_laws_axioms this, of example_digests "[[5], [6, 7]]"]
  show ?thesis by fastforce
qed

end
