(* ===== verification/TrieStore.thy ===== *)
theory TrieStore
  imports Errors
begin

text \<open>
  The stores a chain keeps its blocks and account locations in: the store over go-ethereum's trie
  (\<open>pkg/storage/trie/eth_db.go\<close>), the root of a list of key-value pairs
  (\<open>pkg/utils/mptrootcalc.go\<close>) and the block store over bbolt (\<open>pkg/storage/block/blot_db.go\<close>).

  The trie and its database are go-ethereum's: the parameter \<open>trie_ops\<close> with the laws
  \<open>trie_laws\<close>. The interface \<open>trie.Store\<close> the chain is written against is the record
  \<open>trie_store\<close> with the laws \<open>trie_store_laws\<close>, which the store of \<open>eth_db.go\<close> satisfies.
  A bbolt bucket is a map, and an \<open>Update\<close> transaction that fails changes nothing.
\<close>

section \<open>Tries\<close>

record ('tr, 'td, 'ns) trie_ops =
  trie_New :: "'td \<Rightarrow> hash256 \<Rightarrow> 'tr res"
  trie_NewEmpty :: "'tr"
  trie_Update :: "bytes \<Rightarrow> bytes \<Rightarrow> 'tr \<Rightarrow> 'tr res"
  trie_Get :: "'tr \<Rightarrow> bytes \<Rightarrow> bytes option res"
  trie_Hash :: "'tr \<Rightarrow> hash256"
  trie_Commit :: "'tr \<Rightarrow> hash256 \<times> 'ns option"
  triedb_Update :: "hash256 \<Rightarrow> hash256 \<Rightarrow> 'ns \<Rightarrow> 'td \<Rightarrow> 'td res"
  triedb_Commit :: "hash256 \<Rightarrow> 'td \<Rightarrow> 'td res"

definition put_pair :: "('tr, 'td, 'ns) trie_ops \<Rightarrow> 'tr \<Rightarrow> bytes \<times> bytes \<Rightarrow> 'tr res" where
  "put_pair T t kv = trie_Update T (fst kv) (snd kv) t"

text \<open>An empty value deletes the key.\<close>

definition put_value :: "bytes \<Rightarrow> bytes option" where
  "put_value v = (if v = [] then None else Some v)"

locale trie_laws =
  fixes T :: "('tr, 'td, 'ns) trie_ops"
  assumes Get_Update: "trie_Update T k v t = Inr t' \<Longrightarrow>
      trie_Get T t' j = (if j = k then Inr (put_value v) else trie_Get T t j)"
    and Commit_Hash: "fst (trie_Commit T t) = trie_Hash T t"
    and Commit_clean: "trie_New T td root = Inr t0 \<Longrightarrow> fold_res (put_pair T) t0 kvs = Inr t \<Longrightarrow>
      trie_Commit T t = (r, None) \<Longrightarrow> r = root \<and> (\<forall>k. trie_Get T t k = trie_Get T t0 k)"
    and Commit_dirty: "trie_Commit T t = (r, Some ns) \<Longrightarrow> triedb_Update T r root ns td = Inr td1 \<Longrightarrow>
      triedb_Commit T r td1 = Inr td2 \<Longrightarrow> \<exists>t'. trie_New T td2 r = Inr t' \<and> (\<forall>k. trie_Get T t' k = trie_Get T t k)"

section \<open>The store of eth_db.go\<close>

record 'td EthereumDefaultTrieDB =
  trieDB :: 'td
  curStateRoot :: hash256

definition GetCurrentRoot :: "'td EthereumDefaultTrieDB \<Rightarrow> bytes res" where
  "GetCurrentRoot e = Inr (hash_bytes (curStateRoot e))"

definition MAddKeyValuesPreview ::
    "('tr, 'td, 'ns) trie_ops \<Rightarrow> bytes list \<Rightarrow> bytes list \<Rightarrow> 'td EthereumDefaultTrieDB \<Rightarrow> bytes res" where
  "MAddKeyValuesPreview T keys values e =
     fail_if (length keys \<noteq> length values) (ErrOther ''bad input'') (
     bind_res (trie_New T (trieDB e) (curStateRoot e)) (\<lambda>curTrie.
     bind_res (fold_res (put_pair T) curTrie (zip keys values)) (\<lambda>t.
     Inr (hash_bytes (trie_Hash T t)))))"

text \<open>The assignment of the new root precedes the commit, whose failure leaves it in place.\<close>

definition MAddKeyValuesAndCommit ::
    "('tr, 'td, 'ns) trie_ops \<Rightarrow> bytes list \<Rightarrow> bytes list \<Rightarrow> 'td EthereumDefaultTrieDB
      \<Rightarrow> 'td EthereumDefaultTrieDB \<times> bytes res" where
  "MAddKeyValuesAndCommit T keys values e =
     (if length keys \<noteq> length values then (e, Inl (ErrOther ''bad input''))
      else bind_st (lift_res (bind_res (trie_New T (trieDB e) (curStateRoot e)) (\<lambda>curTrie.
                    fold_res (put_pair T) curTrie (zip keys values))) e) (\<lambda>t e.
        case trie_Commit T t of
          (newRoot, None) \<Rightarrow> (e, Inr (hash_bytes (curStateRoot e)))
        | (newRoot, Some nodeSet) \<Rightarrow>
            (case triedb_Update T newRoot (curStateRoot e) nodeSet (trieDB e) of
               Inl err \<Rightarrow> (e, Inl err)
             | Inr db \<Rightarrow>
                 (let e1 = e\<lparr>trieDB := db, curStateRoot := newRoot\<rparr> in
                  case triedb_Commit T newRoot db of
                    Inl err \<Rightarrow> (e1, Inl err)
                  | Inr db' \<Rightarrow> (e1\<lparr>trieDB := db'\<rparr>, Inr (hash_bytes newRoot))))))"

definition MGetValsByKeys ::
    "('tr, 'td, 'ns) trie_ops \<Rightarrow> 'td EthereumDefaultTrieDB \<Rightarrow> bytes list \<Rightarrow> bytes option list res" where
  "MGetValsByKeys T e keys =
     bind_res (trie_New T (trieDB e) (curStateRoot e)) (\<lambda>curTrie. map_res (trie_Get T curTrie) keys)"

definition SetStateRoot ::
    "('tr, 'td, 'ns) trie_ops \<Rightarrow> bytes \<Rightarrow> 'td EthereumDefaultTrieDB \<Rightarrow> 'td EthereumDefaultTrieDB \<times> unit res" where
  "SetStateRoot T root e =
     (let newRoot = word_of_nat (be_val root) in
      case trie_New T (trieDB e) newRoot of
        Inl err \<Rightarrow> (e, Inl err)
      | Inr _ \<Rightarrow> (e\<lparr>curStateRoot := newRoot\<rparr>, Inr ()))"

definition GenerateRootByGivenBytes :: "('tr, 'td, 'ns) trie_ops \<Rightarrow> bytes list \<Rightarrow> bytes list \<Rightarrow> bytes res" where
  "GenerateRootByGivenBytes T keys values =
     fail_if (length keys \<noteq> length values) (ErrOther ''bad input'') (
     bind_res (fold_res (put_pair T) (trie_NewEmpty T) (zip keys values)) (\<lambda>t.
     Inr (hash_bytes (trie_Hash T t))))"

section \<open>The interface of the chain\<close>

record 'l trie_store =
  ts_MGet :: "'l \<Rightarrow> bytes list \<Rightarrow> bytes option list res"
  ts_Preview :: "bytes list \<Rightarrow> bytes list \<Rightarrow> 'l \<Rightarrow> bytes res"
  ts_Commit :: "bytes list \<Rightarrow> bytes list \<Rightarrow> 'l \<Rightarrow> 'l \<times> bytes res"

text \<open>What a read returns after the pairs were written, given what it returned before.\<close>

definition after_puts :: "(bytes \<times> bytes) list \<Rightarrow> bytes \<Rightarrow> bytes option \<Rightarrow> bytes option" where
  "after_puts kvs j old = (case map_of (rev kvs) j of None \<Rightarrow> old | Some v \<Rightarrow> put_value v)"

locale trie_store_laws =
  fixes L :: "'l trie_store"
  assumes Commit_Preview: "ts_Commit L ks vs l = (l', Inr r) \<Longrightarrow> ts_Preview L ks vs l = Inr r"
    and MGet_Commit: "ts_Commit L ks vs l = (l', Inr r) \<Longrightarrow> ts_MGet L l js = Inr xs \<Longrightarrow>
      ts_MGet L l' js = Inr (map (\<lambda>(j, x). after_puts (zip ks vs) j x) (zip js xs))"

definition eth_store :: "('tr, 'td, 'ns) trie_ops \<Rightarrow> 'td EthereumDefaultTrieDB trie_store" where
  "eth_store T = \<lparr>ts_MGet = MGetValsByKeys T, ts_Preview = MAddKeyValuesPreview T, ts_Commit = MAddKeyValuesAndCommit T\<rparr>"

context trie_laws
begin

lemma Get_puts:
  "fold_res (put_pair T) t kvs = Inr t' \<Longrightarrow> trie_Get T t j = Inr x \<Longrightarrow> trie_Get T t' j = Inr (after_puts kvs j x)"
proof (induction kvs arbitrary: t x)
  case (Cons kv kvs)
  obtain t1 where t1: "trie_Update T (fst kv) (snd kv) t = Inr t1" "fold_res (put_pair T) t1 kvs = Inr t'"
    using Cons.prems(1) by (auto simp: bind_res_eq_Inr put_pair_def [of T t])
  have "trie_Get T t1 j = Inr (if j = fst kv then put_value (snd kv) else x)"
    using Get_Update [OF t1(1)] Cons.prems(2) by simp
  from Cons.IH [OF t1(2) this] show ?case
    by (cases kv) (auto simp: after_puts_def map_add_def split: option.splits)
qed (simp add: after_puts_def)

lemma MCommit_cases:
  assumes "MAddKeyValuesAndCommit T ks vs e = (e', Inr r)"
  obtains t0 t where "length ks = length vs" "trie_New T (trieDB e) (curStateRoot e) = Inr t0"
    "fold_res (put_pair T) t0 (zip ks vs) = Inr t" "r = hash_bytes (trie_Hash T t)"
    "\<exists>t'. trie_New T (trieDB e') (curStateRoot e') = Inr t' \<and> (\<forall>k. trie_Get T t' k = trie_Get T t k)"
proof -
  obtain t0 t where t: "length ks = length vs" "trie_New T (trieDB e) (curStateRoot e) = Inr t0"
      "fold_res (put_pair T) t0 (zip ks vs) = Inr t"
    using assms by (auto simp: MAddKeyValuesAndCommit_def lift_res_def bind_st_eq_Inr bind_res_eq_Inr split: if_splits)
  obtain newRoot ns where c: "trie_Commit T t = (newRoot, ns)" by fastforce
  have h: "newRoot = trie_Hash T t" using Commit_Hash [of t] c by simp
  show thesis
  proof (cases ns)
    case None
    then have "e' = e" "r = hash_bytes (curStateRoot e)"
      using assms t c by (auto simp: MAddKeyValuesAndCommit_def lift_res_def)
    moreover have "newRoot = curStateRoot e" "\<forall>k. trie_Get T t k = trie_Get T t0 k"
      using Commit_clean [OF t(2,3)] c None by blast+
    ultimately show thesis using that [OF t] t(2) h by simp
  next
    case (Some n)
    then obtain db db' where db: "triedb_Update T newRoot (curStateRoot e) n (trieDB e) = Inr db"
        "triedb_Commit T newRoot db = Inr db'" "e' = e\<lparr>trieDB := db', curStateRoot := newRoot\<rparr>" "r = hash_bytes newRoot"
      using assms t c by (auto simp: MAddKeyValuesAndCommit_def lift_res_def Let_def split: sum.splits)
    then show thesis using that [OF t] Commit_dirty [OF c [unfolded Some] db(1,2)] h by simp
  qed
qed

lemma map_res_Get:
  assumes "\<And>j x. trie_Get T t j = Inr x \<Longrightarrow> trie_Get T t' j = Inr (f j x)" "map_res (trie_Get T t) js = Inr xs"
  shows "map_res (trie_Get T t') js = Inr (map (\<lambda>(j, x). f j x) (zip js xs))"
  using assms by (induction js arbitrary: xs) (auto simp: bind_res_eq_Inr)

end

sublocale trie_laws < eth: trie_store_laws "eth_store T"
proof
  fix ks vs e e' r
  assume c: "ts_Commit (eth_store T) ks vs e = (e', Inr r)"
  then have "MAddKeyValuesAndCommit T ks vs e = (e', Inr r)" by (simp add: eth_store_def)
  then obtain t0 t where t: "length ks = length vs" "trie_New T (trieDB e) (curStateRoot e) = Inr t0"
      "fold_res (put_pair T) t0 (zip ks vs) = Inr t" "r = hash_bytes (trie_Hash T t)"
      "\<exists>t'. trie_New T (trieDB e') (curStateRoot e') = Inr t' \<and> (\<forall>k. trie_Get T t' k = trie_Get T t k)"
    by (rule MCommit_cases)
  show "ts_Preview (eth_store T) ks vs e = Inr r"
    using t by (simp add: eth_store_def MAddKeyValuesPreview_def)
  fix js xs
  assume "ts_MGet (eth_store T) e js = Inr xs"
  then have "map_res (trie_Get T t0) js = Inr xs" using t(2) by (simp add: eth_store_def MGetValsByKeys_def)
  moreover obtain t' where t': "trie_New T (trieDB e') (curStateRoot e') = Inr t'" "\<forall>k. trie_Get T t' k = trie_Get T t k"
    using t(5) by blast
  moreover have "trie_Get T t' j = Inr (after_puts (zip ks vs) j x)" if "trie_Get T t0 j = Inr x" for j x
    using Get_puts [OF t(3) that] t'(2) by simp
  ultimately show "ts_MGet (eth_store T) e' js = Inr (map (\<lambda>(j, x). after_puts (zip ks vs) j x) (zip js xs))"
    using map_res_Get [of t0 t' "after_puts (zip ks vs)"] by (simp add: eth_store_def MGetValsByKeys_def)
qed

section \<open>A reference trie\<close>

text \<open>
  A trie remembers the root and the content it was opened at; the database maps roots to contents.
  The root of a changed trie is a function of its content.
\<close>

type_synonym content = "(bytes \<times> bytes) list"

record ref_trie =
  rt_root :: hash256
  rt_origin :: content
  rt_content :: content

definition ref_hash :: "content \<Rightarrow> hash256" where
  "ref_hash c = word_of_nat (be_val (concat (map (\<lambda>(k, v). k @ v) c)))"

definition ref_put :: "bytes \<Rightarrow> bytes \<Rightarrow> content \<Rightarrow> content" where
  "ref_put k v c = (if v = [] then filter (\<lambda>kv. fst kv \<noteq> k) c else (k, v) # filter (\<lambda>kv. fst kv \<noteq> k) c)"

definition ref_root :: "ref_trie \<Rightarrow> hash256" where
  "ref_root t = (if rt_content t = rt_origin t then rt_root t else ref_hash (rt_content t))"

definition ref_ops :: "(ref_trie, hash256 \<rightharpoonup> content, content) trie_ops" where
  "ref_ops = \<lparr>
     trie_New = (\<lambda>td root. case td root of None \<Rightarrow> Inl (ErrOther ''missing trie node'')
       | Some c \<Rightarrow> Inr \<lparr>rt_root = root, rt_origin = c, rt_content = c\<rparr>),
     trie_NewEmpty = \<lparr>rt_root = 0, rt_origin = [], rt_content = []\<rparr>,
     trie_Update = (\<lambda>k v t. Inr (t\<lparr>rt_content := ref_put k v (rt_content t)\<rparr>)),
     trie_Get = (\<lambda>t k. Inr (map_of (rt_content t) k)),
     trie_Hash = ref_root,
     trie_Commit = (\<lambda>t. (ref_root t, if rt_content t = rt_origin t then None else Some (rt_content t))),
     triedb_Update = (\<lambda>r parent ns td. Inr (td(r \<mapsto> ns))),
     triedb_Commit = (\<lambda>r td. Inr td)\<rparr>"

lemma map_of_ref_put: "map_of (ref_put k v c) j = (if j = k then put_value v else map_of c j)"
proof -
  have "map_of (filter (\<lambda>kv. fst kv \<noteq> k) c) j = (if j = k then None else map_of c j)" for j
    by (induction c) auto
  then show ?thesis by (simp add: ref_put_def put_value_def)
qed

lemma ref_puts: "fold_res (put_pair ref_ops) t kvs = Inr t' \<Longrightarrow> rt_root t' = rt_root t \<and> rt_origin t' = rt_origin t"
  by (induction kvs arbitrary: t) (auto simp: put_pair_def ref_ops_def)

interpretation rt: trie_laws ref_ops
proof
  fix td root t0 kvs t r
  assume "trie_New ref_ops td root = Inr t0" "fold_res (put_pair ref_ops) t0 kvs = Inr t" "trie_Commit ref_ops t = (r, None)"
  then show "r = root \<and> (\<forall>k. trie_Get ref_ops t k = trie_Get ref_ops t0 k)"
    using ref_puts [of t0 kvs t] by (auto simp: ref_ops_def ref_root_def split: option.splits if_splits)
qed (auto simp: ref_ops_def map_of_ref_put split: if_splits)

section \<open>Blocks\<close>

record BoltStore =
  bucketBlock :: "bytes \<rightharpoonup> bytes"
  bucketBlockHeader :: "bytes \<rightharpoonup> bytes"
  newestBlock :: "bytes option"

definition NewBoltStore :: BoltStore where
  "NewBoltStore = \<lparr>bucketBlock = Map.empty, bucketBlockHeader = Map.empty, newestBlock = None\<rparr>"

definition UpdateNewestBlockHash :: "bytes \<Rightarrow> BoltStore \<Rightarrow> BoltStore" where
  "UpdateNewestBlockHash newBlockHash b = b\<lparr>newestBlock := Some newBlockHash\<rparr>"

definition GetNewestBlockHash :: "BoltStore \<Rightarrow> bytes res" where
  "GetNewestBlockHash b = (case newestBlock b of None \<Rightarrow> Inl (ErrOther ''get newest blockHash failed'') | Some h \<Rightarrow> Inr h)"

text \<open>bbolt refuses an empty key.\<close>

definition AddBlockHeader :: "bytes \<Rightarrow> bytes \<Rightarrow> BoltStore \<Rightarrow> BoltStore \<times> unit res" where
  "AddBlockHeader blockHash encodedBlockHeader b =
     (if blockHash = [] then (b, Inl (ErrOther ''key required''))
      else (b\<lparr>bucketBlockHeader := (bucketBlockHeader b)(blockHash \<mapsto> encodedBlockHeader), newestBlock := Some blockHash\<rparr>,
            Inr ()))"

definition GetBlockHeaderByHash :: "BoltStore \<Rightarrow> bytes \<Rightarrow> bytes res" where
  "GetBlockHeaderByHash b blockHash =
     (case bucketBlockHeader b blockHash of None \<Rightarrow> Inl (ErrOther ''get blockHash failed'') | Some x \<Rightarrow> Inr x)"

definition bolt_AddBlock :: "bytes \<Rightarrow> bytes \<Rightarrow> bytes \<Rightarrow> BoltStore \<Rightarrow> BoltStore \<times> unit res" where
  "bolt_AddBlock blockHash encodedBlock encodedBlockHeader b =
     (if blockHash = [] then (b, Inl (ErrOther ''key required''))
      else (b\<lparr>bucketBlock := (bucketBlock b)(blockHash \<mapsto> encodedBlock),
              bucketBlockHeader := (bucketBlockHeader b)(blockHash \<mapsto> encodedBlockHeader),
              newestBlock := Some blockHash\<rparr>, Inr ()))"

definition GetBlockByHash :: "BoltStore \<Rightarrow> bytes \<Rightarrow> bytes res" where
  "GetBlockByHash b hash =
     (case bucketBlock b hash of None \<Rightarrow> Inl (ErrOther ''get block by hash failed'') | Some x \<Rightarrow> Inr x)"

end
