(* ===== verification/Chain.thy ===== *)
theory Chain
  imports Bloom TrieStore "HOL-Library.Signed_Division"
begin

text \<open>
  A shard's chain, \<open>pkg/chain\<close>: the execution of transactions on the account state, the handlers of
  payment intents, settlements and fallbacks, and the generation, validation and storage of blocks.

  Parameters, collected in \<open>chain_env\<close>: go-ethereum's state database and EVM, the location store
  (interface \<open>trie_store\<close>), the root of a list of pairs, SHA-256, the encodings and the bloom
  filter's bit set and digests. The chain itself is the record \<open>Chain\<close>. The mutex has no
  counterpart: every operation holds it from start to end, so operations are atomic steps.
\<close>

section \<open>Parameters\<close>

text \<open>The block context: the fields of \<open>getBlockCtxByBlock\<close> that depend on the block.\<close>

record BlockContext =
  Coinbase :: address
  BlockNumber :: uint64
  Time :: uint64

text \<open>
  \<open>state.New\<close>, \<open>IntermediateRoot\<close>, \<open>StateDB.Commit\<close>, \<open>TrieDB().Commit\<close> and the calls of the EVM.
\<close>

record ('s, 'st) vm_ops =
  state_New :: "'st \<Rightarrow> hash256 \<Rightarrow> 's res"
  IntermediateRoot :: "'s \<Rightarrow> hash256"
  state_Commit :: "uint64 \<Rightarrow> 's \<Rightarrow> 'st \<Rightarrow> 'st \<times> hash256 res"
  TrieDB_Commit :: "hash256 \<Rightarrow> 'st \<Rightarrow> 'st \<times> unit res"
  evm_Create :: "BlockContext \<Rightarrow> address \<Rightarrow> bytes \<Rightarrow> uint64 \<Rightarrow> 256 word \<Rightarrow> 's \<Rightarrow> 's \<times> (address \<times> uint64) res"
  evm_Call :: "BlockContext \<Rightarrow> address \<Rightarrow> address \<Rightarrow> bytes \<Rightarrow> uint64 \<Rightarrow> 256 word \<Rightarrow> 's \<Rightarrow> 's \<times> (bytes \<times> uint64) res"

record ('s, 'st, 'l) chain_env =
  ce_geth :: "'s geth"
  ce_vm :: "('s, 'st) vm_ops"
  ce_loc :: "'l trie_store"
  ce_root :: "bytes list \<Rightarrow> bytes list \<Rightarrow> bytes res"
  ce_hash :: hasher
  ce_tx :: tx_codecs
  ce_block :: block_codecs
  ce_bits :: bitset
  ce_digests :: digests

record ('st, 'l) Chain =
  StateStorage :: 'st
  LocStorage :: 'l
  BlockStorage :: BoltStore
  curHeader :: BlockHeader
  shardID :: int
  epochID :: int
  cfg_ChainID :: int
  cfg_ShardNum :: int
  cfg_Bloom :: BloomFilterCfg
  confirmedRoots :: "hash256 \<rightharpoonup> MatchRootBlockBody"

section \<open>Transfers\<close>

definition BigToUInt256 :: "'s geth \<Rightarrow> int option \<Rightarrow> 256 word res" where
  "BigToUInt256 G b =
     bind_res (deref_big b) (\<lambda>x.
     fail_if (x < 0) (ErrOther ''the input big int is a negative number'') (
     case g_FromBig G x of None \<Rightarrow> Inl (ErrOther ''call FromBig overflow'') | Some u \<Rightarrow> Inr u))"

definition normalInitBalance :: "256 word" where
  "normalInitBalance = word_of_int NormalInitBalance"

definition brokerInitBalance :: "256 word" where
  "brokerInitBalance = word_of_int BrokerInitBalance"

definition init_balance :: "'s geth \<Rightarrow> 256 word \<Rightarrow> 's \<Rightarrow> address \<Rightarrow> 's" where
  "init_balance G b s a = (if g_Exist G s a then s else g_SetBalance G a b s)"

definition setInitBalanceIfNotExist :: "'s geth \<Rightarrow> address list \<Rightarrow> 's \<Rightarrow> 's" where
  "setInitBalanceIfNotExist G addresses s = foldl (init_balance G normalInitBalance) s addresses"

definition setBrokerInitBalanceIfNotExist :: "'s geth \<Rightarrow> address list \<Rightarrow> 's \<Rightarrow> 's" where
  "setBrokerInitBalanceIfNotExist G addresses s = foldl (init_balance G brokerInitBalance) s addresses"

definition normalTxExecute :: "'s geth \<Rightarrow> Transaction \<Rightarrow> 's \<Rightarrow> 's \<times> unit res" where
  "normalTxExecute G tx s =
     bind_st (lift_res (BigToUInt256 G (tx_Value tx)) s) (\<lambda>uVal s.
       let s1 = setInitBalanceIfNotExist G [tx_Sender tx, tx_Recipient tx] s in
       if \<not> g_CanTransfer G s1 (tx_Sender tx) uVal then (s1, Inl (ErrOther ''the balance is not enough''))
       else (g_AddBalance G (tx_Recipient tx) uVal (g_SubBalance G (tx_Sender tx) uVal s1), Inr ()))"

definition relayTxExecute :: "'s geth \<Rightarrow> (address \<Rightarrow> int) \<Rightarrow> int \<Rightarrow> Transaction \<Rightarrow> 's \<Rightarrow> 's \<times> unit res" where
  "relayTxExecute G addrLoc shard tx s =
     bind_st (lift_res (BigToUInt256 G (tx_Value tx)) s) (\<lambda>uVal s.
       if RelayStage (tx_Relay tx) = Relay1Tx then
         if addrLoc (tx_Sender tx) \<noteq> shard then (s, Inr ())
         else let s1 = setInitBalanceIfNotExist G [tx_Sender tx] s in
              if \<not> g_CanTransfer G s1 (tx_Sender tx) uVal then (s1, Inl (ErrOther ''the balance is not enough''))
              else (g_SubBalance G (tx_Sender tx) uVal s1, Inr ())
       else if RelayStage (tx_Relay tx) = Relay2Tx then
         if addrLoc (tx_Recipient tx) \<noteq> shard then (s, Inr ())
         else (g_AddBalance G (tx_Recipient tx) uVal (setInitBalanceIfNotExist G [tx_Recipient tx] s), Inr ())
       else (s, Inl (ErrOther ''unknown relay transaction type'')))"

definition brokerTxExecute :: "'s geth \<Rightarrow> (address \<Rightarrow> int) \<Rightarrow> int \<Rightarrow> Transaction \<Rightarrow> 's \<Rightarrow> 's \<times> unit res" where
  "brokerTxExecute G addrLoc shard tx s =
     bind_st (lift_res (BigToUInt256 G (tx_Value tx)) s) (\<lambda>uVal s.
       let bAddr = Broker (tx_Broker tx) in
       if BrokerStage (tx_Broker tx) = Sigma1BrokerStage then
         if addrLoc (tx_Sender tx) \<noteq> shard then (s, Inr ())
         else let s1 = setBrokerInitBalanceIfNotExist G [bAddr] (setInitBalanceIfNotExist G [tx_Sender tx] s) in
              if \<not> g_CanTransfer G s1 (tx_Sender tx) uVal then (s1, Inl (ErrOther ''the balance is not enough''))
              else (g_AddBalance G bAddr uVal (g_SubBalance G (tx_Sender tx) uVal s1), Inr ())
       else if BrokerStage (tx_Broker tx) = Sigma2BrokerStage then
         if addrLoc (tx_Recipient tx) \<noteq> shard then (s, Inr ())
         else let s1 = setBrokerInitBalanceIfNotExist G [bAddr] (setInitBalanceIfNotExist G [tx_Recipient tx] s) in
              (g_AddBalance G (tx_Recipient tx) uVal (g_SubBalance G bAddr uVal s1), Inr ())
       else (s, Inl (ErrOther ''unknown broker transaction type'')))"

section \<open>Payment intents, settlements and fallbacks\<close>

definition validateIntentEnvelope :: "Transaction \<Rightarrow> unit res" where
  "validateIntentEnvelope tx =
     (case tx_Intent tx of
        None \<Rightarrow> Inl ErrIntentEnvelopeMismatch
      | Some p \<Rightarrow>
          fail_if (tx_Value tx = None \<or> Amount p = None) ErrIntentEnvelopeMismatch (
          fail_if (tx_Sender tx \<noteq> Sender p \<or> tx_Recipient tx \<noteq> Recipient p) ErrIntentEnvelopeMismatch (
          fail_if (tx_Nonce tx \<noteq> Nonce p \<or> tx_Value tx \<noteq> Amount p) ErrIntentEnvelopeMismatch (Inr ()))))"

definition nonNegativeEpoch :: "int \<Rightarrow> uint64 res" where
  "nonNegativeEpoch epoch =
     fail_if (epoch < 0) (ErrOther ''invalid negative epoch'') (Inr (uint64_of_int64 epoch))"

text \<open>Every error after the snapshot reverts to it.\<close>

definition intentTxExecute :: "('s, 'st, 'l) chain_env \<Rightarrow> ('st, 'l) Chain \<Rightarrow> Transaction \<Rightarrow> 's \<Rightarrow> 's \<times> unit res" where
  "intentTxExecute E c tx s =
     bind_st (lift_res (validateIntentEnvelope tx) s) (\<lambda>_ s.
       case tx_Intent tx of
         None \<Rightarrow> (s, Inl GoPanic)
       | Some p \<Rightarrow>
           (let s1 = setInitBalanceIfNotExist (ce_geth E) [Sender p] s in
            case nonNegativeEpoch (epochID c) of
              Inl e \<Rightarrow> (s, Inl e)
            | Inr currentEpoch \<Rightarrow>
                (case Reserve (ce_geth E) (ce_hash E) p
                        \<lparr>ctx_ChainID = uint64_of_int64 (cfg_ChainID c), ctx_ShardID = shardID c,
                         ctx_ShardCount = cfg_ShardNum c, ctx_CurrentEpoch = currentEpoch\<rparr> s1 of
                   (s2, Inl e) \<Rightarrow> (s, Inl e)
                 | (s2, Inr _) \<Rightarrow> (s2, Inr ()))))"

definition settlementTxExecute :: "('s, 'st, 'l) chain_env \<Rightarrow> ('st, 'l) Chain \<Rightarrow> Transaction \<Rightarrow> 's \<Rightarrow> 's \<times> unit res" where
  "settlementTxExecute E c tx s =
     (case tx_Settlement tx of
        None \<Rightarrow> (s, Inl ErrSettlementEnvelope)
      | Some pack \<Rightarrow>
          if tx_Value tx \<noteq> Some 0 \<or> tx_Sender tx \<noteq> EmptyAccountAddr then (s, Inl ErrSettlementEnvelope)
          else case confirmedRoots c (BatchID (pk_Header pack)) of
                 None \<Rightarrow> (s, Inl ErrUnknownMatchRoot)
               | Some confirmed \<Rightarrow> Execute (ce_geth E) (ce_hash E) (gob_fallback (ce_tx E)) (shardID c) pack confirmed s)"

definition fallbackTxExecute :: "('s, 'st, 'l) chain_env \<Rightarrow> ('st, 'l) Chain \<Rightarrow> Transaction \<Rightarrow> 's \<Rightarrow> 's \<times> unit res" where
  "fallbackTxExecute E c tx s =
     (if TxType tx = ReservedFallbackTxType then
        case tx_ReservedFallback tx of
          None \<Rightarrow> (s, Inl ErrInvalidFallback)
        | Some item \<Rightarrow>
            if tx_FallbackCompleted tx \<noteq> None \<or> tx_Value tx = None \<or> fb_Amount item = None
               \<or> tx_Value tx \<noteq> fb_Amount item \<or> tx_Sender tx \<noteq> fb_Sender item \<or> tx_Recipient tx \<noteq> fb_Recipient item
            then (s, Inl ErrInvalidFallback)
            else (case confirmedRoots c (fb_BatchID item) of
                    None \<Rightarrow> (s, Inl ErrFallbackProof)
                  | Some confirmed \<Rightarrow> ExecuteCredit (ce_geth E) (ce_hash E) (shardID c) item confirmed s)
      else if TxType tx = FallbackCompletedTxType then
        case tx_FallbackCompleted tx of
          None \<Rightarrow> (s, Inl ErrInvalidFallback)
        | Some key \<Rightarrow>
            if tx_ReservedFallback tx \<noteq> None \<or> tx_Value tx \<noteq> Some 0 then (s, Inl ErrInvalidFallback)
            else Complete (ce_geth E) (ce_hash E) key s
      else (s, Inl ErrInvalidFallback))"

section \<open>Contracts\<close>

definition DeployContract ::
    "('s, 'st, 'l) chain_env \<Rightarrow> BlockContext \<Rightarrow> Transaction \<Rightarrow> 's \<Rightarrow> 's \<times> (address \<times> uint64) res" where
  "DeployContract E bCtx tx s =
     (if TxType tx \<noteq> CreateContractTxType then (s, Inl (ErrOther ''not a create contract tx''))
      else bind_st (lift_res (BigToUInt256 (ce_geth E) (tx_Value tx)) s) (\<lambda>uValue s.
             evm_Create (ce_vm E) bCtx (tx_Sender tx) (tx_Data tx) (tx_GasLimit tx) uValue s))"

definition CallContract ::
    "('s, 'st, 'l) chain_env \<Rightarrow> BlockContext \<Rightarrow> Transaction \<Rightarrow> 's \<Rightarrow> 's \<times> (bytes \<times> uint64) res" where
  "CallContract E bCtx tx s =
     (if TxType tx \<noteq> CallContractTxType then (s, Inl (ErrOther ''not a call contract tx''))
      else bind_st (lift_res (BigToUInt256 (ce_geth E) (tx_Value tx)) s) (\<lambda>uValue s.
             evm_Call (ce_vm E) bCtx (tx_Sender tx) (tx_Recipient tx) (tx_Data tx) (tx_GasLimit tx) uValue s))"

section \<open>The execution of a block\<close>

definition txExecute ::
    "('s, 'st, 'l) chain_env \<Rightarrow> ('st, 'l) Chain \<Rightarrow> BlockContext \<Rightarrow> (address \<Rightarrow> int) \<Rightarrow> Transaction \<Rightarrow> 's \<Rightarrow> 's \<times> unit res" where
  "txExecute E c bCtx addrLoc tx s =
     (let ty = TxType tx in
      if ty = NormalTxType then normalTxExecute (ce_geth E) tx s
      else if ty = RelayTxType then relayTxExecute (ce_geth E) addrLoc (shardID c) tx s
      else if ty = BrokerTxType then brokerTxExecute (ce_geth E) addrLoc (shardID c) tx s
      else if ty = IntentSubmitTxType then intentTxExecute E c tx s
      else if ty = SettlementTxType then settlementTxExecute E c tx s
      else if ty = ReservedFallbackTxType \<or> ty = FallbackCompletedTxType then fallbackTxExecute E c tx s
      else if ty = CreateContractTxType then bind_st (DeployContract E bCtx tx s) (\<lambda>_ s. (s, Inr ()))
      else if ty = CallContractTxType then bind_st (CallContract E bCtx tx s) (\<lambda>_ s. (s, Inr ()))
      else (s, Inl (ErrOther ''unknown transaction type'')))"

definition blockNumBias :: uint64 where
  "blockNumBias = 20000000"

text \<open>\<open>CreateTime.Unix()\<close>: seconds, rounded down.\<close>

definition getBlockCtxByBlock :: "BlockHeader \<Rightarrow> BlockContext" where
  "getBlockCtxByBlock h =
     \<lparr>Coinbase = Miner h, BlockNumber = bh_Number h + blockNumBias, Time = uint64_of_int64 (bh_CreateTime h div 10 ^ 9)\<rparr>"

text \<open>\<open>common.Hash(slice)\<close> panics on fewer than 32 bytes and keeps the first 32 otherwise.\<close>

definition common_Hash :: "bytes \<Rightarrow> hash256 res" where
  "common_Hash b = fail_if (length b < 32) GoPanic (Inr (word_of_nat (be_val (take 32 b))))"

definition getVMExecutor :: "('s, 'st, 'l) chain_env \<Rightarrow> ('st, 'l) Chain \<Rightarrow> 's res" where
  "getVMExecutor E c = bind_res (common_Hash (StateRoot (curHeader c))) (state_New (ce_vm E) (StateStorage c))"

text \<open>The location of an account without an entry: its last four bytes modulo the number of shards.\<close>

definition DefaultAccountLoc :: "address \<Rightarrow> int \<Rightarrow> int res" where
  "DefaultAccountLoc a shardNum = fail_if (shardNum = 0) GoPanic (Inr (uint (ucast a :: uint32) smod shardNum))"

definition decode_location :: "('s, 'st, 'l) chain_env \<Rightarrow> int \<Rightarrow> address \<times> bytes option \<Rightarrow> int res" where
  "decode_location E shardNum av =
     (case snd av of
        None \<Rightarrow> DefaultAccountLoc (fst av) shardNum
      | Some locByte \<Rightarrow> bind_res (dec (gob_loc (ce_block E)) locByte) (\<lambda>uintLoc. Inr (int64_of_uint64 uintLoc)))"

definition getAccountLocations :: "('s, 'st, 'l) chain_env \<Rightarrow> ('st, 'l) Chain \<Rightarrow> address list \<Rightarrow> int list res" where
  "getAccountLocations E c addresses =
     bind_res (ts_MGet (ce_loc E) (LocStorage c) (map addr_bytes addresses)) (\<lambda>locBytes.
     map_res (decode_location E (cfg_ShardNum c)) (zip addresses locBytes))"

text \<open>
  The code collects the addresses in a Go map and asks for its keys in an unspecified order; the
  order does not matter for the resulting map, here the order of first occurrence. The lookup of an
  address that is no key gives the zero value.
\<close>

definition tx_accounts :: "Transaction list \<Rightarrow> address list" where
  "tx_accounts txs = remdups (concat (map (\<lambda>tx. [tx_Sender tx, tx_Recipient tx]) txs))"

definition getAccountLocationsInTxs ::
    "('s, 'st, 'l) chain_env \<Rightarrow> ('st, 'l) Chain \<Rightarrow> Transaction list \<Rightarrow> (address \<Rightarrow> int) res" where
  "getAccountLocationsInTxs E c txs =
     bind_res (getAccountLocations E c (tx_accounts txs)) (\<lambda>locations.
     Inr (\<lambda>a. case map_of (zip (tx_accounts txs) locations) a of None \<Rightarrow> 0 | Some l \<Rightarrow> l))"

fun execute_txs ::
    "('s, 'st, 'l) chain_env \<Rightarrow> ('st, 'l) Chain \<Rightarrow> BlockContext \<Rightarrow> (address \<Rightarrow> int) \<Rightarrow> Transaction list \<Rightarrow> 's \<Rightarrow> 's \<times> unit res" where
  "execute_txs E c bCtx addrLoc [] s = (s, Inr ())"
| "execute_txs E c bCtx addrLoc (tx # txs) s =
     bind_st (txExecute E c bCtx addrLoc tx s) (\<lambda>_ s. execute_txs E c bCtx addrLoc txs s)"

definition setMigratedStates2VMTrie :: "'s geth \<Rightarrow> address \<Rightarrow> account_State \<Rightarrow> 's \<Rightarrow> 's \<times> unit res" where
  "setMigratedStates2VMTrie G a st s =
     bind_st (lift_res (BigToUInt256 G (as_Balance st)) s) (\<lambda>b s.
       (g_SetNonce G a (as_Nonce st) (g_SetBalance G a b s), Inr ()))"

text \<open>One account of the migration loop; indexing \<open>MigratedStates\<close> out of range panics.\<close>

fun migrate_accounts ::
    "('s, 'st, 'l) chain_env \<Rightarrow> int \<Rightarrow> address list \<Rightarrow> account_State list \<Rightarrow> 's \<Rightarrow> 's \<times> (bytes list \<times> bytes list) res" where
  "migrate_accounts E shard [] states s = (s, Inr ([], []))"
| "migrate_accounts E shard (a # as) [] s = (s, Inl GoPanic)"
| "migrate_accounts E shard (a # as) (st # states) s =
     bind_st (if as_ShardLocation st = uint64_of_int64 shard then setMigratedStates2VMTrie (ce_geth E) a st s else (s, Inr ())) (\<lambda>_ s.
     bind_st (lift_res (enc (gob_loc (ce_block E)) (as_ShardLocation st)) s) (\<lambda>locByte s.
     bind_st (migrate_accounts E shard as states s) (\<lambda>(ks, vs) s.
     (s, Inr (addr_bytes a # ks, locByte # vs)))))"

definition calcStateModification ::
    "('s, 'st, 'l) chain_env \<Rightarrow> ('st, 'l) Chain \<Rightarrow> Block \<Rightarrow> 's \<Rightarrow> 's \<times> (bytes list \<times> bytes list) res" where
  "calcStateModification E c b s =
     bind_st (lift_res (getAccountLocationsInTxs E c (TxList b)) s) (\<lambda>accountLocMap s.
     bind_st (execute_txs E c (getBlockCtxByBlock (b_Header b)) accountLocMap (TxList b) s) (\<lambda>_ s.
     migrate_accounts E (shardID c) (MigratedAddrs (b_Migration b)) (MigratedStates (b_Migration b)) s))"

definition previewStateRootByBlock ::
    "('s, 'st, 'l) chain_env \<Rightarrow> ('st, 'l) Chain \<Rightarrow> Block \<Rightarrow> (bytes \<times> bytes) res" where
  "previewStateRootByBlock E c b =
     bind_res (getVMExecutor E c) (\<lambda>vme.
     case calcStateModification E c b vme of
       (s, Inl e) \<Rightarrow> Inl e
     | (s, Inr (accountBytes, locationBytes)) \<Rightarrow>
         bind_res (ts_Preview (ce_loc E) accountBytes locationBytes (LocStorage c)) (\<lambda>locRoot.
         Inr (hash_bytes (IntermediateRoot (ce_vm E) s), locRoot)))"

text \<open>The three commits of \<open>updateTrieByBlock\<close>; a failure leaves what was committed before it.\<close>

definition updateTrieByBlock ::
    "('s, 'st, 'l) chain_env \<Rightarrow> Block \<Rightarrow> ('st, 'l) Chain \<Rightarrow> ('st, 'l) Chain \<times> (bytes \<times> bytes) res" where
  "updateTrieByBlock E b c =
     (case bind_res (getVMExecutor E c) (\<lambda>vme.
           case calcStateModification E c b vme of (s, Inl e) \<Rightarrow> Inl e | (s, Inr kvs) \<Rightarrow> Inr (s, kvs)) of
        Inl e \<Rightarrow> (c, Inl e)
      | Inr (s, accountBytes, locationBytes) \<Rightarrow>
          (case state_Commit (ce_vm E) (BlockNumber (getBlockCtxByBlock (b_Header b))) s (StateStorage c) of
             (st, Inl e) \<Rightarrow> (c\<lparr>StateStorage := st\<rparr>, Inl e)
           | (st, Inr stateRoot) \<Rightarrow>
               (case ts_Commit (ce_loc E) accountBytes locationBytes (LocStorage c) of
                  (l, Inl e) \<Rightarrow> (c\<lparr>StateStorage := st, LocStorage := l\<rparr>, Inl e)
                | (l, Inr locRoot) \<Rightarrow>
                    (case TrieDB_Commit (ce_vm E) stateRoot st of
                       (st', Inl e) \<Rightarrow> (c\<lparr>StateStorage := st', LocStorage := l\<rparr>, Inl e)
                     | (st', Inr _) \<Rightarrow>
                         (c\<lparr>StateStorage := st', LocStorage := l\<rparr>, Inr (hash_bytes stateRoot, locRoot))))))"

section \<open>Headers\<close>

definition calcTxHeaderOpt :: "('s, 'st, 'l) chain_env \<Rightarrow> ('st, 'l) Chain \<Rightarrow> Transaction list \<Rightarrow> TxHeaderOpt res" where
  "calcTxHeaderOpt E c txs =
     (if txs = [] then Inr zero_tx_header
      else bind_res (NewFilter (ce_bits E) (cfg_Bloom c)) (\<lambda>bf.
           bind_res (map_res (\<lambda>tx. bind_res (tx_Hash (ce_hash E) (ce_tx E) tx) (\<lambda>k.
                                   bind_res (tx_Encode (ce_tx E) tx) (\<lambda>v. Inr (k, v)))) txs) (\<lambda>kvs.
           bind_res (Filter_Add (ce_bits E) (ce_digests E) (map fst kvs) bf) (\<lambda>bf'.
           bind_res (ce_root E (map fst kvs) (map snd kvs)) (\<lambda>root.
           Inr \<lparr>TxRoot = root, Bloom = bf'\<rparr>)))))"

fun getMigrationAccountBytes :: "('s, 'st, 'l) chain_env \<Rightarrow> address list \<Rightarrow> account_State list \<Rightarrow> (bytes list \<times> bytes list) res" where
  "getMigrationAccountBytes E [] states = Inr ([], [])"
| "getMigrationAccountBytes E (a # as) [] = Inl GoPanic"
| "getMigrationAccountBytes E (a # as) (st # states) =
     bind_res (enc (gob_State (ce_block E)) st) (\<lambda>v.
     bind_res (getMigrationAccountBytes E as states) (\<lambda>(ks, vs). Inr (addr_bytes a # ks, v # vs)))"

definition calcMigrationHeaderOpt :: "('s, 'st, 'l) chain_env \<Rightarrow> MigrationOpt \<Rightarrow> bytes res" where
  "calcMigrationHeaderOpt E mOpt =
     (if MigratedAddrs mOpt = [] then Inr []
      else bind_res (getMigrationAccountBytes E (MigratedAddrs mOpt) (MigratedStates mOpt)) (\<lambda>(ks, vs).
           ce_root E ks vs))"

section \<open>Generating blocks\<close>

definition containsIntent :: "Transaction list \<Rightarrow> bool" where
  "containsIntent txs = list_ex (\<lambda>tx. TxType tx = IntentSubmitTxType) txs"

text \<open>The transactions kept and the state after them; a failed intent is dropped and reverted.\<close>

fun curate_txs ::
    "('s, 'st, 'l) chain_env \<Rightarrow> ('st, 'l) Chain \<Rightarrow> BlockContext \<Rightarrow> (address \<Rightarrow> int) \<Rightarrow> Transaction list \<Rightarrow> 's \<Rightarrow> Transaction list res" where
  "curate_txs E c bCtx addrLoc [] s = Inr []"
| "curate_txs E c bCtx addrLoc (tx # txs) s =
     (case txExecute E c bCtx addrLoc tx s of
        (s', Inl e) \<Rightarrow>
          if TxType tx \<noteq> IntentSubmitTxType then Inl e else curate_txs E c bCtx addrLoc txs s
      | (s', Inr _) \<Rightarrow> bind_res (curate_txs E c bCtx addrLoc txs s') (\<lambda>accepted. Inr (tx # accepted)))"

definition curateIntentTransactions ::
    "('s, 'st, 'l) chain_env \<Rightarrow> ('st, 'l) Chain \<Rightarrow> BlockHeader \<Rightarrow> Transaction list \<Rightarrow> Transaction list res" where
  "curateIntentTransactions E c header txs =
     (if \<not> containsIntent txs then Inr txs
      else bind_res (getVMExecutor E c) (\<lambda>vme.
           bind_res (getAccountLocationsInTxs E c txs) (\<lambda>accountLocations.
           curate_txs E c (getBlockCtxByBlock header) accountLocations txs vme)))"

definition GenerateBlock ::
    "('s, 'st, 'l) chain_env \<Rightarrow> ('st, 'l) Chain \<Rightarrow> int \<Rightarrow> address \<Rightarrow> uint8 \<Rightarrow> Transaction list \<Rightarrow> MigrationOpt \<Rightarrow> Block res" where
  "GenerateBlock E c now miner blockType body mOpt =
     bind_res (header_Hash (ce_hash E) (ce_block E) (curHeader c)) (\<lambda>parentHeader.
     let header = \<lparr>ParentBlockHash = parentHeader, StateRoot = [], bh_Number = bh_Number (curHeader c) + 1,
                   bh_Type = blockType, Miner = miner, bh_CreateTime = now, LocationRoot = [],
                   bh_Tx = zero_tx_header, MigratedAccountsRoot = []\<rparr> in
     bind_res (curateIntentTransactions E c header body) (\<lambda>body.
     bind_res (calcTxHeaderOpt E c body) (\<lambda>tOpt.
     bind_res (calcMigrationHeaderOpt E mOpt) (\<lambda>mHeaderOpt.
     let b = NewBlock (header\<lparr>bh_Tx := tOpt, MigratedAccountsRoot := mHeaderOpt\<rparr>) body mOpt in
     bind_res (previewStateRootByBlock E c b) (\<lambda>(stateRoot, locRoot).
     Inr (b\<lparr>b_Header := (b_Header b)\<lparr>StateRoot := stateRoot, LocationRoot := locRoot\<rparr>\<rparr>))))))"

section \<open>Validating and adding blocks\<close>

definition validateBlockStructure :: "Block \<Rightarrow> unit res" where
  "validateBlockStructure b =
     (let m = b_Migration b; ty = bh_Type (b_Header b) in
      fail_if (length (MigratedAddrs m) \<noteq> length (MigratedStates m)) ErrInvalidBlockType (
      if ty = TxBlockType then fail_if (MigratedAddrs m \<noteq> []) ErrInvalidBlockType (Inr ())
      else if ty = MigrationBlockType then fail_if (TxList b \<noteq> []) ErrInvalidBlockType (Inr ())
      else Inl ErrInvalidBlockType))"

definition validateBlock :: "('s, 'st, 'l) chain_env \<Rightarrow> ('st, 'l) Chain \<Rightarrow> Block \<Rightarrow> unit res" where
  "validateBlock E c b =
     (let h = b_Header b in
      bind_res (header_Hash (ce_hash E) (ce_block E) (curHeader c)) (\<lambda>parentHash.
      fail_if (parentHash \<noteq> ParentBlockHash h) ErrParentBlockHashMismatch (
      fail_if (bh_Number h \<noteq> bh_Number (curHeader c) + 1) ErrBlockNumberMismatch (
      bind_res (validateBlockStructure b) (\<lambda>_.
      bind_res (calcTxHeaderOpt E c (TxList b)) (\<lambda>tH.
      fail_if (TxRoot tH \<noteq> TxRoot (bh_Tx h)) (ErrOther ''tx root mismatch'') (
      fail_if (\<not> Filter_Equal (ce_bits E) (Bloom tH) (Bloom (bh_Tx h))) (ErrOther ''bloom mismatch'') (
      bind_res (calcMigrationHeaderOpt E (b_Migration b)) (\<lambda>mH.
      fail_if (mH \<noteq> MigratedAccountsRoot h) (ErrOther ''migration root mismatch'') (
      bind_res (previewStateRootByBlock E c b) (\<lambda>(stateRoot, locationRoot).
      fail_if (stateRoot \<noteq> StateRoot h) ErrStateRootMismatch (
      fail_if (locationRoot \<noteq> LocationRoot h) ErrLocationRootMismatch (Inr ())))))))))))))"

definition AddBlock :: "('s, 'st, 'l) chain_env \<Rightarrow> Block \<Rightarrow> ('st, 'l) Chain \<Rightarrow> ('st, 'l) Chain \<times> unit res" where
  "AddBlock E b c =
     bind_st (lift_res (validateBlock E c b) c) (\<lambda>_ c.
     bind_st (lift_res (header_Hash (ce_hash E) (ce_block E) (b_Header b)) c) (\<lambda>blockHash c.
     bind_st (lift_res (enc (gob_Block (ce_block E)) b) c) (\<lambda>blockByte c.
     bind_st (lift_res (rlp_header (ce_block E) (b_Header b)) c) (\<lambda>headerByte c.
     bind_st (updateTrieByBlock E b c) (\<lambda>(stateRoot, locationRoot) c.
     if stateRoot \<noteq> StateRoot (b_Header b) then (c, Inl ErrStateRootMismatch)
     else if locationRoot \<noteq> LocationRoot (b_Header b) then (c, Inl ErrLocationRootMismatch)
     else case bolt_AddBlock blockHash blockByte headerByte (BlockStorage c) of
            (bs, Inl e) \<Rightarrow> (c\<lparr>BlockStorage := bs\<rparr>, Inl e)
          | (bs, Inr _) \<Rightarrow> (c\<lparr>BlockStorage := bs, curHeader := b_Header b\<rparr>, Inr ()))))))"

section \<open>Reading blocks and states\<close>

definition blocksFetchLimit :: int where
  "blocksFetchLimit = 100"

text \<open>The loop from the newest block backwards, filling the slice from its end.\<close>

fun fetch_blocks :: "('s, 'st, 'l) chain_env \<Rightarrow> BoltStore \<Rightarrow> nat \<Rightarrow> bytes \<Rightarrow> Block list \<Rightarrow> Block list res" where
  "fetch_blocks E bs 0 bHash blocks = Inr blocks"
| "fetch_blocks E bs (Suc n) bHash blocks =
     bind_res (GetBlockByHash bs bHash) (\<lambda>bByte.
     bind_res (dec (gob_Block (ce_block E)) bByte) (\<lambda>b.
     fetch_blocks E bs n (ParentBlockHash (b_Header b)) (b # blocks)))"

definition GetBlocksAfterHeight :: "('s, 'st, 'l) chain_env \<Rightarrow> ('st, 'l) Chain \<Rightarrow> int \<Rightarrow> Block list res" where
  "GetBlocksAfterHeight E c beginHeight =
     fail_if (beginHeight \<le> 0) (ErrOther ''beginHeight must be > 0'') (
     let fetchedBlocksCnt = wrap_int64 (int64_of_uint64 (bh_Number (curHeader c)) - beginHeight + 1) in
     fail_if (fetchedBlocksCnt > blocksFetchLimit) (ErrOther ''too many blocks to return'') (
     bind_res (header_Hash (ce_hash E) (ce_block E) (curHeader c)) (\<lambda>bHash.
     fetch_blocks E (BlockStorage c) (nat fetchedBlocksCnt) bHash [])))"

definition readStateFromVMExecutor :: "('s, 'st, 'l) chain_env \<Rightarrow> address \<Rightarrow> 's \<Rightarrow> uint64 \<Rightarrow> account_State" where
  "readStateFromVMExecutor E a s location =
     (let G = ce_geth E; empty = \<lparr>as_Address = a, as_Nonce = 0, as_Balance = Some 0, as_StorageRoot = [], as_Code = [],
                                  as_ShardLocation = location\<rparr> in
      if \<not> g_Exist G s a then
        if a = EscrowAccountAddress (ce_hash E) \<or> a = IntentRegistryAddress (ce_hash E) then empty
        else NewState a location
      else empty\<lparr>as_Nonce := g_GetNonce G s a, as_Balance := Some (uint (g_GetBalance G s a))\<rparr>)"

definition GetAccountStates :: "('s, 'st, 'l) chain_env \<Rightarrow> ('st, 'l) Chain \<Rightarrow> address list \<Rightarrow> account_State list res" where
  "GetAccountStates E c addresses =
     bind_res (getAccountLocations E c addresses) (\<lambda>locations.
     bind_res (getVMExecutor E c) (\<lambda>vme.
     Inr (map (\<lambda>(a, l). readStateFromVMExecutor E a vme (uint64_of_int64 l)) (zip addresses locations))))"

definition GetReservation :: "('s, 'st, 'l) chain_env \<Rightarrow> ('st, 'l) Chain \<Rightarrow> PaymentIntent \<Rightarrow> Reservation res" where
  "GetReservation E c p =
     bind_res (getVMExecutor E c) (\<lambda>vme. registry_Get (ce_geth E) (ce_hash E) vme p)"

definition GetNextIntentNonce :: "('s, 'st, 'l) chain_env \<Rightarrow> ('st, 'l) Chain \<Rightarrow> address \<Rightarrow> uint64 res" where
  "GetNextIntentNonce E c sender =
     bind_res (getVMExecutor E c) (\<lambda>vme. Inr (NextNonce (ce_geth E) (ce_hash E) vme sender))"

definition GetPendingFallbacks :: "('s, 'st, 'l) chain_env \<Rightarrow> ('st, 'l) Chain \<Rightarrow> ReservedFallback list res" where
  "GetPendingFallbacks E c =
     bind_res (getVMExecutor E c) (\<lambda>vme. ListPending (ce_geth E) (ce_hash E) (gob_fallback (ce_tx E)) vme)"

definition GetFallbackStatus :: "('s, 'st, 'l) chain_env \<Rightarrow> ('st, 'l) Chain \<Rightarrow> FallbackKey \<Rightarrow> Status res" where
  "GetFallbackStatus E c key =
     bind_res (getVMExecutor E c) (\<lambda>vme. Inr (fallback_Status (ce_geth E) (ce_hash E) vme key))"

section \<open>Confirmed match roots, epochs and genesis\<close>

definition ConfirmMatchRoot :: "('s, 'st, 'l) chain_env \<Rightarrow> MatchRootBlockBody \<Rightarrow> ('st, 'l) Chain \<Rightarrow> ('st, 'l) Chain \<times> unit res" where
  "ConfirmMatchRoot E h c =
     (if MatchRoot_of (ce_hash E) (header_roots h) \<noteq> MatchRoot h
         \<or> BatchID_of (ce_hash E) (PreviousBatchID h) (WindowID h) (MatchRoot h) \<noteq> BatchID h
      then (c, Inl ErrInvalidMatchRoot)
      else case confirmedRoots c (BatchID h) of
             Some existing \<Rightarrow> (c, if existing = h then Inr () else Inl ErrMatchRootConflict)
           | None \<Rightarrow> (c\<lparr>confirmedRoots := (confirmedRoots c)(BatchID h \<mapsto> h)\<rparr>, Inr ()))"

definition IsMatchRootConfirmed :: "('st, 'l) Chain \<Rightarrow> hash256 \<Rightarrow> bool" where
  "IsMatchRootConfirmed c batchID \<longleftrightarrow> confirmedRoots c batchID \<noteq> None"

definition UpdateEpoch :: "int \<Rightarrow> ('st, 'l) Chain \<Rightarrow> ('st, 'l) Chain" where
  "UpdateEpoch epoch c = c\<lparr>epochID := epoch\<rparr>"

definition initWithGenesisBlock :: "('s, 'st, 'l) chain_env \<Rightarrow> int \<Rightarrow> ('st, 'l) Chain \<Rightarrow> ('st, 'l) Chain \<times> Block res" where
  "initWithGenesisBlock E now c =
     bind_st (lift_res (GenerateBlock E c now 0 TxBlockType [] \<lparr>MigratedAddrs = [], MigratedStates = []\<rparr>) c) (\<lambda>b c.
       let b' = b\<lparr>b_Header := (b_Header b)\<lparr>bh_CreateTime := 0\<rparr>\<rparr> in
       bind_st (AddBlock E b' c) (\<lambda>_ c. (c, Inr b')))"

text \<open>
  \<open>NewChain\<close> after the storages are opened: the empty header with the root of the empty state,
  then the genesis block, which becomes the current header.
\<close>

definition empty_header :: "hash256 \<Rightarrow> BlockHeader" where
  "empty_header root = \<lparr>ParentBlockHash = [], StateRoot = hash_bytes root, bh_Number = 0, bh_Type = 0, Miner = 0,
     bh_CreateTime = 0, LocationRoot = [], bh_Tx = zero_tx_header, MigratedAccountsRoot = []\<rparr>"

definition NewChain ::
    "('s, 'st, 'l) chain_env \<Rightarrow> hash256 \<Rightarrow> 'st \<Rightarrow> 'l \<Rightarrow> int \<Rightarrow> int \<Rightarrow> int \<Rightarrow> BloomFilterCfg \<Rightarrow> int \<Rightarrow> ('st, 'l) Chain res" where
  "NewChain E initialRoot st l shard chainID shardNum bloom now =
     (let c = \<lparr>StateStorage = st, LocStorage = l, BlockStorage = NewBoltStore, curHeader = empty_header initialRoot,
               shardID = shard, epochID = 0, cfg_ChainID = chainID, cfg_ShardNum = shardNum, cfg_Bloom = bloom,
               confirmedRoots = Map.empty\<rparr> in
      case initWithGenesisBlock E now c of
        (c', Inl e) \<Rightarrow> Inl e
      | (c', Inr b) \<Rightarrow> Inr (c'\<lparr>curHeader := b_Header b\<rparr>))"

end
