(* ===== verification/Chain_Correct.thy ===== *)
theory Chain_Correct
  imports Chain
begin

text \<open>
  The chain: a generated block is valid for every replica in the same state, adding a block moves
  the chain by exactly that block and nothing but an I/O failure stops it after validation, and the
  stored blocks are read back in order.
\<close>

section \<open>The laws of the state database\<close>

text \<open>
  Committing returns the root \<open>IntermediateRoot\<close> announces (both with \<open>deleteEmptyObjects\<close>), and
  the state opened at a committed root has the accounts that were committed, apart from the empty
  ones, which are deleted.
\<close>

definition nonempty_account :: "'s geth \<Rightarrow> 's \<Rightarrow> address \<Rightarrow> bool" where
  "nonempty_account G s a \<longleftrightarrow> g_GetBalance G s a \<noteq> 0 \<or> g_GetNonce G s a \<noteq> 0"

locale vm_laws =
  fixes G :: "'s geth" and V :: "('s, 'st) vm_ops"
  assumes Commit_root: "state_Commit V n s st = (st', Inr r) \<Longrightarrow> r = IntermediateRoot V s"
    and Commit_reopen: "state_Commit V n s st = (st', Inr r) \<Longrightarrow> TrieDB_Commit V r st' = (st'', Inr u) \<Longrightarrow>
      \<exists>s'. state_New V st'' r = Inr s' \<and> (\<forall>a. g_GetBalance G s' a = g_GetBalance G s a)
        \<and> (\<forall>a. nonempty_account G s a \<longrightarrow> g_Exist G s' a \<and> g_GetNonce G s' a = g_GetNonce G s a
              \<and> (\<forall>k. g_GetState G s' a k = g_GetState G s a k))
        \<and> (\<forall>a. \<not> nonempty_account G s a \<longrightarrow> g_GetNonce G s' a = 0 \<and> (\<forall>k. g_GetState G s' a k = 0))"

section \<open>Blocks a leader generates\<close>

text \<open>The roots are not read by the preview, so filling them in does not change it.\<close>

lemma preview_cong:
  assumes "TxList b' = TxList b" "b_Migration b' = b_Migration b"
    "getBlockCtxByBlock (b_Header b') = getBlockCtxByBlock (b_Header b)"
  shows "previewStateRootByBlock E c b' = previewStateRootByBlock E c b"
  using assms by (simp add: previewStateRootByBlock_def calcStateModification_def)

definition well_shaped :: "uint8 \<Rightarrow> Transaction list \<Rightarrow> MigrationOpt \<Rightarrow> bool" where
  "well_shaped ty body mOpt \<longleftrightarrow> length (MigratedAddrs mOpt) = length (MigratedStates mOpt)
     \<and> (ty = TxBlockType \<and> MigratedAddrs mOpt = [] \<or> ty = MigrationBlockType \<and> body = [])"

lemma GenerateBlock_Inr:
  assumes "GenerateBlock E c now miner ty body mOpt = Inr b"
  obtains parent txs tOpt mH sr lr where
    "header_Hash (ce_hash E) (ce_block E) (curHeader c) = Inr parent"
    "curateIntentTransactions E c \<lparr>ParentBlockHash = parent, StateRoot = [], bh_Number = bh_Number (curHeader c) + 1,
       bh_Type = ty, Miner = miner, bh_CreateTime = now, LocationRoot = [], bh_Tx = zero_tx_header,
       MigratedAccountsRoot = []\<rparr> body = Inr txs"
    "calcTxHeaderOpt E c txs = Inr tOpt" "calcMigrationHeaderOpt E mOpt = Inr mH"
    "previewStateRootByBlock E c b = Inr (sr, lr)"
    "b = \<lparr>b_Header = \<lparr>ParentBlockHash = parent, StateRoot = sr, bh_Number = bh_Number (curHeader c) + 1, bh_Type = ty,
          Miner = miner, bh_CreateTime = now, LocationRoot = lr, bh_Tx = tOpt, MigratedAccountsRoot = mH\<rparr>,
          TxList = txs, b_Migration = mOpt\<rparr>"
proof -
  obtain parent where p: "header_Hash (ce_hash E) (ce_block E) (curHeader c) = Inr parent"
    using assms by (auto simp: GenerateBlock_def bind_res_eq_Inr)
  define h where "h = \<lparr>ParentBlockHash = parent, StateRoot = [], bh_Number = bh_Number (curHeader c) + 1,
       bh_Type = ty, Miner = miner, bh_CreateTime = now, LocationRoot = [], bh_Tx = zero_tx_header,
       MigratedAccountsRoot = []\<rparr>"
  obtain txs tOpt mH sr lr where t: "curateIntentTransactions E c h body = Inr txs"
      "calcTxHeaderOpt E c txs = Inr tOpt" "calcMigrationHeaderOpt E mOpt = Inr mH"
      "previewStateRootByBlock E c (NewBlock (h\<lparr>bh_Tx := tOpt, MigratedAccountsRoot := mH\<rparr>) txs mOpt) = Inr (sr, lr)"
    and b: "b = (NewBlock (h\<lparr>bh_Tx := tOpt, MigratedAccountsRoot := mH\<rparr>) txs mOpt)
       \<lparr>b_Header := h\<lparr>bh_Tx := tOpt, MigratedAccountsRoot := mH, StateRoot := sr, LocationRoot := lr\<rparr>\<rparr>"
    using assms p by (auto simp: GenerateBlock_def bind_res_eq_Inr Let_def h_def NewBlock_def)
  have "previewStateRootByBlock E c b = Inr (sr, lr)"
    using t(4) by (subst (asm) preview_cong [of b, symmetric]) (simp_all add: b NewBlock_def getBlockCtxByBlock_def)
  then show thesis using that p t(1-3) b by (simp add: h_def NewBlock_def)
qed

lemma curate_Nil: "curateIntentTransactions E c h [] = Inr []"
  by (simp add: curateIntentTransactions_def containsIntent_def)

lemma generated_valid:
  assumes B: "bitset_laws (ce_bits E)" and g: "GenerateBlock E c now miner ty body mOpt = Inr b" and w: "well_shaped ty body mOpt"
  shows "validateBlock E c b = Inr ()"
proof (rule GenerateBlock_Inr [OF g])
  fix parent txs tOpt mH sr lr
  assume *: "header_Hash (ce_hash E) (ce_block E) (curHeader c) = Inr parent"
    "curateIntentTransactions E c \<lparr>ParentBlockHash = parent, StateRoot = [], bh_Number = bh_Number (curHeader c) + 1,
       bh_Type = ty, Miner = miner, bh_CreateTime = now, LocationRoot = [], bh_Tx = zero_tx_header,
       MigratedAccountsRoot = []\<rparr> body = Inr txs"
    "calcTxHeaderOpt E c txs = Inr tOpt" "calcMigrationHeaderOpt E mOpt = Inr mH"
    "previewStateRootByBlock E c b = Inr (sr, lr)"
    and b: "b = \<lparr>b_Header = \<lparr>ParentBlockHash = parent, StateRoot = sr, bh_Number = bh_Number (curHeader c) + 1, bh_Type = ty,
          Miner = miner, bh_CreateTime = now, LocationRoot = lr, bh_Tx = tOpt, MigratedAccountsRoot = mH\<rparr>,
          TxList = txs, b_Migration = mOpt\<rparr>"
  have "validateBlockStructure b = Inr ()"
    using w *(2) by (auto simp: validateBlockStructure_def b well_shaped_def TxBlockType_def MigrationBlockType_def curate_Nil)
  moreover have "Filter_Equal (ce_bits E) f f" for f
    by (simp add: Filter_Equal_def bitset_laws.Equal_refl [OF B])
  ultimately show ?thesis using * by (simp add: validateBlock_def b)
qed

section \<open>Adding blocks\<close>

text \<open>The three writes of \<open>updateTrieByBlock\<close> succeed.\<close>

definition commits_succeed :: "('s, 'st, 'l) chain_env \<Rightarrow> ('st, 'l) Chain \<Rightarrow> Block \<Rightarrow> bool" where
  "commits_succeed E c b \<longleftrightarrow>
     (\<exists>s0 s ks vs st r l lr st'. getVMExecutor E c = Inr s0 \<and> calcStateModification E c b s0 = (s, Inr (ks, vs))
       \<and> state_Commit (ce_vm E) (BlockNumber (getBlockCtxByBlock (b_Header b))) s (StateStorage c) = (st, Inr r)
       \<and> ts_Commit (ce_loc E) ks vs (LocStorage c) = (l, Inr lr) \<and> TrieDB_Commit (ce_vm E) r st = (st', Inr ()))"

lemma updateTrieByBlock_Inr:
  assumes "updateTrieByBlock E b c = (c', Inr (sr, lr))"
  obtains s0 s ks vs st r l st' where "getVMExecutor E c = Inr s0" "calcStateModification E c b s0 = (s, Inr (ks, vs))"
    "state_Commit (ce_vm E) (BlockNumber (getBlockCtxByBlock (b_Header b))) s (StateStorage c) = (st, Inr r)"
    "ts_Commit (ce_loc E) ks vs (LocStorage c) = (l, Inr lr)" "TrieDB_Commit (ce_vm E) r st = (st', Inr ())"
    "c' = c\<lparr>StateStorage := st', LocStorage := l\<rparr>" "sr = hash_bytes r"
proof -
  obtain s0 s ks vs where s: "getVMExecutor E c = Inr s0" "calcStateModification E c b s0 = (s, Inr (ks, vs))"
    using assms by (cases "getVMExecutor E c"; cases "calcStateModification E c b (projr (getVMExecutor E c))";
        cases "snd (calcStateModification E c b (projr (getVMExecutor E c)))") (auto simp: updateTrieByBlock_def)
  show thesis
    using assms that s
    by (auto simp: updateTrieByBlock_def split: sum.splits prod.splits)
qed

lemma updateTrieByBlock_frame:
  assumes "updateTrieByBlock E b c = (c', r)"
  shows "curHeader c' = curHeader c" "BlockStorage c' = BlockStorage c" "confirmedRoots c' = confirmedRoots c"
    "shardID c' = shardID c" "epochID c' = epochID c" "cfg_ChainID c' = cfg_ChainID c" "cfg_ShardNum c' = cfg_ShardNum c"
    "cfg_Bloom c' = cfg_Bloom c"
  using assms by (auto simp: updateTrieByBlock_def split: sum.splits prod.splits)

lemma AddBlock_Inr:
  assumes "AddBlock E b c = (c', Inr ())"
  obtains c1 h bb hb bs where "validateBlock E c b = Inr ()" "header_Hash (ce_hash E) (ce_block E) (b_Header b) = Inr h"
    "enc (gob_Block (ce_block E)) b = Inr bb" "rlp_header (ce_block E) (b_Header b) = Inr hb"
    "updateTrieByBlock E b c = (c1, Inr (StateRoot (b_Header b), LocationRoot (b_Header b)))"
    "bolt_AddBlock h bb hb (BlockStorage c) = (bs, Inr ())" "c' = c1\<lparr>BlockStorage := bs, curHeader := b_Header b\<rparr>"
proof -
  obtain u h bb hb c1 sr lr where a: "validateBlock E c b = Inr u" "header_Hash (ce_hash E) (ce_block E) (b_Header b) = Inr h"
    "enc (gob_Block (ce_block E)) b = Inr bb" "rlp_header (ce_block E) (b_Header b) = Inr hb"
    "updateTrieByBlock E b c = (c1, Inr (sr, lr))"
    and k: "(if sr \<noteq> StateRoot (b_Header b) then (c1, Inl ErrStateRootMismatch)
     else if lr \<noteq> LocationRoot (b_Header b) then (c1, Inl ErrLocationRootMismatch)
     else case bolt_AddBlock h bb hb (BlockStorage c1) of
            (bs, Inl e) \<Rightarrow> (c1\<lparr>BlockStorage := bs\<rparr>, Inl e)
          | (bs, Inr _) \<Rightarrow> (c1\<lparr>BlockStorage := bs, curHeader := b_Header b\<rparr>, Inr ())) = (c', Inr ())"
    using assms by (auto simp: AddBlock_def bind_st_eq_Inr lift_res_def)
  show thesis
    using k that a updateTrieByBlock_frame(2) [OF a(5)] by (auto split: if_splits sum.splits prod.splits)
qed

lemma AddBlock_Inl:
  assumes "AddBlock E b c = (c', Inl e)"
  shows "curHeader c' = curHeader c \<and> BlockStorage c' = BlockStorage c \<and> confirmedRoots c' = confirmedRoots c"
proof -
  have bolt: "bolt_AddBlock h x y bs = (bs', Inl e') \<Longrightarrow> bs' = bs" for h x y bs bs' e'
    by (auto simp: bolt_AddBlock_def split: if_splits)
  consider e' where "validateBlock E c b = Inl e'" | e' where "header_Hash (ce_hash E) (ce_block E) (b_Header b) = Inl e'"
    | e' where "enc (gob_Block (ce_block E)) b = Inl e'" | e' where "rlp_header (ce_block E) (b_Header b) = Inl e'"
    | u h bb hb c1 r where "validateBlock E c b = Inr u" "header_Hash (ce_hash E) (ce_block E) (b_Header b) = Inr h"
      "enc (gob_Block (ce_block E)) b = Inr bb" "rlp_header (ce_block E) (b_Header b) = Inr hb" "updateTrieByBlock E b c = (c1, r)"
    by (metis obj_sumE surj_pair)
  then show ?thesis
  proof cases
    case (5 u h bb hb c1 r)
    note f = updateTrieByBlock_frame [OF 5(5)]
    have "c' = c1 \<or> (\<exists>bs e'. bolt_AddBlock h bb hb (BlockStorage c1) = (bs, Inl e') \<and> c' = c1\<lparr>BlockStorage := bs\<rparr>)"
      using assms 5 by (cases r) (auto simp: AddBlock_def lift_res_def split: if_splits sum.splits prod.splits)
    then show ?thesis using f bolt by auto
  qed (use assms in \<open>auto simp: AddBlock_def lift_res_def bind_st_eq_Inl header_Hash_def bind_res_eq_Inl\<close>)
qed

lemma validateBlock_Inr:
  assumes "validateBlock E c b = Inr ()"
  shows "header_Hash (ce_hash E) (ce_block E) (curHeader c) = Inr (ParentBlockHash (b_Header b))"
    "bh_Number (b_Header b) = bh_Number (curHeader c) + 1"
    "previewStateRootByBlock E c b = Inr (StateRoot (b_Header b), LocationRoot (b_Header b))"
  using assms by (auto simp: validateBlock_def Let_def bind_res_eq_Inr fail_if_eq_Inr)

lemma header_Hash_nonempty: "header_Hash H bc h = Inr x \<Longrightarrow> x \<noteq> []"
proof -
  assume "header_Hash H bc h = Inr x"
  then obtain b where "x = hash_bytes (H b)" by (auto simp: header_Hash_def bind_res_eq_Inr)
  then have "length x = 32" by simp
  then show ?thesis by auto
qed

text \<open>After validation the roots cannot disagree: only encoding or a commit can still fail.\<close>

lemma AddBlock_succeeds:
  assumes V: "vm_laws (ce_geth E) (ce_vm E)" and L: "trie_store_laws (ce_loc E)" and v: "validateBlock E c b = Inr ()"
    and cs: "commits_succeed E c b" and en: "enc (gob_Block (ce_block E)) b = Inr bb"
    and hb: "rlp_header (ce_block E) (b_Header b) = Inr hb"
  shows "\<exists>c'. AddBlock E b c = (c', Inr ())"
proof -
  obtain s0 s ks vs st r l lr st' where k: "getVMExecutor E c = Inr s0" "calcStateModification E c b s0 = (s, Inr (ks, vs))"
      "state_Commit (ce_vm E) (BlockNumber (getBlockCtxByBlock (b_Header b))) s (StateStorage c) = (st, Inr r)"
      "ts_Commit (ce_loc E) ks vs (LocStorage c) = (l, Inr lr)" "TrieDB_Commit (ce_vm E) r st = (st', Inr ())"
    using cs by (auto simp: commits_succeed_def)
  have "previewStateRootByBlock E c b = Inr (hash_bytes r, lr)"
    using k vm_laws.Commit_root [OF V k(3)] trie_store_laws.Commit_Preview [OF L k(4)]
    by (simp add: previewStateRootByBlock_def)
  then have r: "StateRoot (b_Header b) = hash_bytes r" "LocationRoot (b_Header b) = lr" using validateBlock_Inr(3) [OF v] by auto
  have u: "updateTrieByBlock E b c = (c\<lparr>StateStorage := st', LocStorage := l\<rparr>, Inr (hash_bytes r, lr))"
    using k by (simp add: updateTrieByBlock_def)
  have h: "header_Hash (ce_hash E) (ce_block E) (b_Header b) = Inr (hash_bytes (ce_hash E hb))" using hb by (simp add: header_Hash_def)
  then have "hash_bytes (ce_hash E hb) \<noteq> []" by (rule header_Hash_nonempty)
  then show ?thesis using v en hb u r h by (simp add: AddBlock_def lift_res_def bolt_AddBlock_def)
qed

section \<open>Histories\<close>

text \<open>
  The chains a node can reach, with the blocks added so far: from a chain with an empty block store,
  by blocks that are added, blocks that are refused, confirmations of match roots and epoch changes.
\<close>

inductive chain_run :: "('s, 'st, 'l) chain_env \<Rightarrow> ('st, 'l) Chain \<Rightarrow> Block list \<Rightarrow> bool" for E where
  fresh: "BlockStorage c = NewBoltStore \<Longrightarrow> bh_Number (curHeader c) = 0 \<Longrightarrow> chain_run E c []"
| added: "chain_run E c bs \<Longrightarrow> AddBlock E b c = (c', Inr ()) \<Longrightarrow> chain_run E c' (bs @ [b])"
| refused: "chain_run E c bs \<Longrightarrow> AddBlock E b c = (c', Inl e) \<Longrightarrow> chain_run E c' bs"
| confirmed: "chain_run E c bs \<Longrightarrow> ConfirmMatchRoot E h c = (c', r) \<Longrightarrow> chain_run E c' bs"
| epoch: "chain_run E c bs \<Longrightarrow> chain_run E (UpdateEpoch e c) bs"

lemma NewChain_run:
  assumes "NewChain E root st l shard chainID shardNum bloom now = Inr c"
  obtains g where "chain_run E c [g]"
proof -
  define c0 where "c0 = \<lparr>StateStorage = st, LocStorage = l, BlockStorage = NewBoltStore, curHeader = empty_header root,
               shardID = shard, epochID = 0, cfg_ChainID = chainID, cfg_ShardNum = shardNum, cfg_Bloom = bloom,
               confirmedRoots = Map.empty\<rparr>"
  obtain c' b where i: "initWithGenesisBlock E now c0 = (c', Inr b)" "c = c'\<lparr>curHeader := b_Header b\<rparr>"
    using assms by (auto simp: NewChain_def c0_def Let_def split: sum.splits prod.splits)
  have a: "AddBlock E b c0 = (c', Inr ())"
    using i(1) by (auto simp: initWithGenesisBlock_def bind_st_eq_Inr lift_res_def Let_def)
  have "c = c'" by (rule AddBlock_Inr [OF a]) (use i(2) in simp)
  moreover have "chain_run E c0 []" by (rule fresh) (simp_all add: c0_def empty_header_def)
  ultimately show thesis using that added [OF _ a, of "[]"] by simp
qed

text \<open>The stored blocks are linked by their parent hashes and numbered from one.\<close>

definition stored :: "('s, 'st, 'l) chain_env \<Rightarrow> BoltStore \<Rightarrow> Block \<Rightarrow> bool" where
  "stored E st b \<longleftrightarrow> (\<exists>h x. header_Hash (ce_hash E) (ce_block E) (b_Header b) = Inr h
     \<and> enc (gob_Block (ce_block E)) b = Inr x \<and> bucketBlock st h = Some x)"

definition linked :: "('s, 'st, 'l) chain_env \<Rightarrow> ('st, 'l) Chain \<Rightarrow> Block list \<Rightarrow> bool" where
  "linked E c bs \<longleftrightarrow> bh_Number (curHeader c) = word_of_nat (length bs)
     \<and> (bs \<noteq> [] \<longrightarrow> curHeader c = b_Header (last bs))
     \<and> (\<forall>i < length bs. bh_Number (b_Header (bs ! i)) = word_of_nat (Suc i) \<and> stored E (BlockStorage c) (bs ! i))
     \<and> (\<forall>i. Suc i < length bs \<longrightarrow>
          header_Hash (ce_hash E) (ce_block E) (b_Header (bs ! i)) = Inr (ParentBlockHash (b_Header (bs ! Suc i))))"

lemma linked_cong:
  "curHeader c' = curHeader c \<Longrightarrow> BlockStorage c' = BlockStorage c \<Longrightarrow> linked E c bs \<Longrightarrow> linked E c' bs"
  by (simp add: linked_def)

text \<open>A new block has a number no stored block has, so its hash collides with none of them.\<close>

lemma stored_later:
  assumes st: "stored E st b" and a: "bolt_AddBlock h bb hb st = (st', Inr ())"
    and h: "header_Hash (ce_hash E) (ce_block E) (b_Header n) = Inr h"
    and inj: "inj_on (header_Hash (ce_hash E) (ce_block E)) S" "b_Header b \<in> S" "b_Header n \<in> S"
    and ne: "bh_Number (b_Header b) \<noteq> bh_Number (b_Header n)"
  shows "stored E st' b"
proof -
  have "header_Hash (ce_hash E) (ce_block E) (b_Header b) \<noteq> Inr h"
    using inj_onD [OF inj(1) _ inj(2,3)] h ne by auto
  then show ?thesis using st a by (auto simp: stored_def bolt_AddBlock_def split: if_splits)
qed

lemma unat_small: "n \<le> 2 ^ 63 \<Longrightarrow> unat (word_of_nat n :: uint64) = n"
  by (simp add: unat_of_nat)

lemma linked_AddBlock:
  assumes l: "linked E c bs" and a: "AddBlock E b c = (c', Inr ())"
    and inj: "inj_on (header_Hash (ce_hash E) (ce_block E)) (b_Header ` set (bs @ [b]))" and len: "length bs < 2 ^ 63"
  shows "linked E c' (bs @ [b])"
proof (rule AddBlock_Inr [OF a])
  fix c1 h bb hb st
  assume v: "validateBlock E c b = Inr ()" and h: "header_Hash (ce_hash E) (ce_block E) (b_Header b) = Inr h"
    and bb: "enc (gob_Block (ce_block E)) b = Inr bb" and st: "bolt_AddBlock h bb hb (BlockStorage c) = (st, Inr ())"
    and c': "c' = c1\<lparr>BlockStorage := st, curHeader := b_Header b\<rparr>"
  note val = validateBlock_Inr [OF v]
  have num: "bh_Number (b_Header b) = word_of_nat (Suc (length bs))" using val(2) l by (simp add: linked_def)
  have new: "stored E st b" using h bb st by (auto simp: stored_def bolt_AddBlock_def split: if_splits)
  have old: "stored E st (bs ! i)" if i: "i < length bs" for i
  proof (rule stored_later [OF _ st h inj])
    show "stored E (BlockStorage c) (bs ! i)" using l i by (simp add: linked_def)
    have "(word_of_nat (Suc i) :: uint64) \<noteq> word_of_nat (Suc (length bs))"
    proof
      assume "(word_of_nat (Suc i) :: uint64) = word_of_nat (Suc (length bs))"
      then have "Suc i = Suc (length bs)" using i len unat_small [of "Suc i"] unat_small [of "Suc (length bs)"] by auto
      then show False using i by simp
    qed
    then show "bh_Number (b_Header (bs ! i)) \<noteq> bh_Number (b_Header b)" using l i num by (simp add: linked_def)
  qed (use i in auto)
  have link: "header_Hash (ce_hash E) (ce_block E) (b_Header ((bs @ [b]) ! i)) = Inr (ParentBlockHash (b_Header ((bs @ [b]) ! Suc i)))"
    if i: "Suc i < length (bs @ [b])" for i
  proof (cases "Suc i < length bs")
    case True
    then show ?thesis using l by (simp add: linked_def nth_append)
  next
    case False
    then have e: "Suc i = length bs" and ne: "bs \<noteq> []" using i by auto
    have "length bs - 1 = i" using e by simp
    then have "b_Header (bs ! i) = curHeader c" using l ne by (simp add: linked_def last_conv_nth)
    then show ?thesis using val(1) e by (simp add: nth_append)
  qed
  show ?thesis
    unfolding linked_def c' using num new old link l by (auto simp: nth_append less_Suc_eq linked_def)
qed

lemma chain_run_linked:
  "chain_run E c bs \<Longrightarrow> inj_on (header_Hash (ce_hash E) (ce_block E)) (b_Header ` set bs) \<Longrightarrow> length bs < 2 ^ 63 \<Longrightarrow> linked E c bs"
proof (induction rule: chain_run.induct)
  case (fresh c)
  then show ?case by (simp add: linked_def)
next
  case (added c bs b c')
  have "inj_on (header_Hash (ce_hash E) (ce_block E)) (b_Header ` set bs)"
    by (rule inj_on_subset [OF added.prems(1)]) auto
  then have "linked E c bs" using added by simp
  then show ?case using linked_AddBlock [OF _ added.hyps(2) added.prems(1)] added.prems(2) by simp
next
  case (refused c bs b c' e)
  then show ?case using AddBlock_Inl [OF refused.hyps(2)] linked_cong [of c' c] by auto
next
  case (confirmed c bs h c' r)
  then have "curHeader c' = curHeader c" "BlockStorage c' = BlockStorage c"
    by (auto simp: ConfirmMatchRoot_def split: if_splits option.splits)
  then show ?case using confirmed linked_cong [of c' c] by auto
next
  case (epoch c bs e)
  then show ?case using linked_cong [of "UpdateEpoch e c" c] by (simp add: UpdateEpoch_def)
qed

section \<open>Reading blocks back\<close>

lemma fetch_blocks_linked:
  assumes l: "linked E c bs" and gob: "\<forall>b \<in> set bs. \<forall>x. enc (gob_Block (ce_block E)) b = Inr x \<longrightarrow> dec (gob_Block (ce_block E)) x = Inr b"
  shows "n \<le> k \<Longrightarrow> k < length bs \<Longrightarrow> header_Hash (ce_hash E) (ce_block E) (b_Header (bs ! k)) = Inr h \<Longrightarrow>
    fetch_blocks E (BlockStorage c) (Suc n) h acc = Inr (take (Suc n) (drop (k - n) bs) @ acc)"
proof (induction n arbitrary: k h acc)
  case 0
  obtain x where x: "enc (gob_Block (ce_block E)) (bs ! k) = Inr x" "bucketBlock (BlockStorage c) h = Some x"
    using l 0 by (auto simp: linked_def stored_def)
  have "dec (gob_Block (ce_block E)) x = Inr (bs ! k)" using gob 0(2) x(1) by simp
  then show ?case using x 0(2) by (simp add: GetBlockByHash_def take_Suc hd_drop_conv_nth)
next
  case (Suc n)
  obtain x where x: "enc (gob_Block (ce_block E)) (bs ! k) = Inr x" "bucketBlock (BlockStorage c) h = Some x"
    using l Suc.prems by (auto simp: linked_def stored_def)
  obtain k' where k: "k = Suc k'" using Suc.prems(1) by (cases k) auto
  have p: "header_Hash (ce_hash E) (ce_block E) (b_Header (bs ! k')) = Inr (ParentBlockHash (b_Header (bs ! k)))"
    using l Suc.prems(2) k by (simp add: linked_def)
  have d: "dec (gob_Block (ce_block E)) x = Inr (bs ! k)" using gob Suc.prems(2) x(1) by simp
  have "fetch_blocks E (BlockStorage c) (Suc n) (ParentBlockHash (b_Header (bs ! k))) (bs ! k # acc)
      = Inr (take (Suc n) (drop (k' - n) bs) @ bs ! k # acc)"
    by (rule Suc.IH) (use Suc.prems k p in auto)
  moreover have "take (Suc (Suc n)) (drop (k' - n) bs) = take (Suc n) (drop (k' - n) bs) @ [bs ! k]"
    using Suc.prems k by (subst take_Suc_conv_app_nth) (auto simp: nth_drop)
  ultimately show ?case using x d k by (simp add: GetBlockByHash_def)
qed

lemma GetBlocks_linked:
  assumes l: "linked E c bs" and gob: "\<forall>b \<in> set bs. \<forall>x. enc (gob_Block (ce_block E)) b = Inr x \<longrightarrow> dec (gob_Block (ce_block E)) x = Inr b"
    and ne: "bs \<noteq> []" and len: "length bs < 2 ^ 63" and b: "1 \<le> begin" "begin < 2 ^ 63" "int (length bs) - begin + 1 \<le> 100"
  shows "GetBlocksAfterHeight E c begin = Inr (drop (nat begin - 1) bs)"
proof -
  let ?k = "length bs - 1" and ?n = "int (length bs) - begin + 1"
  have num: "int64_of_uint64 (bh_Number (curHeader c)) = int (length bs)"
  proof -
    have "uint (word_of_nat (length bs) :: uint64) = int (length bs)"
      using unat_small [of "length bs"] len by (simp add: uint_nat)
    then show ?thesis using l len by (simp add: linked_def int64_of_uint64_id)
  qed
  have w: "wrap_int64 (int64_of_uint64 (bh_Number (curHeader c)) - begin + 1) = ?n"
    using b len by (simp add: num int64_range_def)
  have k: "?k < length bs" "b_Header (bs ! ?k) = curHeader c" using ne l by (auto simp: linked_def last_conv_nth)
  obtain h where h: "header_Hash (ce_hash E) (ce_block E) (curHeader c) = Inr h"
    using l k by (auto simp: linked_def stored_def)
  have g: "GetBlocksAfterHeight E c begin = fetch_blocks E (BlockStorage c) (nat ?n) h []"
    using b h w by (simp add: GetBlocksAfterHeight_def Let_def blocksFetchLimit_def)
  show ?thesis
  proof (cases "begin \<le> int (length bs)")
    case True
    define n where "n = nat ?n - 1"
    have nn: "nat ?n = Suc n" "n \<le> ?k" "?k - n = nat begin - 1" using True b(1) by (auto simp: n_def)
    have "fetch_blocks E (BlockStorage c) (Suc n) h [] = Inr (take (Suc n) (drop (?k - n) bs) @ [])"
      by (rule fetch_blocks_linked [OF l gob nn(2) k(1)]) (use k(2) h in simp)
    moreover have "take (Suc n) (drop (?k - n) bs) = drop (?k - n) bs" using nn(2) k(1) by simp
    ultimately show ?thesis using g nn by simp
  next
    case False
    then show ?thesis using g by simp
  qed
qed

section \<open>Transfers\<close>

text \<open>Balances after the defaults of accounts that do not exist yet.\<close>

definition start_balance :: "'s geth \<Rightarrow> 's \<Rightarrow> address \<Rightarrow> 256 word" where
  "start_balance G s a = (if g_Exist G s a then g_GetBalance G s a else normalInitBalance)"

context geth_laws
begin

lemma init_balance_simps [simp]:
  "g_GetBalance G (init_balance G b s x) a = (if a = x \<and> \<not> g_Exist G s x then b else g_GetBalance G s a)"
  "g_Exist G (init_balance G b s x) a \<longleftrightarrow> a = x \<or> g_Exist G s a"
  "g_GetNonce G (init_balance G b s x) a = g_GetNonce G s a"
  "g_GetState G (init_balance G b s x) a k = g_GetState G s a k"
  by (auto simp: init_balance_def)

lemma BigToUInt256_Inr: "BigToUInt256 G v = Inr u \<longleftrightarrow> (\<exists>x. v = Some x \<and> 0 \<le> x \<and> x < 2 ^ 256 \<and> u = word_of_int x)"
  by (cases v) (auto simp: BigToUInt256_def fail_if_def FromBig split: option.splits)

lemma uint_of_BigToUInt256: "BigToUInt256 G (Some x) = Inr u \<Longrightarrow> uint u = x"
  by (auto simp: BigToUInt256_Inr unsigned_of_int take_bit_eq_mod)

lemma normal_balances:
  assumes "BigToUInt256 G (tx_Value tx) = Inr v"
  shows "normalTxExecute G tx s =
      (let s1 = setInitBalanceIfNotExist G [tx_Sender tx, tx_Recipient tx] s in
       if v \<le> start_balance G s (tx_Sender tx)
       then (g_AddBalance G (tx_Recipient tx) v (g_SubBalance G (tx_Sender tx) v s1), Inr ())
       else (s1, Inl (ErrOther ''the balance is not enough'')))"
  using assms by (auto simp: normalTxExecute_def lift_res_def Let_def setInitBalanceIfNotExist_def start_balance_def)

end

section \<open>A reference state database\<close>

text \<open>The database maps roots to states; a commit drops the empty accounts.\<close>

definition mem_clean :: "mem_state \<Rightarrow> mem_state" where
  "mem_clean s = (let keep = (\<lambda>a. mem_balance s a \<noteq> 0 \<or> mem_nonce s a \<noteq> 0) in
     s\<lparr>mem_exist := Collect keep, mem_nonce := (\<lambda>a. if keep a then mem_nonce s a else 0),
       mem_store := (\<lambda>a k. if keep a then mem_store s a k else 0)\<rparr>)"

definition mem_vm :: "(mem_state, hash256 \<rightharpoonup> mem_state) vm_ops" where
  "mem_vm = \<lparr>
     state_New = (\<lambda>st r. case st r of None \<Rightarrow> Inl (ErrOther ''missing state'') | Some s \<Rightarrow> Inr s),
     IntermediateRoot = (\<lambda>s. 5),
     state_Commit = (\<lambda>n s st. (st(5 \<mapsto> mem_clean s), Inr 5)),
     TrieDB_Commit = (\<lambda>r st. (st, Inr ())),
     evm_Create = (\<lambda>bctx a d g v s. (s, Inl (ErrOther ''no code''))),
     evm_Call = (\<lambda>bctx a t d g v s. (s, Inl (ErrOther ''no code'')))\<rparr>"

interpretation mv: vm_laws mem_geth mem_vm
proof
  fix n s st st' r st'' u
  assume a: "state_Commit mem_vm n s st = (st', Inr r)" "TrieDB_Commit mem_vm r st' = (st'', Inr u)"
  then have "state_New mem_vm st'' r = Inr (mem_clean s)" by (auto simp: mem_vm_def)
  then show "\<exists>s'. state_New mem_vm st'' r = Inr s' \<and> (\<forall>a. g_GetBalance mem_geth s' a = g_GetBalance mem_geth s a)
        \<and> (\<forall>a. nonempty_account mem_geth s a \<longrightarrow> g_Exist mem_geth s' a \<and> g_GetNonce mem_geth s' a = g_GetNonce mem_geth s a
              \<and> (\<forall>k. g_GetState mem_geth s' a k = g_GetState mem_geth s a k))
        \<and> (\<forall>a. \<not> nonempty_account mem_geth s a \<longrightarrow> g_GetNonce mem_geth s' a = 0 \<and> (\<forall>k. g_GetState mem_geth s' a k = 0))"
    by (intro exI [of _ "mem_clean s"]) (auto simp: mem_clean_def Let_def mem_geth_def nonempty_account_def)
qed (simp add: mem_vm_def)

definition no_codec :: "'a codec" where
  "no_codec = \<lparr>enc = (\<lambda>_. Inr [1]), dec = (\<lambda>_. Inl (ErrOther ''no value''))\<rparr>"

definition example_env ::
    "Block codec \<Rightarrow> (mem_state, hash256 \<rightharpoonup> mem_state, (hash256 \<rightharpoonup> content) EthereumDefaultTrieDB) chain_env" where
  "example_env g = \<lparr>ce_geth = mem_geth, ce_vm = mem_vm, ce_loc = eth_store ref_ops, ce_root = GenerateRootByGivenBytes ref_ops,
     ce_hash = (\<lambda>b. word_of_nat (be_val b)),
     ce_tx = \<lparr>gob_package = no_codec, gob_fallback = no_codec, gob_key = no_codec, rlp_tx = (\<lambda>t. Inr (uint64_bytes (rt_Nonce t)))\<rparr>,
     ce_block = \<lparr>rlp_header = (\<lambda>h. Inr (uint64_bytes (bh_Number h))), gob_Block = g, gob_State = no_codec, gob_loc = no_codec\<rparr>,
     ce_bits = list_bits, ce_digests = example_digests\<rparr>"

definition mem_empty :: mem_state where
  "mem_empty = \<lparr>mem_exist = {}, mem_balance = (\<lambda>_. 0), mem_nonce = (\<lambda>_. 0), mem_store = (\<lambda>_ _. 0)\<rparr>"

definition example_chain :: "(hash256 \<rightharpoonup> mem_state, (hash256 \<rightharpoonup> content) EthereumDefaultTrieDB) Chain" where
  "example_chain = \<lparr>StateStorage = [5 \<mapsto> mem_empty], LocStorage = \<lparr>trieDB = [0 \<mapsto> []], curStateRoot = 0\<rparr>,
     BlockStorage = NewBoltStore, curHeader = empty_header 5, shardID = 0, epochID = 0, cfg_ChainID = 1,
     cfg_ShardNum = 2, cfg_Bloom = \<lparr>BitsetLen = 16, FilterHashFunc = [''sha256'']\<rparr>, confirmedRoots = Map.empty\<rparr>"

definition example_tx :: Transaction where
  "example_tx = NewTransaction 2 4 (Some 5) (Some 0) 0 0"

definition no_migration :: MigrationOpt where
  "no_migration = \<lparr>MigratedAddrs = [], MigratedStates = []\<rparr>"

lemma be_val_hash_bytes: "word_of_nat (be_val (hash_bytes h)) = h"
  unfolding hash_bytes_def be_val_be_bytes mod_less [OF unat_less_pow256(1)] by simp

lemma example_executor: "getVMExecutor (example_env g) example_chain = Inr mem_empty"
  by (simp add: getVMExecutor_def common_Hash_def example_chain_def empty_header_def example_env_def mem_vm_def be_val_hash_bytes)

lemma example_locations: "getAccountLocationsInTxs (example_env g) example_chain [example_tx] = Inr (\<lambda>a. 0)"
  by (auto simp: getAccountLocationsInTxs_def tx_accounts_def getAccountLocations_def example_env_def example_chain_def
      eth_store_def MGetValsByKeys_def ref_ops_def decode_location_def DefaultAccountLoc_def example_tx_def
      NewTransaction_def zero_tx_def)

lemma example_tx_header:
  "\<exists>tOpt. calcTxHeaderOpt (example_env g) example_chain [example_tx] = Inr tOpt"
  by (simp add: calcTxHeaderOpt_def example_env_def example_chain_def NewFilter_def maxBitsetLen_def tx_Hash_def tx_Encode_def
      gob_pointer_def example_tx_def NewTransaction_def zero_tx_def Filter_Add_def getFilterHashFs_def
      filterFuncRegistry_def set_bit_of_def bit_index_def list_bits_def GenerateRootByGivenBytes_def put_pair_def ref_ops_def uint64_of_int64_def)

lemma example_transfer: "\<exists>s. normalTxExecute mem_geth example_tx mem_empty = (s, Inr ())"
proof -
  have "BigToUInt256 mem_geth (tx_Value example_tx) = Inr 5"
    by (simp add: mem.BigToUInt256_Inr example_tx_def NewTransaction_def)
  moreover have "(5 :: 256 word) \<le> start_balance mem_geth mem_empty a" for a
    by (simp add: start_balance_def mem_geth_def mem_empty_def normalInitBalance_def NormalInitBalance_def)
  ultimately show ?thesis by (simp add: mem.normal_balances Let_def)
qed

lemma example_modification:
  "\<exists>s. \<forall>g h. calcStateModification (example_env g) example_chain \<lparr>b_Header = h, TxList = [example_tx], b_Migration = no_migration\<rparr>
     mem_empty = (s, Inr ([], []))"
proof -
  obtain s where s: "normalTxExecute mem_geth example_tx mem_empty = (s, Inr ())" using example_transfer by blast
  have "TxType example_tx = NormalTxType" "ce_geth (example_env g) = mem_geth" for g
    by (simp_all add: example_tx_def NewTransaction_def zero_tx_def TxType_def tx_type_defs example_env_def)
  then show ?thesis
    using s by (simp add: calcStateModification_def lift_res_def example_locations txExecute_def no_migration_def)
qed

lemma example_preview:
  "\<exists>r. \<forall>g h. previewStateRootByBlock (example_env g) example_chain \<lparr>b_Header = h, TxList = [example_tx], b_Migration = no_migration\<rparr>
     = Inr r"
proof -
  obtain s where s: "\<forall>g h. calcStateModification (example_env g) example_chain
      \<lparr>b_Header = h, TxList = [example_tx], b_Migration = no_migration\<rparr> mem_empty = (s, Inr ([], []))"
    using example_modification by blast
  obtain r where r: "ts_Preview (eth_store ref_ops) [] [] (LocStorage example_chain) = Inr r"
    by (simp add: eth_store_def MAddKeyValuesPreview_def example_chain_def ref_ops_def)
  have "ce_loc (example_env g) = eth_store ref_ops" "ce_vm (example_env g) = mem_vm" for g by (simp_all add: example_env_def)
  then show ?thesis using s r by (auto simp: previewStateRootByBlock_def example_executor)
qed

lemma example_generates:
  obtains b h where "\<And>g. GenerateBlock (example_env g) example_chain 7 1 TxBlockType [example_tx] no_migration = Inr b"
    "b = \<lparr>b_Header = h, TxList = [example_tx], b_Migration = no_migration\<rparr>"
proof -
  have same: "calcTxHeaderOpt (example_env g) example_chain [example_tx] = calcTxHeaderOpt (example_env no_codec) example_chain [example_tx]" for g
    by (simp add: calcTxHeaderOpt_def example_env_def)
  obtain tOpt where "calcTxHeaderOpt (example_env no_codec) example_chain [example_tx] = Inr tOpt" using example_tx_header by blast
  then have t: "calcTxHeaderOpt (example_env g) example_chain [example_tx] = Inr tOpt" for g using same [of g] by simp
  have c: "curateIntentTransactions (example_env g) example_chain h [example_tx] = Inr [example_tx]" for g h
    by (simp add: curateIntentTransactions_def containsIntent_def example_tx_def NewTransaction_def zero_tx_def
        TxType_def tx_type_defs)
  have m: "calcMigrationHeaderOpt (example_env g) no_migration = Inr []" for g by (simp add: calcMigrationHeaderOpt_def no_migration_def)
  define x where "x = hash_bytes (word_of_nat (be_val (uint64_bytes (bh_Number (curHeader example_chain)))))"
  have x: "header_Hash (ce_hash (example_env g)) (ce_block (example_env g)) (curHeader example_chain) = Inr x" for g
    by (simp add: header_Hash_def example_env_def x_def)
  define h0 where "h0 = \<lparr>ParentBlockHash = x, StateRoot = [], bh_Number = bh_Number (curHeader example_chain) + 1,
    bh_Type = TxBlockType, Miner = 1, bh_CreateTime = 7, LocationRoot = [], bh_Tx = tOpt, MigratedAccountsRoot = []\<rparr>"
  obtain sr lr where r: "\<forall>g h. previewStateRootByBlock (example_env g) example_chain
      \<lparr>b_Header = h, TxList = [example_tx], b_Migration = no_migration\<rparr> = Inr (sr, lr)"
    using example_preview by auto
  have "GenerateBlock (example_env g) example_chain 7 1 TxBlockType [example_tx] no_migration
      = Inr \<lparr>b_Header = h0\<lparr>StateRoot := sr, LocationRoot := lr\<rparr>, TxList = [example_tx], b_Migration = no_migration\<rparr>" for g
    using r unfolding h0_def by (simp add: GenerateBlock_def x c t m NewBlock_def Let_def)
  then show thesis using that by blast
qed

section \<open>Properties\<close>

text \<open>
  C5. A block a leader generates is accepted by every replica in the same state: it passes
  \<open>ValidateBlock\<close>, whatever intents were dropped while it was curated, and \<open>AddBlock\<close> succeeds on
  it whenever it can be encoded and the stores can be written, making it the block after the old
  header. The roots computed while the state is committed always agree with the previewed ones.
\<close>

theorem GenerateBlock_accepted:
  assumes "bitset_laws (ce_bits E)" "vm_laws (ce_geth E) (ce_vm E)" "trie_store_laws (ce_loc E)"
    and "GenerateBlock E c now miner ty body mOpt = Inr b" "well_shaped ty body mOpt"
  shows "validateBlock E c b = Inr ()
    \<and> (\<forall>bb hb. commits_succeed E c b \<longrightarrow> enc (gob_Block (ce_block E)) b = Inr bb \<longrightarrow> rlp_header (ce_block E) (b_Header b) = Inr hb \<longrightarrow>
        (\<exists>c'. AddBlock E b c = (c', Inr ()) \<and> curHeader c' = b_Header b \<and> bh_Number (curHeader c') = bh_Number (curHeader c) + 1
          \<and> header_Hash (ce_hash E) (ce_block E) (curHeader c) = Inr (ParentBlockHash (curHeader c'))))"
proof (intro conjI allI impI)
  show v: "validateBlock E c b = Inr ()" using generated_valid assms by blast
  fix bb hb
  assume "commits_succeed E c b" "enc (gob_Block (ce_block E)) b = Inr bb" "rlp_header (ce_block E) (b_Header b) = Inr hb"
  then obtain c' where a: "AddBlock E b c = (c', Inr ())" using AddBlock_succeeds [OF assms(2,3) v] by blast
  have "curHeader c' = b_Header b" by (rule AddBlock_Inr [OF a]) simp
  then show "\<exists>c'. AddBlock E b c = (c', Inr ()) \<and> curHeader c' = b_Header b \<and> bh_Number (curHeader c') = bh_Number (curHeader c) + 1
          \<and> header_Hash (ce_hash E) (ce_block E) (curHeader c) = Inr (ParentBlockHash (curHeader c'))"
    using a validateBlock_Inr [OF v] by simp
qed

lemma example_commits: "commits_succeed (example_env g) example_chain \<lparr>b_Header = h, TxList = [example_tx], b_Migration = no_migration\<rparr>"
proof -
  obtain s where s: "calcStateModification (example_env g) example_chain
      \<lparr>b_Header = h, TxList = [example_tx], b_Migration = no_migration\<rparr> mem_empty = (s, Inr ([], []))"
    using example_modification by metis
  have "\<exists>l r. ts_Commit (ce_loc (example_env g)) [] [] (LocStorage example_chain) = (l, Inr r)"
    by (simp add: example_env_def eth_store_def MAddKeyValuesAndCommit_def lift_res_def example_chain_def ref_ops_def)
  moreover have v: "state_Commit (ce_vm (example_env g)) n s st = (st(5 \<mapsto> mem_clean s), Inr 5)"
    "TrieDB_Commit (ce_vm (example_env g)) r st = (st, Inr ())" for n s st r
    by (simp_all add: example_env_def mem_vm_def)
  ultimately show ?thesis
    using s by (auto simp: commits_succeed_def example_executor)
qed

lemma GenerateBlock_accepted_witness:
  "\<exists>b c'. GenerateBlock (example_env no_codec) example_chain 7 1 TxBlockType [example_tx] no_migration = Inr b
     \<and> TxList b = [example_tx] \<and> validateBlock (example_env no_codec) example_chain b = Inr ()
     \<and> AddBlock (example_env no_codec) b example_chain = (c', Inr ()) \<and> bh_Number (curHeader c') = 1"
proof (rule example_generates)
  fix b h
  assume g: "\<And>g. GenerateBlock (example_env g) example_chain 7 1 TxBlockType [example_tx] no_migration = Inr b"
    and b: "b = \<lparr>b_Header = h, TxList = [example_tx], b_Migration = no_migration\<rparr>"
  have w: "well_shaped TxBlockType [example_tx] no_migration" by (simp add: well_shaped_def no_migration_def)
  have l: "bitset_laws (ce_bits (example_env no_codec))" "vm_laws (ce_geth (example_env no_codec)) (ce_vm (example_env no_codec))"
    "trie_store_laws (ce_loc (example_env no_codec))"
    by (simp_all add: example_env_def lb.bitset_laws_axioms mv.vm_laws_axioms rt.eth.trie_store_laws_axioms)
  have "enc (gob_Block (ce_block (example_env no_codec))) b = Inr [1]"
    "\<exists>x. rlp_header (ce_block (example_env no_codec)) (b_Header b) = Inr x" "bh_Number (curHeader example_chain) = 0"
    by (simp_all add: example_env_def no_codec_def example_chain_def empty_header_def)
  then show ?thesis
    using GenerateBlock_accepted [OF l g w] example_commits [of no_codec h] g b by auto
qed

text \<open>
  C36. A refused block leaves the chain where it was: when \<open>AddBlock\<close> returns an error the current
  header, the stored blocks and the confirmed match roots are unchanged, and when the block fails
  its validation (wrong parent, number, shape or root) nothing at all is changed.
\<close>

theorem AddBlock_refused:
  assumes "AddBlock E b c = (c', Inl e)"
  shows "curHeader c' = curHeader c \<and> BlockStorage c' = BlockStorage c \<and> confirmedRoots c' = confirmedRoots c
    \<and> (validateBlock E c b \<noteq> Inr () \<longrightarrow> c' = c \<and> validateBlock E c b = Inl e)"
  using AddBlock_Inl [OF assms] assms by (cases "validateBlock E c b") (auto simp: AddBlock_def lift_res_def)

lemma AddBlock_refused_witness:
  "\<exists>e. AddBlock (example_env no_codec) \<lparr>b_Header = empty_header 5, TxList = [], b_Migration = no_migration\<rparr> example_chain
      = (example_chain, Inl e) \<and> BlockStorage example_chain = NewBoltStore"
proof -
  let ?b = "\<lparr>b_Header = empty_header 5, TxList = [], b_Migration = no_migration\<rparr>"
  obtain x where x: "header_Hash (ce_hash (example_env no_codec)) (ce_block (example_env no_codec)) (curHeader example_chain) = Inr x"
    by (simp add: header_Hash_def example_env_def)
  have "validateBlock (example_env no_codec) example_chain ?b = Inl ErrParentBlockHashMismatch"
    using x header_Hash_nonempty [OF x] by (simp add: validateBlock_def empty_header_def)
  then have a: "AddBlock (example_env no_codec) ?b example_chain = (example_chain, Inl ErrParentBlockHashMismatch)"
    by (simp add: AddBlock_def lift_res_def)
  show ?thesis using AddBlock_refused [OF a] a by (auto simp: example_chain_def)
qed

text \<open>
  C37. What was added can be read back: after any history of added and refused blocks, with a hash
  that does not collide on the headers of the chain and an encoding of blocks that decodes what it
  encoded, \<open>GetBlocksAfterHeight\<close> returns exactly the added blocks from the given height on, in
  order, provided they are at most a hundred.
\<close>

theorem GetBlocks_roundtrip:
  assumes "chain_run E c bs" "bs \<noteq> []" "length bs < 2 ^ 63"
    and "inj_on (header_Hash (ce_hash E) (ce_block E)) (b_Header ` set bs)"
    and "\<forall>b \<in> set bs. \<forall>x. enc (gob_Block (ce_block E)) b = Inr x \<longrightarrow> dec (gob_Block (ce_block E)) x = Inr b"
    and "1 \<le> begin" "begin < 2 ^ 63" "int (length bs) - begin + 1 \<le> 100"
  shows "GetBlocksAfterHeight E c begin = Inr (drop (nat begin - 1) bs)"
  by (rule GetBlocks_linked [OF chain_run_linked [OF assms(1,4,3)] assms(5,2,3,6-8)])

lemma GetBlocks_roundtrip_witness:
  "\<exists>g c b. chain_run (example_env g) c [b] \<and> TxList b = [example_tx] \<and> GetBlocksAfterHeight (example_env g) c 1 = Inr [b]"
proof (rule example_generates)
  fix b h
  assume g: "\<And>g. GenerateBlock (example_env g) example_chain 7 1 TxBlockType [example_tx] no_migration = Inr b"
    and b: "b = \<lparr>b_Header = h, TxList = [example_tx], b_Migration = no_migration\<rparr>"
  define k where "k = \<lparr>enc = (\<lambda>_. Inr [1]), dec = (\<lambda>_. Inr b)\<rparr>"
  let ?E = "example_env k"
  have w: "well_shaped TxBlockType [example_tx] no_migration" by (simp add: well_shaped_def no_migration_def)
  have l: "bitset_laws (ce_bits ?E)" "vm_laws (ce_geth ?E) (ce_vm ?E)" "trie_store_laws (ce_loc ?E)"
    by (simp_all add: example_env_def lb.bitset_laws_axioms mv.vm_laws_axioms rt.eth.trie_store_laws_axioms)
  have v: "validateBlock ?E example_chain b = Inr ()" using generated_valid [OF l(1) g w] .
  have en: "enc (gob_Block (ce_block ?E)) b = Inr [1]" by (simp add: example_env_def k_def)
  obtain hb where hb: "rlp_header (ce_block ?E) (b_Header b) = Inr hb" by (simp add: example_env_def)
  obtain c' where a: "AddBlock ?E b example_chain = (c', Inr ())"
    using AddBlock_succeeds [OF l(2,3) v _ en hb] example_commits [of k h] b by auto
  have "chain_run ?E example_chain []" by (rule fresh) (simp_all add: example_chain_def empty_header_def)
  then have r: "chain_run ?E c' [b]" using added [OF _ a, of "[]"] by simp
  have "GetBlocksAfterHeight ?E c' 1 = Inr (drop (nat 1 - 1) [b])"
    by (rule GetBlocks_roundtrip [OF r]) (simp_all add: example_env_def k_def)
  then show ?thesis using r b by (intro exI [of _ k] exI [of _ c'] exI [of _ b]) simp
qed

end
