(* ===== verification/Transfers.thy ===== *)
theory Transfers
  imports Chain_Correct
begin

text \<open>
  The effect of ordinary, relayed and brokered transfers on balances, and the range of account
  locations.
\<close>

context geth_laws
begin

text \<open>\<open>AddBalance\<close> after \<open>SubBalance\<close> conserves the sum over any set holding both accounts.\<close>

lemma move_sum:
  assumes "finite A" "a \<in> A" "b \<in> A"
  shows "(\<Sum>x \<in> A. g_GetBalance G (g_AddBalance G b v (g_SubBalance G a v s)) x) = (\<Sum>x \<in> A. g_GetBalance G s x)"
proof -
  have "(\<Sum>x \<in> A. g_GetBalance G (g_AddBalance G b v (g_SubBalance G a v s)) x)
      = (\<Sum>x \<in> A. g_GetBalance G s x + ((if x = b then v else 0) - (if x = a then v else 0)))"
    by (intro sum.cong) auto
  also have "\<dots> = (\<Sum>x \<in> A. g_GetBalance G s x) + ((\<Sum>x \<in> A. if x = b then v else 0) - (\<Sum>x \<in> A. if x = a then v else 0))"
    by (simp add: sum.distrib sum_subtractf)
  finally show ?thesis using assms by simp
qed

lemma init_pair_balance:
  "g_GetBalance G (setInitBalanceIfNotExist G [a, b] s) x = (if x = a \<or> x = b then start_balance G s x else g_GetBalance G s x)"
  by (auto simp: setInitBalanceIfNotExist_def start_balance_def)

lemma init_one_balance:
  "g_GetBalance G (setInitBalanceIfNotExist G [a] s) x = (if x = a then start_balance G s x else g_GetBalance G s x)"
  by (auto simp: setInitBalanceIfNotExist_def start_balance_def)

lemma init_frame:
  "g_GetNonce G (setInitBalanceIfNotExist G as s) x = g_GetNonce G s x"
  "g_GetState G (setInitBalanceIfNotExist G as s) x k = g_GetState G s x k"
  unfolding setInitBalanceIfNotExist_def by (induction as arbitrary: s) auto

lemma uint_le_word: "0 \<le> x \<Longrightarrow> x < 2 ^ 256 \<Longrightarrow> (word_of_int x :: 256 word) \<le> w \<longleftrightarrow> x \<le> uint w"
  by (simp add: word_le_def unsigned_of_int take_bit_eq_mod)

lemma value_word: "tx_Value tx = Some x \<Longrightarrow> 0 \<le> x \<Longrightarrow> x < 2 ^ 256 \<Longrightarrow> BigToUInt256 G (tx_Value tx) = Inr (word_of_int x)"
  by (simp add: BigToUInt256_Inr)

lemma uint_minus_le:
  assumes "0 \<le> x" "x < 2 ^ 256" "x \<le> uint w"
  shows "uint ((w :: 256 word) - word_of_int x) = uint w - x"
proof -
  have u: "uint (word_of_int x :: 256 word) = x" using assms by (simp add: unsigned_of_int take_bit_eq_mod)
  then show ?thesis using uint_sub_lem [of "word_of_int x" w] assms(3) by simp
qed

end

section \<open>Properties\<close>

text \<open>
  An ordinary transfer succeeds exactly when the sender's balance (the initial balance for an
  account seen for the first time) covers the value, and then moves exactly the value: the sum of
  the balances over any set holding both accounts is conserved, the sender loses the value without
  an underflow, and no other balance, no nonce and no storage changes. A refused transfer leaves
  every balance at its start value.
\<close>

lemma normal_transfer:
  assumes "geth_laws G" "tx_Value tx = Some x" "0 \<le> x" "x < 2 ^ 256" "normalTxExecute G tx s = (s', r)"
    "finite A" "tx_Sender tx \<in> A" "tx_Recipient tx \<in> A"
  shows "(r = Inr () \<longleftrightarrow> x \<le> uint (start_balance G s (tx_Sender tx)))
    \<and> (\<Sum>a \<in> A. g_GetBalance G s' a)
        = (\<Sum>a \<in> A. if a = tx_Sender tx \<or> a = tx_Recipient tx then start_balance G s a else g_GetBalance G s a)
    \<and> (r = Inr () \<and> tx_Sender tx \<noteq> tx_Recipient tx \<longrightarrow>
        uint (g_GetBalance G s' (tx_Sender tx)) = uint (start_balance G s (tx_Sender tx)) - x
        \<and> g_GetBalance G s' (tx_Recipient tx) = start_balance G s (tx_Recipient tx) + word_of_int x)
    \<and> (r \<noteq> Inr () \<longrightarrow> g_GetBalance G s' (tx_Sender tx) = start_balance G s (tx_Sender tx)
        \<and> g_GetBalance G s' (tx_Recipient tx) = start_balance G s (tx_Recipient tx))
    \<and> (\<forall>a. a \<noteq> tx_Sender tx \<longrightarrow> a \<noteq> tx_Recipient tx \<longrightarrow> g_GetBalance G s' a = g_GetBalance G s a)
    \<and> (\<forall>a k. g_GetNonce G s' a = g_GetNonce G s a \<and> g_GetState G s' a k = g_GetState G s a k)"
proof -
  let ?S = "tx_Sender tx" and ?R = "tx_Recipient tx" and ?v = "word_of_int x :: 256 word"
  let ?s1 = "setInitBalanceIfNotExist G [tx_Sender tx, tx_Recipient tx] s"
  note eq = geth_laws.normal_balances [OF assms(1) geth_laws.value_word [OF assms(1-4)], of s]
  note simps = geth_laws.init_pair_balance [OF assms(1)] geth_laws.init_frame [OF assms(1)]
    geth_laws.AddBalance [OF assms(1)] geth_laws.SubBalance [OF assms(1)]
  have sum1: "(\<Sum>a \<in> A. g_GetBalance G ?s1 a) = (\<Sum>a \<in> A. if a = ?S \<or> a = ?R then start_balance G s a else g_GetBalance G s a)"
    by (simp only: simps)
  show ?thesis
  proof (cases "x \<le> uint (start_balance G s ?S)")
    case True
    then have e: "s' = g_AddBalance G ?R ?v (g_SubBalance G ?S ?v ?s1)" "r = Inr ()"
      using eq assms(5) geth_laws.uint_le_word [OF assms(1,3,4)] by (auto simp: Let_def)
    have sub: "uint (start_balance G s ?S - ?v) = uint (start_balance G s ?S) - x"
      by (rule geth_laws.uint_minus_le [OF assms(1,3,4) True])
    have "(\<Sum>a \<in> A. g_GetBalance G s' a) = (\<Sum>a \<in> A. g_GetBalance G ?s1 a)"
      unfolding e(1) by (rule geth_laws.move_sum [OF assms(1,6,7,8)])
    then show ?thesis using True e(2) sub sum1 by (auto simp: e(1) simps)
  next
    case False
    then have "s' = ?s1" "r \<noteq> Inr ()" using eq assms(5) geth_laws.uint_le_word [OF assms(1,3,4)] by (auto simp: Let_def)
    then show ?thesis using False sum1 by (simp add: simps)
  qed
qed

lemma normal_transfer_witness:
  "\<exists>s' r. normalTxExecute mem_geth example_tx mem_empty = (s', r) \<and> r = Inr ()
     \<and> uint (g_GetBalance mem_geth s' 2) = 10 ^ 36 - 5"
proof -
  obtain s' r where e: "normalTxExecute mem_geth example_tx mem_empty = (s', r)" by fastforce
  have st: "uint (start_balance mem_geth mem_empty a) = 10 ^ 36" for a
    by (simp add: start_balance_def mem_geth_def mem_empty_def normalInitBalance_def NormalInitBalance_def)
  have f: "tx_Value example_tx = Some 5" "tx_Sender example_tx = 2" "tx_Recipient example_tx = 4"
    by (simp_all add: example_tx_def NewTransaction_def)
  show ?thesis
    using normal_transfer [OF mem.geth_laws_axioms f(1) _ _ e, of "{2, 4}"] st e by (simp add: f)
qed

text \<open>
  The two halves of a relayed transfer move exactly its value between the shards: the first
  half, executed where the sender lives, succeeds exactly when the sender's balance covers the
  value and debits it, the second half always credits the recipient, and executed in a shard where
  the account does not live neither half changes anything.
\<close>

lemma relay_transfer:
  assumes "geth_laws G" "tx_Value tx = Some x" "0 \<le> x" "x < 2 ^ 256"
    and "relayTxExecute G loc shard tx s = (s', r)"
  shows "(RelayStage (tx_Relay tx) = Relay1Tx \<and> loc (tx_Sender tx) = shard \<longrightarrow>
        (r = Inr () \<longleftrightarrow> x \<le> uint (start_balance G s (tx_Sender tx)))
        \<and> (r = Inr () \<longrightarrow> uint (g_GetBalance G s' (tx_Sender tx)) = uint (start_balance G s (tx_Sender tx)) - x)
        \<and> (r \<noteq> Inr () \<longrightarrow> g_GetBalance G s' (tx_Sender tx) = start_balance G s (tx_Sender tx))
        \<and> (\<forall>a. a \<noteq> tx_Sender tx \<longrightarrow> g_GetBalance G s' a = g_GetBalance G s a))
    \<and> (RelayStage (tx_Relay tx) = Relay2Tx \<and> loc (tx_Recipient tx) = shard \<longrightarrow>
        r = Inr () \<and> g_GetBalance G s' (tx_Recipient tx) = start_balance G s (tx_Recipient tx) + word_of_int x
        \<and> (\<forall>a. a \<noteq> tx_Recipient tx \<longrightarrow> g_GetBalance G s' a = g_GetBalance G s a))
    \<and> (RelayStage (tx_Relay tx) = Relay1Tx \<and> loc (tx_Sender tx) \<noteq> shard
       \<or> RelayStage (tx_Relay tx) = Relay2Tx \<and> loc (tx_Recipient tx) \<noteq> shard \<longrightarrow> s' = s \<and> r = Inr ())"
proof -
  let ?v = "word_of_int x :: 256 word" and ?S = "tx_Sender tx" and ?R = "tx_Recipient tx"
  note w = geth_laws.value_word [OF assms(1-4)]
  note simps = geth_laws.init_one_balance [OF assms(1)] geth_laws.AddBalance [OF assms(1)] geth_laws.SubBalance [OF assms(1)]
    geth_laws.CanTransfer [OF assms(1)] geth_laws.uint_le_word [OF assms(1,3,4)]
  have one: "RelayStage (tx_Relay tx) = Relay1Tx \<Longrightarrow> loc ?S = shard \<Longrightarrow> (s', r) =
      (if x \<le> uint (start_balance G s ?S) then (g_SubBalance G ?S ?v (setInitBalanceIfNotExist G [?S] s), Inr ())
       else (setInitBalanceIfNotExist G [?S] s, Inl (ErrOther ''the balance is not enough'')))"
    using assms(5) w by (auto simp: relayTxExecute_def lift_res_def simps Let_def split: if_splits)
  have two: "RelayStage (tx_Relay tx) = Relay2Tx \<Longrightarrow> loc ?R = shard \<Longrightarrow>
      (s', r) = (g_AddBalance G ?R ?v (setInitBalanceIfNotExist G [?R] s), Inr ())"
    using assms(5) w by (simp add: relayTxExecute_def lift_res_def Relay1Tx_def Relay2Tx_def)
  have skip: "RelayStage (tx_Relay tx) = Relay1Tx \<and> loc ?S \<noteq> shard \<or> RelayStage (tx_Relay tx) = Relay2Tx \<and> loc ?R \<noteq> shard
      \<Longrightarrow> (s', r) = (s, Inr ())"
    using assms(5) w by (auto simp: relayTxExecute_def lift_res_def Relay1Tx_def Relay2Tx_def)
  have sub: "x \<le> uint (start_balance G s ?S) \<Longrightarrow> uint (start_balance G s ?S - ?v) = uint (start_balance G s ?S) - x"
    by (rule geth_laws.uint_minus_le [OF assms(1,3,4)])
  show ?thesis
    using one two skip sub by (auto simp: simps split: if_splits)
qed

definition example_relay :: "uint64 \<Rightarrow> Transaction" where
  "example_relay stage = example_tx\<lparr>tx_Relay := \<lparr>RelayStage = stage, ROriginalHash = [1]\<rparr>\<rparr>"

lemma relay_transfer_witness:
  "\<exists>s1 s2. relayTxExecute mem_geth (\<lambda>a. if a = 2 then 0 else 1) 0 (example_relay 1) mem_empty = (s1, Inr ())
     \<and> relayTxExecute mem_geth (\<lambda>a. if a = 2 then 0 else 1) 1 (example_relay 2) mem_empty = (s2, Inr ())
     \<and> uint (g_GetBalance mem_geth s1 2) + uint (g_GetBalance mem_geth s2 4) = 10 ^ 36 + 10 ^ 36"
proof -
  let ?loc = "\<lambda>a :: address. if a = 2 then 0 else 1 :: int"
  obtain s1 r1 where e1: "relayTxExecute mem_geth ?loc 0 (example_relay 1) mem_empty = (s1, r1)" by fastforce
  obtain s2 r2 where e2: "relayTxExecute mem_geth ?loc 1 (example_relay 2) mem_empty = (s2, r2)" by fastforce
  have st: "start_balance mem_geth mem_empty a = 10 ^ 36" for a
    by (simp add: start_balance_def mem_geth_def mem_empty_def normalInitBalance_def NormalInitBalance_def)
  have f: "tx_Value (example_relay n) = Some 5" "tx_Sender (example_relay n) = 2" "tx_Recipient (example_relay n) = 4"
    "RelayStage (tx_Relay (example_relay n)) = n" for n
    by (simp_all add: example_relay_def example_tx_def NewTransaction_def)
  have "r1 = Inr ()" "uint (g_GetBalance mem_geth s1 2) = 10 ^ 36 - 5"
    using relay_transfer [OF mem.geth_laws_axioms f(1) _ _ e1] by (simp_all add: f st Relay1Tx_def)
  moreover have "r2 = Inr ()" "g_GetBalance mem_geth s2 4 = 10 ^ 36 + 5"
    using relay_transfer [OF mem.geth_laws_axioms f(1) _ _ e2] by (simp_all add: f st Relay2Tx_def)
  ultimately show ?thesis using e1 e2 by simp
qed

text \<open>
  The second half of a brokered transfer debits the broker without asking whether its balance
  covers the value: a broker with a balance of one ends with almost the largest balance there is.
\<close>

definition example_broker :: Transaction where
  "example_broker = example_tx\<lparr>tx_Broker := \<lparr>BrokerStage = 2, Broker = 9, BOriginalHash = [1], OriginalTxCreateTime = 0,
     NonceBroker = 0, HeightLock = 0, HeightCurrent = 0\<rparr>\<rparr>"

lemma broker_debit_underflows:
  "\<exists>s s'. g_GetBalance mem_geth s 9 = 1 \<and> tx_Value example_broker = Some 5
     \<and> brokerTxExecute mem_geth (\<lambda>_. 0) 0 example_broker s = (s', Inr ()) \<and> g_GetBalance mem_geth s' 9 = - 4"
proof -
  let ?s = "g_SetBalance mem_geth 9 1 mem_empty"
  have "BigToUInt256 mem_geth (Some 5) = Inr 5" by (simp add: mem.BigToUInt256_Inr)
  then have "brokerTxExecute mem_geth (\<lambda>_. 0) 0 example_broker ?s
      = (g_AddBalance mem_geth 4 5 (g_SubBalance mem_geth 9 5 (g_SetBalance mem_geth 4 normalInitBalance ?s)), Inr ())"
    by (simp add: brokerTxExecute_def example_broker_def example_tx_def NewTransaction_def lift_res_def Sigma1BrokerStage_def
        Sigma2BrokerStage_def setInitBalanceIfNotExist_def setBrokerInitBalanceIfNotExist_def init_balance_def)
      (simp add: mem_geth_def mem_empty_def mem_touch_def)
  moreover have "tx_Value example_broker = Some 5" by (simp add: example_broker_def example_tx_def NewTransaction_def)
  ultimately have "g_GetBalance mem_geth ?s 9 = 1 \<and> tx_Value example_broker = Some 5
     \<and> (\<exists>s'. brokerTxExecute mem_geth (\<lambda>_. 0) 0 example_broker ?s = (s', Inr ()) \<and> g_GetBalance mem_geth s' 9 = - 4)" by simp
  then show ?thesis by blast
qed

text \<open>
  Accounts are located in existing shards: with at least one shard, the location computed for
  every account is a number from zero below the number of shards, for accounts without an entry in
  the location store and, as long as the store holds only numbers of existing shards, for the
  others; there is one location per account, in order.
\<close>

lemma locations_in_range:
  assumes n: "0 < cfg_ShardNum c" "cfg_ShardNum c < 2 ^ 63"
    and g: "ts_MGet (ce_loc E) (LocStorage c) (map addr_bytes as) = Inr vs" "length vs = length as"
    and d: "\<forall>b \<in> set vs. \<forall>v. b = Some v \<longrightarrow> (\<exists>l. dec (gob_loc (ce_block E)) v = Inr l \<and> uint l < cfg_ShardNum c)"
  shows "\<exists>ls. getAccountLocations E c as = Inr ls \<and> length ls = length as \<and> (\<forall>l \<in> set ls. 0 \<le> l \<and> l < cfg_ShardNum c)
    \<and> (\<forall>i < length as. vs ! i = None \<longrightarrow> ls ! i = uint (ucast (as ! i) :: uint32) mod cfg_ShardNum c)"
proof -
  have default: "DefaultAccountLoc a (cfg_ShardNum c) = Inr (uint (ucast a :: uint32) mod cfg_ShardNum c)" for a
    using n by (cases "(ucast a :: uint32) = 0") (simp_all add: DefaultAccountLoc_def signed_modulo_int_def)
  have one: "\<exists>l. decode_location E (cfg_ShardNum c) (a, v) = Inr l \<and> 0 \<le> l \<and> l < cfg_ShardNum c
      \<and> (v = None \<longrightarrow> l = uint (ucast a :: uint32) mod cfg_ShardNum c)" if vs: "v \<in> set vs" for a v
  proof (cases v)
    case None
    then show ?thesis using default n by (simp add: decode_location_def)
  next
    case (Some b)
    then obtain l where l: "dec (gob_loc (ce_block E)) b = Inr l" "uint l < cfg_ShardNum c" using d [rule_format, OF vs Some] by auto
    then have "int64_of_uint64 l = uint l" using n by (intro int64_of_uint64_id) simp
    then show ?thesis using l Some by (simp add: decode_location_def)
  qed
  define f where "f = (\<lambda>av. projr (decode_location E (cfg_ShardNum c) av))"
  have f: "decode_location E (cfg_ShardNum c) (a, v) = Inr (f (a, v))" "0 \<le> f (a, v)" "f (a, v) < cfg_ShardNum c"
    "v = None \<Longrightarrow> f (a, v) = uint (ucast a :: uint32) mod cfg_ShardNum c" if "v \<in> set vs" for a v
    using one [OF that, of a] by (auto simp: f_def)
  have "map_res (decode_location E (cfg_ShardNum c)) (zip as vs) = Inr (map f (zip as vs))"
    by (rule map_res_total) (use f(1) in \<open>auto dest: set_zip_rightD\<close>)
  then have "getAccountLocations E c as = Inr (map f (zip as vs))" using g(1) by (simp add: getAccountLocations_def)
  moreover have "f (as ! i, None) = uint (ucast (as ! i) :: uint32) mod cfg_ShardNum c" if "i < length as" "vs ! i = None" for i
    by (rule f(4)) (use that g(2) in \<open>metis nth_mem\<close>, rule refl)
  ultimately show ?thesis using f(2,3) g(2) by (auto dest: set_zip_rightD)
qed

lemma locations_in_range_witness:
  "\<exists>l. getAccountLocations (example_env no_codec) example_chain [5] = Inr [l] \<and> l = 1"
proof -
  have g: "ts_MGet (ce_loc (example_env no_codec)) (LocStorage example_chain) (map addr_bytes [5]) = Inr [None]"
    by (simp add: example_env_def eth_store_def MGetValsByKeys_def ref_ops_def example_chain_def)
  have "cfg_ShardNum example_chain = 2" by (simp add: example_chain_def)
  then obtain ls where "getAccountLocations (example_env no_codec) example_chain [5] = Inr ls" "length ls = 1"
      "ls ! 0 = uint (ucast (5 :: address) :: uint32) mod 2"
    using locations_in_range [OF _ _ g] by auto
  then show ?thesis by (cases ls) auto
qed

end
