(* ===== verification/Storage.thy ===== *)
theory Storage
  imports Settlement "HOL-Library.Sublist"
begin

text \<open>
  The storage of the registry account as named cells. Every slot is the hash of a domain string
  followed by fixed-width arguments; \<open>name\<close> lists them, \<open>preimage\<close> is the hashed string and is
  injective because no domain is a prefix of another. The locale \<open>storage\<close> assumes that the hash
  does not collide on the preimages of a set of names, and gives the read-after-write law of the
  cells in that set, on which the proofs about registry, outbox and settlement rest.
\<close>

section \<open>Names\<close>

datatype name =
    AmountSlot hash256 | MatchedSlot hash256 | FallbackSlot hash256 | BatchSlot hash256 | StatusSlot hash256
  | NonceSlot address | ExecutedSlot hash256 uint64 uint32
  | FbStatusSlot hash256 | FbLengthSlot hash256 | FbDataSlot hash256 uint64 | FbIndexSlot uint64 | FbCountSlot
  | FbExecutedSlot hash256 | RecordName hash256 hash256

fun name_domain :: "name \<Rightarrow> string" where
  "name_domain (AmountSlot _) = amountSlotDomain"
| "name_domain (MatchedSlot _) = matchedSlotDomain"
| "name_domain (FallbackSlot _) = fallbackSlotDomain"
| "name_domain (BatchSlot _) = batchSlotDomain"
| "name_domain (StatusSlot _) = statusSlotDomain"
| "name_domain (NonceSlot _) = nonceSlotDomain"
| "name_domain (ExecutedSlot _ _ _) = executedSlotDomain"
| "name_domain (FbStatusSlot _) = statusDomain"
| "name_domain (FbLengthSlot _) = lengthDomain"
| "name_domain (FbDataSlot _ _) = dataDomain"
| "name_domain (FbIndexSlot _) = indexDomain"
| "name_domain FbCountSlot = countDomain"
| "name_domain (FbExecutedSlot _) = executedDomain"
| "name_domain (RecordName _ _) = recordKeyDomain"

fun name_args :: "name \<Rightarrow> bytes" where
  "name_args (AmountSlot i) = hash_bytes i"
| "name_args (MatchedSlot i) = hash_bytes i"
| "name_args (FallbackSlot i) = hash_bytes i"
| "name_args (BatchSlot i) = hash_bytes i"
| "name_args (StatusSlot i) = hash_bytes i"
| "name_args (NonceSlot a) = addr_bytes a"
| "name_args (ExecutedSlot b s c) = hash_bytes b @ uint64_bytes s @ uint32_bytes c"
| "name_args (FbStatusSlot k) = hash_bytes k"
| "name_args (FbLengthSlot k) = hash_bytes k"
| "name_args (FbDataSlot k i) = hash_bytes k @ uint64_bytes i"
| "name_args (FbIndexSlot i) = uint64_bytes i"
| "name_args FbCountSlot = []"
| "name_args (FbExecutedSlot k) = hash_bytes k"
| "name_args (RecordName i b) = hash_bytes i @ hash_bytes b"

definition preimage :: "name \<Rightarrow> bytes" where
  "preimage n = str_bytes (name_domain n) @ name_args n"

lemmas domain_defs =
  amountSlotDomain_def matchedSlotDomain_def fallbackSlotDomain_def batchSlotDomain_def statusSlotDomain_def
  nonceSlotDomain_def executedSlotDomain_def statusDomain_def lengthDomain_def dataDomain_def indexDomain_def
  countDomain_def executedDomain_def recordKeyDomain_def

lemma of_char_byte_inj [simp]: "(of_char c :: byte) = of_char d \<longleftrightarrow> c = d"
proof
  assume "(of_char c :: byte) = of_char d"
  then have "(word_of_nat (of_char c) :: byte) = word_of_nat (of_char d)" by (simp only: of_nat_of_char)
  then have "unat (word_of_nat (of_char c) :: byte) = unat (word_of_nat (of_char d) :: byte)" by simp
  moreover have "(of_char c :: nat) < 256" "(of_char d :: nat) < 256" by simp_all
  ultimately have "(of_char c :: nat) = of_char d" by (simp only: unat_of_nat) simp
  then show "c = d" by simp
qed simp

lemma str_bytes_append_eq:
  "str_bytes d @ r = str_bytes d' @ r' \<Longrightarrow> prefix d d' \<or> prefix d' d"
proof (induction d arbitrary: d')
  case (Cons c d)
  then show ?case by (cases d') (auto simp: str_bytes_def)
qed simp

lemma name_domain_prefix: "prefix (name_domain a) (name_domain b) \<Longrightarrow> name_domain a = name_domain b"
  by (cases a; cases b) (simp_all add: domain_defs)

lemma name_domain_args: "name_domain a = name_domain b \<Longrightarrow> name_args a = name_args b \<Longrightarrow> a = b"
  by (cases a; cases b) (simp_all add: domain_defs append_eq_same_length)

lemma preimage_inj [simp]: "preimage a = preimage b \<longleftrightarrow> a = b"
proof
  assume eq: "preimage a = preimage b"
  then have "name_domain a = name_domain b"
    unfolding preimage_def using str_bytes_append_eq name_domain_prefix by metis
  with eq show "a = b" by (simp add: preimage_def name_domain_args)
qed simp

section \<open>Cells\<close>

definition cell :: "'s geth \<Rightarrow> hasher \<Rightarrow> 's \<Rightarrow> name \<Rightarrow> hash256" where
  "cell G H s n = g_GetState G s (IntentRegistryAddress H) (H (preimage n))"

definition put :: "'s geth \<Rightarrow> hasher \<Rightarrow> name \<Rightarrow> hash256 \<Rightarrow> 's \<Rightarrow> 's" where
  "put G H n v s = g_SetState G (IntentRegistryAddress H) (H (preimage n)) v s"

text \<open>The operations of the code, in terms of cells.\<close>

lemma intent_cells:
  "intentValue G H s statusSlotDomain i = cell G H s (StatusSlot i)"
  "intentValue G H s amountSlotDomain i = cell G H s (AmountSlot i)"
  "intentValue G H s matchedSlotDomain i = cell G H s (MatchedSlot i)"
  "intentValue G H s fallbackSlotDomain i = cell G H s (FallbackSlot i)"
  "intentValue G H s batchSlotDomain i = cell G H s (BatchSlot i)"
  "setIntentValue G H statusSlotDomain i v s = put G H (StatusSlot i) v s"
  "setIntentValue G H amountSlotDomain i v s = put G H (AmountSlot i) v s"
  "setIntentValue G H matchedSlotDomain i v s = put G H (MatchedSlot i) v s"
  "setIntentValue G H fallbackSlotDomain i v s = put G H (FallbackSlot i) v s"
  "setIntentValue G H batchSlotDomain i v s = put G H (BatchSlot i) v s"
  "setNonce G H a n s = put G H (NonceSlot a) (g_BigToHash G (uint n)) s"
  "NextNonce G H s a = word_of_int (g_HashBig G (cell G H s (NonceSlot a)))"
  by (simp_all add: cell_def put_def intentValue_def setIntentValue_def intentSlot_def setNonce_def nonceSlot_def
      NextNonce_def preimage_def)

lemma fallback_cells:
  "outbox_count G H s = word_of_int (g_HashBig G (cell G H s FbCountSlot))"
  "get_uint64 G H s (recordSlot H statusDomain k) = word_of_int (g_HashBig G (cell G H s (FbStatusSlot k)))"
  "get_uint64 G H s (recordSlot H lengthDomain k) = word_of_int (g_HashBig G (cell G H s (FbLengthSlot k)))"
  "setStatus G H k st s = put G H (FbStatusSlot k) (g_BigToHash G (Status_number st)) s"
  "g_SetState G (storageAddress H) (indexSlot H c) v s = put G H (FbIndexSlot c) v s"
  "g_SetState G (storageAddress H) (countSlot H) v s = put G H FbCountSlot v s"
  "g_SetState G (storageAddress H) (recordSlot H lengthDomain k) v s = put G H (FbLengthSlot k) v s"
  "g_SetState G (storageAddress H) (dataSlot H k j) v s = put G H (FbDataSlot k j) v s"
  "g_SetState G (storageAddress H) (credit_executedSlot H k) v s = put G H (FbExecutedSlot k) v s"
  "g_GetState G s (storageAddress H) (credit_executedSlot H k) = cell G H s (FbExecutedSlot k)"
  "g_GetState G s (storageAddress H) (indexSlot H c) = cell G H s (FbIndexSlot c)"
  "g_GetState G s (storageAddress H) (dataSlot H k j) = cell G H s (FbDataSlot k j)"
  by (simp_all add: cell_def put_def outbox_count_def get_uint64_def countSlot_def recordSlot_def setStatus_def
      indexSlot_def dataSlot_def credit_executedSlot_def storageAddress_def preimage_def)

lemma settlement_cells:
  "IsExecuted G H s b sh c \<longleftrightarrow> cell G H s (ExecutedSlot b (uint64_of_int64 sh) c) \<noteq> 0"
  "g_SetState G (IntentRegistryAddress H) (executedSlot H b sh c) v s = put G H (ExecutedSlot b (uint64_of_int64 sh) c) v s"
  by (simp_all add: IsExecuted_def cell_def put_def executedSlot_def preimage_def)

lemma recordKey_name: "recordKey H k = H (preimage (RecordName (fk_IntentID k) (fk_BatchID k)))"
  by (simp add: recordKey_def preimage_def)

lemma ensureStorageAccount_registry: "ensureStorageAccount G H s = ensureRegistryAccount G H s"
  by (simp add: ensureStorageAccount_def ensureRegistryAccount_def storageAddress_def)

lemma markExecuted_cells:
  "markExecuted G H b sh c s
     = put G H (ExecutedSlot b (uint64_of_int64 sh) c) (g_BigToHash G 1) (ensureRegistryAccount G H s)"
  by (simp add: markExecuted_def settlement_cells ensureRegistryAccount_def)

lemmas cells = intent_cells fallback_cells settlement_cells ensureStorageAccount_registry markExecuted_cells

context geth_laws
begin

lemma put_balance [simp]: "g_GetBalance G (put G H n v s) a = g_GetBalance G s a"
  by (simp add: put_def)

lemma put_exist: "g_Exist G (put G H n v s) a \<longleftrightarrow> a = IntentRegistryAddress H \<or> g_Exist G s a"
  by (simp add: put_def)

lemma cell_balances [simp]:
  "cell G H (g_SetBalance G a x s) n = cell G H s n"
  "cell G H (g_AddBalance G a x s) n = cell G H s n"
  "cell G H (g_SubBalance G a x s) n = cell G H s n"
  by (simp_all add: cell_def)

lemma ensureRegistryAccount_simps [simp]:
  "cell G H (ensureRegistryAccount G H' s) n = cell G H s n"
  "g_GetBalance G (ensureRegistryAccount G H' s) a = g_GetBalance G s a"
  by (simp_all add: cell_def ensureRegistryAccount_def)

lemma credit_recipient_simps [simp]:
  "cell G H (credit_recipient G x a s) n = cell G H s n"
  "g_GetBalance G (credit_recipient G x a s) b
     = (if b = a \<and> \<not> g_Exist G s a then x else g_GetBalance G s b)"
  by (simp_all add: credit_recipient_def)

end

text \<open>No collision on a set of names.\<close>

locale storage = geth_laws G for G :: "'s geth" +
  fixes H :: hasher and N :: "name set"
  assumes inj: "inj_on H (preimage ` N)"
begin

lemma slot_eq: "n \<in> N \<Longrightarrow> m \<in> N \<Longrightarrow> H (preimage n) = H (preimage m) \<longleftrightarrow> n = m"
  using inj by (auto dest: inj_onD)

lemma cell_put: "n \<in> N \<Longrightarrow> m \<in> N \<Longrightarrow> cell G H (put G H n v s) m = (if m = n then v else cell G H s m)"
  by (auto simp: cell_def put_def slot_eq)

lemma recordKey_eq:
  "RecordName i b \<in> N \<Longrightarrow> RecordName i' b' \<in> N \<Longrightarrow>
     H (preimage (RecordName i b)) = H (preimage (RecordName i' b')) \<longleftrightarrow> i = i' \<and> b = b'"
  by (simp add: slot_eq)

end

lemma storageI: "geth_laws G \<Longrightarrow> inj_on H (preimage ` N) \<Longrightarrow> storage G H N"
  by (simp add: storage_def storage_axioms_def)

section \<open>A collision-free hash\<close>

text \<open>The position in a table of strings, counted from one, is a hash that separates the strings.\<close>

fun table_index :: "bytes list \<Rightarrow> bytes \<Rightarrow> nat" where
  "table_index [] b = 1"
| "table_index (x # xs) b = (if x = b then 1 else Suc (table_index xs b))"

definition table_hash :: "bytes list \<Rightarrow> hasher" where
  "table_hash xs b = word_of_nat (table_index xs b)"

lemma table_index_bounds: "1 \<le> table_index xs b \<and> table_index xs b \<le> Suc (length xs)"
  by (induction xs) auto

lemma table_index_pos [simp]: "table_index xs b \<noteq> 0"
  using table_index_bounds [of xs b] by simp

lemma table_index_inj: "b \<in> set xs \<Longrightarrow> table_index xs b = table_index xs c \<Longrightarrow> b = c"
  by (induction xs) (auto split: if_splits simp: le_Suc_eq dest: sym)

lemma table_hash_inj:
  assumes "length xs < 2 ^ 256 - 1"
  shows "inj_on (table_hash xs) (set xs)"
proof (rule inj_onI)
  fix b c
  assume bc: "b \<in> set xs" "c \<in> set xs" "table_hash xs b = table_hash xs c"
  have lt: "table_index xs x < 2 ^ 256" for x using table_index_bounds [of xs x] assms by simp
  have "unat (table_hash xs b) = unat (table_hash xs c)" using bc(3) by simp
  then have "table_index xs b = table_index xs c"
    using lt [of b] lt [of c] by (simp add: table_hash_def unat_of_nat)
  then show "b = c" using table_index_inj bc(1) by blast
qed

end
