(* ===== verification/Registry_Correct.thy ===== *)
theory Registry_Correct
  imports Storage
begin

text \<open>
  Correctness of the intent registry: what a successful \<open>Reserve\<close> and \<open>Consume\<close> change and leave
  alone, that an error changes nothing, and that an intent is reserved and consumed once.
\<close>

definition intent_names :: "hash256 \<Rightarrow> name set" where
  "intent_names i = {AmountSlot i, MatchedSlot i, FallbackSlot i, BatchSlot i, StatusSlot i}"

lemma Validate_amount: "Intent.Validate p ctx = Inr () \<Longrightarrow> \<exists>a. Amount p = Some a \<and> 0 < a"
  by (cases "Amount p") (auto simp: Intent.Validate_def res_elims fail_if_eq_Inr)

lemma uint_add_1: "(n :: uint64) \<noteq> - 1 \<Longrightarrow> uint (n + 1) = uint n + 1"
proof -
  assume "n \<noteq> - 1"
  then have "1 + n \<noteq> 0" by (metis add.commute add_eq_0_iff)
  then have "unat (1 + n) = Suc (unat n)" by (rule unatSuc)
  then show ?thesis by (simp only: uint_nat add.commute of_nat_Suc)
qed

lemma low64: "(word_of_int (uint (word_of_int x :: 256 word)) :: uint64) = word_of_int x"
proof -
  have "take_bit 64 (take_bit 256 x) = take_bit 64 x" by simp
  then show ?thesis by (simp only: word_of_int_eq_iff unsigned_of_int) simp
qed

lemma status_of_number_eq:
  "status_of_number (uint w) = ReservationUnknown \<longleftrightarrow> w = 0" "status_of_number (uint w) = ReservationReserved \<longleftrightarrow> w = 1"
  "status_of_number (uint w) = ReservationConsumed \<longleftrightarrow> w = 2"
  "uint w \<le> 3 \<Longrightarrow> status_of_number (uint w) = ReservationExpired \<longleftrightarrow> w = 3" for w :: hash256
proof -
  have "x \<noteq> 0 \<Longrightarrow> x \<noteq> 1 \<Longrightarrow> x \<noteq> 2 \<Longrightarrow> x \<le> 3 \<Longrightarrow> 0 \<le> x \<Longrightarrow> x = 3" for x :: int by linarith
  from this [of "uint w"] show
    "status_of_number (uint w) = ReservationUnknown \<longleftrightarrow> w = 0" "status_of_number (uint w) = ReservationReserved \<longleftrightarrow> w = 1"
    "status_of_number (uint w) = ReservationConsumed \<longleftrightarrow> w = 2"
    "uint w \<le> 3 \<Longrightarrow> status_of_number (uint w) = ReservationExpired \<longleftrightarrow> w = 3"
    unfolding word_uint_eq_iff status_of_number_def by simp_all
qed

context geth_laws
begin

lemma status_Inr:
  "status G H s i = Inr ReservationUnknown \<longleftrightarrow> cell G H s (StatusSlot i) = 0"
  "status G H s i = Inr ReservationReserved \<longleftrightarrow> cell G H s (StatusSlot i) = 1"
  "status G H s i = Inr ReservationConsumed \<longleftrightarrow> cell G H s (StatusSlot i) = 2"
  "status G H s i = Inr ReservationExpired \<longleftrightarrow> cell G H s (StatusSlot i) = 3"
  using status_of_number_eq [of "cell G H s (StatusSlot i)"]
  by (auto simp: status_def Let_def cells fail_if_eq_Inr)

lemma registry_Get_Inr:
  "registry_Get G H s p = Inr rv \<longleftrightarrow>
     (\<exists>i st. ID H p = Inr i \<and> status G H s i = Inr st \<and> st \<noteq> ReservationUnknown
       \<and> rv = \<lparr>rv_IntentID = i, rv_Sender = Sender p, rv_Recipient = Recipient p,
          rv_Amount = uint (cell G H s (AmountSlot i)), rv_MatchedAmount = uint (cell G H s (MatchedSlot i)),
          rv_FallbackAmount = uint (cell G H s (FallbackSlot i)), rv_Nonce = Nonce p, rv_ExpiryEpoch = ExpiryEpoch p,
          rv_BatchID = cell G H s (BatchSlot i), rv_Status = st\<rparr>)"
  by (auto simp: registry_Get_def res_elims cells)

lemma reserve_checks_Inr:
  assumes "reserve_checks G H p ctx s = Inr v"
  obtains i a amt where "v = (i, Nonce p, a, amt)" "Intent.Validate p ctx = Inr ()" "ID H p = Inr i"
    "cell G H s (StatusSlot i) = 0" "Nonce p = NextNonce G H s (Sender p)" "Nonce p \<noteq> - 1"
    "Amount p = Some a" "0 < a" "a < 2 ^ 256" "uint amt = a" "g_BigToHash G a = amt" "amt \<le> g_GetBalance G s (Sender p)"
proof -
  obtain i a amt where v: "v = (i, NextNonce G H s (Sender p), a, amt)" and
    c: "Intent.Validate p ctx = Inr ()" "ID H p = Inr i" "status G H s i = Inr ReservationUnknown"
    "Nonce p = NextNonce G H s (Sender p)" "NextNonce G H s (Sender p) \<noteq> - 1" "deref_big (Amount p) = Inr a"
    "g_FromBig G a = Some amt" "amt \<le> g_GetBalance G s (Sender p)"
    using assms by (auto simp: reserve_checks_def res_elims Let_def split: option.splits)
  obtain "Amount p = Some a" "0 < a" using Validate_amount [OF c(1)] c(6) by (auto simp: deref_big_eq_Inr)
  moreover from this(2) have "a < 2 ^ 256" "uint amt = a" using FromBig_Some [OF _ c(7)] by auto
  moreover from calculation have "g_BigToHash G a = amt"
    by (metis BigToHash less_imp_le word_of_int_uint)
  ultimately show thesis using that [of i a amt] v c status_Inr by auto
qed

lemma consume_checks_Inr:
  assumes "consume_checks G H r s = Inr ()"
  shows "conserving r" "ID H (ir_Intent r) = Inr (ir_IntentID r)"
    "cell G H s (StatusSlot (ir_IntentID r)) = 1"
    "uint (cell G H s (AmountSlot (ir_IntentID r))) = amount_of (ir_Intent r)"
  using assms status_Inr(2)
  by (auto simp: consume_checks_def res_elims registry_Get_Inr IntentResult_Validate_ok_iff deref_big_eq_Inr amount_of_def)

lemma consume_checks_succeeds:
  assumes "conserving r" "ID H (ir_Intent r) = Inr (ir_IntentID r)"
    "cell G H s (StatusSlot (ir_IntentID r)) = 1"
    "uint (cell G H s (AmountSlot (ir_IntentID r))) = amount_of (ir_Intent r)"
  shows "consume_checks G H r s = Inr ()"
proof -
  have "IntentResult_Validate H r = Inr ()" using assms by (simp add: IntentResult_Validate_ok_iff)
  moreover have "status G H s (ir_IntentID r) = Inr ReservationReserved" using assms(3) status_Inr(2) by blast
  ultimately show ?thesis
    using assms conserving_amounts(3) [OF assms(1)]
    by (simp add: consume_checks_def registry_Get_def cells)
qed

lemma consume_effects_balance [simp]: "g_GetBalance G (consume_effects G H r b s) a = g_GetBalance G s a"
  by (simp add: consume_effects_def cells)

lemma reserve_effects_balance:
  "Sender p \<noteq> EscrowAccountAddress H \<Longrightarrow> g_GetBalance G (reserve_effects G H p (i, n, a, amt) s) b
     = (if b = Sender p then g_GetBalance G s b - amt
        else if b = EscrowAccountAddress H then g_GetBalance G s b + amt else g_GetBalance G s b)"
  by (auto simp: reserve_effects_def cells)

end

context storage
begin

lemma reserve_effects_cell:
  assumes "intent_names i \<union> {NonceSlot (Sender p)} \<subseteq> N" "m \<in> N" "0 \<le> a" "a < 2 ^ 256" "n \<noteq> - 1"
  shows "cell G H (reserve_effects G H p (i, n, a, amt) s) m
     = (if m = StatusSlot i then 1 else if m = AmountSlot i then g_BigToHash G a
        else if m = NonceSlot (Sender p) then word_of_int (uint n + 1) else cell G H s m)"
proof -
  have "uint (n + 1) = uint n + 1"
    using assms(5) by (rule uint_add_1)
  moreover have "uint n < 2 ^ LENGTH(64)" by (rule unsigned_less)
  then have "uint n + 1 < 2 ^ 256" by simp
  ultimately show ?thesis
    using assms by (auto simp: reserve_effects_def cells intent_names_def cell_put BigToHash)
qed

lemma consume_effects_cell:
  assumes "intent_names (ir_IntentID r) \<subseteq> N" "m \<in> N"
  shows "cell G H (consume_effects G H r b s) m
     = (if m = StatusSlot (ir_IntentID r) then 2 else if m = BatchSlot (ir_IntentID r) then b
        else if m = FallbackSlot (ir_IntentID r) then g_BigToHash G (fallback_of r)
        else if m = MatchedSlot (ir_IntentID r) then g_BigToHash G (matched_of r) else cell G H s m)"
  using assms by (auto simp: consume_effects_def cells intent_names_def cell_put BigToHash)

lemma Reserve_Inr:
  assumes "Reserve G H p ctx s = (s', Inr rv)"
  obtains i a amt where "s' = reserve_effects G H p (i, Nonce p, a, amt) s" "Intent.Validate p ctx = Inr ()" "ID H p = Inr i"
    "cell G H s (StatusSlot i) = 0" "Nonce p = NextNonce G H s (Sender p)" "Nonce p \<noteq> - 1"
    "Amount p = Some a" "0 < a" "a < 2 ^ 256" "uint amt = a" "g_BigToHash G a = amt" "amt \<le> g_GetBalance G s (Sender p)"
    "registry_Get G H s' p = Inr rv"
proof -
  obtain v where v: "reserve_checks G H p ctx s = Inr v" "s' = reserve_effects G H p v s" "registry_Get G H s' p = Inr rv"
    using assms by (auto simp: Reserve_def Let_def split: sum.splits)
  show thesis by (rule reserve_checks_Inr [OF v(1)]) (rule that, use v in auto)
qed

lemma Reserve_Inl:
  assumes "Reserve G H p ctx s = (s', Inl e)" "\<And>i. ID H p = Inr i \<Longrightarrow> intent_names i \<union> {NonceSlot (Sender p)} \<subseteq> N"
  shows "s' = s"
proof (cases "reserve_checks G H p ctx s")
  case (Inr v)
  then obtain i a amt where v: "v = (i, Nonce p, a, amt)" and c: "ID H p = Inr i" "Nonce p \<noteq> - 1" "0 < a" "a < 2 ^ 256"
    by (rule reserve_checks_Inr) blast
  have "cell G H (reserve_effects G H p v s) (StatusSlot i) = 1"
    using reserve_effects_cell [OF assms(2) [OF c(1)], of "StatusSlot i" a "Nonce p" amt s] assms(2) [OF c(1)] c
    by (simp add: v intent_names_def)
  then have "status G H (reserve_effects G H p v s) i = Inr ReservationReserved" using status_Inr(2) by blast
  then have "\<exists>rv. registry_Get G H (reserve_effects G H p v s) p = Inr rv"
    using c(1) by (simp add: registry_Get_def)
  then show ?thesis using assms(1) Inr by (auto simp: Reserve_def Let_def)
qed (use assms(1) in \<open>simp add: Reserve_def\<close>)

lemma Reserve_cell:
  assumes "Reserve G H p ctx s = (s', Inr rv)" "ID H p = Inr i" "intent_names i \<union> {NonceSlot (Sender p)} \<subseteq> N" "m \<in> N"
  shows "cell G H s' m
     = (if m = StatusSlot i then 1 else if m = AmountSlot i then word_of_int (amount_of p)
        else if m = NonceSlot (Sender p) then word_of_int (uint (Nonce p) + 1) else cell G H s m)"
proof (rule Reserve_Inr [OF assms(1)])
  fix j a amt
  assume r: "s' = reserve_effects G H p (j, Nonce p, a, amt) s" "ID H p = Inr j" "Nonce p \<noteq> - 1" "Amount p = Some a" "0 < a" "a < 2 ^ 256"
  show ?thesis
    using reserve_effects_cell [OF assms(3,4), of a "Nonce p" amt s] r assms(2)
    by (simp add: BigToHash amount_of_def)
qed

end

section \<open>Properties\<close>

definition reserve_names :: "hasher \<Rightarrow> PaymentIntent \<Rightarrow> name set" where
  "reserve_names H p = intent_names (pid H p) \<union> {NonceSlot (Sender p)}"

text \<open>
  C16. A successful reservation moves the intent's amount from the sender to the escrow account
  without underflow, changes no other balance, records the intent as reserved with exactly its
  amount, and advances the sender's intent nonce by one. The hash is only assumed not to collide
  on the six slots involved.
\<close>

theorem Reserve_effect:
  assumes G: "geth_laws G" and inj: "inj_on H (preimage ` reserve_names H p)"
    and sender: "Sender p \<noteq> EscrowAccountAddress H"
    and r: "Reserve G H p ctx s = (s', Inr rv)"
  shows "uint (g_GetBalance G s' (Sender p)) = uint (g_GetBalance G s (Sender p)) - amount_of p
    \<and> EscrowBalance G H s' = EscrowBalance G H s + word_of_int (amount_of p)
    \<and> (\<forall>a. a \<noteq> Sender p \<longrightarrow> a \<noteq> EscrowAccountAddress H \<longrightarrow> g_GetBalance G s' a = g_GetBalance G s a)
    \<and> registry_Get G H s' p = Inr rv \<and> rv_Status rv = ReservationReserved \<and> rv_Amount rv = amount_of p
    \<and> NextNonce G H s (Sender p) = Nonce p \<and> NextNonce G H s' (Sender p) = Nonce p + 1"
proof -
  have st: "storage G H (reserve_names H p)" using storageI [OF G inj] .
  show ?thesis
  proof (rule storage.Reserve_Inr [OF st r])
    fix i a amt
    assume s': "s' = reserve_effects G H p (i, Nonce p, a, amt) s" and i: "ID H p = Inr i"
      and n: "Nonce p = NextNonce G H s (Sender p)" "Nonce p \<noteq> - 1"
      and a: "Amount p = Some a" "0 < a" "a < 2 ^ 256" "uint amt = a" "amt \<le> g_GetBalance G s (Sender p)"
      and get: "registry_Get G H s' p = Inr rv"
    have p: "pid H p = i" using i by (simp add: pid_def)
    have sub: "intent_names i \<union> {NonceSlot (Sender p)} \<subseteq> reserve_names H p" by (simp add: reserve_names_def p)
    have c: "cell G H s' (StatusSlot i) = 1" "cell G H s' (AmountSlot i) = amt"
      "cell G H s' (NonceSlot (Sender p)) = word_of_int (uint (Nonce p) + 1)"
      using storage.Reserve_cell [OF st r i sub] a sub by (auto simp: intent_names_def amount_of_def)
    have b: "g_GetBalance G s' b = (if b = Sender p then g_GetBalance G s b - amt
        else if b = EscrowAccountAddress H then g_GetBalance G s b + amt else g_GetBalance G s b)" for b
      unfolding s' by (rule geth_laws.reserve_effects_balance [OF G sender])
    have "status G H s' i = Inr ReservationReserved" using geth_laws.status_Inr(2) [OF G] c(1) by blast
    then have "rv_Status rv = ReservationReserved \<and> rv_Amount rv = a"
      using get i c(2) a(4) by (auto simp: geth_laws.registry_Get_Inr [OF G])
    moreover have "uint (g_GetBalance G s (Sender p) - amt) = uint (g_GetBalance G s (Sender p)) - uint amt"
      using a(5) by (simp add: uint_sub_if' word_le_def)
    moreover have "NextNonce G H s' (Sender p) = Nonce p + 1"
      by (simp only: cells geth_laws.HashBig [OF G] c(3) low64) simp
    ultimately show ?thesis using b sender a n get
      by (auto simp: EscrowBalance_def amount_of_def)
  qed
qed

text \<open>
  C31. A failed reservation leaves the state as it was, and an intent that is reserved cannot be
  reserved again: the second attempt fails, whatever its context.
\<close>

theorem Reserve_rejects_replay:
  assumes G: "geth_laws G" and inj: "inj_on H (preimage ` reserve_names H p)"
  shows "(Reserve G H p ctx s = (s', Inl e) \<longrightarrow> s' = s)
    \<and> (Reserve G H p ctx s = (s', Inr rv) \<longrightarrow> (\<exists>e'. Reserve G H p ctx' s' = (s', Inl e')))"
proof (intro conjI impI)
  have st: "storage G H (reserve_names H p)" using storageI [OF G inj] .
  have sub: "intent_names i \<union> {NonceSlot (Sender p)} \<subseteq> reserve_names H p" if "ID H p = Inr i" for i
    using that by (simp add: reserve_names_def pid_def)
  show "s' = s" if "Reserve G H p ctx s = (s', Inl e)" by (rule storage.Reserve_Inl [OF st that sub])
  show "\<exists>e'. Reserve G H p ctx' s' = (s', Inl e')" if r: "Reserve G H p ctx s = (s', Inr rv)"
  proof (rule storage.Reserve_Inr [OF st r])
    fix i assume i: "ID H p = Inr i"
    have c: "cell G H s' (StatusSlot i) = 1"
      using storage.Reserve_cell [OF st r i sub [OF i]] sub [OF i] by (auto simp: intent_names_def)
    have "\<exists>e'. reserve_checks G H p ctx' s' = Inl e'"
    proof (rule ccontr)
      assume "\<nexists>e'. reserve_checks G H p ctx' s' = Inl e'"
      then obtain v where "reserve_checks G H p ctx' s' = Inr v" by (cases "reserve_checks G H p ctx' s'") auto
      then have "cell G H s' (StatusSlot i) = 0"
        by (rule geth_laws.reserve_checks_Inr [OF G]) (use i in simp)
      with c show False by simp
    qed
    then show ?thesis by (auto simp: Reserve_def)
  qed
qed

text \<open>
  C32. Consuming a reservation needs it to be reserved with exactly the intent's amount; it then
  becomes consumed, keeps the split into matched and fallback amounts and the batch, touches no
  balance and cannot be repeated. A failed attempt changes nothing.
\<close>

theorem Consume_once:
  assumes G: "geth_laws G" and inj: "inj_on H (preimage ` intent_names (ir_IntentID r))"
  shows "(Consume G H r b s = (s', Inl e) \<longrightarrow> s' = s)
    \<and> (Consume G H r b s = (s', Inr u) \<longrightarrow>
        (\<exists>rv. registry_Get G H s (ir_Intent r) = Inr rv \<and> rv_Status rv = ReservationReserved
           \<and> rv_Amount rv = amount_of (ir_Intent r)
           \<and> registry_Get G H s' (ir_Intent r) = Inr (rv\<lparr>rv_Status := ReservationConsumed, rv_BatchID := b,
               rv_MatchedAmount := matched_of r, rv_FallbackAmount := fallback_of r\<rparr>))
        \<and> (\<forall>a. g_GetBalance G s' a = g_GetBalance G s a)
        \<and> (\<exists>e'. Consume G H r b' s' = (s', Inl e')))"
proof (intro conjI impI)
  let ?i = "ir_IntentID r"
  have st: "storage G H (intent_names ?i)" using storageI [OF G inj] .
  show "s' = s" if "Consume G H r b s = (s', Inl e)" using that by (auto simp: Consume_def split: sum.splits)
  assume c: "Consume G H r b s = (s', Inr u)"
  have chk: "consume_checks G H r s = Inr ()" and s': "s' = consume_effects G H r b s"
    using c by (auto simp: Consume_def split: sum.splits)
  note ch = geth_laws.consume_checks_Inr [OF G chk]
  note cell = storage.consume_effects_cell [OF st, of r _ b s, folded s', OF subset_refl]
  have am: "0 \<le> matched_of r" "0 \<le> fallback_of r" "matched_of r < 2 ^ 256" "fallback_of r < 2 ^ 256"
  proof -
    note m = conserving_amounts [OF ch(1)]
    have "uint (cell G H s (AmountSlot ?i)) < 2 ^ LENGTH(256)" by (rule unsigned_less)
    then have "amount_of (ir_Intent r) < 2 ^ 256" unfolding ch(4) by simp
    then show "0 \<le> matched_of r" "0 \<le> fallback_of r" "matched_of r < 2 ^ 256" "fallback_of r < 2 ^ 256"
      using m by linarith+
  qed
  have cs: "cell G H s' (StatusSlot ?i) = 2" "cell G H s' (BatchSlot ?i) = b" "cell G H s' (AmountSlot ?i) = cell G H s (AmountSlot ?i)"
    "cell G H s' (FallbackSlot ?i) = g_BigToHash G (fallback_of r)" "cell G H s' (MatchedSlot ?i) = g_BigToHash G (matched_of r)"
    using cell by (simp_all add: intent_names_def)
  have sts: "status G H s ?i = Inr ReservationReserved" "status G H s' ?i = Inr ReservationConsumed"
    using geth_laws.status_Inr [OF G] ch(3) cs(1) by blast+
  show "\<exists>rv. registry_Get G H s (ir_Intent r) = Inr rv \<and> rv_Status rv = ReservationReserved
     \<and> rv_Amount rv = amount_of (ir_Intent r)
     \<and> registry_Get G H s' (ir_Intent r) = Inr (rv\<lparr>rv_Status := ReservationConsumed, rv_BatchID := b,
         rv_MatchedAmount := matched_of r, rv_FallbackAmount := fallback_of r\<rparr>)"
    using sts ch(2,4) cs am
    by (auto simp: geth_laws.registry_Get_Inr [OF G] geth_laws.uint_BigToHash [OF G])
  show "\<forall>a. g_GetBalance G s' a = g_GetBalance G s a"
    by (simp add: s' geth_laws.consume_effects_balance [OF G])
  show "\<exists>e'. Consume G H r b' s' = (s', Inl e')"
  proof (cases "consume_checks G H r s'")
    case (Inr x)
    then have "cell G H s' (StatusSlot ?i) = 1" using geth_laws.consume_checks_Inr(3) [OF G] by simp
    with cs(1) show ?thesis by simp
  qed (simp add: Consume_def)
qed

section \<open>Witnesses\<close>

text \<open>
  A hash given by a table: the system addresses are 5 and 6, the example intent has identifier 7
  and the preimages of the names in the table do not collide.
\<close>

definition example_bytes :: bytes where
  "example_bytes = (case CanonicalBytes example_intent of Inl _ \<Rightarrow> [] | Inr b \<Rightarrow> b)"

definition example_hash :: "name list \<Rightarrow> hasher" where
  "example_hash ns = table_hash ([[], [0], [0, 0], [0, 0, 0], str_bytes escrowAddressDomain,
     str_bytes registryAddressDomain, example_bytes] @ map preimage ns)"

lemma example_bytes: "CanonicalBytes example_intent = Inr example_bytes" "length example_bytes = 150"
  using example_encodings(1) by (auto simp: example_bytes_def)

lemma length_str_bytes [simp]: "length (str_bytes s) = length s"
  by (simp add: str_bytes_def)

lemma table_front:
  assumes "length e = 31" "length g = 33" "length c = 150"
  shows "table_index ([[], [0], [0, 0], [0, 0, 0], e, g, c] @ ys) e = 5"
    "table_index ([[], [0], [0, 0], [0, 0, 0], e, g, c] @ ys) g = 6"
    "table_index ([[], [0], [0, 0], [0, 0, 0], e, g, c] @ ys) c = 7"
  using assms by auto

lemma example_table [simp]:
  "EscrowAccountAddress (example_hash ns) = 5" "IntentRegistryAddress (example_hash ns) = 6"
  "ID (example_hash ns) example_intent = Inr 7" "pid (example_hash ns) example_intent = 7"
proof -
  have l: "length (str_bytes escrowAddressDomain) = 31" "length (str_bytes registryAddressDomain) = 33"
    by (simp_all add: escrowAddressDomain_def registryAddressDomain_def)
  have h: "example_hash ns (str_bytes escrowAddressDomain) = 5" "example_hash ns (str_bytes registryAddressDomain) = 6"
    "example_hash ns example_bytes = 7"
    unfolding example_hash_def table_hash_def table_front [OF l example_bytes(2)] by simp_all
  show "EscrowAccountAddress (example_hash ns) = 5" "IntentRegistryAddress (example_hash ns) = 6"
    by (simp_all add: EscrowAccountAddress_def IntentRegistryAddress_def systemAddress_def h)
  show id: "ID (example_hash ns) example_intent = Inr 7" using example_bytes h(3) by (simp add: ID_def)
  show "pid (example_hash ns) example_intent = 7" by (simp add: pid_def id)
qed

lemma example_hash_inj:
  assumes "set ms \<subseteq> set ns" "length ns < 1000"
  shows "inj_on (example_hash ns) (preimage ` set ms)"
  unfolding example_hash_def
  by (rule inj_on_subset [OF table_hash_inj]) (use assms in auto)

definition intent_name_list :: "hash256 \<Rightarrow> name list" where
  "intent_name_list i = [AmountSlot i, MatchedSlot i, FallbackSlot i, BatchSlot i, StatusSlot i]"

lemma set_intent_name_list: "set (intent_name_list i) = intent_names i"
  by (simp add: intent_name_list_def intent_names_def)

text \<open>A state in which the sender of the example intent owns 1000 and nothing is reserved.\<close>

definition example_state :: mem_state where
  "example_state = \<lparr>mem_exist = {1}, mem_balance = (\<lambda>_. 0)(1 := 1000), mem_nonce = (\<lambda>_. 0), mem_store = (\<lambda>_ _. 0)\<rparr>"

definition example_ctx :: ValidationContext where
  "example_ctx = \<lparr>ctx_ChainID = 11, ctx_ShardID = 0, ctx_ShardCount = 2, ctx_CurrentEpoch = 0\<rparr>"

definition reserve_hash :: hasher where
  "reserve_hash = example_hash (NonceSlot 1 # intent_name_list 7)"

lemma reserve_hash_inj: "inj_on reserve_hash (preimage ` reserve_names reserve_hash example_intent)"
  using example_hash_inj [of "NonceSlot 1 # intent_name_list 7" "NonceSlot 1 # intent_name_list 7"]
  by (simp add: reserve_hash_def reserve_names_def set_intent_name_list)
    (simp add: intent_name_list_def example_intent_def)

interpretation rs: storage mem_geth reserve_hash "reserve_names reserve_hash example_intent"
  by (rule storageI [OF mem.geth_laws_axioms reserve_hash_inj])

lemma example_sender: "Sender example_intent = 1" by (simp add: example_intent_def)

lemma example_reserve_checks:
  "reserve_checks mem_geth (example_hash ns) example_intent example_ctx example_state = Inr (7, 0, 300, 300)"
  unfolding reserve_checks_def status_def intentValue_def NextNonce_def
  by (simp add: example_intent_def [symmetric] Intent.Validate_def)
    (simp add: example_intent_def example_ctx_def mem_geth_def example_state_def status_of_number_def CurrentVersion_def NativeAssetID_def bad_amount_def Let_def)

lemma example_reserves_any:
  assumes "storage mem_geth (example_hash ns) N" "intent_names 7 \<union> {NonceSlot 1} \<subseteq> N"
  shows "\<exists>s' rv. Reserve mem_geth (example_hash ns) example_intent example_ctx example_state = (s', Inr rv)"
proof (cases "Reserve mem_geth (example_hash ns) example_intent example_ctx example_state")
  case (Pair s' r)
  show ?thesis
  proof (cases r)
    case (Inl e)
    then have r': "Reserve mem_geth (example_hash ns) example_intent example_ctx example_state = (s', Inl e)" using Pair by simp
    have "s' = example_state"
      by (rule storage.Reserve_Inl [OF assms(1) r']) (use assms(2) in \<open>auto simp: example_sender\<close>)
    moreover have "s' = reserve_effects mem_geth (example_hash ns) example_intent (7, 0, 300, 300) example_state"
      using r' by (simp add: Reserve_def example_reserve_checks Let_def)
    then have "g_GetBalance mem_geth s' 1 = g_GetBalance mem_geth example_state 1 - 300"
      using mem.reserve_effects_balance [of example_intent "example_hash ns"] by (simp add: example_sender)
    ultimately show ?thesis by (simp add: mem_geth_def example_state_def)
  qed (use Pair in auto)
qed

lemma example_reserves:
  "\<exists>s' rv. Reserve mem_geth reserve_hash example_intent example_ctx example_state = (s', Inr rv)"
  using example_reserves_any [OF rs.storage_axioms [unfolded reserve_hash_def]]
  by (simp add: reserve_hash_def reserve_names_def example_sender)

lemma Reserve_effect_witness:
  "\<exists>s' rv. Reserve mem_geth reserve_hash example_intent example_ctx example_state = (s', Inr rv)
     \<and> uint (g_GetBalance mem_geth s' 1) = 700 \<and> EscrowBalance mem_geth reserve_hash s' = 300
     \<and> rv_Status rv = ReservationReserved"
proof -
  obtain s' rv where r: "Reserve mem_geth reserve_hash example_intent example_ctx example_state = (s', Inr rv)"
    using example_reserves by blast
  have "Sender example_intent \<noteq> EscrowAccountAddress reserve_hash" by (simp add: reserve_hash_def) (simp add: example_intent_def)
  from Reserve_effect [OF mem.geth_laws_axioms reserve_hash_inj this r] r show ?thesis
    by (auto simp: EscrowBalance_def) (simp_all add: example_intent_def amount_of_def mem_geth_def example_state_def reserve_hash_def)
qed

lemma Reserve_rejects_replay_witness:
  "\<exists>s' rv e. Reserve mem_geth reserve_hash example_intent example_ctx example_state = (s', Inr rv)
     \<and> Reserve mem_geth reserve_hash example_intent example_ctx s' = (s', Inl e)"
proof -
  obtain s' rv where r: "Reserve mem_geth reserve_hash example_intent example_ctx example_state = (s', Inr rv)"
    using example_reserves by blast
  with Reserve_rejects_replay [OF mem.geth_laws_axioms reserve_hash_inj] show ?thesis by blast
qed

text \<open>A state in which the example intent is reserved, and a result that splits its amount.\<close>

definition reserved_state :: "hasher \<Rightarrow> mem_state" where
  "reserved_state H = put mem_geth H (StatusSlot 7) 1 (put mem_geth H (AmountSlot 7) 300
     (example_state\<lparr>mem_balance := (\<lambda>_. 0)(5 := 300)\<rparr>))"

definition example_result :: IntentResult where
  "example_result = \<lparr>ir_Intent = example_intent, ir_IntentID = 7, ir_MatchedAmount = Some 100, ir_FallbackAmount = Some 200\<rparr>"

lemma example_result_simps [simp]:
  "ir_Intent example_result = example_intent" "ir_IntentID example_result = 7" "conserving example_result"
  "matched_of example_result = 100" "fallback_of example_result = 200" "amount_of example_intent = 300"
  by (simp_all add: example_result_def conserving_def matched_of_def fallback_of_def amount_of_def example_intent_def)

lemma reserved_state_cell:
  assumes "storage mem_geth H N" "intent_names 7 \<subseteq> N" "m \<in> N"
  shows "cell mem_geth H (reserved_state H) m = (if m = StatusSlot 7 then 1 else if m = AmountSlot 7 then 300 else 0)"
proof -
  have "cell mem_geth H (example_state\<lparr>mem_balance := (\<lambda>_. 0)(5 := 300)\<rparr>) m = 0"
    by (simp add: cell_def mem_geth_def example_state_def)
  then show ?thesis
    using assms(2,3) unfolding reserved_state_def
    by (simp add: storage.cell_put [OF assms(1)] intent_names_def)
qed

lemma Consume_once_witness:
  "\<exists>s' e. Consume mem_geth reserve_hash example_result 9 (reserved_state reserve_hash) = (s', Inr ())
     \<and> Consume mem_geth reserve_hash example_result 9 s' = (s', Inl e)"
proof -
  have inj: "inj_on reserve_hash (preimage ` intent_names (ir_IntentID example_result))"
    by (rule inj_on_subset [OF reserve_hash_inj]) (auto simp: reserve_names_def reserve_hash_def)
  note st = storageI [OF mem.geth_laws_axioms inj]
  have "consume_checks mem_geth reserve_hash example_result (reserved_state reserve_hash) = Inr ()"
    by (rule mem.consume_checks_succeeds)
      (simp_all add: reserved_state_cell [OF st] intent_names_def, simp add: reserve_hash_def)
  then obtain s' where "Consume mem_geth reserve_hash example_result 9 (reserved_state reserve_hash) = (s', Inr ())"
    by (simp add: Consume_def)
  with Consume_once [OF mem.geth_laws_axioms inj] show ?thesis by blast
qed

end
