(* ===== verification/Batch_Correct.thy ===== *)
theory Batch_Correct
  imports Batch
begin

text \<open>
  Correctness of the batch builder: what a proposal contains (one settlement per shard of the cut,
  with exactly the results that leave and enter the shard), that its settlement packages can be
  built and verify, and that every settlement balances the matched amounts per counterparty.
\<close>

section \<open>Cuts and settlements\<close>

lemma check_cuts_Inr:
  assumes "check_cuts previous cs = Inr ()" "sorted (map cut_ShardID cs)"
  shows "distinct (map cut_ShardID cs)" "\<forall>c \<in> set cs. 0 \<le> cut_ShardID c \<and> cut_PreviousHeight c \<le> cut_EndHeight c"
proof -
  have "distinct (map cut_ShardID cs) \<and> (\<forall>c \<in> set cs. 0 \<le> cut_ShardID c \<and> cut_PreviousHeight c \<le> cut_EndHeight c)
      \<and> (\<forall>p. previous = Some p \<longrightarrow> (\<forall>c \<in> set cs. p \<le> cut_ShardID c) \<longrightarrow> p \<notin> cut_ShardID ` set cs)"
    using assms
  proof (induction previous cs rule: check_cuts.induct)
    case (2 previous c cs)
    then show ?case by (force simp: fail_if_eq_Inr not_less)
  qed simp
  then show "distinct (map cut_ShardID cs)" "\<forall>c \<in> set cs. 0 \<le> cut_ShardID c \<and> cut_PreviousHeight c \<le> cut_EndHeight c"
    by blast+
qed

lemma canonicalCuts_Inr:
  assumes "canonicalCuts input = Inr (cuts, ids)"
  shows "cuts = sort_key cut_ShardID input" "ids = map cut_ShardID cuts" "distinct ids" "\<forall>i \<in> set ids. 0 \<le> i"
    "sorted ids"
  using assms check_cuts_Inr [of None "sort_key cut_ShardID input"]
  by (auto simp: canonicalCuts_def Let_def bind_res_eq_Inr)

definition outgoing_of :: "int \<Rightarrow> IntentResult list \<Rightarrow> IntentResult list" where
  "outgoing_of s rs = filter (\<lambda>r. SourceShard (ir_Intent r) = s) rs"

definition incoming_of :: "int \<Rightarrow> IntentResult list \<Rightarrow> IntentResult list" where
  "incoming_of s rs = filter (\<lambda>r. DestinationShard (ir_Intent r) = s \<and> matched_of r > 0) rs"

definition with_results :: "int \<Rightarrow> IntentResult list \<Rightarrow> ShardSettlement \<Rightarrow> ShardSettlement" where
  "with_results s rs st = st\<lparr>ss_Outgoing := ss_Outgoing st @ outgoing_of s rs, ss_Incoming := ss_Incoming st @ incoming_of s rs\<rparr>"

lemma place_result_shards:
  assumes "place_result m r = Inr m'"
  shows "SourceShard (ir_Intent r) \<in> dom (map_of m)" "DestinationShard (ir_Intent r) \<in> dom (map_of m)"
  using assms unfolding place_result_def dom_def by (auto split: option.splits)

lemma place_result_map_of:
  assumes "place_result m r = Inr m'"
  shows "map_of m' s = map_option (with_results s [r]) (map_of m s)"
  using assms
  by (cases "map_of m s"; auto simp: place_result_def Let_def map_of_alist_set with_results_def outgoing_of_def incoming_of_def
      add_outgoing_def add_incoming_def split: option.splits if_splits)

lemmas place_result_Inr = place_result_map_of place_result_shards

lemma place_results_Inr:
  assumes "fold_res place_result m rs = Inr m'"
  shows "map_of m' s = map_option (with_results s rs) (map_of m s)"
    "\<forall>r \<in> set rs. SourceShard (ir_Intent r) \<in> dom (map_of m) \<and> DestinationShard (ir_Intent r) \<in> dom (map_of m)"
proof -
  have "(\<forall>s. map_of m' s = map_option (with_results s rs) (map_of m s))
    \<and> (\<forall>r \<in> set rs. SourceShard (ir_Intent r) \<in> dom (map_of m) \<and> DestinationShard (ir_Intent r) \<in> dom (map_of m))"
    using assms
  proof (induction rs arbitrary: m)
    case Nil
    have "with_results s [] = (\<lambda>x. x)" for s by (simp add: with_results_def outgoing_of_def incoming_of_def fun_eq_iff)
    then show ?case using Nil by (simp add: option.map_ident)
  next
    case (Cons r rs)
    obtain m1 where m1: "place_result m r = Inr m1" "fold_res place_result m1 rs = Inr m'"
      using Cons.prems by (auto simp: bind_res_eq_Inr)
    note p = place_result_Inr [OF m1(1)]
    have "dom (map_of m1) = dom (map_of m)" using p(1) by (auto simp: dom_def)
    moreover have "with_results s rs (with_results s [r] st) = with_results s (r # rs) st" for s st
      by (simp add: with_results_def outgoing_of_def incoming_of_def)
    ultimately show ?case
    proof (intro conjI)
      show "\<forall>s. map_of m' s = map_option (with_results s (r # rs)) (map_of m s)"
        using Cons.IH [OF m1(2)] p(1) \<open>\<And>s st. with_results s rs (with_results s [r] st) = with_results s (r # rs) st\<close>
        by (simp add: option.map_comp comp_def)
    qed (use Cons.IH [OF m1(2)] p(2,3) in simp)
  qed
  then show "map_of m' s = map_option (with_results s rs) (map_of m s)"
    "\<forall>r \<in> set rs. SourceShard (ir_Intent r) \<in> dom (map_of m) \<and> DestinationShard (ir_Intent r) \<in> dom (map_of m)" by blast+
qed

definition spec_settlement :: "uint64 \<Rightarrow> IntentResult list \<Rightarrow> int \<Rightarrow> ShardSettlement" where
  "spec_settlement windowID rs s =
     (empty_settlement windowID s)\<lparr>ss_Outgoing := outgoing_of s rs, ss_Incoming := incoming_of s rs\<rparr>"

lemma map_of_initial:
  "map_of (foldl (\<lambda>m s. alist_set s (empty_settlement w s) m) m ids) s
     = (if s \<in> set ids then Some (empty_settlement w s) else map_of m s)"
  by (induction ids arbitrary: m) (auto simp: map_of_alist_set)

lemma sortResults_filter: "sorted (map ir_IntentID rs) \<Longrightarrow> sortResults (filter P rs) = filter P rs"
  by (simp add: sortResults_def sort_key_id_if_sorted sorted_filter)

lemma buildSettlements_Inr:
  assumes "buildSettlements H w ids rs = Inr (ss, ls)" "sorted (map ir_IntentID rs)"
  shows "ss = map (spec_settlement w rs) ids"
    "map_res (commit_settlement H) ss = Inr (zip ss ls)" "length ls = length ss"
    "\<forall>r \<in> set rs. SourceShard (ir_Intent r) \<in> set ids \<and> DestinationShard (ir_Intent r) \<in> set ids"
proof -
  obtain m parts where m: "fold_res place_result (foldl (\<lambda>m s. alist_set s (empty_settlement w s) m) [] ids) rs = Inr m"
    and parts: "map_res (\<lambda>s. case map_of m s of None \<Rightarrow> Inl GoPanic | Some st \<Rightarrow> commit_settlement H st) ids = Inr parts"
    and out: "ss = map fst parts" "ls = map snd parts"
    using assms(1) by (auto simp: buildSettlements_def bind_res_eq_Inr)
  note pr = place_results_Inr [OF m, unfolded map_of_initial]
  have e: "with_results s rs (empty_settlement w s) = spec_settlement w rs s" for s
    by (simp add: with_results_def spec_settlement_def empty_settlement_def)
  have mo: "map_of m s = (if s \<in> set ids then Some (spec_settlement w rs s) else None)" for s
    using pr(1) e by simp
  have c: "commit_settlement H (spec_settlement w rs s) = Inr x \<Longrightarrow> fst x = spec_settlement w rs s" for s x
    using assms(2)
    by (auto simp: commit_settlement_def Let_def bind_res_eq_Inr spec_settlement_def outgoing_of_def
        incoming_of_def sortResults_filter empty_settlement_def)
  have m2: "map_res (\<lambda>s. commit_settlement H (spec_settlement w rs s)) ids = Inr parts"
    using parts mo by (subst (asm) map_res_cong [of ids ids _ "\<lambda>s. commit_settlement H (spec_settlement w rs s)"]) auto
  show ss: "ss = map (spec_settlement w rs) ids"
    using m2 c unfolding out(1) by (induction ids arbitrary: parts) (auto simp: bind_res_eq_Inr)
  have "map_res (commit_settlement H) (map (spec_settlement w rs) ids) = Inr parts"
    using m2 by (induction ids arbitrary: parts) (auto simp: bind_res_eq_Inr)
  moreover have "parts = zip ss ls" unfolding out by (simp add: zip_map_fst_snd)
  ultimately show "map_res (commit_settlement H) ss = Inr (zip ss ls)" using ss by simp
  show "length ls = length ss" by (simp add: out)
  show "\<forall>r \<in> set rs. SourceShard (ir_Intent r) \<in> set ids \<and> DestinationShard (ir_Intent r) \<in> set ids"
    using pr(2) by (auto simp: dom_def map_of_initial split: if_splits)
qed

section \<open>Proposals\<close>

lemma sorted_wrt_less_sorted: "sorted_wrt (<) (xs :: 'a :: linorder list) \<Longrightarrow> sorted xs"
  by (simp add: strict_sorted_imp_sorted)

text \<open>What a successful \<open>Build\<close> went through.\<close>

lemma Build_proposal_Inr:
  assumes bt: "btree_laws bt elems valid"
    and b: "Build_proposal bt H mode frozen prev = Inr (proposal, out)"
  obtains cuts ids ss ls roots where
    "canonicalCuts (fw_Cuts frozen) = Inr (cuts, ids)"
    "MatchWithMode bt H (fw_Intents frozen) (NormalizeMode mode) = Inr out"
    "IntentResults (Sidecar proposal) = Results out"
    "buildSettlements H (fw_WindowID frozen) ids (Results out) = Inr (ss, ls)"
    "BuildRoots H (cutLeaves cuts) (resultLeaves H (Results out)) ls = Inr roots"
    "ShardSettlements (Sidecar proposal) = map (\<lambda>s. s\<lparr>ss_BatchID := BatchID (Header proposal)\<rparr>) ss"
    "header_roots (Header proposal) = roots" "MatchRoot (Header proposal) = MatchRoot_of H roots"
    "BatchID (Header proposal) = BatchID_of H prev (fw_WindowID frozen) (MatchRoot_of H roots)"
    "PreviousBatchID (Header proposal) = prev" "WindowID (Header proposal) = fw_WindowID frozen"
    "Cuts (Header proposal) = cuts" "sorted (map ir_IntentID (Results out))"
proof -
  obtain cuts ids ss ls roots where
    c: "canonicalCuts (fw_Cuts frozen) = Inr (cuts, ids)" and
    m: "MatchWithMode bt H (fw_Intents frozen) (NormalizeMode mode) = Inr out" and
    st: "buildSettlements H (fw_WindowID frozen) ids (sortResults (Results out)) = Inr (ss, ls)" and
    r: "BuildRoots H (cutLeaves cuts) (resultLeaves H (sortResults (Results out))) ls = Inr roots" and
    p: "proposal = \<lparr>Header = \<lparr>BatchID = BatchID_of H prev (fw_WindowID frozen) (MatchRoot_of H roots),
          PreviousBatchID = prev, WindowID = fw_WindowID frozen, MatcherMode = NormalizeMode mode,
          CutRoot = roots_CutRoot roots, IntentResultRoot = roots_IntentResultRoot roots,
          ShardSettlementRoot = roots_ShardSettlementRoot roots, MatchRoot = MatchRoot_of H roots, Cuts = cuts\<rparr>,
        Sidecar = \<lparr>FinalizedBlocks = fw_Receipts frozen, IntentResults = sortResults (Results out),
          ShardSettlements = map (\<lambda>s. s\<lparr>ss_BatchID := BatchID_of H prev (fw_WindowID frozen) (MatchRoot_of H roots)\<rparr>) ss\<rparr>\<rparr>"
    using b by (auto simp: Build_proposal_def Let_def res_elims split: prod.splits)
  have so: "sorted (map ir_IntentID (Results out))"
    using Match_results [OF bt m] by (blast intro: sorted_wrt_less_sorted)
  then have e: "sortResults (Results out) = Results out"
    by (simp add: sortResults_def sort_key_id_if_sorted)
  show thesis
    by (rule that [OF c m]) (use st r so in \<open>simp_all add: p e header_roots_def\<close>)
qed

lemma Build_results:
  assumes "btree_laws bt elems valid" "Build_proposal bt H mode frozen prev = Inr (proposal, out)"
  shows "mset (map ir_Intent (IntentResults (Sidecar proposal))) = mset (fw_Intents frozen)
      \<and> sorted_wrt (<) (map ir_IntentID (IntentResults (Sidecar proposal)))
      \<and> (\<forall>r \<in> set (IntentResults (Sidecar proposal)). IntentResult_Validate H r = Inr ())"
proof (rule Build_proposal_Inr [OF assms])
  assume m: "MatchWithMode bt H (fw_Intents frozen) (NormalizeMode mode) = Inr out"
    and "IntentResults (Sidecar proposal) = Results out"
  then show ?thesis using Match_results [OF assms(1) m] by simp
qed

lemma Build_settlements:
  assumes "btree_laws bt elems valid" "Build_proposal bt H mode frozen prev = Inr (proposal, out)"
  shows "ShardSettlements (Sidecar proposal)
      = map (\<lambda>s. (spec_settlement (fw_WindowID frozen) (IntentResults (Sidecar proposal)) s)
                 \<lparr>ss_BatchID := BatchID (Header proposal)\<rparr>)
            (map cut_ShardID (sort_key cut_ShardID (fw_Cuts frozen)))
    \<and> distinct (map cut_ShardID (fw_Cuts frozen))
    \<and> (\<forall>r \<in> set (IntentResults (Sidecar proposal)).
         SourceShard (ir_Intent r) \<in> cut_ShardID ` set (fw_Cuts frozen)
         \<and> DestinationShard (ir_Intent r) \<in> cut_ShardID ` set (fw_Cuts frozen))"
proof (rule Build_proposal_Inr [OF assms])
  fix cuts ids ss ls roots
  assume c: "canonicalCuts (fw_Cuts frozen) = Inr (cuts, ids)"
    and b: "buildSettlements H (fw_WindowID frozen) ids (Results out) = Inr (ss, ls)"
    and eqs: "IntentResults (Sidecar proposal) = Results out"
    "ShardSettlements (Sidecar proposal) = map (\<lambda>s. s\<lparr>ss_BatchID := BatchID (Header proposal)\<rparr>) ss"
    and so: "sorted (map ir_IntentID (Results out))"
  note cc = canonicalCuts_Inr [OF c] and bs = buildSettlements_Inr [OF b so]
  have d: "distinct (map cut_ShardID (fw_Cuts frozen))"
    using cc(1-3) by (metis distinct_map distinct_sort set_sort)
  show ?thesis
    using bs(1,4) cc(1,2) d by (simp add: eqs comp_def)
qed

text \<open>The matched total between two shards, seen in the settlement of the first one.\<close>

lemma flow_total_outgoing: "flow_total f s d (outgoing_of s rs) = flow_total f s d rs"
proof -
  have "filter (from_to s d) (outgoing_of s rs) = filter (from_to s d) rs"
    by (induction rs) (auto simp: outgoing_of_def from_to_def)
  then show ?thesis by (simp add: flow_total_def)
qed

lemma flow_total_incoming:
  assumes "\<forall>r \<in> set rs. 0 \<le> matched_of r"
  shows "flow_total matched_of d s (incoming_of s rs) = flow_total matched_of d s rs"
  using assms by (induction rs) (auto simp: flow_total_def incoming_of_def from_to_def)

text \<open>
  C15. Every settlement of a built batch is balanced: for each other shard, the matched amounts it
  sends there equal the matched amounts it receives from there. This is what the execution of the
  settlement demands, so an honest batch is never rejected for it.
\<close>

theorem Build_settlements_balanced:
  assumes "btree_laws bt elems valid" "Build_proposal bt H mode frozen prev = Inr (proposal, out)"
    and "st \<in> set (ShardSettlements (Sidecar proposal))"
  shows "flow_total matched_of (ss_ShardID st) d (ss_Outgoing st)
       = flow_total matched_of d (ss_ShardID st) (ss_Incoming st)"
proof -
  let ?rs = "IntentResults (Sidecar proposal)"
  obtain s where s: "ss_ShardID st = s" "ss_Outgoing st = outgoing_of s ?rs" "ss_Incoming st = incoming_of s ?rs"
    using assms(3) Build_settlements [OF assms(1,2)] by (auto simp: spec_settlement_def empty_settlement_def)
  have "\<forall>r \<in> set ?rs. 0 \<le> matched_of r"
    using Build_results [OF assms(1,2)] by (auto simp: IntentResult_Validate_ok_iff dest: conserving_amounts)
  moreover have "flow_total matched_of s d ?rs = flow_total matched_of d s ?rs"
    by (rule Build_proposal_Inr [OF assms(1,2)]) (simp add: Match_balanced [OF assms(1)])
  ultimately show ?thesis by (simp add: s flow_total_outgoing flow_total_incoming)
qed

section \<open>Settlement packages\<close>

lemma SettlementPayload_BatchID [simp]: "SettlementPayload H (s\<lparr>ss_BatchID := b\<rparr>) = SettlementPayload H s"
  by (simp add: SettlementPayload_def)

lemma group_by_shard_distinct_aux:
  assumes "distinct (map ss_ShardID ss)" "fst ` set m \<inter> ss_ShardID ` set ss = {}"
  shows "foldl (\<lambda>m s. alist_set (ss_ShardID s)
       ((case map_of m (ss_ShardID s) of None \<Rightarrow> [] | Some xs \<Rightarrow> xs) @ [s]) m) m ss
     = m @ map (\<lambda>s. (ss_ShardID s, [s])) ss"
  using assms
proof (induction ss arbitrary: m)
  case (Cons s ss)
  have "map_of m (ss_ShardID s) = None" using Cons.prems by (auto simp: map_of_eq_None_iff)
  moreover have "alist_set (ss_ShardID s) [s] m = m @ [(ss_ShardID s, [s])]"
    using Cons.prems(2) by (intro alist_set_fresh) auto
  moreover have "fst ` set (m @ [(ss_ShardID s, [s])]) \<inter> ss_ShardID ` set ss = {}"
    using Cons.prems by auto
  ultimately show ?case using Cons.IH [of "m @ [(ss_ShardID s, [s])]"] Cons.prems(1) by simp
qed simp

lemma group_by_shard_distinct:
  "distinct (map ss_ShardID ss) \<Longrightarrow> group_by_shard ss = map (\<lambda>s. (ss_ShardID s, [s])) ss"
  unfolding group_by_shard_def using group_by_shard_distinct_aux [of ss "[]"] by simp

text \<open>The proof data of a one-chunk settlement, from its committed leaf.\<close>

lemma commit_settlement_data:
  assumes c: "commit_settlement H s = Inr (s, l)" "ss_ChunkIndex s = 0" "ss_ChunkCount s = 1"
    and s': "s' = s\<lparr>ss_BatchID := b\<rparr>"
  obtains d payload where "shard_proof_data H (ss_ShardID s', [s']) = Inr d" "pd_settlements d = [s']"
    "pd_shardID d = ss_ShardID s" "sc_ShardID (pd_commitment d) = ss_ShardID s" "sc_ChunkCount (pd_commitment d) = 1"
    "l = \<lparr>Key = int64Key (pd_shardID d), Payload = ShardCommitmentPayload (pd_commitment d)\<rparr>"
    "SettlementPayload H s' = Inr payload"
    "Build H ChunkLeafDomain [\<lparr>Key = uint32_bytes 0, Payload = payload\<rparr>] = Inr (pd_tree d)"
    "sc_ShardRoot (pd_commitment d) = Root (pd_tree d)"
proof -
  obtain payload t where p: "SettlementPayload H s = Inr payload"
    "Build H ChunkLeafDomain [\<lparr>Key = uint32_bytes 0, Payload = payload\<rparr>] = Inr t"
    "l = \<lparr>Key = int64Key (ss_ShardID s), Payload = ShardCommitmentPayload
           \<lparr>sc_ShardID = ss_ShardID s, sc_ShardRoot = Root t, sc_ChunkCount = 1\<rparr>\<rparr>"
    using c by (auto simp: commit_settlement_def Let_def bind_res_eq_Inr)
  have "shard_proof_data H (ss_ShardID s', [s']) = Inr \<lparr>pd_shardID = ss_ShardID s, pd_settlements = [s'],
      pd_commitment = \<lparr>sc_ShardID = ss_ShardID s, sc_ShardRoot = Root t, sc_ChunkCount = 1\<rparr>, pd_tree = t\<rparr>"
    using p c(2,3) by (simp add: shard_proof_data_def Let_def chunk_leaf_def s' fail_if_def)
  then show thesis by (rule that) (use p s' in simp_all)
qed

text \<open>The packages of one shard.\<close>

lemma shard_packages_verify:
  assumes d: "pd_settlements d = [s']" "sc_ShardID (pd_commitment d) = ss_ShardID s'"
      "sc_ChunkCount (pd_commitment d) = ss_ChunkCount s'" "SettlementPayload H s' = Inr payload"
      "ss_ChunkIndex s' = 0" "sc_ShardRoot (pd_commitment d) = Root (pd_tree d)"
      "Build H ChunkLeafDomain [\<lparr>Key = uint32_bytes 0, Payload = payload\<rparr>] = Inr (pd_tree d)"
    and t: "Build H ShardSettlementLeafDomain ls = Inr tree" "Root tree = ShardSettlementRoot h"
      "\<lparr>Key = int64Key (pd_shardID d), Payload = ShardCommitmentPayload (pd_commitment d)\<rparr> \<in> set ls"
    and h: "ss_BatchID s' = BatchID h" "ss_WindowID s' = WindowID h" "MatchRoot_of H (header_roots h) = MatchRoot h"
      "BatchID_of H (PreviousBatchID h) (WindowID h) (MatchRoot h) = BatchID h"
  shows "\<exists>pk. shard_packages h tree d = Inr [pk] \<and> pk_Settlement pk = s' \<and> pk_Header pk = h \<and> VerifySettlementPackage H pk = Inr ()"
proof -
  obtain cp where cp: "Tree_Proof (pd_tree d) (uint32_bytes 0) = Inr cp"
    "Verify H ChunkLeafDomain payload cp (Root (pd_tree d))"
    using mk.complete [OF d(7), of "\<lparr>Key = uint32_bytes 0, Payload = payload\<rparr>"] by auto
  obtain sp where sp: "Tree_Proof tree (int64Key (pd_shardID d)) = Inr sp"
    "Verify H ShardSettlementLeafDomain (ShardCommitmentPayload (pd_commitment d)) sp (Root tree)"
    using mk.complete [OF t(1,3)] by auto
  show ?thesis
    using cp sp d t(2) h by (simp add: shard_packages_def VerifySettlementPackage_def Let_def)
qed

lemma map_res_concat_singletons:
  assumes "\<And>x. x \<in> set xs \<Longrightarrow> \<exists>y. f x = Inr [y] \<and> P x y"
  shows "\<exists>ys. map_res f xs = Inr (map (\<lambda>y. [y]) ys) \<and> list_all2 P xs ys"
  using assms
proof (induction xs)
  case (Cons x xs)
  then obtain ys where ys: "map_res f xs = Inr (map (\<lambda>y. [y]) ys)" "list_all2 P xs ys" by auto
  obtain y where "f x = Inr [y]" "P x y" using Cons.prems [of x] by auto
  with ys show ?case by (intro exI [of _ "y # ys"]) simp
qed simp

lemma packages_verify:
  assumes com: "map_res (commit_settlement H) ss = Inr (zip ss ls)" "length ls = length ss"
    and one: "\<forall>s \<in> set ss. ss_ChunkIndex s = 0 \<and> ss_ChunkCount s = 1 \<and> ss_WindowID s = WindowID h"
    and ids: "sorted (map ss_ShardID ss)" "distinct (map ss_ShardID ss)"
    and sidecar: "ShardSettlements (Sidecar p) = map (\<lambda>s. s\<lparr>ss_BatchID := BatchID h\<rparr>) ss" "Header p = h"
    and t: "Build H ShardSettlementLeafDomain ls = Inr tree" "Root tree = ShardSettlementRoot h"
    and h: "MatchRoot_of H (header_roots h) = MatchRoot h"
      "BatchID_of H (PreviousBatchID h) (WindowID h) (MatchRoot h) = BatchID h"
  shows "\<exists>packs. BuildSettlementPackages H p = Inr packs
     \<and> map pk_Settlement packs = ShardSettlements (Sidecar p)
     \<and> (\<forall>pk \<in> set packs. pk_Header pk = h \<and> VerifySettlementPackage H pk = Inr ())"
proof -
  let ?u = "\<lambda>s. s\<lparr>ss_BatchID := BatchID h\<rparr>"
  have l2: "list_all2 (\<lambda>s l. commit_settlement H s = Inr (s, l)) ss ls"
    using com unfolding map_res_eq_Inr list_all2_conv_all_nth by simp
  define good where "good = (\<lambda>s l d. \<exists>payload. shard_proof_data H (ss_ShardID s, [?u s]) = Inr d \<and> pd_settlements d = [?u s]
    \<and> sc_ShardID (pd_commitment d) = ss_ShardID s \<and> sc_ChunkCount (pd_commitment d) = 1
    \<and> l = \<lparr>Key = int64Key (pd_shardID d), Payload = ShardCommitmentPayload (pd_commitment d)\<rparr>
    \<and> SettlementPayload H s = Inr payload
    \<and> Build H ChunkLeafDomain [\<lparr>Key = uint32_bytes 0, Payload = payload\<rparr>] = Inr (pd_tree d)
    \<and> sc_ShardRoot (pd_commitment d) = Root (pd_tree d))"
  have "\<exists>d. good s l d" if "commit_settlement H s = Inr (s, l)" "s \<in> set ss" for s l
    by (rule commit_settlement_data [OF that(1), of "?u s" "BatchID h"])
      (use one that(2) in \<open>auto simp: good_def\<close>)
  then have "\<forall>s l. \<exists>d. commit_settlement H s = Inr (s, l) \<longrightarrow> s \<in> set ss \<longrightarrow> good s l d" by blast
  then obtain D where D: "\<And>s l. commit_settlement H s = Inr (s, l) \<Longrightarrow> s \<in> set ss \<Longrightarrow> good s l (D s l)"
    by metis
  define ds where "ds = map (\<lambda>(s, l). D s l) (zip ss ls)"
  have gd: "\<forall>i < length ss. good (ss ! i) (ls ! i) (ds ! i)" and lds: "length ds = length ss"
    using l2 D com(2) by (auto simp: ds_def list_all2_conv_all_nth)
  have grp: "sort_key fst (group_by_shard (map ?u ss)) = map (\<lambda>s. (ss_ShardID s, [?u s])) ss"
    using ids by (subst group_by_shard_distinct) (simp_all add: comp_def sort_key_id_if_sorted)
  have m1: "map_res (shard_proof_data H) (map (\<lambda>s. (ss_ShardID s, [?u s])) ss) = Inr ds"
    unfolding map_res_eq_Inr list_all2_conv_all_nth using gd lds by (auto simp: good_def)
  have m2: "map (\<lambda>d. \<lparr>Key = int64Key (pd_shardID d), Payload = ShardCommitmentPayload (pd_commitment d)\<rparr>) ds = ls"
    using gd lds com(2) by (intro nth_equalityI) (auto simp: good_def)
  have "\<exists>pk. shard_packages h tree d = Inr [pk] \<and> (pd_settlements d = [pk_Settlement pk] \<and> pk_Header pk = h \<and> VerifySettlementPackage H pk = Inr ())"
    if dd: "d \<in> set ds" for d
  proof -
    obtain i where i: "i < length ss" "d = ds ! i" using dd lds by (auto simp: in_set_conv_nth)
    then obtain payload where g: "pd_settlements d = [?u (ss ! i)]"
      "sc_ShardID (pd_commitment d) = ss_ShardID (ss ! i)" "sc_ChunkCount (pd_commitment d) = 1"
      "ls ! i = \<lparr>Key = int64Key (pd_shardID d), Payload = ShardCommitmentPayload (pd_commitment d)\<rparr>"
      "SettlementPayload H (ss ! i) = Inr payload"
      "Build H ChunkLeafDomain [\<lparr>Key = uint32_bytes 0, Payload = payload\<rparr>] = Inr (pd_tree d)"
      "sc_ShardRoot (pd_commitment d) = Root (pd_tree d)"
      using gd by (auto simp: good_def)
    have "ls ! i \<in> set ls" using i com(2) by simp
    then show ?thesis
      using shard_packages_verify [OF g(1), of H payload ls tree h] g one t h i by auto
  qed
  then obtain packs where packs: "map_res (shard_packages h tree) ds = Inr (map (\<lambda>y. [y]) packs)"
    "list_all2 (\<lambda>d pk. pd_settlements d = [pk_Settlement pk] \<and> pk_Header pk = h \<and> VerifySettlementPackage H pk = Inr ()) ds packs"
    using map_res_concat_singletons [of ds "shard_packages h tree"
        "\<lambda>d pk. pd_settlements d = [pk_Settlement pk] \<and> pk_Header pk = h \<and> VerifySettlementPackage H pk = Inr ()"] by auto
  have "BuildSettlementPackages H p = Inr packs"
    using packs(1) m1 m2 grp t by (simp add: BuildSettlementPackages_def sidecar comp_def)
  moreover have "map pk_Settlement packs = map ?u ss"
    using packs(2) gd lds by (intro nth_equalityI) (auto simp: list_all2_conv_all_nth good_def)
  moreover have "\<forall>pk \<in> set packs. pk_Header pk = h \<and> VerifySettlementPackage H pk = Inr ()"
    using packs(2) by (auto simp: list_all2_conv_all_nth in_set_conv_nth)
  ultimately show ?thesis by (simp add: sidecar)
qed

lemma built_packages_verify:
  assumes "btree_laws bt elems valid" "Build_proposal bt H mode frozen prev = Inr (p, out)"
  shows "\<exists>packs. BuildSettlementPackages H p = Inr packs
     \<and> map pk_Settlement packs = ShardSettlements (Sidecar p)
     \<and> (\<forall>pk \<in> set packs. pk_Header pk = Header p \<and> VerifySettlementPackage H pk = Inr ())"
proof (rule Build_proposal_Inr [OF assms])
  fix cuts ids ss ls roots
  assume c: "canonicalCuts (fw_Cuts frozen) = Inr (cuts, ids)"
    and st: "buildSettlements H (fw_WindowID frozen) ids (Results out) = Inr (ss, ls)"
    and r: "BuildRoots H (cutLeaves cuts) (resultLeaves H (Results out)) ls = Inr roots"
    and so: "sorted (map ir_IntentID (Results out))"
    and eqs: "ShardSettlements (Sidecar p) = map (\<lambda>s. s\<lparr>ss_BatchID := BatchID (Header p)\<rparr>) ss"
      "header_roots (Header p) = roots" "MatchRoot (Header p) = MatchRoot_of H roots"
      "BatchID (Header p) = BatchID_of H prev (fw_WindowID frozen) (MatchRoot_of H roots)"
      "PreviousBatchID (Header p) = prev" "WindowID (Header p) = fw_WindowID frozen"
  note cc = canonicalCuts_Inr [OF c] and bs = buildSettlements_Inr [OF st so]
  obtain tree where t: "Build H ShardSettlementLeafDomain ls = Inr tree" "Root tree = roots_ShardSettlementRoot roots"
    using r by (auto simp: BuildRoots_def BuildTrees_def bind_res_eq_Inr Trees_Roots_def)
  have sid: "map ss_ShardID ss = ids"
    unfolding bs(1) by (simp add: comp_def spec_settlement_def empty_settlement_def)
  show ?thesis
  proof (rule packages_verify [OF bs(2,3) _ _ _ eqs(1) refl t(1)])
    show "\<forall>s \<in> set ss. ss_ChunkIndex s = 0 \<and> ss_ChunkCount s = 1 \<and> ss_WindowID s = WindowID (Header p)"
      by (auto simp: bs(1) spec_settlement_def empty_settlement_def eqs)
    show "Root tree = ShardSettlementRoot (Header p)" using t(2) eqs(2) by (auto simp: header_roots_def)
  qed (use sid cc eqs in auto)
qed

text \<open>
  Every proposal the builder returns can be turned into settlement packages, one per
  settlement and in their order, each under the proposal's header, and every package passes the verification the shards run on it.
\<close>

lemma Build_packages_verify:
  assumes "btree_laws bt elems valid" "Builder_Build bt H mode frozen prev = Inr p"
  shows "\<exists>packs. BuildSettlementPackages H p = Inr packs
     \<and> map pk_Settlement packs = ShardSettlements (Sidecar p)
     \<and> (\<forall>pk \<in> set packs. pk_Header pk = Header p \<and> VerifySettlementPackage H pk = Inr ())"
proof -
  obtain out where "Build_proposal bt H mode frozen prev = Inr (p, out)"
    using assms(2) by (auto simp: Builder_Build_def BuildMeasured_def bind_res_eq_Inr)
  then show ?thesis by (rule built_packages_verify [OF assms(1)])
qed

section \<open>When building succeeds\<close>

definition good_cut :: "ShardCut \<Rightarrow> bool" where
  "good_cut c \<longleftrightarrow> 0 \<le> cut_ShardID c \<and> int64_range (cut_ShardID c) \<and> cut_PreviousHeight c \<le> cut_EndHeight c"

lemma check_cuts_succeeds:
  assumes "\<forall>c \<in> set cs. good_cut c" "distinct (map cut_ShardID cs)"
    "\<forall>p. previous = Some p \<longrightarrow> p \<notin> cut_ShardID ` set cs"
  shows "check_cuts previous cs = Inr ()"
  using assms
proof (induction previous cs rule: check_cuts.induct)
  case (2 previous c cs)
  have "check_cuts (Some (cut_ShardID c)) cs = Inr ()"
    by (rule "2.IH") (use "2.prems" in \<open>auto simp: fail_if_def good_cut_def\<close>)
  then show ?case using "2.prems" by (auto simp: fail_if_def good_cut_def)
qed simp

lemma canonicalCuts_succeeds:
  assumes "\<forall>c \<in> set cs. good_cut c" "distinct (map cut_ShardID cs)"
  shows "canonicalCuts cs = Inr (sort_key cut_ShardID cs, map cut_ShardID (sort_key cut_ShardID cs))"
proof -
  have "distinct (map cut_ShardID (sort_key cut_ShardID cs))"
    using assms(2) by (simp add: distinct_map)
  then show ?thesis
    using check_cuts_succeeds [of "sort_key cut_ShardID cs" None] assms by (simp add: canonicalCuts_def Let_def)
qed

lemma place_results_succeeds:
  assumes "\<forall>r \<in> set rs. SourceShard (ir_Intent r) \<in> fst ` set m \<and> DestinationShard (ir_Intent r) \<in> fst ` set m"
  shows "\<exists>m'. fold_res place_result m rs = Inr m' \<and> fst ` set m' = fst ` set m"
  using assms
proof (induction rs arbitrary: m)
  case (Cons r rs)
  have dom: "x \<in> fst ` set m \<longleftrightarrow> (\<exists>y. map_of m x = Some y)" for x m
    by (metis dom_map_of_conv_image_fst domIff not_None_eq)
  have "\<exists>m1. place_result m r = Inr m1 \<and> fst ` set m1 = fst ` set m"
    using Cons.prems dom [of _ m]
    by (auto simp: place_result_def Let_def map_of_alist_set keys_alist_set split: option.splits)
  then obtain m1 where m1: "place_result m r = Inr m1" "fst ` set m1 = fst ` set m" by auto
  then show ?case using Cons.IH [of m1] Cons.prems by auto
qed simp

lemma write_results_succeeds:
  assumes "\<forall>r \<in> set rs. IntentResult_Validate H r = Inr ()"
  shows "\<exists>b. write_results H rs = Inr b"
proof -
  have "map_res (\<lambda>r. bind_res (ResultPayload H r) (\<lambda>payload. Inr (write_bytes payload))) rs
      = Inr (map (\<lambda>r. write_bytes (hash_bytes (ir_IntentID r) @ write_bytes (big_bytes (matched_of r))
                @ write_bytes (big_bytes (fallback_of r)))) rs)"
    by (rule map_res_total) (use assms in \<open>simp add: ResultPayload_def\<close>)
  then show ?thesis by (simp add: write_results_def)
qed

lemma commit_settlement_succeeds:
  assumes "\<forall>r \<in> set rs. IntentResult_Validate H r = Inr ()" "0 \<le> s"
  shows "\<exists>st l. commit_settlement H (spec_settlement w rs s) = Inr (st, l) \<and> Key l = int64Key s"
proof -
  let ?st = "(spec_settlement w rs s)\<lparr>ss_Outgoing := sortResults (outgoing_of s rs), ss_Incoming := sortResults (incoming_of s rs)\<rparr>"
  obtain b1 where b1: "write_results H (sortResults (outgoing_of s rs)) = Inr b1"
    using write_results_succeeds [of "sortResults (outgoing_of s rs)" H] assms(1)
    by (auto simp: outgoing_of_def sortResults_def)
  obtain b2 where b2: "write_results H (sortResults (incoming_of s rs)) = Inr b2"
    using write_results_succeeds [of "sortResults (incoming_of s rs)" H] assms(1)
    by (auto simp: incoming_of_def sortResults_def)
  obtain payload where p: "SettlementPayload H ?st = Inr payload"
    using b1 b2 assms(2) by (simp add: SettlementPayload_def spec_settlement_def empty_settlement_def)
  obtain t where "Build H ChunkLeafDomain [\<lparr>Key = uint32_bytes 0, Payload = payload\<rparr>] = Inr t"
    using Build_ok [of ChunkLeafDomain "[\<lparr>Key = uint32_bytes 0, Payload = payload\<rparr>]" H]
    by (auto simp: ChunkLeafDomain_def)
  with p show ?thesis
    by (simp add: commit_settlement_def Let_def spec_settlement_def empty_settlement_def)
qed

lemma buildSettlements_succeeds:
  assumes "\<forall>r \<in> set rs. IntentResult_Validate H r = Inr ()" "\<forall>s \<in> set ids. 0 \<le> s"
    and "\<forall>r \<in> set rs. SourceShard (ir_Intent r) \<in> set ids \<and> DestinationShard (ir_Intent r) \<in> set ids"
  shows "\<exists>ss ls. buildSettlements H w ids rs = Inr (ss, ls) \<and> map Key ls = map int64Key ids"
proof -
  let ?init = "foldl (\<lambda>m s. alist_set s (empty_settlement w s) m) [] ids"
  have "fst ` set ?init = set ids"
    using map_of_initial [of w "[]" ids] by (auto simp flip: dom_map_of_conv_image_fst simp: dom_def split: if_splits)
  then obtain m where m: "fold_res place_result ?init rs = Inr m"
    using place_results_succeeds [of rs ?init] assms(3) by auto
  have e: "with_results s rs (empty_settlement w s) = spec_settlement w rs s" for s
    by (simp add: with_results_def spec_settlement_def empty_settlement_def)
  have mo: "map_of m s = Some (spec_settlement w rs s)" if "s \<in> set ids" for s
    using place_results_Inr(1) [OF m, of s] that by (simp add: map_of_initial e)
  define f where "f = (\<lambda>s. case map_of m s of None \<Rightarrow> Inl GoPanic | Some s \<Rightarrow> commit_settlement H s)"
  have "\<forall>s. \<exists>x. s \<in> set ids \<longrightarrow> f s = Inr x \<and> Key (snd x) = int64Key s"
    using commit_settlement_succeeds [OF assms(1)] assms(2) mo by (fastforce simp: f_def)
  then obtain g where g: "\<And>s. s \<in> set ids \<Longrightarrow> f s = Inr (g s) \<and> Key (snd (g s)) = int64Key s" by metis
  then have "map_res f ids = Inr (map g ids)" by (intro map_res_total) blast
  then show ?thesis using m g by (simp add: buildSettlements_def f_def [symmetric] comp_def)
qed

lemma inj_int64Key: "inj_on int64Key {i. int64_range i}"
  by (auto simp: inj_on_def int64Key_def intro: uint64_of_int64_inj)

lemma Build_succeeds:
  assumes bt: "btree_laws bt elems valid" and ne: "fw_Intents frozen \<noteq> []"
    and m: "MatchWithMode bt H (fw_Intents frozen) (NormalizeMode mode) = Inr out"
    and cuts: "\<forall>c \<in> set (fw_Cuts frozen). good_cut c" "distinct (map cut_ShardID (fw_Cuts frozen))"
    and cov: "\<forall>p \<in> set (fw_Intents frozen). SourceShard p \<in> cut_ShardID ` set (fw_Cuts frozen)
                \<and> DestinationShard p \<in> cut_ShardID ` set (fw_Cuts frozen)"
  shows "\<exists>p. Build_proposal bt H mode frozen prev = Inr (p, out)"
proof -
  let ?cs = "sort_key cut_ShardID (fw_Cuts frozen)"
  let ?ids = "map cut_ShardID ?cs"
  note c = canonicalCuts_succeeds [OF cuts] and r = Match_results [OF bt m]
  have srt: "sortResults (Results out) = Results out"
    using r by (auto simp: sortResults_def intro!: sort_key_id_if_sorted sorted_wrt_less_sorted)
  have ints: "ir_Intent ` set (Results out) = set (fw_Intents frozen)"
    using r by (metis list.set_map set_mset_mset)
  obtain ss ls where b: "buildSettlements H (fw_WindowID frozen) ?ids (Results out) = Inr (ss, ls)"
    "map Key ls = map int64Key ?ids"
    using buildSettlements_succeeds [of "Results out" H ?ids "fw_WindowID frozen"] r cuts(1) cov
    by (auto simp: good_cut_def simp flip: ints)
  have di: "distinct (map int64Key ?ids)"
    using cuts by (subst distinct_map) (auto simp: distinct_map good_cut_def intro!: inj_on_subset [OF inj_int64Key])
  have "distinct (map Key (cutLeaves ?cs))" using di by (simp add: cutLeaves_def comp_def)
  moreover have "distinct (map Key (resultLeaves H (Results out)))"
  proof -
    have "map Key (resultLeaves H (Results out)) = map hash_bytes (map ir_IntentID (Results out))"
      by (simp add: resultLeaves_def)
    moreover have "distinct (map ir_IntentID (Results out))"
      using r by (auto intro: strict_sorted_iff [THEN iffD1, THEN conjunct2])
    ultimately show ?thesis by (simp only: distinct_map) (simp add: inj_on_def)
  qed
  moreover have "distinct (map Key ls)" using di b(2) by simp
  ultimately have "\<exists>roots. BuildRoots H (cutLeaves ?cs) (resultLeaves H (Results out)) ls = Inr roots"
    using Build_ok [of CutLeafDomain _ H] Build_ok [of IntentResultLeafDomain _ H] Build_ok [of ShardSettlementLeafDomain ls H]
    by (fastforce simp: BuildRoots_def BuildTrees_def)
  then show ?thesis
    using ne c m b srt by (auto simp: Build_proposal_def Let_def)
qed

text \<open>
  C28. Building a batch succeeds on every non-empty window whose payments the matcher accepts and
  whose cut is well formed (one cut per shard, numbered by non-negative \<open>int64\<close> values, not going
  backwards) and has an entry for every shard that a payment names.
\<close>

theorem Builder_Build_succeeds:
  assumes bt: "btree_laws bt elems valid" and ne: "fw_Intents frozen \<noteq> []"
    and m: "MatchWithMode bt H (fw_Intents frozen) (NormalizeMode mode) = Inr out"
    and cuts: "\<forall>c \<in> set (fw_Cuts frozen). good_cut c" "distinct (map cut_ShardID (fw_Cuts frozen))"
    and cov: "\<forall>p \<in> set (fw_Intents frozen). SourceShard p \<in> cut_ShardID ` set (fw_Cuts frozen)
                \<and> DestinationShard p \<in> cut_ShardID ` set (fw_Cuts frozen)"
  shows "\<exists>p. Builder_Build bt H mode frozen prev = Inr p"
  using Build_succeeds [OF assms, of prev] by (auto simp: Builder_Build_def BuildMeasured_def)

section \<open>Witnesses\<close>

text \<open>A window of two shards with the two opposite example payments.\<close>

definition example_frozen :: FrozenWindow where
  "example_frozen =
     \<lparr>fw_WindowID = 1, fw_OpenedAt = 0, fw_SealedAt = 5, fw_CloseReason = ''timeout'',
      fw_Cuts = [\<lparr>cut_ShardID = 1, cut_PreviousHeight = 0, cut_EndHeight = 2, cut_EndBlockHash = 8\<rparr>,
                 \<lparr>cut_ShardID = 0, cut_PreviousHeight = 0, cut_EndHeight = 1, cut_EndBlockHash = 7\<rparr>],
      fw_Receipts = [], fw_Intents = [example_intent, back_intent]\<rparr>"

lemma example_frozen_simps [simp]:
  "fw_Intents example_frozen = [example_intent, back_intent]"
  "map cut_ShardID (fw_Cuts example_frozen) = [1, 0]"
  "\<forall>c \<in> set (fw_Cuts example_frozen). good_cut c"
  "cut_ShardID ` set (fw_Cuts example_frozen) = {0, 1}"
  "SourceShard example_intent = 0" "DestinationShard example_intent = 1"
  "SourceShard back_intent = 1" "DestinationShard back_intent = 0"
  by (auto simp: example_frozen_def good_cut_def int64_range_def example_intent_def back_intent_def)

lemma example_frozen_match:
  "\<exists>out. MatchWithMode list_btree length_hash (fw_Intents example_frozen) (NormalizeMode mode) = Inr out"
  using example_match by simp

lemma Builder_Build_succeeds_witness:
  "\<exists>p. Builder_Build list_btree length_hash ''full'' example_frozen 0 = Inr p"
proof -
  obtain out where "MatchWithMode list_btree length_hash (fw_Intents example_frozen) (NormalizeMode ''full'') = Inr out"
    using example_frozen_match by blast
  from Builder_Build_succeeds [OF lbt.btree_laws_axioms _ this, of 0] show ?thesis by simp
qed

lemma example_builds: "\<exists>p out. Build_proposal list_btree length_hash mode example_frozen 0 = Inr (p, out)"
proof -
  obtain out where "MatchWithMode list_btree length_hash (fw_Intents example_frozen) (NormalizeMode mode) = Inr out"
    using example_frozen_match by blast
  from Build_succeeds [OF lbt.btree_laws_axioms _ this, of 0] show ?thesis by auto
qed

lemma Build_settlements_balanced_witness:
  "\<exists>p out st. Build_proposal list_btree length_hash ''full'' example_frozen 0 = Inr (p, out)
     \<and> st \<in> set (ShardSettlements (Sidecar p)) \<and> ss_ShardID st = 0
     \<and> flow_total matched_of 0 1 (ss_Outgoing st) = flow_total matched_of 1 0 (ss_Incoming st)"
proof -
  obtain p out where b: "Build_proposal list_btree length_hash ''full'' example_frozen 0 = Inr (p, out)"
    using example_builds by blast
  have "ss_ShardID ` set (ShardSettlements (Sidecar p)) = {0, 1}" (is "?S = _")
    using Build_settlements [OF lbt.btree_laws_axioms b]
    by (simp add: image_image spec_settlement_def empty_settlement_def)
  then have "0 \<in> ?S" by simp
  then obtain st where st: "st \<in> set (ShardSettlements (Sidecar p))" "ss_ShardID st = 0"
    by (metis imageE)
  from Build_settlements_balanced [OF lbt.btree_laws_axioms b st(1), of 1] b st show ?thesis by auto
qed

lemma Build_packages_verify_witness:
  "\<exists>p packs. Builder_Build list_btree length_hash ''full'' example_frozen 0 = Inr p
     \<and> BuildSettlementPackages length_hash p = Inr packs
     \<and> (\<forall>pk \<in> set packs. VerifySettlementPackage length_hash pk = Inr ())"
proof -
  obtain p where b: "Builder_Build list_btree length_hash ''full'' example_frozen 0 = Inr p"
    using example_builds [of "''full''"] by (auto simp: Builder_Build_def BuildMeasured_def)
  from Build_packages_verify [OF lbt.btree_laws_axioms b] b show ?thesis by auto
qed

end
