(* ===== verification/Fallback_Correct.thy ===== *)
theory Fallback_Correct
  imports Registry_Correct Batch_Correct
begin

text \<open>
  Correctness of reserved fallbacks: a created record can be listed and decoded again and takes
  exactly its amount out of the escrow, records do not disturb one another, completion and the
  credit at the destination happen once.
\<close>

section \<open>Stored chunks\<close>

definition chunk_count :: "nat \<Rightarrow> nat" where
  "chunk_count n = (n + 31) div 32"

definition data_names :: "hash256 \<Rightarrow> nat \<Rightarrow> name set" where
  "data_names k len = (\<lambda>j. FbDataSlot k (word_of_nat j)) ` {..<chunk_count len}"

definition record_names :: "hash256 \<Rightarrow> nat \<Rightarrow> name set" where
  "record_names k len = {FbStatusSlot k, FbLengthSlot k} \<union> data_names k len"

lemma chunk_count_0 [simp]: "chunk_count 0 = 0"
  by (simp add: chunk_count_def)

lemma chunk_count_step: "0 < n \<Longrightarrow> chunk_count n = Suc (chunk_count (n - 32))"
  unfolding chunk_count_def by (cases "n \<le> 32") (auto simp: div_le_dividend)

lemma be_val_less: "be_val bs < 256 ^ length bs"
proof (induction bs rule: rev_induct)
  case (snoc b bs)
  have "unat b < 2 ^ LENGTH(8)" by (rule unsigned_less)
  then show ?case using snoc by simp
qed simp

lemma be_bytes_be_val: "be_bytes (length bs) (be_val bs) = bs"
proof (induction bs rule: rev_induct)
  case (snoc b bs)
  have "unat b < 2 ^ LENGTH(8)" by (rule unsigned_less)
  then have "unat b < 256" by simp
  moreover from this have "(256 * be_val bs + unat b) div 256 = be_val bs" "(256 * be_val bs + unat b) mod 256 = unat b"
    by simp_all
  ultimately show ?case using snoc by (simp del: of_nat_mod)
qed simp

lemma hash_bytes_chunk_word:
  assumes "length bs \<le> 32"
  shows "hash_bytes (chunk_word bs) = bs @ replicate (32 - length bs) 0"
proof -
  let ?x = "bs @ replicate (32 - length bs) 0"
  have l: "length ?x = 32" using assms by simp
  have "be_val ?x < 2 ^ 256" using be_val_less [of ?x] l by simp
  then have "unat (chunk_word bs) = be_val ?x" by (simp add: chunk_word_def unat_of_nat)
  then show ?thesis using be_bytes_be_val [of ?x] l by (simp add: hash_bytes_def)
qed

text \<open>The stored words of a byte string give the string back.\<close>

lemma concat_chunks:
  "\<exists>pad. concat (map (\<lambda>j. hash_bytes (chunk_word (take 32 (drop (32 * j) e)))) [0..<chunk_count (length e)]) = e @ pad"
proof (induction e rule: measure_induct_rule [where f = length])
  case (less e)
  show ?case
  proof (cases "e = []")
    case False
    let ?f = "\<lambda>e j. hash_bytes (chunk_word (take 32 (drop (32 * j) e)))"
    have cc: "chunk_count (length e) = Suc (chunk_count (length (drop 32 e)))"
      using False by (subst chunk_count_step) auto
    have "map (?f e) [0..<Suc n] = ?f e 0 # map (?f (drop 32 e)) [0..<n]" for n
      by (simp only: upt_conv_Cons [OF zero_less_Suc] map_Suc_upt [symmetric] list.map map_map comp_def)
        (simp add: add.commute)
    moreover have h: "?f e 0 = take 32 e @ replicate (32 - length (take 32 e)) 0"
      using hash_bytes_chunk_word [of "take 32 e"] by simp
    obtain pad where "concat (map (?f (drop 32 e)) [0..<chunk_count (length (drop 32 e))]) = drop 32 e @ pad"
      using less.IH [of "drop 32 e"] False by auto
    ultimately have "concat (map (?f e) [0..<chunk_count (length e)])
        = take 32 e @ replicate (32 - length (take 32 e)) 0 @ drop 32 e @ pad" (is "?L = _")
      using cc h by simp
    moreover have "replicate (32 - length (take 32 e)) 0 = [] \<or> drop 32 e = []" by (auto simp: min_def)
    ultimately show ?thesis by (metis append.assoc append_Nil append_take_drop_id)
  qed simp
qed

context storage
begin

lemma store_chunks_cell:
  assumes "\<forall>j < chunk_count (length e). FbDataSlot k (word_of_nat (i + j)) \<in> N" "m \<in> N"
    and "i + chunk_count (length e) \<le> 2 ^ 64"
  shows "cell G H (store_chunks G H k i e s) m =
    (case m of FbDataSlot k' w \<Rightarrow>
       if k' = k \<and> i \<le> unat w \<and> unat w < i + chunk_count (length e)
       then chunk_word (take 32 (drop (32 * (unat w - i)) e)) else cell G H s m
     | _ \<Rightarrow> cell G H s m)"
  using assms
proof (induction e arbitrary: i s rule: measure_induct_rule [where f = length])
  case (less e)
  show ?case
  proof (cases "e = []")
    case True
    then show ?thesis by (subst store_chunks.simps) (auto split: name.splits)
  next
    case False
    have cc: "chunk_count (length e) = Suc (chunk_count (length (drop 32 e)))"
      using False by (subst chunk_count_step) auto
    have iw: "unat (word_of_nat i :: uint64) = i" using less.prems(3) cc by (simp add: unat_of_nat)
    have n0: "FbDataSlot k (word_of_nat i) \<in> N" using less.prems(1) cc by (metis add.right_neutral zero_less_Suc)
    let ?s = "put G H (FbDataSlot k (word_of_nat i)) (chunk_word (take 32 e)) s"
    have ih: "cell G H (store_chunks G H k (i + 1) (drop 32 e) ?s) m =
      (case m of FbDataSlot k' w \<Rightarrow>
         if k' = k \<and> i + 1 \<le> unat w \<and> unat w < i + 1 + chunk_count (length (drop 32 e))
         then chunk_word (take 32 (drop (32 * (unat w - (i + 1))) (drop 32 e))) else cell G H ?s m
       | _ \<Rightarrow> cell G H ?s m)"
    proof (rule less.IH)
      show "length (drop 32 e) < length e" using False by simp
      show "\<forall>j<chunk_count (length (drop 32 e)). FbDataSlot k (word_of_nat (i + 1 + j)) \<in> N"
        using less.prems(1) cc by (metis Suc_less_eq add_Suc_right add_Suc plus_1_eq_Suc add.commute)
    qed (use less.prems cc in auto)
    have mw: "unat w = i \<longleftrightarrow> w = word_of_nat i" for w :: uint64
      using iw by (metis unsigned_word_eqI)
    have dr: "32 * (unat w - i) = 32 * (unat w - (i + 1)) + 32" if "i + 1 \<le> unat w" for w :: uint64
      using that by linarith
    show ?thesis
    proof (cases m)
      case (FbDataSlot k' w)
      show ?thesis
        using False ih n0 less.prems(2) mw [of w] dr [of w] cc
        by (subst store_chunks.simps) (auto simp: FbDataSlot fallback_cells cell_put add.commute)
    qed (use False ih n0 less.prems(2) in \<open>subst store_chunks.simps; simp add: fallback_cells cell_put\<close>)+
  qed
qed

lemma store_chunks_balance [simp]: "g_GetBalance G (store_chunks G H k i e s) a = g_GetBalance G s a"
proof (induction e arbitrary: i s rule: measure_induct_rule [where f = length])
  case (less e)
  show ?case by (cases "e = []"; subst store_chunks.simps) (simp_all add: less)
qed

lemma create_effects_balance:
  "g_GetBalance G (create_effects G H k e amt s) a
     = (if a = EscrowAccountAddress H then g_GetBalance G s a - amt else g_GetBalance G s a)"
  by (simp add: create_effects_def Let_def cells)

lemma create_effects_cell:
  assumes n: "{FbIndexSlot (outbox_count G H s), FbCountSlot} \<union> record_names k (length e) \<subseteq> N"
    and m: "m \<in> N" and len: "length e < 2 ^ 64"
  shows "cell G H (create_effects G H k e amt s) m =
    (case m of
       FbStatusSlot k' \<Rightarrow> if k' = k then 1 else cell G H s m
     | FbLengthSlot k' \<Rightarrow> if k' = k then word_of_nat (length e) else cell G H s m
     | FbIndexSlot c \<Rightarrow> if c = outbox_count G H s then k else cell G H s m
     | FbCountSlot \<Rightarrow> word_of_int (uint (outbox_count G H s + 1))
     | FbDataSlot k' w \<Rightarrow> if k' = k \<and> unat w < chunk_count (length e)
          then chunk_word (take 32 (drop (32 * unat w) e)) else cell G H s m
     | _ \<Rightarrow> cell G H s m)"
proof -
  have d: "\<forall>j < chunk_count (length e). FbDataSlot k (word_of_nat (0 + j)) \<in> N"
    using n by (auto simp: record_names_def data_names_def)
  have cc: "0 + chunk_count (length e) \<le> 2 ^ 64" using len by (simp add: chunk_count_def)
  have b: "g_BigToHash G (uint x) = word_of_int (uint x)" for x :: uint64
  proof -
    have "uint x < 2 ^ LENGTH(64)" by (rule unsigned_less)
    then show ?thesis by (simp add: BigToHash)
  qed
  have u: "uint (word_of_nat (length e) :: uint64) = int (length e)"
    using len by (simp add: uint_nat unat_of_nat)
  have lw: "g_BigToHash G (int (length e)) = word_of_nat (length e)"
    using len by (simp add: BigToHash)
  show ?thesis
    using n m store_chunks_cell [OF d m cc]
    by (cases m) (simp_all add: create_effects_def Let_def cells cell_put record_names_def b u lw BigToHash)
qed

end

section \<open>Listing\<close>

lemma map_res_snoc: "map_res f (xs @ [x]) = bind_res (map_res f xs) (\<lambda>ys. bind_res (f x) (\<lambda>y. Inr (ys @ [y])))"
  by (induction xs) (auto simp: bind_res_def split: sum.splits)

context geth_laws
begin

lemma outbox_status_cong:
  "cell G H s (FbStatusSlot k) = cell G H s' (FbStatusSlot k) \<Longrightarrow> outbox_status G H s k = outbox_status G H s' k"
  by (simp add: outbox_status_def cells)

lemma outbox_status_values:
  "cell G H s (FbStatusSlot k) = 0 \<Longrightarrow> outbox_status G H s k = StatusUnknown"
  "cell G H s (FbStatusSlot k) = 1 \<Longrightarrow> outbox_status G H s k = StatusPending"
  "cell G H s (FbStatusSlot k) = 2 \<Longrightarrow> outbox_status G H s k = StatusCompleted"
  by (simp_all add: outbox_status_def cells)

abbreviation stored_length :: "hasher \<Rightarrow> 's \<Rightarrow> hash256 \<Rightarrow> uint64" where
  "stored_length H s k \<equiv> word_of_int (uint (cell G H s (FbLengthSlot k)))"

lemma outbox_load_cells:
  "outbox_load G H gob s k =
     fail_if (stored_length H s k = 0) ErrFallbackPayload (
     let encoded = concat (map (\<lambda>j. hash_bytes (cell G H s (FbDataSlot k (word_of_nat j))))
                             [0..<unat ((stored_length H s k + 32 - 1) div 32)])
     in fail_if (unat (stored_length H s k) > length encoded) GoPanic (
        wrap_err ErrFallbackPayload (dec gob (take (unat (stored_length H s k)) encoded))))"
  by (simp add: outbox_load_def cells Let_def)

lemma chunks_le: "unat (((l :: uint64) + 32 - 1) div 32) \<le> chunk_count (unat l)"
proof -
  have e: "l + 32 - 1 = l + 31" by simp
  have "unat (l + 31) = (unat l + 31) mod 2 ^ 64" by (simp add: unat_word_ariths)
  then have "unat (l + 31) \<le> unat l + 31" by (simp only: mod_less_eq_dividend)
  then have "unat (l + 31) div 32 \<le> (unat l + 31) div 32" by (rule div_le_mono)
  moreover have "unat ((l + 31) div 32) = unat (l + 31) div 32" by (simp only: unat_div) simp
  ultimately show ?thesis by (simp only: e chunk_count_def)
qed

end

definition outbox_names :: "'s geth \<Rightarrow> hasher \<Rightarrow> 's \<Rightarrow> hash256 \<Rightarrow> nat \<Rightarrow> name set" where
  "outbox_names G H s k len =
     (let n = unat (outbox_count G H s); key = (\<lambda>j. cell G H s (FbIndexSlot (word_of_nat j))) in
      {FbCountSlot} \<union> (\<lambda>j. FbIndexSlot (word_of_nat j)) ` {..n} \<union> record_names k len
      \<union> (\<Union>j < n. record_names (key j) (unat (get_uint64 G H s (recordSlot H lengthDomain (key j))))))"

context storage
begin

lemma pending_at_frame:
  assumes "FbIndexSlot (word_of_nat j) \<in> N" "FbIndexSlot (outbox_count G H s) \<in> N" "FbCountSlot \<in> N" "record_names k (length e) \<subseteq> N"
    and key: "key = cell G H s (FbIndexSlot (word_of_nat j))" "key \<noteq> k"
    and rn: "record_names key (unat (get_uint64 G H s (recordSlot H lengthDomain key))) \<subseteq> N"
    and j: "word_of_nat j \<noteq> outbox_count G H s" and len: "length e < 2 ^ 64"
  shows "pending_at G H gob (create_effects G H k e amt s) j = pending_at G H gob s j"
proof -
  let ?s = "create_effects G H k e amt s"
  note c = create_effects_cell [of s k e _ amt, OF _ _ len]
  have sub: "{FbIndexSlot (outbox_count G H s), FbCountSlot} \<union> record_names k (length e) \<subseteq> N" using assms by simp
  have k: "cell G H ?s (FbIndexSlot (word_of_nat j)) = key"
    using c [OF sub assms(1)] j key by simp
  have st: "cell G H ?s (FbStatusSlot key) = cell G H s (FbStatusSlot key)"
    using c [OF sub, of "FbStatusSlot key"] rn key(2) by (simp add: record_names_def)
  have ln: "cell G H ?s (FbLengthSlot key) = cell G H s (FbLengthSlot key)"
    using c [OF sub, of "FbLengthSlot key"] rn key(2) by (simp add: record_names_def)
  have dt: "cell G H ?s (FbDataSlot key (word_of_nat i)) = cell G H s (FbDataSlot key (word_of_nat i))"
    if "i < unat ((stored_length H s key + 32 - 1) div 32)" for i
  proof -
    have "i < chunk_count (unat (stored_length H s key))" using that chunks_le order_less_le_trans by blast
    then have "FbDataSlot key (word_of_nat i) \<in> N"
      using rn by (auto simp: record_names_def data_names_def fallback_cells)
    then show ?thesis using c [OF sub, of "FbDataSlot key (word_of_nat i)"] key(2) by simp
  qed
  have "outbox_load G H gob ?s key = outbox_load G H gob s key"
  proof -
    let ?n = "unat ((stored_length H s key + 32 - 1) div 32)"
    have "map (\<lambda>i. hash_bytes (cell G H ?s (FbDataSlot key (word_of_nat i)))) [0..<?n]
        = map (\<lambda>i. hash_bytes (cell G H s (FbDataSlot key (word_of_nat i)))) [0..<?n]"
      by (rule map_cong [OF refl]) (simp only: dt set_upt atLeastLessThan_iff)
    then show ?thesis unfolding outbox_load_cells ln by (simp only:)
  qed
  then show ?thesis
    using outbox_status_cong [OF st] k key by (simp add: pending_at_def fallback_cells Let_def)
qed

lemma pending_at_new:
  assumes n: "{FbIndexSlot (outbox_count G H s), FbCountSlot} \<union> record_names k (length e) \<subseteq> N"
    and len: "e \<noteq> []" "length e < 2 ^ 63" and d: "dec gob e = Inr item"
    and j: "word_of_nat j = outbox_count G H s"
  shows "pending_at G H gob (create_effects G H k e amt s) j = Inr [item]"
proof -
  let ?s = "create_effects G H k e amt s"
  have l64: "length e < 2 ^ 64" using len by simp
  note c = create_effects_cell [OF n _ l64, of _ amt]
  have k: "cell G H ?s (FbIndexSlot (word_of_nat j)) = k" using c [of "FbIndexSlot (word_of_nat j)"] n j by simp
  have "cell G H ?s (FbStatusSlot k) = 1" using c [of "FbStatusSlot k"] n by (simp add: record_names_def)
  then have st: "outbox_status G H ?s k = StatusPending" by (rule outbox_status_values)
  have "cell G H ?s (FbLengthSlot k) = word_of_nat (length e)"
    using c [of "FbLengthSlot k"] n by (simp add: record_names_def)
  then have sl: "stored_length H ?s k = word_of_nat (length e)"
    using low64 [of "int (length e)"] by (simp only: of_int_of_nat_eq)
  have ul: "unat (word_of_nat (length e) :: uint64) = length e" using l64 by (simp add: unat_of_nat)
  have wl: "word_of_nat (length e) + 32 - 1 = (word_of_nat (length e + 31) :: uint64)" by simp
  have cc: "unat ((word_of_nat (length e) + 32 - 1 :: uint64) div 32) = chunk_count (length e)"
    unfolding wl using len(2) by (simp add: unat_div chunk_count_def unat_of_nat del: of_nat_add)
  have dt: "cell G H ?s (FbDataSlot k (word_of_nat i)) = chunk_word (take 32 (drop (32 * i) e))"
    if i: "i < chunk_count (length e)" for i
  proof -
    have "unat (word_of_nat i :: uint64) = i" using i len(2) by (simp add: unat_of_nat chunk_count_def)
    moreover have "FbDataSlot k (word_of_nat i) \<in> N" using n i by (auto simp: record_names_def data_names_def)
    ultimately show ?thesis using c [of "FbDataSlot k (word_of_nat i)"] i by simp
  qed
  obtain pad where pad: "concat (map (\<lambda>j. hash_bytes (chunk_word (take 32 (drop (32 * j) e)))) [0..<chunk_count (length e)]) = e @ pad"
    using concat_chunks by blast
  have m: "map (\<lambda>j. hash_bytes (cell G H ?s (FbDataSlot k (word_of_nat j)))) [0..<chunk_count (length e)]
      = map (\<lambda>j. hash_bytes (chunk_word (take 32 (drop (32 * j) e)))) [0..<chunk_count (length e)]"
    using dt by simp
  have nz: "(word_of_nat (length e) :: uint64) \<noteq> 0" using ul len(1) by (metis length_0_conv unat_0)
  have "outbox_load G H gob ?s k = Inr item"
    unfolding outbox_load_cells sl cc m pad Let_def using nz d by (simp add: ul)
  then show ?thesis using k st by (simp add: pending_at_def fallback_cells Let_def)
qed

end

section \<open>Creation, completion and credit\<close>

context geth_laws
begin

lemma Create_fresh:
  assumes "Create G H gob item s = (s', Inr u)" "fallback_Status G H s (fallback_Key item) = StatusUnknown"
  obtains a amt e where "fb_Amount item = Some a" "0 < a" "uint amt = a" "enc gob item = Inr e"
    "amt \<le> g_GetBalance G s (EscrowAccountAddress H)"
    "s' = create_effects G H (recordKey H (fallback_Key item)) e amt s"
proof -
  obtain a amt e where c: "fb_Amount item = Some a" "0 < a" "enc gob item = Inr e" "g_FromBig G a = Some amt"
    "amt \<le> g_GetBalance G s (EscrowAccountAddress H)" "s' = create_effects G H (recordKey H (fallback_Key item)) e amt s"
    using assms by (auto simp: Create_def fallback_Status_def Let_def not_le split: option.splits if_splits sum.splits)
  moreover have "uint amt = a" using FromBig_Some [OF _ c(4)] c(2) by simp
  ultimately show thesis using that by blast
qed

lemma Create_known:
  assumes "fallback_Status G H s (fallback_Key item) \<noteq> StatusUnknown"
  shows "fst (Create G H gob item s) = s"
  using assms by (auto simp: Create_def fallback_Status_def Let_def split: option.splits)

lemma Create_Inl: "Create G H gob item s = (s', Inl e) \<Longrightarrow> s' = s"
  by (auto simp: Create_def Let_def split: option.splits if_splits sum.splits)

end

text \<open>
  C33. A fallback that is new to a well-formed outbox (every listed record is pending or completed)
  is listed after its creation: \<open>ListPending\<close> returns what it returned before followed by the new
  item, decoded from the stored words exactly as it was given, and the escrow has lost exactly its
  amount. The hash does not collide on the slots of the listed records and the new one, and \<open>gob\<close>
  decodes what it encoded.
\<close>

theorem Create_ListPending:
  assumes G: "geth_laws G" and k: "k = recordKey H (fallback_Key item)"
    and inj: "inj_on H (preimage ` outbox_names G H s k (length e))"
    and enc: "enc gob item = Inr e" "dec gob e = Inr item" "e \<noteq> []" "length e < 2 ^ 63"
    and c: "Create G H gob item s = (s', Inr u)" "fallback_Status G H s (fallback_Key item) = StatusUnknown"
    and room: "outbox_count G H s \<noteq> - 1"
    and wf: "\<forall>j < unat (outbox_count G H s).
      outbox_status G H s (cell G H s (FbIndexSlot (word_of_nat j))) \<noteq> StatusUnknown"
    and l: "ListPending G H gob s = Inr items"
  shows "ListPending G H gob s' = Inr (items @ [item]) \<and> fb_Amount item \<noteq> None
    \<and> uint (EscrowBalance G H s') = uint (EscrowBalance G H s) - the (fb_Amount item)"
proof (rule geth_laws.Create_fresh [OF G c])
  fix a amt e'
  assume it: "fb_Amount item = Some a" "uint amt = a" and e': "enc gob item = Inr e'"
    and le: "amt \<le> g_GetBalance G s (EscrowAccountAddress H)"
    and s0: "s' = create_effects G H (recordKey H (fallback_Key item)) e' amt s"
  have s': "s' = create_effects G H k e amt s" using s0 e' enc(1) k by simp
  let ?N = "outbox_names G H s k (length e)" and ?n = "unat (outbox_count G H s)"
  have st: "storage G H ?N" by (rule storageI [OF G inj])
  have sub: "{FbIndexSlot (outbox_count G H s), FbCountSlot} \<union> record_names k (length e) \<subseteq> ?N"
    by (auto simp: outbox_names_def Let_def intro: image_eqI [of _ _ ?n])
  have l64: "length e < 2 ^ 64" using enc(4) by simp
  have old: "pending_at G H gob s' j = pending_at G H gob s j" if j: "j < ?n" for j
  proof -
    let ?key = "cell G H s (FbIndexSlot (word_of_nat j))"
    have "outbox_status G H s k = StatusUnknown" using c(2) k by (simp add: fallback_Status_def)
    then have nk: "?key \<noteq> k" using wf j by metis
    have "?n < 2 ^ LENGTH(64)" by (rule unsigned_less)
    then have "unat (word_of_nat j :: uint64) = j" using j by (simp add: unat_of_nat)
    then have jc: "word_of_nat j \<noteq> outbox_count G H s" using j by auto
    show ?thesis unfolding s'
      by (rule storage.pending_at_frame [OF st _ _ _ _ refl nk _ jc l64])
        (use sub j in \<open>auto simp: outbox_names_def Let_def\<close>)
  qed
  have new: "pending_at G H gob s' ?n = Inr [item]"
    unfolding s' by (rule storage.pending_at_new [OF st sub enc(3,4,2)]) simp
  have "cell G H s' FbCountSlot = word_of_int (uint (outbox_count G H s + 1))"
    unfolding s' using storage.create_effects_cell [OF st sub _ l64, of FbCountSlot amt] sub by simp
  then have "outbox_count G H s' = outbox_count G H s + 1"
    by (simp only: fallback_cells(1) [of G H s'] geth_laws.HashBig [OF G] low64) simp
  moreover have "unat (outbox_count G H s + 1) = Suc ?n"
    using uint_add_1 [OF room] by (simp only: unat_eq_nat_uint) (simp add: nat_add_distrib)
  ultimately have "[0..<unat (outbox_count G H s')] = [0..<?n] @ [?n]" by simp
  moreover have "map_res (pending_at G H gob s') [0..<?n] = map_res (pending_at G H gob s) [0..<?n]"
    using old by (intro map_res_cong) auto
  moreover obtain xs where "map_res (pending_at G H gob s) [0..<?n] = Inr xs" "items = concat xs"
    using l by (auto simp: ListPending_def bind_res_eq_Inr)
  ultimately have "ListPending G H gob s' = Inr (items @ [item])"
    using new by (simp add: ListPending_def map_res_snoc)
  moreover have "EscrowBalance G H s' = EscrowBalance G H s - amt"
    by (simp add: EscrowBalance_def s' storage.create_effects_balance [OF st])
  ultimately show ?thesis
    using it le by (simp add: EscrowBalance_def uint_sub_if' word_le_def)
qed

text \<open>
  C34. A fallback is credited at most once: a failed credit and one whose key was credited before
  leave the state untouched; otherwise a success pays the recipient exactly the item's amount (on
  top of the initial balance when the account does not exist yet), changes no other balance and
  marks the key.
\<close>

theorem ExecuteCredit_once:
  assumes G: "geth_laws G"
  shows "(snd (ExecuteCredit G H shardID item confirmed s) = Inl e \<longrightarrow> fst (ExecuteCredit G H shardID item confirmed s) = s)
    \<and> (IsCreditExecuted G H s (fallback_Key item) \<longrightarrow> fst (ExecuteCredit G H shardID item confirmed s) = s)
    \<and> (\<not> IsCreditExecuted G H s (fallback_Key item) \<longrightarrow> ExecuteCredit G H shardID item confirmed s = (s', Inr u) \<longrightarrow>
        IsCreditExecuted G H s' (fallback_Key item) \<and> fb_Amount item \<noteq> None \<and> 0 < the (fb_Amount item)
        \<and> fb_DestinationShard item = shardID \<and> fb_BatchID item = BatchID confirmed
        \<and> (\<forall>a. g_GetBalance G s' a =
            (if a = fb_Recipient item
             then (if g_Exist G s a then g_GetBalance G s a else fallbackInitialBalance) + word_of_int (the (fb_Amount item))
             else g_GetBalance G s a)))"
proof (intro conjI impI)
  let ?k = "recordKey H (fallback_Key item)"
  show "fst (ExecuteCredit G H shardID item confirmed s) = s" if "snd (ExecuteCredit G H shardID item confirmed s) = Inl e"
    using that by (auto simp: ExecuteCredit_def Let_def split: sum.splits option.splits if_splits)
  show "fst (ExecuteCredit G H shardID item confirmed s) = s" if "IsCreditExecuted G H s (fallback_Key item)"
    using that by (auto simp: ExecuteCredit_def IsCreditExecuted_def Let_def split: sum.splits option.splits)
  assume n: "\<not> IsCreditExecuted G H s (fallback_Key item)" and x: "ExecuteCredit G H shardID item confirmed s = (s', Inr u)"
  obtain a amt where c: "credit_checks H shardID item confirmed = Inr ()" "fb_Amount item = Some a"
    "g_FromBig G a = Some amt" "s' = credit_effects G H ?k (fb_Recipient item) amt s"
    using x n by (auto simp: ExecuteCredit_def IsCreditExecuted_def Let_def bind_res_eq_Inr deref_big_eq_Inr split: sum.splits option.splits if_splits)
  have m: "fb_DestinationShard item = shardID" "fb_BatchID item = BatchID confirmed"
    "credit_matches item (ss_Outgoing (pk_Settlement (fb_Proof item))) = Inr ()"
    using c(1) by (auto simp: credit_checks_def fail_if_eq_Inr split: sum.splits)
  have pos: "0 < a" using m(3) c(2) by (auto simp: credit_matches_def res_elims split: option.splits)
  then have "a < 2 ^ 256" "uint amt = a" using geth_laws.FromBig_Some [OF G _ c(3)] by auto
  then have aw: "word_of_int a = amt" by (metis word_of_int_uint)
  show "fb_Amount item \<noteq> None" "0 < the (fb_Amount item)" using c(2) pos by simp_all
  show "fb_DestinationShard item = shardID" "fb_BatchID item = BatchID confirmed" using m by simp_all
  show "IsCreditExecuted G H s' (fallback_Key item)"
    by (simp add: IsCreditExecuted_def c(4) credit_effects_def geth_laws.SetState [OF G] geth_laws.BigToHash [OF G])
  show "\<forall>a. g_GetBalance G s' a =
    (if a = fb_Recipient item
     then (if g_Exist G s a then g_GetBalance G s a else fallbackInitialBalance) + word_of_int (the (fb_Amount item))
     else g_GetBalance G s a)"
    using c(2) aw
    by (simp add: c(4) credit_effects_def ensureStorageAccount_registry geth_laws.SetState [OF G]
        geth_laws.ensureRegistryAccount_simps [OF G] geth_laws.AddBalance [OF G] geth_laws.credit_recipient_simps [OF G])
qed

section \<open>Witnesses\<close>

text \<open>
  The window with the example payment alone: nothing is matched, so the settlement of shard 0
  carries one outgoing result whose whole amount is a fallback, for any hash.
\<close>

definition solo_frozen :: FrozenWindow where
  "solo_frozen = example_frozen\<lparr>fw_Intents := [example_intent]\<rparr>"

definition solo_result :: "hasher \<Rightarrow> IntentResult" where
  "solo_result H = \<lparr>ir_Intent = example_intent, ir_IntentID = pid H example_intent, ir_MatchedAmount = Some 0,
     ir_FallbackAmount = Some 300\<rparr>"

lemma solo_match: "\<exists>out. MatchWithMode list_btree H (fw_Intents solo_frozen) (NormalizeMode mode) = Inr out"
proof -
  have "acceptable H 11 example_intent"
    unfolding acceptable_iff
    by (simp add: example_intent_def amount_of_def big_bytes_def big_bytes_nat.simps)
  then have "matchable H [example_intent]" by (simp add: matchable_def) (simp add: example_intent_def)
  then have "\<exists>out. MatchWithMode list_btree H [example_intent] (NormalizeMode mode) = Inr out"
    using lbt.Match_succeeds by blast
  then show ?thesis by (simp add: solo_frozen_def)
qed

lemma solo_outgoing:
  assumes "Build_proposal list_btree H mode solo_frozen prev = Inr (p, out)"
  shows "IntentResults (Sidecar p) = [solo_result H]"
proof -
  let ?rs = "IntentResults (Sidecar p)"
  have r: "mset (map ir_Intent ?rs) = {#example_intent#}" "\<forall>r \<in> set ?rs. IntentResult_Validate H r = Inr ()"
    using Build_results [OF lbt.btree_laws_axioms assms] by (auto simp: solo_frozen_def)
  then have "map ir_Intent ?rs = [example_intent]" by (simp only: mset_single_iff)
  then obtain x where x: "?rs = [x]" "ir_Intent x = example_intent" by (cases ?rs) auto
  then have c: "conserving x" "ir_IntentID x = pid H example_intent"
    using r(2) by (auto simp: IntentResult_Validate_ok_iff pid_def)
  have "flow_total matched_of 0 1 ?rs = flow_total matched_of 1 0 ?rs"
    by (rule Build_proposal_Inr [OF lbt.btree_laws_axioms assms]) (simp add: Match_balanced [OF lbt.btree_laws_axioms])
  then have "matched_of x = 0" using x by (simp add: flow_total_def from_to_def)
  then show ?thesis
    using conserving_amounts [OF c(1)] x c(2) unfolding x(1) solo_result_def by (cases x) auto
qed

lemma solo_package:
  obtains h pk where "VerifySettlementPackage H pk = Inr ()" "pk_Header pk = h" "ss_ShardID (pk_Settlement pk) = 0"
    "ss_Outgoing (pk_Settlement pk) = [solo_result H]" "ss_Incoming (pk_Settlement pk) = []"
    "ss_BatchID (pk_Settlement pk) = BatchID h" "BatchID h = BatchID_of H 0 1 (MatchRoot h)"
    "ss_ChunkIndex (pk_Settlement pk) = 0"
proof -
  obtain out where "MatchWithMode list_btree H (fw_Intents solo_frozen) (NormalizeMode ''full'') = Inr out"
    using solo_match by blast
  moreover have "\<forall>q \<in> set (fw_Intents solo_frozen). SourceShard q \<in> cut_ShardID ` set (fw_Cuts solo_frozen)
      \<and> DestinationShard q \<in> cut_ShardID ` set (fw_Cuts solo_frozen)" by (simp add: solo_frozen_def)
  ultimately obtain p where p: "Build_proposal list_btree H ''full'' solo_frozen 0 = Inr (p, out)"
    using Build_succeeds [OF lbt.btree_laws_axioms, of solo_frozen H "''full''" out 0]
    by (auto simp: solo_frozen_def)
  obtain packs where packs: "map pk_Settlement packs = ShardSettlements (Sidecar p)"
    "\<forall>pk \<in> set packs. pk_Header pk = Header p \<and> VerifySettlementPackage H pk = Inr ()"
    using built_packages_verify [OF lbt.btree_laws_axioms p] by blast
  note st = Build_settlements [OF lbt.btree_laws_axioms p]
  have "ShardSettlements (Sidecar p) = map (\<lambda>s. (spec_settlement 1 [solo_result H] s)\<lparr>ss_BatchID := BatchID (Header p)\<rparr>) [0, 1]"
    using st unfolding solo_outgoing [OF p] by (simp add: solo_frozen_def example_frozen_def)
  with packs(1) obtain pk where pk: "pk \<in> set packs"
    "pk_Settlement pk = (spec_settlement 1 [solo_result H] 0)\<lparr>ss_BatchID := BatchID (Header p)\<rparr>"
    by (metis (no_types, lifting) list.set_intros(1) list.simps(9) map_eq_Cons_conv)
  have v: "VerifySettlementPackage H pk = Inr ()" using packs(2) pk(1) by blast
  have hd: "PreviousBatchID (pk_Header pk) = 0" "WindowID (pk_Header pk) = 1"
    using packs(2) pk(1) by (auto intro: Build_proposal_Inr [OF lbt.btree_laws_axioms p] simp: solo_frozen_def example_frozen_def)
  show thesis
  proof (rule that [OF v refl])
    show "ss_Outgoing (pk_Settlement pk) = [solo_result H]" "ss_Incoming (pk_Settlement pk) = []"
      "ss_ShardID (pk_Settlement pk) = 0" "ss_ChunkIndex (pk_Settlement pk) = 0"
      using pk(2) by (simp_all add: spec_settlement_def empty_settlement_def outgoing_of_def incoming_of_def solo_result_def)
    show "ss_BatchID (pk_Settlement pk) = BatchID (pk_Header pk)"
      using v by (auto simp: VerifySettlementPackage_def Let_def res_elims)
    show "BatchID (pk_Header pk) = BatchID_of H 0 1 (MatchRoot (pk_Header pk))"
      using v hd by (auto simp: VerifySettlementPackage_def Let_def res_elims)
  qed
qed

text \<open>The fallback of that settlement, credited by shard 1.\<close>

lemma ExecuteCredit_once_witness:
  "\<exists>item h s'. ExecuteCredit mem_geth length_hash 1 item h example_state = (s', Inr ())
     \<and> fb_Recipient item = 2 \<and> IsCreditExecuted mem_geth length_hash s' (fallback_Key item)
     \<and> g_GetBalance mem_geth s' 2 = fallbackInitialBalance + 300
     \<and> fst (ExecuteCredit mem_geth length_hash 1 item h s') = s'"
proof -
  obtain h pk where pk: "VerifySettlementPackage length_hash pk = Inr ()" "pk_Header pk = h"
    "ss_Outgoing (pk_Settlement pk) = [solo_result length_hash]" "ss_BatchID (pk_Settlement pk) = BatchID h"
    by (rule solo_package [of length_hash])
  define item where "item = fallback_item pk (solo_result length_hash)"
  have f: "fb_Amount item = Some 300" "fb_Recipient item = 2" "fb_DestinationShard item = 1"
    by (simp_all add: item_def fallback_item_def solo_result_def example_intent_def)
  have "credit_checks length_hash 1 item h = Inr ()"
    using pk by (simp add: credit_checks_def item_def fallback_item_def credit_matches_def)
      (simp add: solo_result_def)
  moreover have n: "\<not> IsCreditExecuted mem_geth length_hash example_state (fallback_Key item)"
    by (simp add: IsCreditExecuted_def mem_geth_def example_state_def)
  moreover have "g_FromBig mem_geth 300 = Some 300" by (simp add: mem_geth_def)
  ultimately obtain s' where x: "ExecuteCredit mem_geth length_hash 1 item h example_state = (s', Inr ())"
    using f by (simp add: ExecuteCredit_def IsCreditExecuted_def)
  have "\<not> g_Exist mem_geth example_state 2" by (simp add: mem_geth_def example_state_def)
  with ExecuteCredit_once [OF mem.geth_laws_axioms, of length_hash 1 item h example_state _ s' "()"]
    ExecuteCredit_once [OF mem.geth_laws_axioms, of length_hash 1 item h s' _ s' "()"] x n f
  show ?thesis by (intro exI [of _ item] exI [of _ h] exI [of _ s']) simp
qed

text \<open>
  An item created in an empty outbox, with its record key at place 8 of the table and a codec that
  writes one byte for it.
\<close>

definition example_package :: SettlementPackage where
  "example_package =
     \<lparr>pk_Header = \<lparr>BatchID = 9, PreviousBatchID = 0, WindowID = 1, MatcherMode = [], CutRoot = 0, IntentResultRoot = 0,
        ShardSettlementRoot = 0, MatchRoot = 0, Cuts = []\<rparr>,
      pk_Settlement = (empty_settlement 1 0)\<lparr>ss_BatchID := 9\<rparr>,
      pk_ChunkProof = \<lparr>Steps = []\<rparr>, pk_ShardCommitment = \<lparr>sc_ShardID = 0, sc_ShardRoot = 0, sc_ChunkCount = 1\<rparr>,
      pk_ShardProof = \<lparr>Steps = []\<rparr>\<rparr>"

definition example_item :: ReservedFallback where
  "example_item = fallback_item example_package example_result"

definition example_gob :: "ReservedFallback codec" where
  "example_gob = \<lparr>enc = (\<lambda>_. Inr [1]), dec = (\<lambda>_. Inr example_item)\<rparr>"

definition outbox_example_names :: "name list" where
  "outbox_example_names = [RecordName 7 9, FbCountSlot, FbIndexSlot 0, FbStatusSlot 8, FbLengthSlot 8, FbDataSlot 8 0]
     @ intent_name_list 7"

definition outbox_hash :: hasher where
  "outbox_hash = example_hash outbox_example_names"

lemma table_eighth:
  assumes "length e = 31" "length g = 33" "length c = 150" "length b = 98"
  shows "table_index ([[], [0], [0, 0], [0, 0, 0], e, g, c] @ b # ys) b = 8"
  using assms by auto

lemma example_record_key: "example_hash (RecordName i b # ns) (preimage (RecordName i b)) = 8"
proof -
  have l: "length (str_bytes escrowAddressDomain) = 31" "length (str_bytes registryAddressDomain) = 33"
    "length (preimage (RecordName i b)) = 98"
    by (simp_all add: escrowAddressDomain_def registryAddressDomain_def preimage_def recordKeyDomain_def)
  show ?thesis
    unfolding example_hash_def table_hash_def list.map table_eighth [OF l(1,2) example_bytes(2) l(3)] by simp
qed

interpretation ob: storage mem_geth outbox_hash "set outbox_example_names"
proof (rule storageI [OF mem.geth_laws_axioms])
  have "length outbox_example_names < 1000" by (simp add: outbox_example_names_def intent_name_list_def)
  then show "inj_on outbox_hash (preimage ` set outbox_example_names)"
    unfolding outbox_hash_def by (rule example_hash_inj [OF subset_refl])
qed

lemma outbox_example_cells:
  "cell mem_geth outbox_hash (reserved_state outbox_hash) FbCountSlot = 0"
  "cell mem_geth outbox_hash (reserved_state outbox_hash) (FbStatusSlot 8) = 0"
proof -
  have sub: "intent_names 7 \<subseteq> set outbox_example_names"
    by (auto simp: outbox_example_names_def set_intent_name_list)
  have m: "FbCountSlot \<in> set outbox_example_names" "FbStatusSlot 8 \<in> set outbox_example_names"
    by (simp_all add: outbox_example_names_def)
  show "cell mem_geth outbox_hash (reserved_state outbox_hash) FbCountSlot = 0"
    "cell mem_geth outbox_hash (reserved_state outbox_hash) (FbStatusSlot 8) = 0"
    using reserved_state_cell [OF ob.storage_axioms sub m(1)] reserved_state_cell [OF ob.storage_axioms sub m(2)]
    by simp_all
qed

lemma reserved_state_escrow: "g_GetBalance mem_geth (reserved_state H) 5 = 300"
  by (simp add: reserved_state_def) (simp add: mem_geth_def)

lemma Create_ListPending_witness:
  "\<exists>s'. Create mem_geth outbox_hash example_gob example_item (reserved_state outbox_hash) = (s', Inr ())
     \<and> ListPending mem_geth outbox_hash example_gob s' = Inr [example_item]
     \<and> uint (EscrowBalance mem_geth outbox_hash s') = 100"
proof -
  let ?s = "reserved_state outbox_hash"
  have e5: "EscrowAccountAddress outbox_hash = 5" by (simp add: outbox_hash_def)
  have it: "fb_IntentID example_item = 7" "fb_BatchID example_item = 9" "fb_Amount example_item = Some 200"
    by (simp_all add: example_item_def fallback_item_def example_package_def) (simp add: example_result_def)
  have k: "recordKey outbox_hash (fallback_Key example_item) = 8"
    using example_record_key [of 7 9]
    by (simp add: recordKey_name fallback_Key_def it outbox_hash_def outbox_example_names_def)
  have c0: "outbox_count mem_geth outbox_hash ?s = 0" by (simp add: cells outbox_example_cells)
  have st: "fallback_Status mem_geth outbox_hash ?s (fallback_Key example_item) = StatusUnknown"
    by (simp add: fallback_Status_def k mem.outbox_status_values outbox_example_cells)
  obtain s' where x: "Create mem_geth outbox_hash example_gob example_item ?s = (s', Inr ())"
    using it k st e5 reserved_state_escrow [of outbox_hash]
    by (simp add: Create_def fallback_Status_def example_gob_def Let_def mem.FromBig word_le_nat_alt)
  have names: "outbox_names mem_geth outbox_hash ?s 8 (length [1 :: byte]) \<subseteq> set outbox_example_names"
    by (auto simp: outbox_names_def c0 record_names_def data_names_def chunk_count_def outbox_example_names_def)
  have "ListPending mem_geth outbox_hash example_gob ?s = Inr []" by (simp add: ListPending_def c0)
  from Create_ListPending [OF mem.geth_laws_axioms k [symmetric] _ _ _ _ _ x st _ _ this, of "[1]"]
  have "ListPending mem_geth outbox_hash example_gob s' = Inr ([] @ [example_item]) \<and> fb_Amount example_item \<noteq> None
    \<and> uint (EscrowBalance mem_geth outbox_hash s') = uint (EscrowBalance mem_geth outbox_hash ?s) - the (fb_Amount example_item)"
    using inj_on_subset [OF ob.inj image_mono [OF names]] c0 by (simp add: example_gob_def)
  then show ?thesis using x it reserved_state_escrow [of outbox_hash] by (simp add: EscrowBalance_def e5)
qed

end
