(* ===== verification/Ledger.thy ===== *)
theory Ledger
  imports Settlement_Correct
begin

text \<open>
  The escrow as a ledger: in every reachable state its balance is the sum of the amounts of the
  outstanding reservations, whatever reservations, settlements, credits and completions were
  executed before and whichever of them failed. All sums are sums of 256-bit words, as the
  balances of the state are.
\<close>

section \<open>Outstanding reservations\<close>

definition reserved_ids :: "'s geth \<Rightarrow> hasher \<Rightarrow> name set \<Rightarrow> 's \<Rightarrow> hash256 set" where
  "reserved_ids G H N s = {i. StatusSlot i \<in> N \<and> cell G H s (StatusSlot i) = 1}"

definition reserved_sum :: "'s geth \<Rightarrow> hasher \<Rightarrow> name set \<Rightarrow> 's \<Rightarrow> 256 word" where
  "reserved_sum G H N s = (\<Sum>i \<in> reserved_ids G H N s. cell G H s (AmountSlot i))"

text \<open>A fallback record exists only for intents whose reservation was consumed.\<close>

definition record_key :: "hasher \<Rightarrow> hash256 \<Rightarrow> hash256 \<Rightarrow> hash256" where
  "record_key H i b = H (preimage (RecordName i b))"

definition records_consumed :: "'s geth \<Rightarrow> hasher \<Rightarrow> name set \<Rightarrow> 's \<Rightarrow> bool" where
  "records_consumed G H N s \<longleftrightarrow> (\<forall>i b. RecordName i b \<in> N \<longrightarrow> FbStatusSlot (record_key H i b) \<in> N \<longrightarrow>
     outbox_status G H s (record_key H i b) \<noteq> StatusUnknown \<longrightarrow> cell G H s (StatusSlot i) = 2)"

definition escrow_holds :: "'s geth \<Rightarrow> hasher \<Rightarrow> name set \<Rightarrow> 256 word \<Rightarrow> 's \<Rightarrow> bool" where
  "escrow_holds G H N M s \<longleftrightarrow> EscrowBalance G H s = reserved_sum G H N s + M \<and> records_consumed G H N s"

definition closed_names :: "name set \<Rightarrow> bool" where
  "closed_names N \<longleftrightarrow> (\<forall>i. StatusSlot i \<in> N \<longrightarrow> intent_names i \<subseteq> N) \<and> (\<forall>i b. RecordName i b \<in> N \<longrightarrow> StatusSlot i \<in> N)"

text \<open>Two states agree on the cells the ledger depends on, apart from those of a set of intents.\<close>

definition agree_except :: "'s geth \<Rightarrow> hasher \<Rightarrow> name set \<Rightarrow> hash256 set \<Rightarrow> 's \<Rightarrow> 's \<Rightarrow> bool" where
  "agree_except G H N I s s' \<longleftrightarrow> (\<forall>j. StatusSlot j \<in> N \<longrightarrow> j \<notin> I \<longrightarrow>
     cell G H s' (StatusSlot j) = cell G H s (StatusSlot j) \<and> cell G H s' (AmountSlot j) = cell G H s (AmountSlot j)
     \<and> cell G H s' (BatchSlot j) = cell G H s (BatchSlot j))"

lemma finite_reserved_ids [simp]: "finite (reserved_ids G H N s)"
  by (rule finite_subset [OF subset_UNIV]) simp

lemma reserved_sum_same:
  assumes "agree_except G H N {} s s'"
  shows "reserved_sum G H N s' = reserved_sum G H N s"
proof -
  have "reserved_ids G H N s' = reserved_ids G H N s"
    using assms by (auto simp: reserved_ids_def agree_except_def)
  then show ?thesis using assms by (auto simp: reserved_sum_def agree_except_def reserved_ids_def intro: sum.cong)
qed

lemma reserved_sum_others:
  assumes "agree_except G H N {i} s s'"
  shows "(\<Sum>j \<in> reserved_ids G H N s' - {i}. cell G H s' (AmountSlot j))
       = (\<Sum>j \<in> reserved_ids G H N s - {i}. cell G H s (AmountSlot j))"
  using assms by (intro sum.cong) (auto simp: reserved_ids_def agree_except_def)

lemma reserved_sum_add:
  assumes "agree_except G H N {i} s s'" "StatusSlot i \<in> N" "cell G H s (StatusSlot i) \<noteq> 1" "cell G H s' (StatusSlot i) = 1"
  shows "reserved_sum G H N s' = reserved_sum G H N s + cell G H s' (AmountSlot i)"
proof -
  have i: "i \<in> reserved_ids G H N s'" "i \<notin> reserved_ids G H N s" using assms by (auto simp: reserved_ids_def)
  have "reserved_sum G H N s' = cell G H s' (AmountSlot i) + (\<Sum>j \<in> reserved_ids G H N s' - {i}. cell G H s' (AmountSlot j))"
    unfolding reserved_sum_def by (rule sum.remove [OF finite_reserved_ids i(1)])
  then show ?thesis using reserved_sum_others [OF assms(1)] i(2) by (simp add: reserved_sum_def)
qed

lemma reserved_sum_drop:
  assumes "agree_except G H N {i} s s'" "StatusSlot i \<in> N" "cell G H s (StatusSlot i) = 1" "cell G H s' (StatusSlot i) \<noteq> 1"
  shows "reserved_sum G H N s' = reserved_sum G H N s - cell G H s (AmountSlot i)"
proof -
  have i: "i \<in> reserved_ids G H N s" "i \<notin> reserved_ids G H N s'" using assms by (auto simp: reserved_ids_def)
  have "reserved_sum G H N s = cell G H s (AmountSlot i) + (\<Sum>j \<in> reserved_ids G H N s - {i}. cell G H s (AmountSlot j))"
    unfolding reserved_sum_def by (rule sum.remove [OF finite_reserved_ids i(1)])
  then show ?thesis using reserved_sum_others [OF assms(1)] i(2) by (simp add: reserved_sum_def)
qed

section \<open>Reserving\<close>

context storage
begin

lemma records_consumed_mono:
  assumes "records_consumed G H N s"
    and "\<And>i b. RecordName i b \<in> N \<Longrightarrow> FbStatusSlot (record_key H i b) \<in> N \<Longrightarrow>
      outbox_status G H s' (record_key H i b) \<noteq> StatusUnknown \<Longrightarrow>
        cell G H s' (StatusSlot i) = 2 \<or> outbox_status G H s (record_key H i b) \<noteq> StatusUnknown
          \<and> cell G H s' (StatusSlot i) = cell G H s (StatusSlot i)"
  shows "records_consumed G H N s'"
  using assms unfolding records_consumed_def by metis

lemma escrow_holds_Reserve:
  assumes inv: "escrow_holds G H N M s" and cl: "closed_names N"
    and r: "Reserve G H p ctx s = (s', res)" and sender: "Sender p \<noteq> EscrowAccountAddress H"
    and n: "reserve_names H p \<subseteq> N"
  shows "escrow_holds G H N M s'"
proof (cases res)
  case (Inl e)
  have "intent_names i \<union> {NonceSlot (Sender p)} \<subseteq> N" if "ID H p = Inr i" for i
    using that n by (simp add: reserve_names_def pid_def)
  then have "s' = s" using Reserve_Inl r Inl by blast
  then show ?thesis using inv by simp
next
  case (Inr rv)
  then have r': "Reserve G H p ctx s = (s', Inr rv)" using r by simp
  show ?thesis
  proof (rule Reserve_Inr [OF r'])
    fix i a amt
    assume s': "s' = reserve_effects G H p (i, Nonce p, a, amt) s" and i: "ID H p = Inr i" "cell G H s (StatusSlot i) = 0"
      and a: "Amount p = Some a" "uint amt = a"
    have sub: "intent_names i \<union> {NonceSlot (Sender p)} \<subseteq> N" using n i by (simp add: reserve_names_def pid_def)
    note c = Reserve_cell [OF r' i(1) sub]
    have si: "StatusSlot i \<in> N" "AmountSlot i \<in> N" using sub by (auto simp: intent_names_def)
    have ag: "agree_except G H N {i} s s'"
      using cl by (auto simp: agree_except_def closed_names_def intent_names_def c)
    have "word_of_int a = amt" using a(2) by (metis word_of_int_uint)
    then have "cell G H s' (AmountSlot i) = amt" using c [OF si(2)] a(1) by (simp add: amount_of_def)
    then have "reserved_sum G H N s' = reserved_sum G H N s + amt"
      using reserved_sum_add [OF ag si(1)] i(2) c [OF si(1)] by simp
    moreover have "EscrowBalance G H s' = EscrowBalance G H s + amt"
      using sender by (simp add: EscrowBalance_def s' reserve_effects_balance)
    moreover have "records_consumed G H N s'"
    proof (rule records_consumed_mono)
      show "records_consumed G H N s" using inv by (simp add: escrow_holds_def)
      fix j b
      assume k: "RecordName j b \<in> N" "FbStatusSlot (record_key H j b) \<in> N"
        "outbox_status G H s' (record_key H j b) \<noteq> StatusUnknown"
      have "outbox_status G H s (record_key H j b) \<noteq> StatusUnknown"
        using k(3) outbox_status_cong [of H s' "record_key H j b" s] c [OF k(2)] by auto
      moreover have "cell G H s (StatusSlot j) = 2" using calculation inv k by (auto simp: escrow_holds_def records_consumed_def)
      then have "j \<noteq> i" using i(2) by auto
      moreover have "StatusSlot j \<in> N" using cl k(1) by (auto simp: closed_names_def)
      ultimately show "cell G H s' (StatusSlot j) = 2 \<or> outbox_status G H s (record_key H j b) \<noteq> StatusUnknown
          \<and> cell G H s' (StatusSlot j) = cell G H s (StatusSlot j)" using c by simp
    qed
    ultimately show ?thesis using inv by (simp add: escrow_holds_def algebra_simps)
  qed
qed

end

section \<open>Settling\<close>

text \<open>The names an outgoing result touches; \<open>c\<close> is the number of records in the outbox.\<close>

definition enc_length :: "ReservedFallback codec \<Rightarrow> ReservedFallback \<Rightarrow> nat" where
  "enc_length gob item = (case enc gob item of Inl _ \<Rightarrow> 0 | Inr e \<Rightarrow> length e)"

definition outgoing_names :: "hasher \<Rightarrow> ReservedFallback codec \<Rightarrow> SettlementPackage \<Rightarrow> IntentResult \<Rightarrow> name set" where
  "outgoing_names H gob pack r =
     (let i = ir_IntentID r; b = ss_BatchID (pk_Settlement pack) in
      intent_names i \<union> {RecordName i b} \<union> record_names (record_key H i b) (enc_length gob (fallback_item pack r)))"

lemma recordKey_item [simp]:
  "recordKey H (fallback_Key (fallback_item pack r)) = record_key H (ir_IntentID r) (ss_BatchID (pk_Settlement pack))"
  by (simp add: recordKey_name record_key_def fallback_Key_def fallback_item_def)

lemma ready_word:
  assumes "ready G H s r"
  shows "cell G H s (AmountSlot (ir_IntentID r)) = word_of_int (matched_of r) + word_of_int (fallback_of r)"
proof -
  have "cell G H s (AmountSlot (ir_IntentID r)) = word_of_int (uint (cell G H s (AmountSlot (ir_IntentID r))))" by simp
  also have "uint (cell G H s (AmountSlot (ir_IntentID r))) = matched_of r + fallback_of r"
    using assms conserving_amounts(7) by (auto simp: ready_def)
  finally show ?thesis by simp
qed

text \<open>A settlement that executes moves the whole of the consumed reservations out of the escrow.\<close>

definition settle_names :: "'s geth \<Rightarrow> hasher \<Rightarrow> ReservedFallback codec \<Rightarrow> 's \<Rightarrow> SettlementPackage \<Rightarrow> name set" where
  "settle_names G H gob s pack =
     {FbCountSlot, ExecutedSlot (ss_BatchID (pk_Settlement pack)) (uint64_of_int64 (ss_ShardID (pk_Settlement pack)))
        (ss_ChunkIndex (pk_Settlement pack))}
     \<union> (\<Union>r \<in> set (ss_Outgoing (pk_Settlement pack)). outgoing_names H gob pack r)
     \<union> (\<lambda>j. FbIndexSlot (outbox_count G H s + word_of_nat j)) ` {..<length (ss_Outgoing (pk_Settlement pack))}"

context storage
begin

lemma consume_step:
  assumes inv: "escrow_holds G H N M s" and cl: "closed_names N" and rd: "ready G H s r"
    and n: "intent_names (ir_IntentID r) \<subseteq> N"
  shows "escrow_holds G H N (M + word_of_int (matched_of r) + word_of_int (fallback_of r)) (consume_effects G H r b s)"
    "agree_except G H N {ir_IntentID r} s (consume_effects G H r b s)"
    "cell G H (consume_effects G H r b s) (StatusSlot (ir_IntentID r)) = 2"
    "cell G H (consume_effects G H r b s) (BatchSlot (ir_IntentID r)) = b"
    "FbStatusSlot k \<in> N \<Longrightarrow> cell G H (consume_effects G H r b s) (FbStatusSlot k) = cell G H s (FbStatusSlot k)"
    "FbCountSlot \<in> N \<Longrightarrow> outbox_count G H (consume_effects G H r b s) = outbox_count G H s"
proof -
  let ?i = "ir_IntentID r" and ?s = "consume_effects G H r b s"
  note c = consume_effects_cell [OF n, of _ b s]
  have si: "StatusSlot ?i \<in> N" "BatchSlot ?i \<in> N" using n by (auto simp: intent_names_def)
  show st: "cell G H ?s (StatusSlot ?i) = 2" "cell G H ?s (BatchSlot ?i) = b" using c si by simp_all
  show ag: "agree_except G H N {?i} s ?s"
    using cl by (auto simp: agree_except_def closed_names_def intent_names_def c)
  show fb: "FbStatusSlot k \<in> N \<Longrightarrow> cell G H ?s (FbStatusSlot k) = cell G H s (FbStatusSlot k)" for k using c by simp
  show "FbCountSlot \<in> N \<Longrightarrow> outbox_count G H ?s = outbox_count G H s" using c [of FbCountSlot] by (simp add: fallback_cells)
  have "reserved_sum G H N ?s = reserved_sum G H N s - cell G H s (AmountSlot ?i)"
    using reserved_sum_drop [OF ag si(1)] rd st by (simp add: ready_def)
  moreover have "EscrowBalance G H ?s = EscrowBalance G H s" by (simp add: EscrowBalance_def)
  moreover have "records_consumed G H N ?s"
  proof (rule records_consumed_mono)
    show "records_consumed G H N s" using inv by (simp add: escrow_holds_def)
    fix j b'
    assume k: "RecordName j b' \<in> N" "FbStatusSlot (record_key H j b') \<in> N" "outbox_status G H ?s (record_key H j b') \<noteq> StatusUnknown"
    have "StatusSlot j \<in> N" using cl k(1) by (auto simp: closed_names_def)
    then show "cell G H ?s (StatusSlot j) = 2 \<or> outbox_status G H s (record_key H j b') \<noteq> StatusUnknown
        \<and> cell G H ?s (StatusSlot j) = cell G H s (StatusSlot j)"
      using k outbox_status_cong [OF fb [OF k(2)]] c by auto
  qed
  ultimately show "escrow_holds G H N (M + word_of_int (matched_of r) + word_of_int (fallback_of r)) ?s"
    using inv ready_word [OF rd] by (simp add: escrow_holds_def algebra_simps)
qed

lemma create_step:
  assumes inv: "escrow_holds G H N M s" and cl: "closed_names N"
    and n: "{FbIndexSlot (outbox_count G H s), FbCountSlot, RecordName i b} \<union> record_names (record_key H i b) (length e) \<subseteq> N"
    and len: "length e < 2 ^ 64" and st: "cell G H s (StatusSlot i) = 2"
  shows "escrow_holds G H N (M - amt) (create_effects G H (record_key H i b) e amt s)"
    "agree_except G H N {} s (create_effects G H (record_key H i b) e amt s)"
    "BatchSlot j \<in> N \<Longrightarrow> cell G H (create_effects G H (record_key H i b) e amt s) (BatchSlot j) = cell G H s (BatchSlot j)"
    "outbox_count G H (create_effects G H (record_key H i b) e amt s) = outbox_count G H s + 1"
proof -
  let ?s = "create_effects G H (record_key H i b) e amt s"
  have n': "{FbIndexSlot (outbox_count G H s), FbCountSlot} \<union> record_names (record_key H i b) (length e) \<subseteq> N" using n by auto
  note c = create_effects_cell [OF n' _ len, of _ amt]
  show ag: "agree_except G H N {} s ?s"
    using cl by (auto simp: agree_except_def closed_names_def intent_names_def c)
  show "BatchSlot j \<in> N \<Longrightarrow> cell G H ?s (BatchSlot j) = cell G H s (BatchSlot j)" using c by simp
  have "cell G H ?s FbCountSlot = word_of_int (uint (outbox_count G H s + 1))" using c [of FbCountSlot] n by simp
  then show "outbox_count G H ?s = outbox_count G H s + 1"
    by (simp only: fallback_cells(1) [of G H ?s] HashBig low64) simp
  have "records_consumed G H N ?s"
  proof (rule records_consumed_mono)
    show "records_consumed G H N s" using inv by (simp add: escrow_holds_def)
    fix i' b'
    assume k: "RecordName i' b' \<in> N" "FbStatusSlot (record_key H i' b') \<in> N"
      "outbox_status G H ?s (record_key H i' b') \<noteq> StatusUnknown"
    have si: "StatusSlot i' \<in> N" using cl k(1) by (auto simp: closed_names_def)
    have same: "cell G H ?s (StatusSlot i') = cell G H s (StatusSlot i')" using c [OF si] by simp
    show "cell G H ?s (StatusSlot i') = 2 \<or> outbox_status G H s (record_key H i' b') \<noteq> StatusUnknown
        \<and> cell G H ?s (StatusSlot i') = cell G H s (StatusSlot i')"
    proof (cases "record_key H i' b' = record_key H i b")
      case True
      then have "i' = i" using recordKey_eq k(1) n by (simp add: record_key_def)
      then show ?thesis using same st by simp
    next
      case False
      then have "cell G H ?s (FbStatusSlot (record_key H i' b')) = cell G H s (FbStatusSlot (record_key H i' b'))"
        using c [OF k(2)] by simp
      then show ?thesis using k(3) outbox_status_cong same by metis
    qed
  qed
  moreover have "EscrowBalance G H ?s = EscrowBalance G H s - amt"
    by (simp add: EscrowBalance_def create_effects_balance)
  ultimately show "escrow_holds G H N (M - amt) ?s"
    using inv reserved_sum_same [OF ag] by (simp add: escrow_holds_def algebra_simps)
qed

lemma settle_outgoing_step:
  assumes inv: "escrow_holds G H N M s" and cl: "closed_names N" and rd: "ready G H s r"
    and n: "{FbIndexSlot (outbox_count G H s), FbCountSlot} \<union> outgoing_names H gob pack r \<subseteq> N"
    and len: "enc_length gob (fallback_item pack r) < 2 ^ 64"
    and st: "settle_outgoing G H gob pack s r = Inr s'"
  shows "escrow_holds G H N (M + word_of_int (matched_of r)) s' \<and> agree_except G H N {ir_IntentID r} s s'
    \<and> cell G H s' (StatusSlot (ir_IntentID r)) = 2
    \<and> cell G H s' (BatchSlot (ir_IntentID r)) = ss_BatchID (pk_Settlement pack)
    \<and> outbox_count G H s' = outbox_count G H s + (if 0 < fallback_of r then 1 else 0)"
proof -
  let ?i = "ir_IntentID r" and ?b = "ss_BatchID (pk_Settlement pack)"
  let ?s1 = "consume_effects G H r ?b s" and ?k = "record_key H (ir_IntentID r) (ss_BatchID (pk_Settlement pack))"
  have names: "intent_names ?i \<subseteq> N" "FbCountSlot \<in> N" "RecordName ?i ?b \<in> N" "FbStatusSlot ?k \<in> N"
    "BatchSlot ?i \<in> N" "StatusSlot ?i \<in> N"
    using n by (auto simp: outgoing_names_def Let_def record_names_def intent_names_def)
  have fb: "ir_FallbackAmount r = Some (fallback_of r)" "0 \<le> fallback_of r"
    using rd conserving_amounts by (auto simp: ready_def)
  have "consume_checks G H r s = Inr ()" using rd consume_checks_succeeds by (auto simp: ready_def)
  then have cs: "Consume G H r ?b s = (?s1, Inr ())" by (simp add: Consume_def)
  note c = consume_step [OF inv cl rd names(1), where b = ?b]
  show ?thesis
  proof (cases "0 < fallback_of r")
    case False
    then have "s' = ?s1" using st cs fb by (simp add: settle_outgoing_def)
    then show ?thesis using c(1-4) c(6) [OF names(2)] False fb by simp
  next
    case True
    obtain u where cr: "Create G H gob (fallback_item pack r) ?s1 = (s', Inr u)"
      using st cs fb True by (auto simp: settle_outgoing_def split: prod.splits sum.splits)
    have "cell G H s (StatusSlot ?i) \<noteq> 2" using rd by (simp add: ready_def)
    then have "outbox_status G H s ?k = StatusUnknown"
      using inv names(3,4) unfolding escrow_holds_def records_consumed_def by blast
    then have fresh: "fallback_Status G H ?s1 (fallback_Key (fallback_item pack r)) = StatusUnknown"
      using outbox_status_cong [OF c(5) [OF names(4)]] by (simp add: fallback_Status_def)
    show ?thesis
    proof (rule Create_fresh [OF cr fresh])
      fix a amt e
      assume a: "fb_Amount (fallback_item pack r) = Some a" "uint amt = a"
        and e: "enc gob (fallback_item pack r) = Inr e"
        and s': "s' = create_effects G H (recordKey H (fallback_Key (fallback_item pack r))) e amt ?s1"
      have "a = fallback_of r" using a fb by (simp add: fallback_item_def)
      then have amt: "word_of_int (fallback_of r) = amt" using a(2) by (metis word_of_int_uint)
      have n2: "{FbIndexSlot (outbox_count G H ?s1), FbCountSlot, RecordName ?i ?b} \<union> record_names ?k (length e) \<subseteq> N"
        using n e c(6) [OF names(2)] by (auto simp: outgoing_names_def Let_def enc_length_def)
      have l2: "length e < 2 ^ 64" using len e by (simp add: enc_length_def)
      note d = create_step [OF c(1) cl n2 l2 c(3), where amt = amt]
      have "agree_except G H N {?i} s s'"
        using c(2) d(2) by (auto simp: agree_except_def s')
      moreover have "cell G H s' (StatusSlot ?i) = 2"
        using d(2) c(3) names(6) by (auto simp: agree_except_def s')
      ultimately show ?thesis
        using d(1) d(3) [OF names(5)] d(4) c(4) c(6) [OF names(2)] True amt by (simp add: s')
    qed
  qed
qed

lemma ready_agree:
  "agree_except G H N I s s' \<Longrightarrow> ir_IntentID r \<notin> I \<Longrightarrow> StatusSlot (ir_IntentID r) \<in> N \<Longrightarrow> ready G H s r \<Longrightarrow> ready G H s' r"
  by (simp add: agree_except_def ready_def)

lemma settle_outgoing_loop:
  assumes "escrow_holds G H N M s" "closed_names N" "FbCountSlot \<in> N" "distinct (map ir_IntentID rs)"
    "\<forall>r \<in> set rs. ready G H s r \<and> outgoing_names H gob pack r \<subseteq> N \<and> enc_length gob (fallback_item pack r) < 2 ^ 64"
    "\<forall>j < length rs. FbIndexSlot (outbox_count G H s + word_of_nat j) \<in> N"
    "fold_res (settle_outgoing G H gob pack) s rs = Inr s'"
  shows "escrow_holds G H N (M + word_of_int (matched_total rs)) s'
    \<and> agree_except G H N (ir_IntentID ` set rs) s s'
    \<and> (\<forall>r \<in> set rs. cell G H s' (StatusSlot (ir_IntentID r)) = 2
         \<and> cell G H s' (BatchSlot (ir_IntentID r)) = ss_BatchID (pk_Settlement pack))"
  using assms
proof (induction rs arbitrary: s M)
  case Nil
  then show ?case by (simp add: matched_total_def agree_except_def)
next
  case (Cons r rs)
  obtain s1 where s1: "settle_outgoing G H gob pack s r = Inr s1" "fold_res (settle_outgoing G H gob pack) s1 rs = Inr s'"
    using Cons.prems(7) by (auto simp: bind_res_eq_Inr)
  have "FbIndexSlot (outbox_count G H s) \<in> N" using Cons.prems(6) [rule_format, of 0] by simp
  then have n: "{FbIndexSlot (outbox_count G H s), FbCountSlot} \<union> outgoing_names H gob pack r \<subseteq> N" using Cons.prems by simp
  have rd: "ready G H s r" "enc_length gob (fallback_item pack r) < 2 ^ 64" using Cons.prems(5) by auto
  have step: "escrow_holds G H N (M + word_of_int (matched_of r)) s1" "agree_except G H N {ir_IntentID r} s s1"
    "cell G H s1 (StatusSlot (ir_IntentID r)) = 2"
    "cell G H s1 (BatchSlot (ir_IntentID r)) = ss_BatchID (pk_Settlement pack)"
    "outbox_count G H s1 = outbox_count G H s + (if 0 < fallback_of r then 1 else 0)"
    using settle_outgoing_step [OF Cons.prems(1,2) rd(1) n rd(2) s1(1)] by blast+
  have sN: "StatusSlot (ir_IntentID q) \<in> N" if "q \<in> set (r # rs)" for q
    using Cons.prems(5) that by (auto simp: outgoing_names_def Let_def intent_names_def)
  have ih: "escrow_holds G H N (M + word_of_int (matched_of r) + word_of_int (matched_total rs)) s'
    \<and> agree_except G H N (ir_IntentID ` set rs) s1 s'
    \<and> (\<forall>r \<in> set rs. cell G H s' (StatusSlot (ir_IntentID r)) = 2
         \<and> cell G H s' (BatchSlot (ir_IntentID r)) = ss_BatchID (pk_Settlement pack))"
  proof (rule Cons.IH [OF step(1) Cons.prems(2,3) _ _ _ s1(2)])
    show "distinct (map ir_IntentID rs)" using Cons.prems(4) by simp
    show "\<forall>r \<in> set rs. ready G H s1 r \<and> outgoing_names H gob pack r \<subseteq> N \<and> enc_length gob (fallback_item pack r) < 2 ^ 64"
    proof
      fix q assume q: "q \<in> set rs"
      then have "ir_IntentID q \<noteq> ir_IntentID r" using Cons.prems(4) by (metis distinct.simps(2) imageI list.set_map list.simps(9))
      then have "ir_IntentID q \<notin> {ir_IntentID r}" by simp
      then have "ready G H s1 q" using ready_agree [OF step(2)] sN [of q] q Cons.prems(5) by simp
      then show "ready G H s1 q \<and> outgoing_names H gob pack q \<subseteq> N \<and> enc_length gob (fallback_item pack q) < 2 ^ 64"
        using Cons.prems(5) q by simp
    qed
    show "\<forall>j < length rs. FbIndexSlot (outbox_count G H s1 + word_of_nat j) \<in> N"
    proof (intro allI impI)
      fix j assume "j < length rs"
      then show "FbIndexSlot (outbox_count G H s1 + word_of_nat j) \<in> N"
        using Cons.prems(6) [rule_format, of j] Cons.prems(6) [rule_format, of "Suc j"] step(5)
        by (simp add: add.assoc split: if_splits)
    qed
  qed
  have nin: "ir_IntentID r \<notin> ir_IntentID ` set rs" using Cons.prems(4) by auto
  have "agree_except G H N (ir_IntentID ` set (r # rs)) s s'"
    using ih step(2) by (auto simp: agree_except_def)
  moreover have "cell G H s' (StatusSlot (ir_IntentID r)) = 2 \<and> cell G H s' (BatchSlot (ir_IntentID r)) = ss_BatchID (pk_Settlement pack)"
    using ih step(3,4) nin sN [of r] by (simp add: agree_except_def)
  ultimately show ?case using ih by (simp add: matched_total_def add.assoc)
qed

lemma settle_incoming_loop:
  assumes "escrow_holds G H N M s"
    "\<forall>r \<in> set rs. conserving r \<and> Recipient (ir_Intent r) \<noteq> EscrowAccountAddress H"
    "fold_res (settle_incoming G H) s rs = Inr s'"
  shows "escrow_holds G H N (M - word_of_int (matched_total rs)) s' \<and> (\<forall>n. cell G H s' n = cell G H s n)"
  using assms
proof (induction rs arbitrary: s M)
  case Nil
  then show ?case by (simp add: matched_total_def)
next
  case (Cons r rs)
  obtain s1 where s1: "settle_incoming G H s r = Inr s1" "fold_res (settle_incoming G H) s1 rs = Inr s'"
    using Cons.prems(3) by (auto simp: bind_res_eq_Inr)
  have m: "ir_MatchedAmount r = Some (matched_of r)" "0 \<le> matched_of r" using Cons.prems(2) conserving_amounts by auto
  then obtain amt where amt: "g_FromBig G (matched_of r) = Some amt" and
    s: "s1 = g_AddBalance G (Recipient (ir_Intent r)) amt (g_SubBalance G (EscrowAccountAddress H) amt
          (credit_recipient G settlementInitialBalance (Recipient (ir_Intent r)) s))"
    using s1(1) by (auto simp: settle_incoming_def split: option.splits)
  have w: "word_of_int (matched_of r) = amt" using FromBig_Some [OF m(2) amt] by (metis word_of_int_uint)
  have c: "cell G H s1 n = cell G H s n" for n by (simp add: s)
  have "EscrowBalance G H s1 = EscrowBalance G H s - amt"
    using Cons.prems(2) by (auto simp: EscrowBalance_def s)
  moreover have "reserved_sum G H N s1 = reserved_sum G H N s" by (rule reserved_sum_same) (simp add: agree_except_def c)
  moreover have "outbox_status G H s1 k = outbox_status G H s k" for k by (rule outbox_status_cong) (simp add: c)
  ultimately have "escrow_holds G H N (M - amt) s1"
    using Cons.prems(1) by (simp add: escrow_holds_def records_consumed_def c algebra_simps)
  from Cons.IH [OF this _ s1(2)] Cons.prems(2) c w show ?case
    by (simp add: matched_total_def algebra_simps)
qed

lemma execute_effects_step:
  assumes inv: "escrow_holds G H N M s" and cl: "closed_names N" and n: "settle_names G H gob s pack \<subseteq> N"
    and enc: "\<forall>r \<in> set (ss_Outgoing (pk_Settlement pack)). enc_length gob (fallback_item pack r) < 2 ^ 64"
    and rec: "\<forall>r \<in> set (ss_Incoming (pk_Settlement pack)). Recipient (ir_Intent r) \<noteq> EscrowAccountAddress H"
    and v: "validateInstructions G H s sh (pk_Settlement pack) = Inr ()" and sh: "ss_ShardID (pk_Settlement pack) = sh"
    and x: "execute_effects G H gob sh pack s = Inr s'"
  shows "escrow_holds G H N M s'" "IsExecuted G H s' (ss_BatchID (pk_Settlement pack)) sh (ss_ChunkIndex (pk_Settlement pack))"
    "\<forall>r \<in> set (ss_Outgoing (pk_Settlement pack)). cell G H s' (StatusSlot (ir_IntentID r)) = 2
       \<and> cell G H s' (BatchSlot (ir_IntentID r)) = ss_BatchID (pk_Settlement pack)"
proof -
  let ?st = "pk_Settlement pack"
  let ?x = "ExecutedSlot (ss_BatchID ?st) (uint64_of_int64 sh) (ss_ChunkIndex ?st)"
  obtain s1 s2 where s1: "fold_res (settle_outgoing G H gob pack) s (ss_Outgoing ?st) = Inr s1"
    and s2: "fold_res (settle_incoming G H) s1 (ss_Incoming ?st) = Inr s2"
    and s': "s' = markExecuted G H (ss_BatchID ?st) sh (ss_ChunkIndex ?st) s2"
    using x by (auto simp: execute_effects_def Let_def bind_res_eq_Inr)
  note V = validateInstructions_Inr [OF v]
  have xN: "?x \<in> N" using n sh by (auto simp: settle_names_def)
  have l1: "escrow_holds G H N (M + word_of_int (matched_total (ss_Outgoing ?st))) s1
    \<and> agree_except G H N (ir_IntentID ` set (ss_Outgoing ?st)) s s1
    \<and> (\<forall>r \<in> set (ss_Outgoing ?st). cell G H s1 (StatusSlot (ir_IntentID r)) = 2 \<and> cell G H s1 (BatchSlot (ir_IntentID r)) = ss_BatchID ?st)"
    by (rule settle_outgoing_loop [OF inv cl _ _ _ _ s1]) (use n V enc in \<open>auto simp: settle_names_def\<close>)
  have l2: "escrow_holds G H N (M + word_of_int (matched_total (ss_Outgoing ?st)) - word_of_int (matched_total (ss_Incoming ?st))) s2
    \<and> (\<forall>n. cell G H s2 n = cell G H s1 n)"
    by (rule settle_incoming_loop [OF _ _ s2]) (use l1 V(2) rec in auto)
  have c: "cell G H s' m = (if m = ?x then 1 else cell G H s2 m)" if "m \<in> N" for m
    using that xN by (simp add: s' cells cell_put BigToHash)
  show "IsExecuted G H s' (ss_BatchID ?st) sh (ss_ChunkIndex ?st)" using c [OF xN] by (simp add: cells)
  show "\<forall>r \<in> set (ss_Outgoing ?st). cell G H s' (StatusSlot (ir_IntentID r)) = 2 \<and> cell G H s' (BatchSlot (ir_IntentID r)) = ss_BatchID ?st"
  proof
    fix r assume r: "r \<in> set (ss_Outgoing ?st)"
    then have "StatusSlot (ir_IntentID r) \<in> N" "BatchSlot (ir_IntentID r) \<in> N"
      using n by (auto simp: settle_names_def outgoing_names_def Let_def intent_names_def)
    then show "cell G H s' (StatusSlot (ir_IntentID r)) = 2 \<and> cell G H s' (BatchSlot (ir_IntentID r)) = ss_BatchID ?st"
      using c l1 l2 r by simp
  qed
  have "agree_except G H N {} s2 s'" using cl by (auto simp: agree_except_def closed_names_def intent_names_def c)
  then have "reserved_sum G H N s' = reserved_sum G H N s2" by (rule reserved_sum_same)
  moreover have "EscrowBalance G H s' = EscrowBalance G H s2" by (simp add: EscrowBalance_def s' cells)
  moreover have "records_consumed G H N s'"
  proof (rule records_consumed_mono)
    show "records_consumed G H N s2" using l2 by (simp add: escrow_holds_def)
    fix i b
    assume k: "RecordName i b \<in> N" "FbStatusSlot (record_key H i b) \<in> N" "outbox_status G H s' (record_key H i b) \<noteq> StatusUnknown"
    have si: "StatusSlot i \<in> N" using cl k(1) by (auto simp: closed_names_def)
    have "cell G H s' (FbStatusSlot (record_key H i b)) = cell G H s2 (FbStatusSlot (record_key H i b))" using c [OF k(2)] by simp
    from outbox_status_cong [OF this] show "cell G H s' (StatusSlot i) = 2 \<or> outbox_status G H s2 (record_key H i b) \<noteq> StatusUnknown
        \<and> cell G H s' (StatusSlot i) = cell G H s2 (StatusSlot i)"
      using k(3) c [OF si] by simp
  qed
  ultimately show "escrow_holds G H N M s'" using l2 V(4) by (simp add: escrow_holds_def)
qed

lemma escrow_holds_Execute:
  assumes inv: "escrow_holds G H N M s" and cl: "closed_names N" and n: "settle_names G H gob s pack \<subseteq> N"
    and enc: "\<forall>r \<in> set (ss_Outgoing (pk_Settlement pack)). enc_length gob (fallback_item pack r) < 2 ^ 64"
    and rec: "\<forall>r \<in> set (ss_Incoming (pk_Settlement pack)). Recipient (ir_Intent r) \<noteq> EscrowAccountAddress H"
    and x: "Execute G H gob sh pack confirmed s = (s', res)"
  shows "escrow_holds G H N M s'"
proof (cases "s' = s")
  case False
  then have "execute_header_checks sh pack confirmed = Inr ()" "execute_checks G H sh pack s = Inr ()"
    "execute_effects G H gob sh pack s = Inr s'"
    using x by (auto simp: Execute_def split: sum.splits if_splits)
  then show ?thesis
    using execute_effects_step(1) [OF inv cl n enc rec]
    by (auto simp: execute_checks_def execute_header_checks_def Let_def res_elims)
qed (use inv in simp)

lemma escrow_holds_frame:
  assumes "escrow_holds G H N M s" "closed_names N" "EscrowBalance G H s' = EscrowBalance G H s"
    and "\<forall>n \<in> N. (\<forall>k. n \<noteq> FbStatusSlot k) \<longrightarrow> (\<forall>k. n \<noteq> FbExecutedSlot k) \<longrightarrow> cell G H s' n = cell G H s n"
    and "\<And>k. FbStatusSlot k \<in> N \<Longrightarrow> outbox_status G H s' k \<noteq> StatusUnknown \<Longrightarrow> outbox_status G H s k \<noteq> StatusUnknown"
  shows "escrow_holds G H N M s'"
proof -
  have c: "cell G H s' (StatusSlot i) = cell G H s (StatusSlot i) \<and> cell G H s' (AmountSlot i) = cell G H s (AmountSlot i)
      \<and> cell G H s' (BatchSlot i) = cell G H s (BatchSlot i)"
    if "StatusSlot i \<in> N" for i using assms(2,4) that by (auto simp: closed_names_def intent_names_def)
  have "reserved_sum G H N s' = reserved_sum G H N s" by (rule reserved_sum_same) (simp add: agree_except_def c)
  moreover have "records_consumed G H N s'"
    using assms(1,2,5) c unfolding escrow_holds_def records_consumed_def closed_names_def by metis
  ultimately show ?thesis using assms(1,3) by (simp add: escrow_holds_def)
qed

lemma escrow_holds_Complete:
  assumes "escrow_holds G H N M s" "closed_names N" "Complete G H key s = (s', res)"
    "FbStatusSlot (recordKey H key) \<in> N"
  shows "escrow_holds G H N M s'"
proof (cases "s' = s")
  case False
  then have pend: "outbox_status G H s (recordKey H key) \<noteq> StatusUnknown"
    and s': "s' = setStatus G H (recordKey H key) StatusCompleted s"
    using assms(3) by (auto simp: Complete_def Let_def split: Status.splits)
  show ?thesis
  proof (rule escrow_holds_frame [OF assms(1,2)])
    show "EscrowBalance G H s' = EscrowBalance G H s" by (simp add: EscrowBalance_def s' cells)
    show "\<forall>n \<in> N. (\<forall>k. n \<noteq> FbStatusSlot k) \<longrightarrow> (\<forall>k. n \<noteq> FbExecutedSlot k) \<longrightarrow> cell G H s' n = cell G H s n"
      using assms(4) by (simp add: s' cells cell_put)
    fix k assume k: "FbStatusSlot k \<in> N" "outbox_status G H s' k \<noteq> StatusUnknown"
    show "outbox_status G H s k \<noteq> StatusUnknown"
    proof (cases "k = recordKey H key")
      case False
      then have "cell G H s' (FbStatusSlot k) = cell G H s (FbStatusSlot k)"
        using assms(4) k(1) by (simp add: s' cells cell_put)
      then show ?thesis using k(2) outbox_status_cong by metis
    qed (use pend in simp)
  qed
qed (use assms(1) in simp)

lemma escrow_holds_ExecuteCredit:
  assumes "escrow_holds G H N M s" "closed_names N" "ExecuteCredit G H sh item confirmed s = (s', res)"
    "FbExecutedSlot (recordKey H (fallback_Key item)) \<in> N" "fb_Recipient item \<noteq> EscrowAccountAddress H"
  shows "escrow_holds G H N M s'"
proof (cases "s' = s")
  case False
  then obtain amt where s': "s' = credit_effects G H (recordKey H (fallback_Key item)) (fb_Recipient item) amt s"
    using assms(3) by (auto simp: ExecuteCredit_def Let_def split: sum.splits option.splits if_splits)
  have c: "cell G H s' n = (if n = FbExecutedSlot (recordKey H (fallback_Key item)) then 1 else cell G H s n)" if "n \<in> N" for n
    using assms(4) that by (simp add: s' credit_effects_def cells cell_put BigToHash)
  show ?thesis
  proof (rule escrow_holds_frame [OF assms(1,2)])
    show "EscrowBalance G H s' = EscrowBalance G H s"
      using assms(5) by (auto simp: EscrowBalance_def s' credit_effects_def cells)
    fix k assume "FbStatusSlot k \<in> N" "outbox_status G H s' k \<noteq> StatusUnknown"
    then show "outbox_status G H s k \<noteq> StatusUnknown" using c outbox_status_cong [of H s' k s] by auto
  qed (simp add: c)
qed (use assms(1) in simp)

end

section \<open>The ledger as a transition system\<close>

text \<open>
  One transaction on the state of a shard, successful or not. \<open>elsewhere\<close> is any other change
  that keeps the escrow balance and the cells of the tracked names: the ordinary transfers.
\<close>

inductive ledger_step :: "'s geth \<Rightarrow> hasher \<Rightarrow> ReservedFallback codec \<Rightarrow> name set \<Rightarrow> 's \<Rightarrow> 's \<Rightarrow> bool"
  for G H gob N where
  reserve: "Reserve G H p ctx s = (s', res) \<Longrightarrow> Sender p \<noteq> EscrowAccountAddress H \<Longrightarrow> reserve_names H p \<subseteq> N
    \<Longrightarrow> ledger_step G H gob N s s'"
| settle: "Execute G H gob sh pack confirmed s = (s', res') \<Longrightarrow> settle_names G H gob s pack \<subseteq> N
    \<Longrightarrow> \<forall>r \<in> set (ss_Outgoing (pk_Settlement pack)). enc_length gob (fallback_item pack r) < 2 ^ 64
    \<Longrightarrow> \<forall>r \<in> set (ss_Incoming (pk_Settlement pack)). Recipient (ir_Intent r) \<noteq> EscrowAccountAddress H
    \<Longrightarrow> ledger_step G H gob N s s'"
| credit: "ExecuteCredit G H sh item confirmed s = (s', res') \<Longrightarrow> FbExecutedSlot (recordKey H (fallback_Key item)) \<in> N
    \<Longrightarrow> fb_Recipient item \<noteq> EscrowAccountAddress H \<Longrightarrow> ledger_step G H gob N s s'"
| complete: "Complete G H key s = (s', res') \<Longrightarrow> FbStatusSlot (recordKey H key) \<in> N \<Longrightarrow> ledger_step G H gob N s s'"
| elsewhere: "EscrowBalance G H s' = EscrowBalance G H s \<Longrightarrow> \<forall>n \<in> N. cell G H s' n = cell G H s n
    \<Longrightarrow> ledger_step G H gob N s s'"

inductive ledger_reach :: "'s geth \<Rightarrow> hasher \<Rightarrow> ReservedFallback codec \<Rightarrow> name set \<Rightarrow> 's \<Rightarrow> bool"
  for G H gob N where
  genesis: "EscrowBalance G H s = 0 \<Longrightarrow> \<forall>n \<in> N. cell G H s n = 0 \<Longrightarrow> ledger_reach G H gob N s"
| step: "ledger_reach G H gob N s \<Longrightarrow> ledger_step G H gob N s s' \<Longrightarrow> ledger_reach G H gob N s'"

context storage
begin

lemma ledger_step_holds:
  "ledger_step G H gob N s s' \<Longrightarrow> closed_names N \<Longrightarrow> escrow_holds G H N M s \<Longrightarrow> escrow_holds G H N M s'"
proof (induction rule: ledger_step.induct)
  case (elsewhere s' s)
  show ?case
  proof (rule escrow_holds_frame [OF elsewhere.prems(2,1) elsewhere.hyps(1)])
    fix k assume "FbStatusSlot k \<in> N" "outbox_status G H s' k \<noteq> StatusUnknown"
    then show "outbox_status G H s k \<noteq> StatusUnknown" using elsewhere.hyps(2) outbox_status_cong [of H s' k s] by auto
  qed (use elsewhere.hyps(2) in simp)
qed (blast intro: escrow_holds_Reserve escrow_holds_Execute escrow_holds_ExecuteCredit escrow_holds_Complete)+

lemma ledger_reach_holds: "ledger_reach G H gob N s \<Longrightarrow> closed_names N \<Longrightarrow> escrow_holds G H N 0 s"
proof (induction rule: ledger_reach.induct)
  case (genesis s)
  then have "reserved_ids G H N s = {}" by (auto simp: reserved_ids_def)
  moreover have "outbox_status G H s k = StatusUnknown" if "FbStatusSlot k \<in> N" for k
    by (rule outbox_status_values(1)) (use genesis that in blast)
  ultimately show ?case using genesis by (simp add: escrow_holds_def records_consumed_def reserved_sum_def)
qed (blast intro: ledger_step_holds)

end

section \<open>Properties\<close>

text \<open>
  The escrow always holds exactly the outstanding reservations: in every state reachable by
  any sequence of reservations, settlements, fallback credits and completions, successful or
  failed, in any order and mixed with transfers that do not touch the escrow, the balance of the
  escrow account is the sum of the stored amounts of the intents whose status is reserved. The
  only assumption on the hash is that it does not collide on the slots of the tracked names.
\<close>

lemma escrow_backed:
  assumes "geth_laws G" "inj_on H (preimage ` N)" "closed_names N" "ledger_reach G H gob N s"
  shows "EscrowBalance G H s
     = (\<Sum>i \<in> {i. StatusSlot i \<in> N \<and> status G H s i = Inr ReservationReserved}. intentValue G H s amountSlotDomain i)"
  using storage.ledger_reach_holds [OF storageI [OF assms(1,2)] assms(4,3)]
  by (simp add: escrow_holds_def reserved_sum_def reserved_ids_def cells geth_laws.status_Inr [OF assms(1)])

text \<open>
  C6. A settlement chunk is executed atomically and once. An error leaves the state as it was. In
  a reachable state, a success on a chunk not executed before marks it, leaves every outgoing
  intent consumed under the chunk's batch, and any later attempt with the same package returns
  without an error and without touching the state.
\<close>

theorem Execute_atomic_once:
  assumes G: "geth_laws G" and inj: "inj_on H (preimage ` N)" and cl: "closed_names N" and re: "ledger_reach G H gob N s"
    and n: "settle_names G H gob s pack \<subseteq> N"
    and enc: "\<forall>r \<in> set (ss_Outgoing (pk_Settlement pack)). enc_length gob (fallback_item pack r) < 2 ^ 64"
    and rec: "\<forall>r \<in> set (ss_Incoming (pk_Settlement pack)). Recipient (ir_Intent r) \<noteq> EscrowAccountAddress H"
  shows "(Execute G H gob sh pack confirmed s = (s', Inl e) \<longrightarrow> s' = s)
    \<and> (\<not> IsExecuted G H s (ss_BatchID (pk_Settlement pack)) sh (ss_ChunkIndex (pk_Settlement pack)) \<longrightarrow>
        Execute G H gob sh pack confirmed s = (s', Inr u) \<longrightarrow>
          IsExecuted G H s' (ss_BatchID (pk_Settlement pack)) sh (ss_ChunkIndex (pk_Settlement pack))
          \<and> (\<forall>r \<in> set (ss_Outgoing (pk_Settlement pack)). \<exists>rv. registry_Get G H s' (ir_Intent r) = Inr rv
               \<and> rv_Status rv = ReservationConsumed \<and> rv_BatchID rv = BatchID confirmed)
          \<and> Execute G H gob sh pack confirmed s' = (s', Inr ()))"
proof (intro conjI impI)
  let ?st = "pk_Settlement pack"
  show "s' = s" if "Execute G H gob sh pack confirmed s = (s', Inl e)"
    using that by (auto simp: Execute_def split: sum.splits if_splits)
  have st: "storage G H N" by (rule storageI [OF G inj])
  assume fresh: "\<not> IsExecuted G H s (ss_BatchID ?st) sh (ss_ChunkIndex ?st)" and x: "Execute G H gob sh pack confirmed s = (s', Inr u)"
  have hd: "execute_header_checks sh pack confirmed = Inr ()" and ck: "execute_checks G H sh pack s = Inr ()"
    and ef: "execute_effects G H gob sh pack s = Inr s'"
    using x fresh by (auto simp: Execute_def split: sum.splits if_splits)
  have v: "validateInstructions G H s sh ?st = Inr ()" and sh: "ss_ShardID ?st = sh" and b: "ss_BatchID ?st = BatchID confirmed"
    using hd ck by (auto simp: execute_checks_def execute_header_checks_def Let_def res_elims)
  note E = storage.execute_effects_step [OF st storage.ledger_reach_holds [OF st re cl] cl n enc rec v sh ef]
  show ex: "IsExecuted G H s' (ss_BatchID ?st) sh (ss_ChunkIndex ?st)" by (rule E(2))
  show "Execute G H gob sh pack confirmed s' = (s', Inr ())" using hd ex by (simp add: Execute_def)
  show "\<forall>r \<in> set (ss_Outgoing ?st). \<exists>rv. registry_Get G H s' (ir_Intent r) = Inr rv
      \<and> rv_Status rv = ReservationConsumed \<and> rv_BatchID rv = BatchID confirmed"
  proof
    fix r assume r: "r \<in> set (ss_Outgoing ?st)"
    then have "ID H (ir_Intent r) = Inr (ir_IntentID r)"
      using geth_laws.validateInstructions_Inr(1) [OF G v] by (auto simp: ready_def)
    moreover have "status G H s' (ir_IntentID r) = Inr ReservationConsumed"
      using E(3) r geth_laws.status_Inr(3) [OF G] by blast
    moreover have "cell G H s' (BatchSlot (ir_IntentID r)) = BatchID confirmed" using E(3) r b by simp
    ultimately show "\<exists>rv. registry_Get G H s' (ir_Intent r) = Inr rv \<and> rv_Status rv = ReservationConsumed
        \<and> rv_BatchID rv = BatchID confirmed"
      by (simp add: registry_Get_def cells)
  qed
qed

section \<open>Witnesses\<close>

text \<open>
  The example intent is reserved in a fresh state and then settled, entirely as a fallback. The
  batch identifier is the hash of a string outside the table, which is 21.
\<close>

definition ledger_names :: "name list" where
  "ledger_names = RecordName 7 21 # NonceSlot 1 # intent_name_list 7
     @ [FbCountSlot, FbIndexSlot 0, FbStatusSlot 8, FbLengthSlot 8, FbDataSlot 8 0, ExecutedSlot 21 0 0]"

definition ledger_hash :: hasher where
  "ledger_hash = example_hash ledger_names"

interpretation lh: storage mem_geth ledger_hash "set ledger_names"
proof (rule storageI [OF mem.geth_laws_axioms])
  have "length ledger_names < 1000" by (simp add: ledger_names_def intent_name_list_def)
  then show "inj_on ledger_hash (preimage ` set ledger_names)"
    unfolding ledger_hash_def by (rule example_hash_inj [OF subset_refl])
qed

lemma table_index_absent: "b \<notin> set xs \<Longrightarrow> table_index xs b = Suc (length xs)"
  by (induction xs) auto

lemma ledger_batch: "ledger_hash (batch_id_preimage p w m) = 21"
proof -
  let ?t = "[[], [0], [0, 0], [0, 0, 0], str_bytes escrowAddressDomain,
     str_bytes registryAddressDomain, example_bytes] @ map preimage ledger_names"
  have "length (batch_id_preimage p w m) = 97" by (simp add: batch_id_preimage_def batchIDDomain_def)
  moreover have "97 \<notin> set (map length ?t)"
    by (simp add: escrowAddressDomain_def registryAddressDomain_def example_bytes(2) ledger_names_def
        intent_name_list_def preimage_def domain_defs)
  ultimately have "batch_id_preimage p w m \<notin> set ?t" by (metis in_set_conv_nth length_map nth_map nth_mem)
  then have "table_index ?t (batch_id_preimage p w m) = Suc (length ?t)" by (rule table_index_absent)
  then show ?thesis by (simp add: ledger_hash_def example_hash_def table_hash_def ledger_names_def intent_name_list_def)
qed

lemma ledger_record: "record_key ledger_hash 7 21 = 8"
  using example_record_key by (simp add: record_key_def ledger_hash_def ledger_names_def)

lemma ledger_closed: "closed_names (set ledger_names)"
  by (auto simp: closed_names_def ledger_names_def intent_name_list_def intent_names_def)

definition ledger_gob :: "ReservedFallback codec" where
  "ledger_gob = \<lparr>enc = (\<lambda>_. Inr [1]), dec = (\<lambda>_. Inl GoPanic)\<rparr>"

lemma ledger_addresses [simp]: "EscrowAccountAddress ledger_hash = 5" "ID ledger_hash example_intent = Inr 7"
  "pid ledger_hash example_intent = 7"
  by (simp_all add: ledger_hash_def)

lemma ledger_sub: "intent_names 7 \<union> {NonceSlot 1} \<subseteq> set ledger_names"
  by (auto simp: ledger_names_def set_intent_name_list)

lemma ledger_reserved:
  obtains s rv where "Reserve mem_geth ledger_hash example_intent example_ctx example_state = (s, Inr rv)"
    "ledger_reach mem_geth ledger_hash gob (set ledger_names) s" "EscrowBalance mem_geth ledger_hash s = 300"
    "\<forall>m \<in> set ledger_names. cell mem_geth ledger_hash s m
       = (if m = StatusSlot 7 then 1 else if m = AmountSlot 7 then 300 else if m = NonceSlot 1 then 1 else 0)"
proof -
  obtain s rv where r: "Reserve mem_geth ledger_hash example_intent example_ctx example_state = (s, Inr rv)"
    using example_reserves_any [OF lh.storage_axioms [unfolded ledger_hash_def] ledger_sub] by (auto simp: ledger_hash_def)
  have z: "cell mem_geth ledger_hash example_state n = 0" for n by (simp add: cell_def mem_geth_def example_state_def)
  have "ledger_reach mem_geth ledger_hash gob (set ledger_names) example_state"
    by (rule genesis) (simp_all add: z EscrowBalance_def, simp add: mem_geth_def example_state_def)
  moreover have "ledger_step mem_geth ledger_hash gob (set ledger_names) example_state s"
    by (rule ledger_step.reserve [OF r]) (use ledger_sub in \<open>simp_all add: example_sender reserve_names_def\<close>)
  ultimately have re: "ledger_reach mem_geth ledger_hash gob (set ledger_names) s" by (rule ledger_reach.step)
  have c: "\<forall>m \<in> set ledger_names. cell mem_geth ledger_hash s m
       = (if m = StatusSlot 7 then 1 else if m = AmountSlot 7 then 300 else if m = NonceSlot 1 then 1 else 0)"
    using lh.Reserve_cell [OF r _ ledger_sub [folded example_sender]] by (simp add: z) (simp add: example_intent_def)
  have n: "cell mem_geth ledger_hash s (StatusSlot 7) = 1" "cell mem_geth ledger_hash s (AmountSlot 7) = 300"
    using c ledger_sub by (auto simp: intent_names_def)
  have "reserved_ids mem_geth ledger_hash (set ledger_names) s = {7}"
    using n by (auto simp: reserved_ids_def ledger_names_def intent_name_list_def)
  then have "EscrowBalance mem_geth ledger_hash s = 300"
    using lh.ledger_reach_holds [OF re ledger_closed] n by (simp add: escrow_holds_def reserved_sum_def)
  then show thesis using that r re c by blast
qed

lemma escrow_backed_witness:
  "\<exists>s. ledger_reach mem_geth ledger_hash ledger_gob (set ledger_names) s
     \<and> status mem_geth ledger_hash s 7 = Inr ReservationReserved \<and> EscrowBalance mem_geth ledger_hash s = 300
     \<and> EscrowBalance mem_geth ledger_hash s
        = (\<Sum>i \<in> {i. StatusSlot i \<in> set ledger_names \<and> status mem_geth ledger_hash s i = Inr ReservationReserved}.
            intentValue mem_geth ledger_hash s amountSlotDomain i)"
proof (rule ledger_reserved [of ledger_gob])
  fix s rv
  assume re: "ledger_reach mem_geth ledger_hash ledger_gob (set ledger_names) s"
    and e: "EscrowBalance mem_geth ledger_hash s = 300"
    and c: "\<forall>m \<in> set ledger_names. cell mem_geth ledger_hash s m
       = (if m = StatusSlot 7 then 1 else if m = AmountSlot 7 then 300 else if m = NonceSlot 1 then 1 else 0)"
  have "cell mem_geth ledger_hash s (StatusSlot 7) = 1" using c ledger_sub by (auto simp: intent_names_def)
  then have "status mem_geth ledger_hash s 7 = Inr ReservationReserved" using mem.status_Inr(2) by blast
  with escrow_backed [OF mem.geth_laws_axioms lh.inj ledger_closed re] re e show ?thesis by blast
qed

text \<open>The settlement of the solo window, executed on the reserved state.\<close>

definition solo_pack :: "SettlementPackage \<Rightarrow> bool" where
  "solo_pack pk \<longleftrightarrow> VerifySettlementPackage ledger_hash pk = Inr () \<and> ss_ShardID (pk_Settlement pk) = 0
     \<and> ss_Outgoing (pk_Settlement pk) = [solo_result ledger_hash] \<and> ss_Incoming (pk_Settlement pk) = []
     \<and> ss_BatchID (pk_Settlement pk) = 21 \<and> ss_ChunkIndex (pk_Settlement pk) = 0"

lemma solo_pack_exists: "\<exists>pk. solo_pack pk"
proof (rule solo_package [of ledger_hash])
  fix h pk
  assume "VerifySettlementPackage ledger_hash pk = Inr ()" "ss_ShardID (pk_Settlement pk) = 0"
    "ss_Outgoing (pk_Settlement pk) = [solo_result ledger_hash]" "ss_Incoming (pk_Settlement pk) = []"
    "ss_BatchID (pk_Settlement pk) = BatchID h" "BatchID h = BatchID_of ledger_hash 0 1 (MatchRoot h)"
    "ss_ChunkIndex (pk_Settlement pk) = 0"
  then show ?thesis by (intro exI [of _ pk]) (simp add: solo_pack_def BatchID_of_def ledger_batch)
qed

lemma solo_result_simps [simp]:
  "ir_Intent (solo_result H) = example_intent" "ir_IntentID (solo_result H) = pid H example_intent"
  "matched_of (solo_result H) = 0" "fallback_of (solo_result H) = 300" "conserving (solo_result H)"
  "ir_MatchedAmount (solo_result H) = Some 0" "ir_FallbackAmount (solo_result H) = Some 300"
  by (simp_all add: solo_result_def matched_of_def fallback_of_def conserving_def example_intent_def)

lemma solo_names:
  assumes "solo_pack pk" "outbox_count mem_geth ledger_hash s = 0"
  shows "settle_names mem_geth ledger_hash ledger_gob s pk \<subseteq> set ledger_names"
  using assms ledger_record
  by (auto simp: settle_names_def solo_pack_def outgoing_names_def Let_def enc_length_def ledger_gob_def record_names_def
      data_names_def chunk_count_def intent_names_def ledger_names_def intent_name_list_def uint64_of_int64_def)

lemma solo_executes:
  assumes pk: "solo_pack pk"
    and e: "EscrowBalance mem_geth ledger_hash s = 300"
    and c: "\<forall>m \<in> set ledger_names. cell mem_geth ledger_hash s m
       = (if m = StatusSlot 7 then 1 else if m = AmountSlot 7 then 300 else if m = NonceSlot 1 then 1 else 0)"
  shows "\<not> IsExecuted mem_geth ledger_hash s 21 0 0"
    "\<exists>s'. Execute mem_geth ledger_hash ledger_gob 0 pk (pk_Header pk) s = (s', Inr ())"
proof -
  note p = pk [unfolded solo_pack_def]
  have cs: "cell mem_geth ledger_hash s (StatusSlot 7) = 1" "cell mem_geth ledger_hash s (AmountSlot 7) = 300"
    "cell mem_geth ledger_hash s (ExecutedSlot 21 0 0) = 0" "cell mem_geth ledger_hash s (FbStatusSlot 8) = 0"
    using c by (simp_all add: ledger_names_def intent_name_list_def)
  show nx: "\<not> IsExecuted mem_geth ledger_hash s 21 0 0" by (simp add: cells uint64_of_int64_def cs)
  have rd: "ready mem_geth ledger_hash s (solo_result ledger_hash)" using cs by (simp add: ready_def)
  have hd: "execute_header_checks 0 pk (pk_Header pk) = Inr ()"
    using p by (auto simp: execute_header_checks_def Let_def VerifySettlementPackage_def res_elims)
  have "status mem_geth ledger_hash s 7 = Inr ReservationReserved" using cs(1) mem.status_Inr(2) by blast
  then have "check_outgoing mem_geth ledger_hash s 0 ([], {}) (solo_result ledger_hash) = Inr ([], {7})"
    using cs(2) by (simp add: check_outgoing_def IntentResult_Validate_ok_iff [THEN iffD2] registry_Get_def cells addAmount_def)
      (simp add: example_intent_def)
  then have v: "validateInstructions mem_geth ledger_hash s 0 (pk_Settlement pk) = Inr ()"
    using p by (simp add: validateInstructions_def equalBalances_def)
  have ck: "execute_checks mem_geth ledger_hash 0 pk s = Inr ()"
    using p v e by (simp add: execute_checks_def verifyProofs_def total_required_def total_incoming_def mem.FromBig EscrowBalance_def)
  let ?s1 = "consume_effects mem_geth ledger_hash (solo_result ledger_hash) 21 s"
  have "consume_checks mem_geth ledger_hash (solo_result ledger_hash) s = Inr ()"
    using rd mem.consume_checks_succeeds by (auto simp: ready_def)
  then have con: "Consume mem_geth ledger_hash (solo_result ledger_hash) 21 s = (?s1, Inr ())" by (simp add: Consume_def)
  have sub: "intent_names (ir_IntentID (solo_result ledger_hash)) \<subseteq> set ledger_names" using ledger_sub by simp
  have "cell mem_geth ledger_hash ?s1 (FbStatusSlot 8) = 0"
    using lh.consume_effects_cell [OF sub, of "FbStatusSlot 8" 21 s] cs(4) by (simp add: ledger_names_def)
  then have unk: "outbox_status mem_geth ledger_hash ?s1 8 = StatusUnknown" by (rule mem.outbox_status_values)
  have bal: "g_GetBalance mem_geth ?s1 5 = 300" using e by (simp add: EscrowBalance_def)
  define item where "item = fallback_item pk (solo_result ledger_hash)"
  have it: "fb_Amount item = Some 300" "fb_IntentID item = 7" "fb_BatchID item = 21" "recordKey ledger_hash (fallback_Key item) = 8"
    using p ledger_record by (simp_all add: item_def) (simp_all add: fallback_item_def)
  obtain s2 where cr: "Create mem_geth ledger_hash ledger_gob item ?s1 = (s2, Inr ())"
    using it unk bal by (simp add: Create_def ledger_gob_def mem.FromBig)
  have "execute_effects mem_geth ledger_hash ledger_gob 0 pk s
      = Inr (markExecuted mem_geth ledger_hash 21 0 0 s2)"
    using p con cr by (simp add: execute_effects_def settle_outgoing_def item_def)
  then show "\<exists>s'. Execute mem_geth ledger_hash ledger_gob 0 pk (pk_Header pk) s = (s', Inr ())"
    using p hd nx ck by (simp add: Execute_def)
qed

lemma Execute_atomic_once_witness:
  "\<exists>s s' pk. ledger_reach mem_geth ledger_hash ledger_gob (set ledger_names) s
     \<and> Execute mem_geth ledger_hash ledger_gob 0 pk (pk_Header pk) s = (s', Inr ())
     \<and> \<not> IsExecuted mem_geth ledger_hash s 21 0 0 \<and> IsExecuted mem_geth ledger_hash s' 21 0 0
     \<and> Execute mem_geth ledger_hash ledger_gob 0 pk (pk_Header pk) s' = (s', Inr ())"
proof (rule ledger_reserved [of ledger_gob])
  fix s rv
  assume re: "ledger_reach mem_geth ledger_hash ledger_gob (set ledger_names) s"
    and e: "EscrowBalance mem_geth ledger_hash s = 300"
    and c: "\<forall>m \<in> set ledger_names. cell mem_geth ledger_hash s m
       = (if m = StatusSlot 7 then 1 else if m = AmountSlot 7 then 300 else if m = NonceSlot 1 then 1 else 0)"
  obtain pk where pk: "solo_pack pk" using solo_pack_exists by blast
  note p = pk [unfolded solo_pack_def]
  obtain s' where x: "Execute mem_geth ledger_hash ledger_gob 0 pk (pk_Header pk) s = (s', Inr ())"
    using solo_executes(2) [OF pk e c] by blast
  have "outbox_count mem_geth ledger_hash s = 0" using c by (simp add: fallback_cells ledger_names_def)
  note n = solo_names [OF pk this]
  have en: "\<forall>r \<in> set (ss_Outgoing (pk_Settlement pk)). enc_length ledger_gob (fallback_item pk r) < 2 ^ 64"
    "\<forall>r \<in> set (ss_Incoming (pk_Settlement pk)). Recipient (ir_Intent r) \<noteq> EscrowAccountAddress ledger_hash"
    using p by (simp_all add: enc_length_def ledger_gob_def)
  from Execute_atomic_once [OF mem.geth_laws_axioms lh.inj ledger_closed re n en, of 0 "pk_Header pk" s' _ "()"]
    solo_executes(1) [OF pk e c] x p re
  show ?thesis by (intro exI [of _ s] exI [of _ s'] exI [of _ pk]) simp
qed

end
