(* ===== verification/Chain_Ledger.thy ===== *)
theory Chain_Ledger
  imports Transfers Ledger
begin

text \<open>
  The escrow across blocks: executing a block is a sequence of ledger steps, and the account that
  holds the netting records survives the commit of a block, so the escrow of a chain covers the
  outstanding reservations after every block.
\<close>

section \<open>The account of the netting records\<close>

text \<open>
  A commit deletes empty accounts with their storage. The registry account holds records only while
  its nonce is set.
\<close>

definition kept :: "'s geth \<Rightarrow> hasher \<Rightarrow> 's \<Rightarrow> bool" where
  "kept G H s \<longleftrightarrow> g_GetNonce G s (IntentRegistryAddress H) \<noteq> 0 \<or> (\<forall>k. g_GetState G s (IntentRegistryAddress H) k = 0)"

context geth_laws
begin

lemma kept_cong:
  "g_GetNonce G s' (IntentRegistryAddress H) = g_GetNonce G s (IntentRegistryAddress H) \<Longrightarrow>
   (\<And>k. g_GetState G s' (IntentRegistryAddress H) k = g_GetState G s (IntentRegistryAddress H) k) \<Longrightarrow> kept G H s \<Longrightarrow> kept G H s'"
  by (simp add: kept_def)

lemma kept_ensure [simp]:
  "kept G H (ensureRegistryAccount G H s)" "kept G H (ensureStorageAccount G H s)"
  "g_GetNonce G (ensureRegistryAccount G H s) (IntentRegistryAddress H) \<noteq> 0"
  "g_GetNonce G (ensureStorageAccount G H s) (IntentRegistryAddress H) \<noteq> 0"
  by (auto simp: kept_def ensureRegistryAccount_def ensureStorageAccount_def storageAddress_def)

lemma store_chunks_nonce: "g_GetNonce G (store_chunks G H key idx bs s) a = g_GetNonce G s a"
proof (induction bs arbitrary: idx s rule: length_induct)
  case (1 bs)
  then show ?case by (subst store_chunks.simps) simp
qed

lemma kept_Reserve: "Reserve G H p ctx s = (s', r) \<Longrightarrow> kept G H s \<Longrightarrow> kept G H s'"
  by (auto simp: Reserve_def reserve_effects_def Let_def kept_def setNonce_def setIntentValue_def split: sum.splits prod.splits)

lemma kept_Consume: "Consume G H x b s = (s', r) \<Longrightarrow> kept G H s \<Longrightarrow> kept G H s'"
  by (auto simp: Consume_def consume_effects_def kept_def setIntentValue_def split: sum.splits)

lemma kept_Create: "Create G H gob item s = (s', r) \<Longrightarrow> kept G H s \<Longrightarrow> kept G H s'"
  by (auto simp: Create_def create_effects_def Let_def kept_def setStatus_def store_chunks_nonce
      split: option.splits if_splits sum.splits)

lemma kept_Complete:
  assumes "Complete G H key s = (s', r)" "kept G H s"
  shows "kept G H s'"
proof (cases "g_GetNonce G s (IntentRegistryAddress H) = 0")
  case True
  then have "g_GetState G s (storageAddress H) k = 0" for k using assms(2) by (simp add: kept_def storageAddress_def)
  then have "outbox_status G H s (recordKey H key) = StatusUnknown" by (simp add: outbox_status_def get_uint64_def)
  then show ?thesis using assms by (simp add: Complete_def)
next
  case False
  then show ?thesis using assms(1) by (auto simp: Complete_def kept_def setStatus_def Let_def split: Status.splits)
qed

lemma kept_credit_recipient:
  "g_GetNonce G (credit_recipient G i x s) a = g_GetNonce G s a" "g_GetState G (credit_recipient G i x s) a k = g_GetState G s a k"
  by (simp_all add: credit_recipient_def)

lemma kept_ExecuteCredit: "ExecuteCredit G H sh item confirmed s = (s', r) \<Longrightarrow> kept G H s \<Longrightarrow> kept G H s'"
  by (auto simp: ExecuteCredit_def credit_effects_def Let_def kept_def split: sum.splits if_splits option.splits)

lemma kept_settle_outgoing: "settle_outgoing G H gob pack s x = Inr s' \<Longrightarrow> kept G H s \<Longrightarrow> kept G H s'"
  by (auto simp: settle_outgoing_def bind_res_eq_Inr split: prod.splits sum.splits if_splits dest: kept_Consume kept_Create)

lemma kept_settle_incoming: "settle_incoming G H s x = Inr s' \<Longrightarrow> kept G H s \<Longrightarrow> kept G H s'"
  by (auto simp: settle_incoming_def bind_res_eq_Inr kept_def kept_credit_recipient split: option.splits)

lemma kept_Execute:
  assumes "Execute G H gob sh pack confirmed s = (s', r)" "kept G H s"
  shows "kept G H s'"
proof (cases "s' = s")
  case False
  then have "execute_effects G H gob sh pack s = Inr s'"
    using assms(1) by (auto simp: Execute_def split: sum.splits if_splits)
  then obtain s1 s2 where s': "s' = markExecuted G H (ss_BatchID (pk_Settlement pack)) sh (ss_ChunkIndex (pk_Settlement pack)) s2"
    by (auto simp: execute_effects_def Let_def bind_res_eq_Inr)
  then show ?thesis by (auto simp: kept_def markExecuted_def)
qed (use assms in simp)

lemma kept_init: "kept G H s \<Longrightarrow> kept G H (setInitBalanceIfNotExist G as s)"
  by (rule kept_cong) (simp_all add: init_frame)

end

section \<open>Transactions as ledger steps\<close>

text \<open>
  What a transaction may name: no transfer touches the escrow account, and the slots it uses are
  among the tracked names. Contract calls run code of the EVM and are left out.
\<close>

definition tx_tracked :: "('s, 'st, 'l) chain_env \<Rightarrow> name set \<Rightarrow> Transaction \<Rightarrow> 's \<Rightarrow> bool" where
  "tx_tracked E N tx s \<longleftrightarrow>
     (let G = ce_geth E; H = ce_hash E; gob = gob_fallback (ce_tx E); escrow = EscrowAccountAddress H; ty = TxType tx in
      ty \<noteq> CreateContractTxType \<and> ty \<noteq> CallContractTxType
      \<and> tx_Sender tx \<noteq> escrow \<and> tx_Recipient tx \<noteq> escrow \<and> Broker (tx_Broker tx) \<noteq> escrow
      \<and> (\<forall>p. tx_Intent tx = Some p \<longrightarrow> reserve_names H p \<subseteq> N)
      \<and> (\<forall>pack. tx_Settlement tx = Some pack \<longrightarrow> settle_names G H gob s pack \<subseteq> N
           \<and> (\<forall>r \<in> set (ss_Outgoing (pk_Settlement pack)). enc_length gob (fallback_item pack r) < 2 ^ 64)
           \<and> (\<forall>r \<in> set (ss_Incoming (pk_Settlement pack)). Recipient (ir_Intent r) \<noteq> escrow))
      \<and> (\<forall>item. tx_ReservedFallback tx = Some item \<longrightarrow> FbExecutedSlot (recordKey H (fallback_Key item)) \<in> N)
      \<and> (\<forall>key. tx_FallbackCompleted tx = Some key \<longrightarrow> FbStatusSlot (recordKey H key) \<in> N))"

text \<open>Two states that differ only in balances of other accounts.\<close>

definition apart :: "'s geth \<Rightarrow> hasher \<Rightarrow> 's \<Rightarrow> 's \<Rightarrow> bool" where
  "apart G H s s' \<longleftrightarrow> g_GetBalance G s' (EscrowAccountAddress H) = g_GetBalance G s (EscrowAccountAddress H)
     \<and> g_GetNonce G s' (IntentRegistryAddress H) = g_GetNonce G s (IntentRegistryAddress H)
     \<and> (\<forall>k. g_GetState G s' (IntentRegistryAddress H) k = g_GetState G s (IntentRegistryAddress H) k)"

definition sound :: "('s, 'st, 'l) chain_env \<Rightarrow> name set \<Rightarrow> 's \<Rightarrow> bool" where
  "sound E N s \<longleftrightarrow> ledger_reach (ce_geth E) (ce_hash E) (gob_fallback (ce_tx E)) N s \<and> kept (ce_geth E) (ce_hash E) s"

lemma apart_step: "apart G H s s' \<Longrightarrow> ledger_step G H gob N s s'"
  by (rule ledger_step.elsewhere) (simp_all add: apart_def EscrowBalance_def cell_def)

lemma sound_step:
  assumes "ledger_step (ce_geth E) (ce_hash E) (gob_fallback (ce_tx E)) N s s'" "kept (ce_geth E) (ce_hash E) s'" "sound E N s"
  shows "sound E N s'"
  using assms(2,3) ledger_reach.step [OF _ assms(1)] by (simp add: sound_def)

lemma sound_apart:
  assumes G: "geth_laws (ce_geth E)" and a: "apart (ce_geth E) (ce_hash E) s s'" and s: "sound E N s"
  shows "sound E N s'"
proof (rule sound_step [OF apart_step [OF a] _ s])
  show "kept (ce_geth E) (ce_hash E) s'"
    by (rule geth_laws.kept_cong [OF G]) (use a s in \<open>auto simp: apart_def sound_def\<close>)
qed

context geth_laws
begin

lemma apart_init: "EscrowAccountAddress H \<notin> set as \<Longrightarrow> apart G H s (setInitBalanceIfNotExist G as s)"
proof -
  have "EscrowAccountAddress H \<notin> set as \<Longrightarrow>
      g_GetBalance G (foldl (init_balance G b) s as) (EscrowAccountAddress H) = g_GetBalance G s (EscrowAccountAddress H)" for b
    by (induction as arbitrary: s) auto
  then show "EscrowAccountAddress H \<notin> set as \<Longrightarrow> apart G H s (setInitBalanceIfNotExist G as s)"
    by (simp add: apart_def init_frame) (simp add: setInitBalanceIfNotExist_def)
qed

lemma apart_normal:
  "normalTxExecute G tx s = (s', r) \<Longrightarrow> tx_Sender tx \<noteq> EscrowAccountAddress H \<Longrightarrow> tx_Recipient tx \<noteq> EscrowAccountAddress H \<Longrightarrow> apart G H s s'"
  using apart_init [of H "[tx_Sender tx, tx_Recipient tx]" s]
  by (cases "BigToUInt256 G (tx_Value tx)")
    (auto simp: normalTxExecute_def lift_res_def Let_def apart_def split: if_splits)

lemma apart_relay:
  "relayTxExecute G loc shard tx s = (s', r) \<Longrightarrow> tx_Sender tx \<noteq> EscrowAccountAddress H \<Longrightarrow> tx_Recipient tx \<noteq> EscrowAccountAddress H \<Longrightarrow> apart G H s s'"
  using apart_init [of H "[tx_Sender tx]" s] apart_init [of H "[tx_Recipient tx]" s]
  by (cases "BigToUInt256 G (tx_Value tx)")
    (auto simp: relayTxExecute_def lift_res_def Let_def apart_def split: if_splits)

lemma apart_broker:
  "brokerTxExecute G loc shard tx s = (s', r) \<Longrightarrow> tx_Sender tx \<noteq> EscrowAccountAddress H \<Longrightarrow> tx_Recipient tx \<noteq> EscrowAccountAddress H
    \<Longrightarrow> Broker (tx_Broker tx) \<noteq> EscrowAccountAddress H \<Longrightarrow> apart G H s s'"
  by (cases "BigToUInt256 G (tx_Value tx)")
    (auto simp: brokerTxExecute_def lift_res_def Let_def apart_def setInitBalanceIfNotExist_def
      setBrokerInitBalanceIfNotExist_def split: if_splits)

end

lemma intent_sound:
  assumes G: "geth_laws (ce_geth E)" and x: "intentTxExecute E c tx s = (s', r)" and t: "tx_tracked E N tx s" and s: "sound E N s"
  shows "sound E N s'"
proof (cases "s' = s")
  case False
  let ?H = "ce_hash E" and ?G = "ce_geth E"
  obtain u where "validateIntentEnvelope tx = Inr u" using x False by (cases "validateIntentEnvelope tx") (auto simp: intentTxExecute_def lift_res_def)
  then obtain p where p: "tx_Intent tx = Some p" "tx_Sender tx = Sender p"
    by (auto simp: validateIntentEnvelope_def fail_if_def split: option.splits if_splits)
  let ?s1 = "setInitBalanceIfNotExist ?G [Sender p] s"
  obtain ctx rv where re: "Reserve ?G ?H p ctx ?s1 = (s', rv)"
    using x False p \<open>validateIntentEnvelope tx = Inr u\<close>
    by (auto simp: intentTxExecute_def lift_res_def split: sum.splits prod.splits)
  have sender: "Sender p \<noteq> EscrowAccountAddress ?H" and names: "reserve_names ?H p \<subseteq> N"
    using t p by (auto simp: tx_tracked_def Let_def)
  have "apart ?G ?H s ?s1" by (rule geth_laws.apart_init [OF G]) (use sender in auto)
  then have s1: "sound E N ?s1" using sound_apart [OF G _ s] by blast
  show ?thesis
    by (rule sound_step [OF ledger_step.reserve [OF re sender names] _ s1])
      (rule geth_laws.kept_Reserve [OF G re], use s1 in \<open>simp add: sound_def\<close>)
qed (use s in simp)

lemma settlement_sound:
  assumes G: "geth_laws (ce_geth E)" and x: "settlementTxExecute E c tx s = (s', r)" and t: "tx_tracked E N tx s" and s: "sound E N s"
  shows "sound E N s'"
proof (cases "s' = s")
  case False
  let ?H = "ce_hash E" and ?G = "ce_geth E" and ?gob = "gob_fallback (ce_tx E)"
  obtain pack confirmed where e: "tx_Settlement tx = Some pack" "Execute ?G ?H ?gob (shardID c) pack confirmed s = (s', r)"
    using x False by (auto simp: settlementTxExecute_def split: option.splits if_splits)
  have k: "settle_names ?G ?H ?gob s pack \<subseteq> N"
      "\<forall>r \<in> set (ss_Outgoing (pk_Settlement pack)). enc_length ?gob (fallback_item pack r) < 2 ^ 64"
      "\<forall>r \<in> set (ss_Incoming (pk_Settlement pack)). Recipient (ir_Intent r) \<noteq> EscrowAccountAddress ?H"
    using t e(1) by (auto simp: tx_tracked_def Let_def)
  show ?thesis
    by (rule sound_step [OF ledger_step.settle [OF e(2) k] _ s])
      (rule geth_laws.kept_Execute [OF G e(2)], use s in \<open>simp add: sound_def\<close>)
qed (use s in simp)

lemma fallback_sound:
  assumes G: "geth_laws (ce_geth E)" and x: "fallbackTxExecute E c tx s = (s', r)" and t: "tx_tracked E N tx s" and s: "sound E N s"
  shows "sound E N s'"
proof (cases "s' = s")
  case False
  let ?H = "ce_hash E" and ?G = "ce_geth E"
  have k: "kept ?G ?H s" using s by (simp add: sound_def)
  consider (credit) item confirmed where "tx_ReservedFallback tx = Some item" "fb_Recipient item = tx_Recipient tx"
      "ExecuteCredit ?G ?H (shardID c) item confirmed s = (s', r)"
    | (completed) key where "tx_FallbackCompleted tx = Some key" "Complete ?G ?H key s = (s', r)"
    using x False by (auto simp: fallbackTxExecute_def split: option.splits if_splits)
  then show ?thesis
  proof cases
    case credit
    then have "FbExecutedSlot (recordKey ?H (fallback_Key item)) \<in> N" "fb_Recipient item \<noteq> EscrowAccountAddress ?H"
      using t by (auto simp: tx_tracked_def Let_def)
    then show ?thesis
      using sound_step [OF ledger_step.credit [OF credit(3)] geth_laws.kept_ExecuteCredit [OF G credit(3) k] s] by blast
  next
    case completed
    then have "FbStatusSlot (recordKey ?H key) \<in> N" using t by (auto simp: tx_tracked_def Let_def)
    then show ?thesis
      using sound_step [OF ledger_step.complete [OF completed(2)] geth_laws.kept_Complete [OF G completed(2) k] s] by blast
  qed
qed (use s in simp)

lemma tx_sound:
  assumes G: "geth_laws (ce_geth E)" and x: "txExecute E c bCtx loc tx s = (s', r)" and t: "tx_tracked E N tx s" and s: "sound E N s"
  shows "sound E N s'"
proof -
  let ?G = "ce_geth E" and ?H = "ce_hash E" and ?ty = "TxType tx"
  have e: "tx_Sender tx \<noteq> EscrowAccountAddress ?H" "tx_Recipient tx \<noteq> EscrowAccountAddress ?H"
      "Broker (tx_Broker tx) \<noteq> EscrowAccountAddress ?H" and ty: "?ty \<noteq> CreateContractTxType" "?ty \<noteq> CallContractTxType"
    using t by (auto simp: tx_tracked_def Let_def)
  consider "normalTxExecute ?G tx s = (s', r)" | "relayTxExecute ?G loc (shardID c) tx s = (s', r)"
    | "brokerTxExecute ?G loc (shardID c) tx s = (s', r)" | "intentTxExecute E c tx s = (s', r)"
    | "settlementTxExecute E c tx s = (s', r)" | "fallbackTxExecute E c tx s = (s', r)" | "s' = s"
    using x ty by (auto simp: txExecute_def Let_def split: if_splits)
  then show ?thesis
  proof cases
    case 1 then show ?thesis using sound_apart [OF G geth_laws.apart_normal [OF G _ e(1,2)] s] by blast
  next
    case 2 then show ?thesis using sound_apart [OF G geth_laws.apart_relay [OF G _ e(1,2)] s] by blast
  next
    case 3 then show ?thesis using sound_apart [OF G geth_laws.apart_broker [OF G _ e] s] by blast
  next
    case 4 then show ?thesis by (rule intent_sound [OF G _ t s])
  next
    case 5 then show ?thesis by (rule settlement_sound [OF G _ t s])
  next
    case 6 then show ?thesis by (rule fallback_sound [OF G _ t s])
  qed (use s in simp)
qed

section \<open>Blocks\<close>

fun txs_tracked ::
    "('s, 'st, 'l) chain_env \<Rightarrow> ('st, 'l) Chain \<Rightarrow> BlockContext \<Rightarrow> (address \<Rightarrow> int) \<Rightarrow> name set \<Rightarrow> Transaction list \<Rightarrow> 's \<Rightarrow> bool" where
  "txs_tracked E c bCtx loc N [] s \<longleftrightarrow> True"
| "txs_tracked E c bCtx loc N (tx # txs) s \<longleftrightarrow>
     tx_tracked E N tx s \<and> txs_tracked E c bCtx loc N txs (fst (txExecute E c bCtx loc tx s))"

definition block_tracked :: "('s, 'st, 'l) chain_env \<Rightarrow> ('st, 'l) Chain \<Rightarrow> name set \<Rightarrow> Block \<Rightarrow> bool" where
  "block_tracked E c N b \<longleftrightarrow>
     (\<forall>s loc. getVMExecutor E c = Inr s \<longrightarrow> getAccountLocationsInTxs E c (TxList b) = Inr loc \<longrightarrow>
        txs_tracked E c (getBlockCtxByBlock (b_Header b)) loc N (TxList b) s)
     \<and> EscrowAccountAddress (ce_hash E) \<notin> set (MigratedAddrs (b_Migration b))
     \<and> IntentRegistryAddress (ce_hash E) \<notin> set (MigratedAddrs (b_Migration b))"

lemma execute_txs_sound:
  "geth_laws (ce_geth E) \<Longrightarrow> execute_txs E c bCtx loc txs s = (s', Inr w) \<Longrightarrow> txs_tracked E c bCtx loc N txs s \<Longrightarrow> sound E N s
    \<Longrightarrow> sound E N s'"
proof (induction txs arbitrary: s)
  case (Cons tx txs)
  obtain s1 u where x: "txExecute E c bCtx loc tx s = (s1, Inr u)" "execute_txs E c bCtx loc txs s1 = (s', Inr w)"
    using Cons.prems(2) by (auto simp: bind_st_eq_Inr)
  have "sound E N s1" by (rule tx_sound [OF Cons.prems(1) x(1) _ Cons.prems(4)]) (use Cons.prems(3) in simp)
  then show ?case using Cons.IH [OF Cons.prems(1) x(2)] Cons.prems(3) x(1) by simp
qed simp

lemma migrate_sound:
  "geth_laws (ce_geth E) \<Longrightarrow> migrate_accounts E sh as states s = (s', Inr kvs) \<Longrightarrow> EscrowAccountAddress (ce_hash E) \<notin> set as
    \<Longrightarrow> IntentRegistryAddress (ce_hash E) \<notin> set as \<Longrightarrow> sound E N s \<Longrightarrow> sound E N s'"
proof (induction E sh as states s arbitrary: kvs rule: migrate_accounts.induct)
  case (3 E sh a as st states s)
  let ?m = "if as_ShardLocation st = uint64_of_int64 sh then setMigratedStates2VMTrie (ce_geth E) a st s else (s, Inr ())"
  obtain s1 u l ks vs where x: "?m = (s1, Inr u)" "enc (gob_loc (ce_block E)) (as_ShardLocation st) = Inr l"
      "migrate_accounts E sh as states s1 = (s', Inr (ks, vs))"
    using "3.prems"(2) by (auto simp: bind_st_eq_Inr lift_res_def)
  have "apart (ce_geth E) (ce_hash E) s s1"
    using x(1) "3.prems"(3,4) geth_laws.SetBalance [OF "3.prems"(1)] geth_laws.SetNonce [OF "3.prems"(1)]
    by (auto simp: apart_def setMigratedStates2VMTrie_def bind_st_eq_Inr lift_res_def split: if_splits)
  then have "sound E N s1" using sound_apart [OF "3.prems"(1) _ "3.prems"(5)] by blast
  then show ?case using "3.IH" [OF "3.prems"(1) x(3)] "3.prems"(3,4) by simp
qed auto

lemma block_sound:
  assumes G: "geth_laws (ce_geth E)" and b: "block_tracked E c N b" and e: "getVMExecutor E c = Inr s"
    and x: "calcStateModification E c b s = (s', Inr kvs)" and s: "sound E N s"
  shows "sound E N s'"
proof -
  obtain loc s1 u where l: "getAccountLocationsInTxs E c (TxList b) = Inr loc"
      "execute_txs E c (getBlockCtxByBlock (b_Header b)) loc (TxList b) s = (s1, Inr u)"
      "migrate_accounts E (shardID c) (MigratedAddrs (b_Migration b)) (MigratedStates (b_Migration b)) s1 = (s', Inr kvs)"
    using x by (auto simp: calcStateModification_def bind_st_eq_Inr lift_res_def)
  have "sound E N s1" by (rule execute_txs_sound [OF G l(2)]) (use b e l s in \<open>auto simp: block_tracked_def\<close>)
  then show ?thesis by (rule migrate_sound [OF G l(3), rotated 2]) (use b in \<open>auto simp: block_tracked_def\<close>)
qed

text \<open>Opening the committed state again.\<close>

lemma reopen_sound:
  assumes G: "geth_laws (ce_geth E)" and V: "vm_laws (ce_geth E) (ce_vm E)" and s: "sound E N s"
    and c: "state_Commit (ce_vm E) n s st = (st', Inr r)" "TrieDB_Commit (ce_vm E) r st' = (st'', Inr u)"
  shows "\<exists>s'. state_New (ce_vm E) st'' r = Inr s' \<and> sound E N s'
    \<and> EscrowBalance (ce_geth E) (ce_hash E) s' = EscrowBalance (ce_geth E) (ce_hash E) s"
proof -
  let ?G = "ce_geth E" and ?R = "IntentRegistryAddress (ce_hash E)"
  obtain s' where s': "state_New (ce_vm E) st'' r = Inr s'" "\<forall>a. g_GetBalance ?G s' a = g_GetBalance ?G s a"
      "nonempty_account ?G s ?R \<longrightarrow> g_GetNonce ?G s' ?R = g_GetNonce ?G s ?R \<and> (\<forall>k. g_GetState ?G s' ?R k = g_GetState ?G s ?R k)"
      "\<not> nonempty_account ?G s ?R \<longrightarrow> g_GetNonce ?G s' ?R = 0 \<and> (\<forall>k. g_GetState ?G s' ?R k = 0)"
    using vm_laws.Commit_reopen [OF V c] by blast
  have "kept ?G (ce_hash E) s" using s by (simp add: sound_def)
  then have "apart ?G (ce_hash E) s s'"
    using s'(2-4) by (cases "nonempty_account ?G s ?R") (auto simp: apart_def kept_def nonempty_account_def)
  then show ?thesis using sound_apart [OF G _ s] s'(1,2) by (auto simp: EscrowBalance_def)
qed

section \<open>Histories\<close>

inductive tracked_run :: "('s, 'st, 'l) chain_env \<Rightarrow> name set \<Rightarrow> ('st, 'l) Chain \<Rightarrow> bool" for E N where
  start: "getVMExecutor E c = Inr s \<Longrightarrow> EscrowBalance (ce_geth E) (ce_hash E) s = 0 \<Longrightarrow>
    \<forall>k. g_GetState (ce_geth E) s (IntentRegistryAddress (ce_hash E)) k = 0 \<Longrightarrow> tracked_run E N c"
| block: "tracked_run E N c \<Longrightarrow> block_tracked E c N b \<Longrightarrow> AddBlock E b c = (c', Inr ()) \<Longrightarrow> tracked_run E N c'"
| invalid: "tracked_run E N c \<Longrightarrow> validateBlock E c b \<noteq> Inr () \<Longrightarrow> AddBlock E b c = (c', r) \<Longrightarrow> tracked_run E N c'"
| confirm: "tracked_run E N c \<Longrightarrow> ConfirmMatchRoot E h c = (c', r') \<Longrightarrow> tracked_run E N c'"
| epoch: "tracked_run E N c \<Longrightarrow> tracked_run E N (UpdateEpoch e c)"

lemma common_Hash_hash_bytes: "common_Hash (hash_bytes r) = Inr r"
  by (simp add: common_Hash_def be_val_hash_bytes)

lemma AddBlock_sound:
  assumes G: "geth_laws (ce_geth E)" and V: "vm_laws (ce_geth E) (ce_vm E)" and b: "block_tracked E c N b"
    and a: "AddBlock E b c = (c', Inr ())" and e: "getVMExecutor E c = Inr s" "sound E N s"
  shows "\<exists>s1 s' kvs. calcStateModification E c b s = (s1, Inr kvs) \<and> getVMExecutor E c' = Inr s' \<and> sound E N s'
    \<and> EscrowBalance (ce_geth E) (ce_hash E) s' = EscrowBalance (ce_geth E) (ce_hash E) s1"
proof (rule AddBlock_Inr [OF a])
  fix c1 h bb hb bs
  assume u: "updateTrieByBlock E b c = (c1, Inr (StateRoot (b_Header b), LocationRoot (b_Header b)))"
    and c': "c' = c1\<lparr>BlockStorage := bs, curHeader := b_Header b\<rparr>"
  obtain s0 s1 ks vs st r l st' where k: "getVMExecutor E c = Inr s0" "calcStateModification E c b s0 = (s1, Inr (ks, vs))"
      "state_Commit (ce_vm E) (BlockNumber (getBlockCtxByBlock (b_Header b))) s1 (StateStorage c) = (st, Inr r)"
      "TrieDB_Commit (ce_vm E) r st = (st', Inr ())" "c1 = c\<lparr>StateStorage := st', LocStorage := l\<rparr>"
      "StateRoot (b_Header b) = hash_bytes r"
    by (rule updateTrieByBlock_Inr [OF u]) blast
  have "s0 = s" using k(1) e(1) by simp
  then have "sound E N s1" using block_sound [OF G b e(1) _ e(2)] k(2) by blast
  from reopen_sound [OF G V this k(3,4)] show ?thesis
    using k(2,5,6) c' \<open>s0 = s\<close> by (auto simp: getVMExecutor_def common_Hash_hash_bytes)
qed

lemma tracked_run_sound:
  assumes "tracked_run E N c" "geth_laws (ce_geth E)" "vm_laws (ce_geth E) (ce_vm E)"
  shows "\<exists>s. getVMExecutor E c = Inr s \<and> sound E N s"
  using assms
proof (induction rule: tracked_run.induct)
  case (start c s)
  then have "sound E N s"
    by (auto simp: sound_def kept_def cell_def intro!: ledger_reach.genesis)
  then show ?case using start by blast
next
  case (block c b c')
  then show ?case using AddBlock_sound [OF block.prems block.hyps(2,3)] by blast
next
  case (invalid c b c' r)
  then have "c' = c" by (cases "validateBlock E c b") (auto simp: AddBlock_def lift_res_def)
  then show ?case using invalid by simp
next
  case (confirm c h c' r')
  then have "getVMExecutor E c' = getVMExecutor E c"
    by (auto simp: ConfirmMatchRoot_def getVMExecutor_def split: if_splits option.splits)
  then show ?case using confirm by simp
next
  case (epoch c e)
  then show ?case by (simp add: UpdateEpoch_def getVMExecutor_def)
qed

section \<open>Properties\<close>

text \<open>
  C1. On every chain that starts with an empty escrow account and registry and goes on by blocks that \<open>AddBlock\<close> accepts,
  blocks that the validation refuses, confirmed match roots and epoch changes, the state of the current header can be opened and its escrow balance
  is the sum of the stored amounts of exactly the intents that are reserved there, provided that the accepted blocks leave the escrow account to the
  ledger: none of their transactions creates or calls a contract or names the escrow account as sender, recipient or broker, no settlement credits
  it, no migration moves it or the registry, and the slots used are among names on which the hash has no collision. Transfers, intents,
  settlements, fallbacks, account migrations and the removal of empty accounts at every commit are all covered. The code does not
  enforce the condition on the escrow account, see \<open>escrow_spendable\<close> below.
\<close>

theorem chain_escrow_backed:
  assumes "geth_laws (ce_geth E)" "vm_laws (ce_geth E) (ce_vm E)" "inj_on (ce_hash E) (preimage ` N)" "closed_names N"
    and "tracked_run E N c"
  shows "\<exists>s. getVMExecutor E c = Inr s \<and> EscrowBalance (ce_geth E) (ce_hash E) s
     = (\<Sum>i \<in> {i. StatusSlot i \<in> N \<and> status (ce_geth E) (ce_hash E) s i = Inr ReservationReserved}.
          intentValue (ce_geth E) (ce_hash E) s amountSlotDomain i)"
proof -
  obtain s where s: "getVMExecutor E c = Inr s" "sound E N s" using tracked_run_sound [OF assms(5,1,2)] by blast
  have "escrow_holds (ce_geth E) (ce_hash E) N 0 s"
    using storage.ledger_reach_holds [OF storageI [OF assms(1,3)] _ assms(4)] s(2) unfolding sound_def by blast
  then show ?thesis
    using s(1) by (simp add: escrow_holds_def reserved_sum_def reserved_ids_def cells geth_laws.status_Inr [OF assms(1)])
qed

text \<open>
  The execution of transfers has no guard for the escrow account: a transfer that names it as sender succeeds whenever its balance covers the value,
  and lowers the balance while every slot of the registry, hence every reservation, stays as it is.
\<close>

lemma escrow_spendable:
  assumes "geth_laws G" "tx_Value tx = Some x" "0 < x" "x < 2 ^ 256" "tx_Sender tx = EscrowAccountAddress H"
    and "tx_Recipient tx \<noteq> EscrowAccountAddress H" "g_Exist G s (EscrowAccountAddress H)" "x \<le> uint (EscrowBalance G H s)"
    and "normalTxExecute G tx s = (s', r)"
  shows "r = Inr () \<and> uint (EscrowBalance G H s') = uint (EscrowBalance G H s) - x
    \<and> (\<forall>k. g_GetState G s' (IntentRegistryAddress H) k = g_GetState G s (IntentRegistryAddress H) k)"
proof -
  let ?a = "EscrowAccountAddress H"
  have "start_balance G s ?a = g_GetBalance G s ?a" using assms(7) by (simp add: start_balance_def)
  then show ?thesis
    using normal_transfer [OF assms(1,2) _ assms(4,9), of "{tx_Sender tx, tx_Recipient tx}"] assms(3,5,6,8) by (auto simp: EscrowBalance_def)
qed

section \<open>A chain with a reservation\<close>

definition ledger_env :: "(mem_state, hash256 \<rightharpoonup> mem_state, (hash256 \<rightharpoonup> content) EthereumDefaultTrieDB) chain_env" where
  "ledger_env = (example_env no_codec)\<lparr>ce_hash := ledger_hash\<rparr>"

definition ledger_chain :: "(hash256 \<rightharpoonup> mem_state, (hash256 \<rightharpoonup> content) EthereumDefaultTrieDB) Chain" where
  "ledger_chain = example_chain\<lparr>StateStorage := [5 \<mapsto> example_state], cfg_ChainID := 11\<rparr>"

definition intent_tx :: Transaction where
  "intent_tx = NewIntentTransaction example_intent 0"

lemma ledger_env_simps [simp]:
  "ce_geth ledger_env = mem_geth" "ce_vm ledger_env = mem_vm" "ce_hash ledger_env = ledger_hash"
  "ce_bits ledger_env = list_bits" "ce_loc ledger_env = eth_store ref_ops" "gob_fallback (ce_tx ledger_env) = no_codec"
  "enc (gob_Block (ce_block ledger_env)) b = Inr [1]" "rlp_header (ce_block ledger_env) h = Inr (uint64_bytes (bh_Number h))"
  by (simp_all add: ledger_env_def example_env_def no_codec_def)

lemma intent_tx_simps [simp]:
  "tx_Intent intent_tx = Some example_intent" "tx_Sender intent_tx = 1" "tx_Recipient intent_tx = 2"
  "TxType intent_tx = IntentSubmitTxType" "tx_Settlement intent_tx = None" "tx_ReservedFallback intent_tx = None"
  "tx_FallbackCompleted intent_tx = None" "Broker (tx_Broker intent_tx) = 0" "validateIntentEnvelope intent_tx = Inr ()"
  by (simp_all add: intent_tx_def NewIntentTransaction_def zero_tx_def example_intent_def TxType_def tx_type_defs
      validateIntentEnvelope_def)

lemma ledger_executor: "getVMExecutor ledger_env ledger_chain = Inr example_state"
  by (simp add: getVMExecutor_def common_Hash_def ledger_chain_def example_chain_def empty_header_def mem_vm_def be_val_hash_bytes)

lemma ledger_locations: "\<exists>loc. getAccountLocationsInTxs ledger_env ledger_chain [intent_tx] = Inr loc"
  by (auto simp: getAccountLocationsInTxs_def tx_accounts_def getAccountLocations_def ledger_chain_def example_chain_def
      eth_store_def MGetValsByKeys_def ref_ops_def decode_location_def DefaultAccountLoc_def)

lemma ledger_tx_header: "\<exists>tOpt. calcTxHeaderOpt ledger_env ledger_chain [intent_tx] = Inr tOpt"
  by (simp add: calcTxHeaderOpt_def ledger_env_def example_env_def ledger_chain_def example_chain_def NewFilter_def maxBitsetLen_def
      tx_Hash_def tx_Encode_def gob_pointer_def Filter_Add_def getFilterHashFs_def filterFuncRegistry_def set_bit_of_def
      bit_index_def list_bits_def GenerateRootByGivenBytes_def put_pair_def ref_ops_def uint64_of_int64_def)

lemma ledger_tx:
  obtains s rv where "Reserve mem_geth ledger_hash example_intent example_ctx example_state = (s, Inr rv)"
    "\<And>bCtx loc. txExecute ledger_env ledger_chain bCtx loc intent_tx example_state = (s, Inr ())"
    "EscrowBalance mem_geth ledger_hash s = 300"
proof (rule ledger_reserved [of no_codec])
  fix s rv
  assume r: "Reserve mem_geth ledger_hash example_intent example_ctx example_state = (s, Inr rv)"
    and e: "EscrowBalance mem_geth ledger_hash s = 300"
  have i: "setInitBalanceIfNotExist mem_geth [Sender example_intent] example_state = example_state"
    by (simp add: setInitBalanceIfNotExist_def init_balance_def example_state_def mem_geth_def example_sender)
  have c: "\<lparr>ctx_ChainID = uint64_of_int64 (cfg_ChainID ledger_chain), ctx_ShardID = shardID ledger_chain,
      ctx_ShardCount = cfg_ShardNum ledger_chain, ctx_CurrentEpoch = uint64_of_int64 (epochID ledger_chain)\<rparr> = example_ctx"
    by (simp add: ledger_chain_def example_chain_def example_ctx_def uint64_of_int64_def)
  have "nonNegativeEpoch (epochID ledger_chain) = Inr (uint64_of_int64 (epochID ledger_chain))"
    by (simp add: nonNegativeEpoch_def ledger_chain_def example_chain_def)
  then have "intentTxExecute ledger_env ledger_chain intent_tx example_state = (s, Inr ())"
    using r i c by (simp add: intentTxExecute_def lift_res_def)
  then have "txExecute ledger_env ledger_chain bCtx loc intent_tx example_state = (s, Inr ())" for bCtx loc
    by (simp add: txExecute_def tx_type_defs)
  then show thesis using that r e by blast
qed

lemma ledger_block:
  obtains b c' s where "TxList b = [intent_tx]" "AddBlock ledger_env b ledger_chain = (c', Inr ())"
    "block_tracked ledger_env ledger_chain (set ledger_names) b"
    "\<exists>kvs. calcStateModification ledger_env ledger_chain b example_state = (s, Inr kvs)" "EscrowBalance mem_geth ledger_hash s = 300"
proof (rule ledger_tx)
  fix s rv
  assume x: "\<And>bCtx loc. txExecute ledger_env ledger_chain bCtx loc intent_tx example_state = (s, Inr ())"
    and e: "EscrowBalance mem_geth ledger_hash s = 300"
  obtain loc where loc: "getAccountLocationsInTxs ledger_env ledger_chain [intent_tx] = Inr loc" using ledger_locations by blast
  obtain tOpt where t: "calcTxHeaderOpt ledger_env ledger_chain [intent_tx] = Inr tOpt" using ledger_tx_header by blast
  have m: "calcStateModification ledger_env ledger_chain \<lparr>b_Header = h, TxList = [intent_tx], b_Migration = no_migration\<rparr> example_state
      = (s, Inr ([], []))" for h
    using loc x by (simp add: calcStateModification_def lift_res_def no_migration_def)
  obtain lr where lr: "ts_Preview (eth_store ref_ops) [] [] (LocStorage ledger_chain) = Inr lr"
    by (simp add: eth_store_def MAddKeyValuesPreview_def ledger_chain_def example_chain_def ref_ops_def)
  have p: "previewStateRootByBlock ledger_env ledger_chain \<lparr>b_Header = h, TxList = [intent_tx], b_Migration = no_migration\<rparr>
      = Inr (hash_bytes 5, lr)" for h
    using m lr by (simp add: previewStateRootByBlock_def ledger_executor) (simp add: mem_vm_def)
  have cu: "curateIntentTransactions ledger_env ledger_chain h [intent_tx] = Inr [intent_tx]" for h
    using loc x by (simp add: curateIntentTransactions_def containsIntent_def ledger_executor)
  have mg: "calcMigrationHeaderOpt ledger_env no_migration = Inr []" by (simp add: calcMigrationHeaderOpt_def no_migration_def)
  obtain b h where g: "GenerateBlock ledger_env ledger_chain 7 1 TxBlockType [intent_tx] no_migration = Inr b"
      "b = \<lparr>b_Header = h, TxList = [intent_tx], b_Migration = no_migration\<rparr>"
    using cu t mg p by (simp add: GenerateBlock_def header_Hash_def NewBlock_def Let_def)
  have w: "well_shaped TxBlockType [intent_tx] no_migration" by (simp add: well_shaped_def no_migration_def)
  have v: "validateBlock ledger_env ledger_chain b = Inr ()"
    by (rule generated_valid [OF _ g(1) w]) (simp add: lb.bitset_laws_axioms)
  obtain l lr' where "ts_Commit (eth_store ref_ops) [] [] (LocStorage ledger_chain) = (l, Inr lr')"
    by (simp add: eth_store_def MAddKeyValuesAndCommit_def lift_res_def ledger_chain_def example_chain_def ref_ops_def)
  then have cs: "commits_succeed ledger_env ledger_chain b"
    using m g(2) by (simp add: commits_succeed_def ledger_executor) (simp add: mem_vm_def)
  obtain c' where a: "AddBlock ledger_env b ledger_chain = (c', Inr ())"
    using AddBlock_succeeds [OF _ _ v cs, of "[1]" "uint64_bytes (bh_Number (b_Header b))"]
    by (auto simp: mv.vm_laws_axioms rt.eth.trie_store_laws_axioms)
  have tr: "block_tracked ledger_env ledger_chain (set ledger_names) b"
    using ledger_sub g(2)
    by (simp add: block_tracked_def tx_tracked_def reserve_names_def example_sender no_migration_def tx_type_defs)
  show thesis by (rule that [OF _ a tr _ e]) (use g(2) m in auto)
qed

lemma chain_escrow_backed_witness:
  "\<exists>c s. tracked_run ledger_env (set ledger_names) c \<and> getVMExecutor ledger_env c = Inr s \<and> EscrowBalance mem_geth ledger_hash s = 300
     \<and> EscrowBalance mem_geth ledger_hash s
      = (\<Sum>i \<in> {i. StatusSlot i \<in> set ledger_names \<and> status mem_geth ledger_hash s i = Inr ReservationReserved}.
           intentValue mem_geth ledger_hash s amountSlotDomain i)"
proof (rule ledger_block)
  fix b c' s
  assume a: "AddBlock ledger_env b ledger_chain = (c', Inr ())" "block_tracked ledger_env ledger_chain (set ledger_names) b"
    and m: "\<exists>kvs. calcStateModification ledger_env ledger_chain b example_state = (s, Inr kvs)"
    and e: "EscrowBalance mem_geth ledger_hash s = 300"
  have laws: "geth_laws (ce_geth ledger_env)" "vm_laws (ce_geth ledger_env) (ce_vm ledger_env)"
    by (simp_all add: mem.geth_laws_axioms mv.vm_laws_axioms)
  have st: "tracked_run ledger_env (set ledger_names) ledger_chain"
    by (rule start [OF ledger_executor]) (simp_all add: EscrowBalance_def, simp_all add: mem_geth_def example_state_def)
  then have run: "tracked_run ledger_env (set ledger_names) c'" by (rule block [OF _ a(2,1)])
  obtain s0 where s0: "getVMExecutor ledger_env ledger_chain = Inr s0" "sound ledger_env (set ledger_names) s0"
    using tracked_run_sound [OF st laws] by blast
  then have "s0 = example_state" using ledger_executor by simp
  then obtain s' where s': "getVMExecutor ledger_env c' = Inr s'" "EscrowBalance mem_geth ledger_hash s' = 300"
    using AddBlock_sound [OF laws a(2,1) s0] m e by auto
  then show ?thesis
    using chain_escrow_backed [OF laws _ ledger_closed run] run lh.inj by auto
qed

end
