(* ===== verification/Heap.thy ===== *)
theory Heap
  imports Prelude "HOL-Library.Product_Lexorder"
begin

text \<open>
  The priority queue of \<open>consensus/pbft/basicstructs/pq.go\<close> with the operations of the standard
  library's \<open>container/heap\<close> it is built on: an implicit binary heap in a slice. It refines the
  multiset of its items with removal of a minimum, whatever total preorder \<open>less\<close> comes from.
\<close>

section \<open>Operations\<close>

text \<open>\<open>h.Swap(i, j)\<close>\<close>

definition swap_items :: "'a list \<Rightarrow> nat \<Rightarrow> nat \<Rightarrow> 'a list" where
  "swap_items xs i j = xs[i := xs ! j, j := xs ! i]"

definition parent :: "nat \<Rightarrow> nat" where
  "parent j = (j - 1) div 2"

text \<open>The loops \<open>up\<close> and \<open>down\<close> of \<open>container/heap\<close>; \<open>(j-1)/2\<close> is 0 for \<open>j = 0\<close>, where the loop stops.\<close>

function (sequential) heap_up :: "('a \<Rightarrow> 'a \<Rightarrow> bool) \<Rightarrow> 'a list \<Rightarrow> nat \<Rightarrow> 'a list" where
  "heap_up lt xs j =
     (if j = 0 \<or> \<not> lt (xs ! j) (xs ! parent j) then xs
      else heap_up lt (swap_items xs (parent j) j) (parent j))"
  by pat_completeness auto
termination
  by (relation "measure (\<lambda>(lt, xs, j). j)") (auto simp: parent_def)

definition smaller_child :: "('a \<Rightarrow> 'a \<Rightarrow> bool) \<Rightarrow> 'a list \<Rightarrow> nat \<Rightarrow> nat \<Rightarrow> nat" where
  "smaller_child lt xs i n =
     (let j1 = 2 * i + 1 in if j1 + 1 < n \<and> lt (xs ! (j1 + 1)) (xs ! j1) then j1 + 1 else j1)"

function (sequential) heap_down :: "('a \<Rightarrow> 'a \<Rightarrow> bool) \<Rightarrow> 'a list \<Rightarrow> nat \<Rightarrow> nat \<Rightarrow> 'a list" where
  "heap_down lt xs i n =
     (if 2 * i + 1 \<ge> n then xs
      else let j = smaller_child lt xs i n in
           if \<not> lt (xs ! j) (xs ! i) then xs
           else heap_down lt (swap_items xs i j) j n)"
  by pat_completeness auto
termination
  by (relation "measure (\<lambda>(lt, xs, i, n). n - i)") (auto simp: smaller_child_def Let_def)

declare heap_up.simps [simp del] heap_down.simps [simp del]

text \<open>\<open>heap.Push\<close> and \<open>heap.Pop\<close>; \<open>Pop\<close> on an empty heap indexes out of range.\<close>

definition PushItem :: "('a \<Rightarrow> 'a \<Rightarrow> bool) \<Rightarrow> 'a \<Rightarrow> 'a list \<Rightarrow> 'a list" where
  "PushItem lt x xs = heap_up lt (xs @ [x]) (length xs)"

definition PopItem :: "('a \<Rightarrow> 'a \<Rightarrow> bool) \<Rightarrow> 'a list \<Rightarrow> ('a \<times> 'a list) option" where
  "PopItem lt xs =
     (if xs = [] then None
      else let n = length xs - 1; ys = heap_down lt (swap_items xs 0 n) 0 n in Some (last ys, butlast ys))"

section \<open>Multisets\<close>

lemma length_swap_items [simp]: "length (swap_items xs i j) = length xs"
  by (simp add: swap_items_def)

lemma mset_swap_items [simp]: "i < length xs \<Longrightarrow> j < length xs \<Longrightarrow> mset (swap_items xs i j) = mset xs"
  by (simp add: swap_items_def mset_swap)

lemma nth_swap_items:
  "i < length xs \<Longrightarrow> j < length xs \<Longrightarrow> k < length xs \<Longrightarrow>
     swap_items xs i j ! k = (if k = j then xs ! i else if k = i then xs ! j else xs ! k)"
  by (auto simp: swap_items_def nth_list_update)

lemma heap_up_perm: "j < length xs \<Longrightarrow> mset (heap_up lt xs j) = mset xs \<and> length (heap_up lt xs j) = length xs"
proof (induction lt xs j rule: heap_up.induct)
  case (1 lt xs j)
  then show ?case by (subst (1 2) heap_up.simps) (auto simp: parent_def)
qed

lemma smaller_child_bounds: "2 * i + 1 < n \<Longrightarrow> i < smaller_child lt xs i n \<and> smaller_child lt xs i n < n \<and> parent (smaller_child lt xs i n) = i"
  by (auto simp: smaller_child_def Let_def parent_def)

lemma heap_down_perm:
  "n \<le> length xs \<Longrightarrow> mset (heap_down lt xs i n) = mset xs \<and> length (heap_down lt xs i n) = length xs
     \<and> (\<forall>k \<ge> n. k < length xs \<longrightarrow> heap_down lt xs i n ! k = xs ! k)"
proof (induction lt xs i n rule: heap_down.induct)
  case (1 lt xs i n)
  show ?case
  proof (cases "2 * i + 1 < n \<and> lt (xs ! smaller_child lt xs i n) (xs ! i)")
    case True
    let ?j = "smaller_child lt xs i n"
    have b: "i < ?j" "?j < n" using smaller_child_bounds [of i n lt xs] True by auto
    have ih: "mset (heap_down lt (swap_items xs i ?j) ?j n) = mset (swap_items xs i ?j)
      \<and> length (heap_down lt (swap_items xs i ?j) ?j n) = length (swap_items xs i ?j)
      \<and> (\<forall>k \<ge> n. k < length (swap_items xs i ?j) \<longrightarrow> heap_down lt (swap_items xs i ?j) ?j n ! k = swap_items xs i ?j ! k)"
      by (rule "1.IH") (use True "1.prems" in auto)
    have eq: "heap_down lt xs i n = heap_down lt (swap_items xs i ?j) ?j n"
      using True by (subst heap_down.simps) (simp add: Let_def)
    show ?thesis unfolding eq using ih b "1.prems" by (auto simp: nth_swap_items)
  next
    case False
    then have "heap_down lt xs i n = xs" by (subst heap_down.simps) (auto simp: Let_def)
    then show ?thesis by simp
  qed
qed

section \<open>Order\<close>

text \<open>The comparison comes from a key in a linear order.\<close>

locale keyed =
  fixes lt :: "'a \<Rightarrow> 'a \<Rightarrow> bool" and key :: "'a \<Rightarrow> 'k :: linorder"
  assumes less_key: "lt a b \<longleftrightarrow> key a < key b"
begin

definition heap :: "'a list \<Rightarrow> nat \<Rightarrow> bool" where
  "heap xs n \<longleftrightarrow> (\<forall>i < n. 0 < i \<longrightarrow> key (xs ! parent i) \<le> key (xs ! i))"

definition heap_but_up :: "'a list \<Rightarrow> nat \<Rightarrow> bool" where
  "heap_but_up xs j \<longleftrightarrow> (\<forall>i < length xs. 0 < i \<longrightarrow> i \<noteq> j \<longrightarrow> key (xs ! parent i) \<le> key (xs ! i))
     \<and> (\<forall>i < length xs. 0 < i \<longrightarrow> parent i = j \<longrightarrow> 0 < j \<longrightarrow> key (xs ! parent j) \<le> key (xs ! i))"

definition heap_but_down :: "'a list \<Rightarrow> nat \<Rightarrow> nat \<Rightarrow> bool" where
  "heap_but_down xs j n \<longleftrightarrow> (\<forall>i < n. 0 < i \<longrightarrow> parent i \<noteq> j \<longrightarrow> key (xs ! parent i) \<le> key (xs ! i))
     \<and> (\<forall>i < n. 0 < i \<longrightarrow> parent i = j \<longrightarrow> 0 < j \<longrightarrow> key (xs ! parent j) \<le> key (xs ! i))"

lemma parent_less: "0 < i \<Longrightarrow> parent i < i"
  by (auto simp: parent_def)

lemma heap_up_heap: "j < length xs \<Longrightarrow> heap_but_up xs j \<Longrightarrow> heap (heap_up lt xs j) (length xs)"
proof (induction j arbitrary: xs rule: less_induct)
  case (less j)
  show ?case
  proof (cases "j = 0 \<or> \<not> key (xs ! j) < key (xs ! parent j)")
    case True
    then have "heap_up lt xs j = xs" by (subst heap_up.simps) (auto simp: less_key)
    then show ?thesis using less.prems True by (auto simp: heap_but_up_def heap_def)
  next
    case False
    let ?p = "parent j" and ?ys = "swap_items xs (parent j) j"
    have p: "?p < j" "?p < length xs" using False less.prems parent_less [of j] by auto
    have n: "?ys ! k = (if k = j then xs ! ?p else if k = ?p then xs ! j else xs ! k)" if "k < length xs" for k
      using that p less.prems by (simp add: nth_swap_items)
    have h: "heap_but_up ?ys ?p"
      unfolding heap_but_up_def
    proof (intro conjI allI impI)
      fix i assume i: "i < length ?ys" "0 < i" "i \<noteq> ?p"
      then have pi: "parent i < length xs" using parent_less [of i] by simp
      show "key (?ys ! parent i) \<le> key (?ys ! i)"
      proof (cases "i = j")
        case True
        then show ?thesis using n False p less.prems i by simp
      next
        case ij: False
        have o: "key (xs ! parent i) \<le> key (xs ! i)" using less.prems(2) i ij by (simp add: heap_but_up_def)
        consider "parent i = j" | "parent i = ?p" "parent i \<noteq> j" | "parent i \<noteq> j" "parent i \<noteq> ?p" by blast
        then show ?thesis
        proof cases
          case 1
          then show ?thesis using n i pi ij less.prems(2) False p by (simp add: heap_but_up_def)
        next
          case 2
          have "key (xs ! j) \<le> key (xs ! i)" using o 2(1) False by (auto intro: order.trans less_imp_le)
          then show ?thesis using n [OF pi] n [of i] i ij 2 by simp
        next
          case 3
          then show ?thesis using n i pi ij o by simp
        qed
      qed
    next
      fix i assume i: "i < length ?ys" "0 < i" "parent i = ?p" "0 < ?p"
      have pp: "key (xs ! parent ?p) \<le> key (xs ! ?p)" using less.prems(2) i p by (simp add: heap_but_up_def)
      have np: "parent ?p \<noteq> ?p" "parent ?p \<noteq> j" "parent ?p < length xs" using parent_less [OF i(4)] p by auto
      show "key (?ys ! parent ?p) \<le> key (?ys ! i)"
      proof (cases "i = j")
        case True
        then show ?thesis using n np i pp by simp
      next
        case ij: False
        then have "i \<noteq> ?p" using parent_less [OF i(2)] i(3) by auto
        moreover have "key (xs ! ?p) \<le> key (xs ! i)" using less.prems(2) i ij by (auto simp: heap_but_up_def)
        ultimately show ?thesis using n np i pp ij by simp
      qed
    qed
    have "heap (heap_up lt ?ys ?p) (length ?ys)" by (rule less.IH [OF p(1)]) (use p h in auto)
    moreover have "heap_up lt xs j = heap_up lt ?ys ?p"
      using False by (subst heap_up.simps) (simp add: less_key)
    ultimately show ?thesis by simp
  qed
qed

lemma child_of: "parent k = i \<Longrightarrow> 0 < k \<Longrightarrow> k = 2 * i + 1 \<or> k = 2 * i + 2"
  by (auto simp: parent_def)

lemma smaller_child_least:
  assumes "2 * i + 1 < n" "k < n" "0 < k" "parent k = i"
  shows "key (xs ! smaller_child lt xs i n) \<le> key (xs ! k)"
  using child_of [OF assms(4,3)] assms(1,2) by (auto simp: smaller_child_def Let_def less_key not_less)

lemma heap_down_heap:
  "n \<le> length xs \<Longrightarrow> i < n \<Longrightarrow> heap_but_down xs i n \<Longrightarrow> heap (heap_down lt xs i n) n"
proof (induction "n - i" arbitrary: xs i rule: less_induct)
  case less
  let ?j = "smaller_child lt xs i n"
  show ?case
  proof (cases "2 * i + 1 < n \<and> key (xs ! ?j) < key (xs ! i)")
    case False
    then have eq: "heap_down lt xs i n = xs" by (subst heap_down.simps) (auto simp: Let_def less_key)
    have "key (xs ! parent k) \<le> key (xs ! k)" if k: "k < n" "0 < k" for k
    proof (cases "parent k = i")
      case True
      then have "2 * i + 1 < n" using child_of [OF True k(2)] k(1) by auto
      then show ?thesis using smaller_child_least [OF _ k True, of xs] False True by (simp add: not_less)
    qed (use less.prems(3) k in \<open>auto simp: heap_but_down_def\<close>)
    then show ?thesis by (simp add: eq heap_def)
  next
    case True
    let ?ys = "swap_items xs i ?j"
    have j: "i < ?j" "?j < n" "parent ?j = i" using smaller_child_bounds [of i n lt xs] True by auto
    have nt: "?ys ! k = (if k = ?j then xs ! i else if k = i then xs ! ?j else xs ! k)" if "k < n" for k
      using that j less.prems by (simp add: nth_swap_items)
    have h: "heap_but_down ?ys ?j n"
      unfolding heap_but_down_def
    proof (intro conjI allI impI)
      fix k assume k: "k < n" "0 < k" "parent k \<noteq> ?j"
      then have pk: "parent k < n" using parent_less [of k] by simp
      show "key (?ys ! parent k) \<le> key (?ys ! k)"
      proof (cases "parent k = i")
        case pi: True
        have "key (xs ! ?j) \<le> key (xs ! k)" using smaller_child_least [OF _ k(1,2) pi] True by simp
        moreover have "k \<noteq> i" using parent_less [OF k(2)] pi by auto
        ultimately show ?thesis using nt [OF pk] nt [OF k(1)] pi True by auto
      next
        case pi: False
        have o: "key (xs ! parent k) \<le> key (xs ! k)" using less.prems(3) k pi by (simp add: heap_but_down_def)
        have kj: "k \<noteq> ?j" using pi j(3) by auto
        show ?thesis
        proof (cases "k = i")
          case ki: True
          have "key (xs ! parent i) \<le> key (xs ! ?j)" using less.prems(3) j k ki by (auto simp: heap_but_down_def)
          then show ?thesis using nt [OF pk] nt [OF k(1)] ki k(3) pi kj by simp
        next
          case False
          then show ?thesis using nt [OF pk] nt [OF k(1)] o kj k(3) pi by simp
        qed
      qed
    next
      fix k assume k: "k < n" "0 < k" "parent k = ?j" "0 < ?j"
      have "key (xs ! ?j) \<le> key (xs ! k)" using less.prems(3) k j by (auto simp: heap_but_down_def)
      moreover have "k \<noteq> ?j" "k \<noteq> i" using parent_less [OF k(2)] k(3) j by auto
      ultimately show "key (?ys ! parent ?j) \<le> key (?ys ! k)" using nt [OF k(1)] nt [of i] j by simp
    qed
    have "heap (heap_down lt ?ys ?j n) n" by (rule less.hyps) (use j h less.prems in auto)
    moreover have "heap_down lt xs i n = heap_down lt ?ys ?j n"
      using True by (subst heap_down.simps) (simp add: Let_def less_key)
    ultimately show ?thesis by simp
  qed
qed

lemma heap_root: "heap xs n \<Longrightarrow> k < n \<Longrightarrow> key (xs ! 0) \<le> key (xs ! k)"
proof (induction k rule: less_induct)
  case (less k)
  show ?case
  proof (cases "k = 0")
    case False
    then have "key (xs ! parent k) \<le> key (xs ! k)" using less.prems by (simp add: heap_def)
    moreover have "key (xs ! 0) \<le> key (xs ! parent k)" using less parent_less [of k] False by simp
    ultimately show ?thesis by (rule order.trans [rotated])
  qed simp
qed

abbreviation invar :: "'a list \<Rightarrow> bool" where
  "invar xs \<equiv> heap xs (length xs)"

lemma PushItem_spec:
  assumes "invar xs"
  shows "invar (PushItem lt x xs)" "mset (PushItem lt x xs) = add_mset x (mset xs)"
proof -
  have p: "mset (heap_up lt (xs @ [x]) (length xs)) = mset (xs @ [x]) \<and> length (heap_up lt (xs @ [x]) (length xs)) = length (xs @ [x])"
    by (rule heap_up_perm) simp
  have "heap_but_up (xs @ [x]) (length xs)"
    unfolding heap_but_up_def
  proof (intro conjI allI impI)
    fix i assume i: "i < length (xs @ [x])" "0 < i" "i \<noteq> length xs"
    then have "i < length xs" "parent i < length xs" using parent_less [OF i(2)] by auto
    then show "key ((xs @ [x]) ! parent i) \<le> key ((xs @ [x]) ! i)"
      using assms i(2) by (simp add: heap_def nth_append)
  next
    fix i assume i: "i < length (xs @ [x])" "0 < i" "parent i = length xs"
    then show "key ((xs @ [x]) ! parent (length xs)) \<le> key ((xs @ [x]) ! i)"
      using parent_less [OF i(2)] by simp
  qed
  then have "heap (heap_up lt (xs @ [x]) (length xs)) (length (xs @ [x]))" by (intro heap_up_heap) auto
  then show "invar (PushItem lt x xs)" using p by (simp add: PushItem_def)
  show "mset (PushItem lt x xs) = add_mset x (mset xs)" using p by (simp add: PushItem_def)
qed

lemma PopItem_spec:
  assumes "invar xs" "PopItem lt xs = Some (x, ys)"
  shows "invar ys" "mset xs = add_mset x (mset ys)" "\<forall>y \<in># mset ys. key x \<le> key y"
proof -
  let ?n = "length xs - 1" and ?sw = "swap_items xs 0 (length xs - 1)"
  let ?d = "heap_down lt ?sw 0 ?n"
  have ne: "xs \<noteq> []" and out: "x = last ?d" "ys = butlast ?d"
    using assms(2) by (auto simp: PopItem_def Let_def split: if_splits)
  have b: "0 < length xs" "?n < length xs" using ne by auto
  have d: "mset ?d = mset ?sw" "length ?d = length xs" "\<forall>k \<ge> ?n. k < length xs \<longrightarrow> ?d ! k = ?sw ! k"
    using heap_down_perm [of ?n ?sw lt 0] by auto
  have dn: "?d \<noteq> []" using d(2) ne by (metis length_0_conv)
  have lx: "x = xs ! 0"
    using out(1) d(2,3) b dn nth_swap_items [of 0 xs ?n ?n] by (simp add: last_conv_nth)
  have my: "?d = ys @ [x]" using out dn by simp
  have ms: "mset ?sw = mset xs" using b by simp
  show mm: "mset xs = add_mset x (mset ys)" using d(1) ms unfolding my by simp
  have ly: "length ys = ?n" using my d(2) by (metis butlast_snoc length_butlast)
  have "heap ?d ?n"
  proof (cases "?n = 0")
    case True
    then show ?thesis by (simp add: heap_def)
  next
    case False
    have "heap_but_down ?sw 0 ?n"
      unfolding heap_but_down_def
    proof (intro conjI allI impI)
      fix i assume i: "i < ?n" "0 < i" "parent i \<noteq> 0"
      then have pi: "parent i < ?n" using parent_less [of i] by simp
      show "key (?sw ! parent i) \<le> key (?sw ! i)"
        using assms(1) i pi b nth_swap_items [of 0 xs ?n "parent i"] nth_swap_items [of 0 xs ?n i]
        by (simp add: heap_def)
    qed simp
    then show ?thesis using heap_down_heap [of ?n ?sw 0] False by simp
  qed
  then have hd: "heap (ys @ [x]) (length ys)" unfolding my ly .
  show "invar ys"
    unfolding heap_def
  proof (intro allI impI)
    fix i assume i: "i < length ys" "0 < i"
    then have "parent i < length ys" using parent_less [OF i(2)] by simp
    moreover have "key ((ys @ [x]) ! parent i) \<le> key ((ys @ [x]) ! i)" using hd i by (simp only: heap_def)
    ultimately show "key (ys ! parent i) \<le> key (ys ! i)" using i(1) by (simp add: nth_append)
  qed
  show "\<forall>y \<in># mset ys. key x \<le> key y"
  proof
    fix y assume "y \<in># mset ys"
    then have "y \<in># mset xs" using mm by simp
    then obtain k where "k < length xs" "y = xs ! k" by (metis in_set_conv_nth set_mset_mset)
    then show "key x \<le> key y" using heap_root [OF assms(1)] lx by simp
  qed
qed

lemma PopItem_Some: "xs \<noteq> [] \<longleftrightarrow> (\<exists>r. PopItem lt xs = Some r)"
  by (auto simp: PopItem_def Let_def)

lemma invar_Nil: "invar []"
  by (simp add: heap_def)

end

end
