(* ===== verification/Pbft.thy ===== *)
theory Pbft
  imports Heap Chain
begin

text \<open>
  The PBFT engine, \<open>consensus/pbft\<close>: view and sequence numbers, the message pool over three
  priority queues, the state of a round (\<open>pbftmeta.go\<close>) and the node that drives it (\<open>node.go\<close>).

  A node acts on an application state \<open>'a\<close> (the chain, the transaction pool, the beacon store)
  through the interfaces \<open>ShardInsideOp\<close> and \<open>ShardOutsideMsgHandler\<close>, a chain that a system
  shard does not have, a CSV writer and the topology: the record \<open>node_ops\<close>. Messages it sends
  are appended to \<open>sent\<close>. \<open>encoding/gob\<close> is the parameter \<open>wire\<close>; logging has no counterpart.
\<close>

section \<open>View and sequence numbers\<close>

record ViewSeq =
  View :: int
  Seq :: int

definition Compare :: "ViewSeq \<Rightarrow> ViewSeq \<Rightarrow> int" where
  "Compare v other =
     (if View v \<noteq> View other then if View v < View other then -1 else 1
      else if Seq v \<noteq> Seq other then if Seq v < Seq other then -1 else 1
      else 0)"

section \<open>Messages\<close>

record NodeInfo =
  NodeID :: int
  ShardID :: int

record Proposal =
  p_Block :: "Block option"
  p_NettingBatch :: "BatchProposal option"

definition proposal_Hash :: "hasher \<Rightarrow> (Block \<Rightarrow> bytes res) \<Rightarrow> (BatchProposal \<Rightarrow> bytes res) \<Rightarrow> Proposal \<Rightarrow> bytes res" where
  "proposal_Hash H rlp_block gob_batch p =
     (case (p_Block p, p_NettingBatch p) of
        (Some b, None) \<Rightarrow> bind_res (rlp_block b) (\<lambda>encoded. Inr (hash_bytes (H encoded)))
      | (None, Some n) \<Rightarrow> bind_res (gob_batch n) (\<lambda>encoded. Inr (hash_bytes (H encoded)))
      | _ \<Rightarrow> Inl (ErrOther ''proposal must contain exactly one payload''))"

definition WrapProposal :: "Block \<Rightarrow> Proposal" where
  "WrapProposal b = \<lparr>p_Block = Some b, p_NettingBatch = None\<rparr>"

definition WrapNettingProposal :: "BatchProposal \<Rightarrow> Proposal" where
  "WrapNettingProposal p = \<lparr>p_Block = None, p_NettingBatch = Some p\<rparr>"

record PreprepareMsg =
  pp_P :: Proposal
  pp_Digest :: bytes
  pp_Seq :: int
  pp_View :: int
  pp_ShardID :: int
  pp_NodeID :: int

record PrepareMsg =
  pr_Digest :: bytes
  pr_Seq :: int
  pr_View :: int
  pr_ShardID :: int
  pr_NodeID :: int

record CommitMsg =
  cm_Digest :: bytes
  cm_Seq :: int
  cm_View :: int
  cm_ShardID :: int
  cm_NodeID :: int

record CatchupReqMsg =
  cq_StartBlockHeight :: int
  cq_ShardID :: int
  cq_NodeID :: int

record CatchupRespMsg =
  cr_Proposals :: "Proposal list"
  cr_NextSeq :: int
  cr_NextView :: int
  cr_ShardID :: int
  cr_NodeID :: int

record WrappedMsg =
  MsgType :: string
  Payload :: bytes

definition PreprepareMessageType :: string where "PreprepareMessageType = ''Preprepare''"
definition PrepareMessageType :: string where "PrepareMessageType = ''Prepare''"
definition CommitMessageType :: string where "CommitMessageType = ''Commit''"
definition CatchupReqMessageType :: string where "CatchupReqMessageType = ''CatchupReq''"
definition CatchupRespMessageType :: string where "CatchupRespMessageType = ''CatchupResp''"
definition StopConsensusMessageType :: string where "StopConsensusMessageType = ''StopConsensus''"

definition pp_vs :: "PreprepareMsg \<Rightarrow> ViewSeq" where "pp_vs m = \<lparr>View = pp_View m, Seq = pp_Seq m\<rparr>"
definition pr_vs :: "PrepareMsg \<Rightarrow> ViewSeq" where "pr_vs m = \<lparr>View = pr_View m, Seq = pr_Seq m\<rparr>"
definition cm_vs :: "CommitMsg \<Rightarrow> ViewSeq" where "cm_vs m = \<lparr>View = cm_View m, Seq = cm_Seq m\<rparr>"

definition PreprepareMsgLess :: "PreprepareMsg \<Rightarrow> PreprepareMsg \<Rightarrow> bool" where
  "PreprepareMsgLess a b \<longleftrightarrow> Compare (pp_vs a) (pp_vs b) = -1"

definition PrepareMsgLess :: "PrepareMsg \<Rightarrow> PrepareMsg \<Rightarrow> bool" where
  "PrepareMsgLess a b \<longleftrightarrow> Compare (pr_vs a) (pr_vs b) = -1"

definition CommitMsgLess :: "CommitMsg \<Rightarrow> CommitMsg \<Rightarrow> bool" where
  "CommitMsgLess a b \<longleftrightarrow> Compare (cm_vs a) (cm_vs b) = -1"

section \<open>The message pool\<close>

record MsgPool =
  preprepares :: "PreprepareMsg list"
  prepares :: "PrepareMsg list"
  commits :: "CommitMsg list"

definition NewMsgPool :: MsgPool where
  "NewMsgPool = \<lparr>preprepares = [], prepares = [], commits = []\<rparr>"

lemma PopItem_length: "PopItem lt xs = Some (x, ys) \<Longrightarrow> length ys < length xs"
  using heap_down_perm [of "length xs - 1" "swap_items xs 0 (length xs - 1)" lt 0]
  by (auto simp: PopItem_def Let_def split: if_splits)

text \<open>
  The loop of the three \<open>Read\<close> methods: pop while the top is not after \<open>end\<close>, push back the
  first one that is.
\<close>

function read_msgs :: "('m \<Rightarrow> 'm \<Rightarrow> bool) \<Rightarrow> ('m \<Rightarrow> ViewSeq) \<Rightarrow> ViewSeq \<Rightarrow> 'm list \<Rightarrow> 'm list \<Rightarrow> 'm list \<times> 'm list" where
  "read_msgs lt vs end items ret =
     (case PopItem lt items of
        None \<Rightarrow> (ret, items)
      | Some (item, rest) \<Rightarrow>
          if Compare end (vs item) = -1 then (ret, PushItem lt item rest)
          else read_msgs lt vs end rest (ret @ [item]))"
  by pat_completeness auto
termination
  by (relation "measure (\<lambda>(lt, vs, end, items, ret). length items)") (auto dest: PopItem_length)

declare read_msgs.simps [simp del]

definition ReadPreprepareMsg :: "ViewSeq \<Rightarrow> MsgPool \<Rightarrow> PreprepareMsg list \<times> MsgPool" where
  "ReadPreprepareMsg end m =
     (case read_msgs PreprepareMsgLess pp_vs end (preprepares m) [] of (ret, rest) \<Rightarrow> (ret, m\<lparr>preprepares := rest\<rparr>))"

definition ReadPrepareMsg :: "ViewSeq \<Rightarrow> MsgPool \<Rightarrow> PrepareMsg list \<times> MsgPool" where
  "ReadPrepareMsg end m =
     (case read_msgs PrepareMsgLess pr_vs end (prepares m) [] of (ret, rest) \<Rightarrow> (ret, m\<lparr>prepares := rest\<rparr>))"

definition ReadCommitMsg :: "ViewSeq \<Rightarrow> MsgPool \<Rightarrow> CommitMsg list \<times> MsgPool" where
  "ReadCommitMsg end m =
     (case read_msgs CommitMsgLess cm_vs end (commits m) [] of (ret, rest) \<Rightarrow> (ret, m\<lparr>commits := rest\<rparr>))"

definition PushPreprepareMsg :: "PreprepareMsg \<Rightarrow> MsgPool \<Rightarrow> MsgPool" where
  "PushPreprepareMsg msg m = m\<lparr>preprepares := PushItem PreprepareMsgLess msg (preprepares m)\<rparr>"

definition PushPrepareMsg :: "PrepareMsg \<Rightarrow> MsgPool \<Rightarrow> MsgPool" where
  "PushPrepareMsg msg m = m\<lparr>prepares := PushItem PrepareMsgLess msg (prepares m)\<rparr>"

definition PushCommitMsg :: "CommitMsg \<Rightarrow> MsgPool \<Rightarrow> MsgPool" where
  "PushCommitMsg msg m = m\<lparr>commits := PushItem CommitMsgLess msg (commits m)\<rparr>"

section \<open>A round\<close>

definition stagePreprepare :: int where "stagePreprepare = 0"
definition stagePrepare :: int where "stagePrepare = 1"
definition stageCommit :: int where "stageCommit = 2"

lemmas stage_defs = stagePreprepare_def stagePrepare_def stageCommit_def

definition initialLeader :: int where "initialLeader = 0"

definition catchUpThreshold :: int where "catchUpThreshold = 5"

record consensusMeta =
  lp_NodeID :: int
  lp_ShardID :: int
  BlockInterval :: int
  faulty :: int
  leader :: int
  closed :: bool
  msgPool :: MsgPool
  proposed :: bool
  curViewSeq :: ViewSeq
  stage :: int
  curPreprepare :: "PreprepareMsg option"
  lastProposal :: "Proposal option"
  lastProposeTime :: int
  prepareSet :: "NodeInfo set"
  commitSet :: "NodeInfo set"
  latestViewSeq :: ViewSeq
  catchupStarted :: bool

definition newConsensusMeta :: "int \<Rightarrow> int \<Rightarrow> int \<Rightarrow> int \<Rightarrow> int \<Rightarrow> consensusMeta" where
  "newConsensusMeta nodeNum blockInterval shard node now =
     \<lparr>lp_NodeID = node, lp_ShardID = shard, BlockInterval = blockInterval,
      faulty = (nodeNum - 1) sdiv 3, leader = initialLeader, closed = False, msgPool = NewMsgPool,
      proposed = False, curViewSeq = \<lparr>View = 0, Seq = 0\<rparr>, stage = stagePreprepare, curPreprepare = None,
      lastProposal = None, lastProposeTime = now, prepareSet = {}, commitSet = {},
      latestViewSeq = \<lparr>View = 0, Seq = 0\<rparr>, catchupStarted = False\<rparr>"

definition curate_preprepare :: "consensusMeta \<Rightarrow> consensusMeta" where
  "curate_preprepare c =
     (if curPreprepare c \<noteq> None then c
      else case ReadPreprepareMsg (curViewSeq c) (msgPool c) of
             (ppMsgList, pool) \<Rightarrow>
               c\<lparr>msgPool := pool,
                 curPreprepare := find (\<lambda>m. Compare (curViewSeq c) (pp_vs m) = 0 \<and> pp_NodeID m = leader c) ppMsgList\<rparr>)"

definition curate_prepares :: "PreprepareMsg \<Rightarrow> consensusMeta \<Rightarrow> consensusMeta" where
  "curate_prepares pp c =
     (case ReadPrepareMsg (curViewSeq c) (msgPool c) of
        (pMsgList, pool) \<Rightarrow>
          c\<lparr>msgPool := pool,
            prepareSet := prepareSet c \<union> (\<lambda>m. \<lparr>NodeID = pr_NodeID m, ShardID = pr_ShardID m\<rparr>)
              ` set (filter (\<lambda>m. Compare (curViewSeq c) (pr_vs m) = 0 \<and> pr_Digest m = pp_Digest pp) pMsgList)\<rparr>)"

definition curate_commits :: "PreprepareMsg \<Rightarrow> consensusMeta \<Rightarrow> consensusMeta" where
  "curate_commits pp c =
     (case ReadCommitMsg (curViewSeq c) (msgPool c) of
        (cMsgList, pool) \<Rightarrow>
          c\<lparr>msgPool := pool,
            commitSet := commitSet c \<union> (\<lambda>m. \<lparr>NodeID = cm_NodeID m, ShardID = cm_ShardID m\<rparr>)
              ` set (filter (\<lambda>m. Compare (curViewSeq c) (cm_vs m) = 0 \<and> cm_Digest m = pp_Digest pp) cMsgList)\<rparr>)"

definition curateMsg :: "consensusMeta \<Rightarrow> consensusMeta" where
  "curateMsg c =
     (let c1 = curate_preprepare c in
      case curPreprepare c1 of
        None \<Rightarrow> c1
      | Some pp \<Rightarrow> curate_commits pp (curate_prepares pp c1))"

definition next_round :: "Proposal \<Rightarrow> consensusMeta \<Rightarrow> consensusMeta" where
  "next_round p c =
     c\<lparr>stage := stagePreprepare, lastProposal := Some p, curPreprepare := None, prepareSet := {}, commitSet := {},
       proposed := False, curViewSeq := (curViewSeq c)\<lparr>Seq := wrap_int64 (Seq (curViewSeq c) + 1)\<rparr>\<rparr>"

definition step2Next :: "consensusMeta \<Rightarrow> consensusMeta \<times> (int \<times> int) res" where
  "step2Next c =
     (if stage c = stagePreprepare then
        if curPreprepare c = None then (c, Inr (stagePreprepare, stagePreprepare))
        else (c\<lparr>stage := stagePrepare\<rparr>, Inr (stagePreprepare, stagePrepare))
      else if stage c = stagePrepare then
        if int (card (prepareSet c)) < 2 * faulty c + 1 then (c, Inr (stagePrepare, stagePrepare))
        else (c\<lparr>stage := stageCommit\<rparr>, Inr (stagePrepare, stageCommit))
      else if stage c = stageCommit then
        if int (card (commitSet c)) < 2 * faulty c + 1 then (c, Inr (stageCommit, stageCommit))
        else (case curPreprepare c of
                None \<Rightarrow> (c, Inl GoPanic)
              | Some pp \<Rightarrow> (next_round (pp_P pp) c, Inr (stageCommit, stagePreprepare)))
      else (c, Inl (ErrOther ''invalid stage'')))"

definition updateLatestViewSeq :: "int \<Rightarrow> int \<Rightarrow> consensusMeta \<Rightarrow> consensusMeta" where
  "updateLatestViewSeq view sq c =
     (let inp = \<lparr>View = view, Seq = sq\<rparr> in
      if Compare (latestViewSeq c) inp = -1 then c\<lparr>latestViewSeq := inp\<rparr> else c)"

definition catchupReady :: "consensusMeta \<Rightarrow> bool" where
  "catchupReady c \<longleftrightarrow> \<not> catchupStarted c \<and> View (latestViewSeq c) = View (curViewSeq c)
     \<and> Seq (latestViewSeq c) \<ge> wrap_int64 (Seq (curViewSeq c) + catchUpThreshold)"

definition catchupOverAndReset :: "ViewSeq \<Rightarrow> consensusMeta \<Rightarrow> consensusMeta" where
  "catchupOverAndReset vs c =
     c\<lparr>catchupStarted := False, curViewSeq := vs, stage := stagePreprepare, lastProposal := None,
       curPreprepare := None, prepareSet := {}, commitSet := {}, proposed := False\<rparr>"

section \<open>The node\<close>

record wire =
  w_preprepare :: "PreprepareMsg codec"
  w_prepare :: "PrepareMsg codec"
  w_commit :: "CommitMsg codec"
  w_catchupReq :: "CatchupReqMsg codec"
  w_catchupResp :: "CatchupRespMsg codec"

record 'a chain_ops =
  bc_GetBlocksAfterHeight :: "'a \<Rightarrow> int \<Rightarrow> Block list res"
  bc_AddBlock :: "Block \<Rightarrow> 'a \<Rightarrow> 'a \<times> unit res"
  bc_Number :: "'a \<Rightarrow> uint64"

record 'a node_ops =
  BuildProposal :: "'a \<Rightarrow> 'a \<times> Proposal option res"
  ValidateProposal :: "Proposal \<Rightarrow> 'a \<Rightarrow> 'a \<times> unit res"
  ProposalCommitAndDeliver :: "bool \<Rightarrow> Proposal \<Rightarrow> 'a \<Rightarrow> 'a \<times> unit res"
  HandleMsgOutsideShard :: "WrappedMsg \<Rightarrow> 'a \<Rightarrow> 'a \<times> unit res"
  op_chain :: "'a chain_ops option"
  op_record :: "(Block \<Rightarrow> 'a \<Rightarrow> 'a \<times> unit res) option"
  GetNodesInShard :: "int \<Rightarrow> NodeInfo list res"
  GetLeader :: "int \<Rightarrow> NodeInfo res"
  op_wire :: wire
  op_proposal_Hash :: "Proposal \<Rightarrow> bytes res"

record 'a Node =
  pbftMeta :: consensusMeta
  app :: 'a
  sent :: "(NodeInfo list \<times> WrappedMsg) list"

text \<open>A call on the application, and \<open>message.WrapMsg\<close> followed by a send.\<close>

definition on_app :: "('a \<Rightarrow> 'a \<times> 'r res) \<Rightarrow> 'a Node \<Rightarrow> 'a Node \<times> 'r res" where
  "on_app f n = (case f (app n) of (a, r) \<Rightarrow> (n\<lparr>app := a\<rparr>, r))"

definition send :: "NodeInfo list \<Rightarrow> WrappedMsg \<Rightarrow> 'a Node \<Rightarrow> 'a Node" where
  "send dest w n = n\<lparr>sent := sent n @ [(dest, w)]\<rparr>"

definition WrapMsg :: "string \<Rightarrow> bytes res \<Rightarrow> WrappedMsg res" where
  "WrapMsg ty encoded = bind_res encoded (\<lambda>b. Inr \<lparr>MsgType = ty, Payload = b\<rparr>)"

definition broadcastMsgInnerShard :: "'a node_ops \<Rightarrow> string \<Rightarrow> bytes res \<Rightarrow> 'a Node \<Rightarrow> 'a Node \<times> unit res" where
  "broadcastMsgInnerShard X ty encoded n =
     (case bind_res (WrapMsg ty encoded) (\<lambda>w. bind_res (GetNodesInShard X (lp_ShardID (pbftMeta n))) (\<lambda>d. Inr (d, w))) of
        Inl e \<Rightarrow> (n, Inl e)
      | Inr (shardNeighbors, w) \<Rightarrow> (send shardNeighbors w n, Inr ()))"

text \<open>Both broadcasts dereference \<open>curPreprepare\<close>.\<close>

definition prepareBroadcast :: "'a node_ops \<Rightarrow> 'a Node \<Rightarrow> 'a Node \<times> unit res" where
  "prepareBroadcast X n =
     (case curPreprepare (pbftMeta n) of
        None \<Rightarrow> (n, Inl GoPanic)
      | Some pp \<Rightarrow> broadcastMsgInnerShard X PrepareMessageType
          (enc (w_prepare (op_wire X)) \<lparr>pr_Digest = pp_Digest pp, pr_Seq = pp_Seq pp, pr_View = pp_View pp,
             pr_ShardID = lp_ShardID (pbftMeta n), pr_NodeID = lp_NodeID (pbftMeta n)\<rparr>) n)"

definition commitBroadcast :: "'a node_ops \<Rightarrow> 'a Node \<Rightarrow> 'a Node \<times> unit res" where
  "commitBroadcast X n =
     (case curPreprepare (pbftMeta n) of
        None \<Rightarrow> (n, Inl GoPanic)
      | Some pp \<Rightarrow> broadcastMsgInnerShard X CommitMessageType
          (enc (w_commit (op_wire X)) \<lparr>cm_Digest = pp_Digest pp, cm_Seq = pp_Seq pp, cm_View = pp_View pp,
             cm_ShardID = lp_ShardID (pbftMeta n), cm_NodeID = lp_NodeID (pbftMeta n)\<rparr>) n)"

definition isLeader :: "consensusMeta \<Rightarrow> bool" where
  "isLeader c \<longleftrightarrow> leader c = lp_NodeID c"

text \<open>Delivering the proposal of the round just finished.\<close>

definition deliver :: "'a node_ops \<Rightarrow> 'a Node \<Rightarrow> 'a Node \<times> unit res" where
  "deliver X n =
     (let c = pbftMeta n in
      case lastProposal c of
        None \<Rightarrow> (n, Inl GoPanic)
      | Some p \<Rightarrow>
          bind_st (on_app (ProposalCommitAndDeliver X (isLeader c) p) n) (\<lambda>_ n.
            if \<not> isLeader c then (n, Inr ())
            else case (op_record X, p_Block p) of
                   (Some rec, Some b) \<Rightarrow> on_app (rec b) n
                 | _ \<Rightarrow> (n, Inr ())))"

lemma broadcast_meta [simp]: "pbftMeta (fst (broadcastMsgInnerShard X ty encoded n)) = pbftMeta n"
  by (auto simp: broadcastMsgInnerShard_def send_def split: sum.splits)

lemma broadcasts_meta:
  "prepareBroadcast X n = (n', r) \<Longrightarrow> pbftMeta n' = pbftMeta n" "commitBroadcast X n = (n', r) \<Longrightarrow> pbftMeta n' = pbftMeta n"
  by (auto simp: prepareBroadcast_def commitBroadcast_def broadcastMsgInnerShard_def send_def split: option.splits sum.splits)

lemma step2Next_stages:
  "step2Next c = (c', Inr (old, new)) \<Longrightarrow> old \<noteq> new \<Longrightarrow> new = stage c' \<and>
     (old = 0 \<and> new = 1 \<or> old = 1 \<and> new = 2 \<or> old = 2 \<and> new = 0) \<and> stage c = old"
  by (auto simp: step2Next_def stage_defs next_round_def split: if_splits option.splits)

text \<open>The loop of \<open>step2NextStage\<close>; it returns after a delivery, so it runs at most three rounds.\<close>

function step2NextStage :: "'a node_ops \<Rightarrow> 'a Node \<Rightarrow> 'a Node \<times> unit res" where
  "step2NextStage X n =
     (case step2Next (pbftMeta n) of
        (c, Inl e) \<Rightarrow> (n\<lparr>pbftMeta := c\<rparr>, Inl e)
      | (c, Inr (oldStage, newStage)) \<Rightarrow>
          (let n1 = n\<lparr>pbftMeta := c\<rparr> in
           if oldStage = newStage then (n1, Inr ())
           else if newStage = stagePreprepare then deliver X n1
           else if newStage = stagePrepare then
             (case prepareBroadcast X n1 of (n2, Inl e) \<Rightarrow> (n2, Inl e) | (n2, Inr _) \<Rightarrow> step2NextStage X n2)
           else if newStage = stageCommit then
             (case commitBroadcast X n1 of (n2, Inl e) \<Rightarrow> (n2, Inl e) | (n2, Inr _) \<Rightarrow> step2NextStage X n2)
           else (n1, Inl (ErrOther ''unknown stage''))))"
  by pat_completeness auto
termination
  by (relation "measure (\<lambda>(X, n). nat (3 - stage (pbftMeta n)))")
    (auto simp: stage_defs dest!: broadcasts_meta [OF sym] step2Next_stages [OF sym])

declare step2NextStage.simps [simp del]

definition advanceConsensus :: "'a node_ops \<Rightarrow> 'a Node \<Rightarrow> 'a Node" where
  "advanceConsensus X n = fst (step2NextStage X (n\<lparr>pbftMeta := curateMsg (pbftMeta n)\<rparr>))"

section \<open>Handlers\<close>

definition handleStopConsensus :: "'a Node \<Rightarrow> 'a Node \<times> unit res" where
  "handleStopConsensus n = (n\<lparr>pbftMeta := (pbftMeta n)\<lparr>closed := True\<rparr>\<rparr>, Inr ())"

definition handlePreprepare :: "'a node_ops \<Rightarrow> bytes \<Rightarrow> 'a Node \<Rightarrow> 'a Node \<times> unit res" where
  "handlePreprepare X payload n =
     bind_st (lift_res (dec (w_preprepare (op_wire X)) payload) n) (\<lambda>ppMsg n.
       if Compare (curViewSeq (pbftMeta n)) (pp_vs ppMsg) > 0 then (n, Inr ())
       else bind_st (on_app (ValidateProposal X (pp_P ppMsg)) n) (\<lambda>_ n.
         let c = pbftMeta n in
         (n\<lparr>pbftMeta := updateLatestViewSeq (pp_View ppMsg) (pp_Seq ppMsg)
              (c\<lparr>msgPool := PushPreprepareMsg ppMsg (msgPool c)\<rparr>)\<rparr>, Inr ())))"

definition handlePrepare :: "'a node_ops \<Rightarrow> bytes \<Rightarrow> 'a Node \<Rightarrow> 'a Node \<times> unit res" where
  "handlePrepare X payload n =
     bind_st (lift_res (dec (w_prepare (op_wire X)) payload) n) (\<lambda>pMsg n.
       let c = pbftMeta n in
       if Compare (curViewSeq c) (pr_vs pMsg) > 0 then (n, Inr ())
       else (n\<lparr>pbftMeta := c\<lparr>msgPool := PushPrepareMsg pMsg (msgPool c)\<rparr>\<rparr>, Inr ()))"

definition handleCommit :: "'a node_ops \<Rightarrow> bytes \<Rightarrow> 'a Node \<Rightarrow> 'a Node \<times> unit res" where
  "handleCommit X payload n =
     bind_st (lift_res (dec (w_commit (op_wire X)) payload) n) (\<lambda>cMsg n.
       let c = pbftMeta n in
       if Compare (curViewSeq c) (cm_vs cMsg) > 0 then (n, Inr ())
       else (n\<lparr>pbftMeta := c\<lparr>msgPool := PushCommitMsg cMsg (msgPool c)\<rparr>\<rparr>, Inr ()))"

text \<open>A node of a system shard has no chain and panics on the two catch-up messages.\<close>

definition handleCatchupReq :: "'a node_ops \<Rightarrow> bytes \<Rightarrow> 'a Node \<Rightarrow> 'a Node \<times> unit res" where
  "handleCatchupReq X payload n =
     bind_st (lift_res (dec (w_catchupReq (op_wire X)) payload) n) (\<lambda>crMsg n.
       case op_chain X of
         None \<Rightarrow> (n, Inl GoPanic)
       | Some bc \<Rightarrow>
           bind_st (lift_res (bc_GetBlocksAfterHeight bc (app n) (cq_StartBlockHeight crMsg)) n) (\<lambda>blocks n.
             let c = pbftMeta n in
             bind_st (lift_res (WrapMsg CatchupRespMessageType (enc (w_catchupResp (op_wire X))
                \<lparr>cr_Proposals = map WrapProposal blocks, cr_NextSeq = Seq (curViewSeq c), cr_NextView = View (curViewSeq c),
                 cr_ShardID = lp_ShardID c, cr_NodeID = lp_NodeID c\<rparr>)) n) (\<lambda>w n.
             (send [\<lparr>NodeID = cq_NodeID crMsg, ShardID = cq_ShardID crMsg\<rparr>] w n, Inr ()))))"

fun add_proposals :: "'a chain_ops \<Rightarrow> Proposal list \<Rightarrow> 'a Node \<Rightarrow> 'a Node \<times> unit res" where
  "add_proposals bc [] n = (n, Inr ())"
| "add_proposals bc (p # ps) n =
     (case p_Block p of
        None \<Rightarrow> (n, Inl GoPanic)
      | Some b \<Rightarrow> bind_st (on_app (bc_AddBlock bc b) n) (\<lambda>_ n. add_proposals bc ps n))"

definition handleCatchupResp :: "'a node_ops \<Rightarrow> bytes \<Rightarrow> 'a Node \<Rightarrow> 'a Node \<times> unit res" where
  "handleCatchupResp X payload n =
     bind_st (lift_res (dec (w_catchupResp (op_wire X)) payload) n) (\<lambda>crMsg n.
       if leader (pbftMeta n) \<noteq> cr_NodeID crMsg then (n, Inl (ErrOther ''not from the leader''))
       else if \<not> catchupStarted (pbftMeta n) then (n, Inl (ErrOther ''catchup resp message not started''))
       else case op_chain X of
              None \<Rightarrow> if cr_Proposals crMsg = []
                then (n\<lparr>pbftMeta := catchupOverAndReset \<lparr>View = cr_NextView crMsg, Seq = cr_NextSeq crMsg\<rparr> (pbftMeta n)\<rparr>, Inr ())
                else (n, Inl GoPanic)
            | Some bc \<Rightarrow>
                bind_st (add_proposals bc (cr_Proposals crMsg) n) (\<lambda>_ n.
                (n\<lparr>pbftMeta := catchupOverAndReset \<lparr>View = cr_NextView crMsg, Seq = cr_NextSeq crMsg\<rparr> (pbftMeta n)\<rparr>, Inr ())))"

definition handleMessage :: "'a node_ops \<Rightarrow> WrappedMsg \<Rightarrow> 'a Node \<Rightarrow> 'a Node \<times> unit res" where
  "handleMessage X msg n =
     (if MsgType msg = StopConsensusMessageType then handleStopConsensus n
      else if MsgType msg = PreprepareMessageType then handlePreprepare X (Payload msg) n
      else if MsgType msg = PrepareMessageType then handlePrepare X (Payload msg) n
      else if MsgType msg = CommitMessageType then handleCommit X (Payload msg) n
      else if MsgType msg = CatchupReqMessageType then handleCatchupReq X (Payload msg) n
      else if MsgType msg = CatchupRespMessageType then handleCatchupResp X (Payload msg) n
      else on_app (HandleMsgOutsideShard X msg) n)"

section \<open>The running loop\<close>

text \<open>
  \<open>BlockInterval\<close> is in milliseconds, times are in nanoseconds. The pre-prepare carries the zero
  values of its shard and node fields.
\<close>

definition propose :: "'a node_ops \<Rightarrow> int \<Rightarrow> 'a Node \<Rightarrow> 'a Node \<times> unit res" where
  "propose X now n =
     (if now - lastProposeTime (pbftMeta n) < BlockInterval (pbftMeta n) * 10 ^ 6 then (n, Inr ())
      else bind_st (on_app (BuildProposal X) n) (\<lambda>p n.
        case p of
          None \<Rightarrow> (n, Inr ())
        | Some p \<Rightarrow>
            bind_st (lift_res (op_proposal_Hash X p) n) (\<lambda>digest n.
              let vs = curViewSeq (pbftMeta n) in
              bind_st (broadcastMsgInnerShard X PreprepareMessageType (enc (w_preprepare (op_wire X))
                  \<lparr>pp_P = p, pp_Digest = digest, pp_Seq = Seq vs, pp_View = View vs, pp_ShardID = 0, pp_NodeID = 0\<rparr>) n) (\<lambda>_ n.
              (n\<lparr>pbftMeta := (pbftMeta n)\<lparr>proposed := True, lastProposeTime := now\<rparr>\<rparr>, Inr ())))))"

definition catchUpStart :: "'a node_ops \<Rightarrow> 'a chain_ops \<Rightarrow> 'a Node \<Rightarrow> 'a Node \<times> unit res" where
  "catchUpStart X bc n =
     (let c = pbftMeta n in
      bind_st (lift_res (GetLeader X (lp_ShardID c)) n) (\<lambda>dest n.
      bind_st (lift_res (WrapMsg CatchupReqMessageType (enc (w_catchupReq (op_wire X))
         \<lparr>cq_StartBlockHeight = wrap_int64 (int64_of_uint64 (bc_Number bc (app n)) + 1), cq_ShardID = lp_ShardID c,
          cq_NodeID = lp_NodeID c\<rparr>)) n) (\<lambda>w n.
      let n1 = send [dest] w n in
      (n1\<lparr>pbftMeta := (pbftMeta n1)\<lparr>catchupStarted := True\<rparr>\<rparr>, Inr ()))))"

fun handle_all :: "'a node_ops \<Rightarrow> WrappedMsg list \<Rightarrow> 'a Node \<Rightarrow> 'a Node" where
  "handle_all X [] n = n"
| "handle_all X (m # ms) n = handle_all X ms (fst (handleMessage X m n))"

fun handle_preprepares :: "'a node_ops \<Rightarrow> WrappedMsg list \<Rightarrow> 'a Node \<Rightarrow> 'a Node" where
  "handle_preprepares X [] n = n"
| "handle_preprepares X (m # ms) n =
     (case handleMessage X m n of
        (n1, Inl e) \<Rightarrow> handle_preprepares X ms n1
      | (n1, Inr _) \<Rightarrow> handle_preprepares X ms (advanceConsensus X n1))"

text \<open>One pass of the loop of \<open>run\<close> over the messages drained from the buffer; errors are logged.\<close>

definition tick :: "'a node_ops \<Rightarrow> int \<Rightarrow> WrappedMsg list \<Rightarrow> 'a Node \<Rightarrow> 'a Node" where
  "tick X now msgs n =
     (let pre = (\<lambda>m. MsgType m = PreprepareMessageType);
          n1 = advanceConsensus X (handle_all X (filter (\<lambda>m. \<not> pre m) msgs) n);
          n2 = handle_preprepares X (filter pre msgs) n1;
          c = pbftMeta n2
      in if lp_NodeID c = leader c then
           if stage c = stagePreprepare \<and> \<not> proposed c then fst (propose X now n2) else n2
         else case op_chain X of
                None \<Rightarrow> n2
              | Some bc \<Rightarrow> if catchupReady c then fst (catchUpStart X bc n2) else n2)"

text \<open>The loop ends when the node is closed.\<close>

fun run :: "'a node_ops \<Rightarrow> (int \<times> WrappedMsg list) list \<Rightarrow> 'a Node \<Rightarrow> 'a Node" where
  "run X [] n = n"
| "run X ((now, msgs) # ticks) n = (if closed (pbftMeta n) then n else run X ticks (tick X now msgs n))"

definition IsSystemShardID :: "int \<Rightarrow> bool" where
  "IsSystemShardID s \<longleftrightarrow> s = 0x7ffffffd \<or> s = 0x7ffffffe \<or> s = 0x7fffffff"

definition NewSpecialPBFTNode :: "int \<Rightarrow> int \<Rightarrow> int \<Rightarrow> int \<Rightarrow> int \<Rightarrow> 'a \<Rightarrow> 'a Node res" where
  "NewSpecialPBFTNode nodeNum blockInterval shard node now a =
     fail_if (\<not> IsSystemShardID shard) (ErrOther ''special PBFT node requires a system shard'') (
     fail_if (nodeNum \<le> 0 \<or> node < 0 \<or> node \<ge> nodeNum) (ErrOther ''invalid nodeID'') (
     Inr \<lparr>pbftMeta = newConsensusMeta nodeNum blockInterval shard node now, app = a, sent = []\<rparr>))"

end
