(* ===== verification/TxPool.thy ===== *)
theory TxPool
  imports Transaction
begin

text \<open>
  The transaction pool, \<open>pkg/core/txpool/queue/queue.go\<close>: a queue and a function that packs a
  prefix of it into a block, by number or by bytes. The pool is a first-in first-out queue: what was packed
  followed by what is left is always what was added.
\<close>

definition TxPoolNumType :: string where "TxPoolNumType = ''number''"
definition TxPoolByteType :: string where "TxPoolByteType = ''byte''"

type_synonym packTxFunc = "Transaction list \<Rightarrow> int \<Rightarrow> (Transaction list \<times> Transaction list) res"

record TxPool =
  queue :: "Transaction list"
  pf :: packTxFunc
  tp_Type :: string

text \<open>A negative limit makes \<open>make\<close> panic.\<close>

definition packTxsByGivenNum :: packTxFunc where
  "packTxsByGivenNum q n =
     (let len = (if int (length q) > n then n else int (length q)) in
      if len < 0 then Inl GoPanic else Inr (take (nat len) q, drop (nat len) q))"

text \<open>The loop over the queue: \<open>endIdx\<close> is the number of transactions taken.\<close>

fun bytes_loop :: "tx_codecs \<Rightarrow> Transaction list \<Rightarrow> int \<Rightarrow> nat \<Rightarrow> nat res" where
  "bytes_loop T [] n endIdx = Inr endIdx"
| "bytes_loop T (tx # txs) n endIdx =
     bind_res (tx_Encode T tx) (\<lambda>b.
     if int (length b) < n then Inr endIdx
     else bytes_loop T txs (n - int (length b)) (endIdx + 1))"

definition packTxsByGivenBytes :: "tx_codecs \<Rightarrow> packTxFunc" where
  "packTxsByGivenBytes T q n = bind_res (bytes_loop T q n 0) (\<lambda>endIdx. Inr (take endIdx q, drop endIdx q))"

definition NewTxPool :: "tx_codecs \<Rightarrow> string \<Rightarrow> TxPool res" where
  "NewTxPool T ty =
     (if ty = TxPoolByteType then Inr \<lparr>queue = [], pf = packTxsByGivenBytes T, tp_Type = ty\<rparr>
      else if ty = TxPoolNumType then Inr \<lparr>queue = [], pf = packTxsByGivenNum, tp_Type = ty\<rparr>
      else Inl (ErrOther ''unknown tx pool type''))"

definition AddTxs :: "Transaction list \<Rightarrow> TxPool \<Rightarrow> TxPool \<times> unit res" where
  "AddTxs txs t = (t\<lparr>queue := queue t @ txs\<rparr>, Inr ())"

definition PackTxs :: "int \<Rightarrow> TxPool \<Rightarrow> TxPool \<times> Transaction list res" where
  "PackTxs limit t =
     (case pf t (queue t) limit of
        Inl e \<Rightarrow> (t, Inl e)
      | Inr (packed, q) \<Rightarrow> (t\<lparr>queue := q\<rparr>, Inr packed))"

definition getCurSizeOfNum :: "Transaction list \<Rightarrow> int res" where
  "getCurSizeOfNum txs = Inr (int (length txs))"

fun getCurSizeOfByte :: "tx_codecs \<Rightarrow> Transaction list \<Rightarrow> int res" where
  "getCurSizeOfByte T [] = Inr 0"
| "getCurSizeOfByte T (tx # txs) =
     bind_res (tx_Encode T tx) (\<lambda>b. bind_res (getCurSizeOfByte T txs) (\<lambda>cnt. Inr (int (length b) + cnt)))"

definition GetTxListSize :: "tx_codecs \<Rightarrow> TxPool \<Rightarrow> Transaction list \<Rightarrow> int res" where
  "GetTxListSize T t txs =
     (if tp_Type t = TxPoolByteType then getCurSizeOfByte T txs
      else if tp_Type t = TxPoolNumType then getCurSizeOfNum txs
      else Inl (ErrOther ''unknown tx pool type''))"

section \<open>First in, first out\<close>

text \<open>What a client of a pool sees: a pack function splits the queue it is given.\<close>

locale fifo_pool =
  fixes pack :: packTxFunc
  assumes pack_splits: "pack q n = Inr (packed, rest) \<Longrightarrow> packed @ rest = q"
begin

inductive pool_trace :: "TxPool \<Rightarrow> Transaction list \<Rightarrow> Transaction list \<Rightarrow> bool" where
  start: "pf t = pack \<Longrightarrow> queue t = [] \<Longrightarrow> pool_trace t [] []"
| add: "pool_trace t added packed \<Longrightarrow> pool_trace (fst (AddTxs txs t)) (added @ txs) packed"
| pack: "pool_trace t added packed \<Longrightarrow> PackTxs n t = (t', Inr out) \<Longrightarrow> pool_trace t' added (packed @ out)"
| fail: "pool_trace t added packed \<Longrightarrow> PackTxs n t = (t', Inl e) \<Longrightarrow> pool_trace t' added packed"

lemma trace_fifo: "pool_trace t added packed \<Longrightarrow> pf t = pack \<and> packed @ queue t = added"
proof (induction rule: pool_trace.induct)
  case (pack t added packed n t' out)
  then show ?case using pack_splits by (auto simp: PackTxs_def split: sum.splits prod.splits)
qed (auto simp: AddTxs_def PackTxs_def split: sum.splits prod.splits)

end

lemma num_splits: "packTxsByGivenNum q n = Inr (packed, rest) \<Longrightarrow> packed @ rest = q"
  by (auto simp: packTxsByGivenNum_def Let_def split: if_splits)

lemma bytes_splits: "packTxsByGivenBytes T q n = Inr (packed, rest) \<Longrightarrow> packed @ rest = q"
  by (auto simp: packTxsByGivenBytes_def res_elims)

interpretation np: fifo_pool packTxsByGivenNum
  by unfold_locales (rule num_splits)

interpretation bp: fifo_pool "packTxsByGivenBytes T" for T
  by unfold_locales (rule bytes_splits)

section \<open>The limits\<close>

lemma packTxsByGivenNum_limit:
  "0 \<le> n \<Longrightarrow> packTxsByGivenNum q n = Inr (take (nat n) q, drop (nat n) q)"
  by (auto simp: packTxsByGivenNum_def Let_def)

text \<open>
  The comparison of \<open>packTxsByGivenBytes\<close> is inverted: the loop stops at a transaction that is
  smaller than the limit and goes on after one that is not. A queue whose first
  transaction is smaller than the limit is never packed, and one that starts with a transaction as large as the
  limit is packed whole, whatever its size.
\<close>

lemma pack_bytes_stops:
  "tx_Encode T tx = Inr b \<Longrightarrow> int (length b) < n \<Longrightarrow> packTxsByGivenBytes T (tx # q) n = Inr ([], tx # q)"
  by (simp add: packTxsByGivenBytes_def)

lemma bytes_loop_all:
  "n \<le> 0 \<Longrightarrow> \<forall>tx \<in> set q. \<exists>b. tx_Encode T tx = Inr b \<Longrightarrow> bytes_loop T q n i = Inr (i + length q)"
  by (induction q arbitrary: n i) auto

lemma pack_bytes_all:
  assumes "\<forall>x \<in> set (tx # q). \<exists>b. tx_Encode T x = Inr b" "tx_Encode T tx = Inr b" "n \<le> int (length b)"
  shows "packTxsByGivenBytes T (tx # q) n = Inr (tx # q, [])"
  using assms bytes_loop_all [of "n - int (length b)" q T 1] by (simp add: packTxsByGivenBytes_def)

end
