(* ===== verification/Messages.thy ===== *)
theory Messages
  imports Pbft TxPool
begin

text \<open>
  The messages between nodes other than those of a PBFT round (\<open>pkg/message\<close>), and the topology
  that resolves their destinations (\<open>pkg/nodetopo/topogetter.go\<close>). \<open>encoding/gob\<close> is the parameter
  \<open>msg_codecs\<close>; what a component sends is appended to an outbox of type \<open>net\<close>.
\<close>

section \<open>Message types\<close>

definition ReceiveTxsMessageType :: string where "ReceiveTxsMessageType = ''ReceiveTxs''"
definition FinalizedBlockReceiptMessageType :: string where "FinalizedBlockReceiptMessageType = ''FinalizedBlockReceipt''"
definition BatchProposalMessageType :: string where "BatchProposalMessageType = ''BatchProposal''"
definition MatchRootFinalizedMessageType :: string where "MatchRootFinalizedMessageType = ''MatchRootFinalized''"
definition SettlementPackageMessageType :: string where "SettlementPackageMessageType = ''SettlementPackage''"
definition FallbackTxMessageType :: string where "FallbackTxMessageType = ''FallbackTx''"
definition FallbackCompletedMessageType :: string where "FallbackCompletedMessageType = ''FallbackCompleted''"
definition NettingProgressMessageType :: string where "NettingProgressMessageType = ''NettingProgress''"
definition RelayBlockInfoMessageType :: string where "RelayBlockInfoMessageType = ''RelayBlockInfo''"
definition BrokerBlockInfoMessageType :: string where "BrokerBlockInfoMessageType = ''BrokerBlockInfo''"

lemmas message_type_defs = ReceiveTxsMessageType_def FinalizedBlockReceiptMessageType_def BatchProposalMessageType_def
  MatchRootFinalizedMessageType_def SettlementPackageMessageType_def FallbackTxMessageType_def FallbackCompletedMessageType_def
  NettingProgressMessageType_def RelayBlockInfoMessageType_def BrokerBlockInfoMessageType_def PreprepareMessageType_def
  PrepareMessageType_def CommitMessageType_def CatchupReqMessageType_def CatchupRespMessageType_def StopConsensusMessageType_def

section \<open>Messages\<close>

record FinalizedBlockReceiptMsg =
  fr_NodeID :: int
  fr_Receipt :: FinalizedBlockReceipt

record BatchProposalMsg =
  bpm_NodeID :: int
  bpm_Proposal :: BatchProposal

record MatchRootFinalizedMsg =
  mf_NodeID :: int
  mf_Header :: MatchRootBlockBody

record SettlementPackageMsg =
  sp_NodeID :: int
  sp_Package :: SettlementPackage

record FallbackTxMsg =
  ft_NodeID :: int
  ft_Fallback :: ReservedFallback

record FallbackCompletedMsg =
  fc_NodeID :: int
  fc_SourceShard :: int
  fc_Key :: FallbackKey

record NettingProgressMsg =
  np_NodeID :: int
  np_IntentIDs :: "hash256 list"

record RelayBlockInfoMsg =
  rb_InnerShardTxs :: "Transaction list"
  rb_Relay1Txs :: "Transaction list"
  rb_Relay2Txs :: "Transaction list"
  rb_Epoch :: int
  rb_BlockProposeTime :: int
  rb_BlockCommitTime :: int
  rb_ShardID :: int

record BrokerBlockInfoMsg =
  bb_InnerShardTxs :: "Transaction list"
  bb_Broker1Txs :: "Transaction list"
  bb_Broker2Txs :: "Transaction list"
  bb_Relay1Txs :: "Transaction list"
  bb_Relay2Txs :: "Transaction list"
  bb_Epoch :: int
  bb_BlockProposeTime :: int
  bb_BlockCommitTime :: int
  bb_ShardID :: int

record msg_codecs =
  mc_ReceiveTxs :: "Transaction list codec"
  mc_FinalizedBlockReceipt :: "FinalizedBlockReceiptMsg codec"
  mc_BatchProposal :: "BatchProposalMsg codec"
  mc_MatchRootFinalized :: "MatchRootFinalizedMsg codec"
  mc_SettlementPackage :: "SettlementPackageMsg codec"
  mc_FallbackTx :: "FallbackTxMsg codec"
  mc_FallbackCompleted :: "FallbackCompletedMsg codec"
  mc_NettingProgress :: "NettingProgressMsg codec"
  mc_RelayBlockInfo :: "RelayBlockInfoMsg codec"
  mc_BrokerBlockInfo :: "BrokerBlockInfoMsg codec"

type_synonym net = "(NodeInfo list \<times> WrappedMsg) list"

section \<open>The topology\<close>

definition SolverShardID :: int where "SolverShardID = 0x7ffffffd"
definition BeaconShardID :: int where "BeaconShardID = 0x7ffffffe"
definition SupervisorShardID :: int where "SupervisorShardID = 0x7fffffff"

record TopoGetter =
  leaders :: "(int \<times> NodeInfo) list"
  shard2nodes :: "int \<rightharpoonup> NodeInfo list"

definition NewTopoGetter :: "(int \<times> NodeInfo) list \<Rightarrow> (int \<rightharpoonup> NodeInfo list) \<Rightarrow> TopoGetter" where
  "NewTopoGetter l s = \<lparr>leaders = l, shard2nodes = s\<rparr>"

text \<open>Appending to a Go map entry, which is empty when absent.\<close>

definition append_at :: "int \<Rightarrow> 'v list \<Rightarrow> (int \<rightharpoonup> 'v list) \<Rightarrow> (int \<rightharpoonup> 'v list)" where
  "append_at k vs m = m(k \<mapsto> (case m k of None \<Rightarrow> vs | Some xs \<Rightarrow> xs @ vs))"

definition add_topo_node :: "int \<Rightarrow> int \<Rightarrow> TopoGetter \<Rightarrow> TopoGetter" where
  "add_topo_node shard node t =
     (let i = \<lparr>NodeID = node, ShardID = shard\<rparr>;
          t1 = t\<lparr>shard2nodes := append_at shard [i] (shard2nodes t)\<rparr>
      in if node = 0 then t1\<lparr>leaders := alist_set shard i (leaders t1)\<rparr> else t1)"

text \<open>The maps are iterated in the order of the association lists.\<close>

definition SetTopoGetter :: "(int \<times> (int \<times> string) list) list \<Rightarrow> TopoGetter \<Rightarrow> TopoGetter" where
  "SetTopoGetter infoSet t =
     (let t1 = fold (\<lambda>(shard, shardInfo). fold (\<lambda>(node, addr). add_topo_node shard node) shardInfo) infoSet (NewTopoGetter [] Map.empty);
          supervisor = \<lparr>NodeID = 0, ShardID = SupervisorShardID\<rparr>
      in t1\<lparr>leaders := alist_set SupervisorShardID supervisor (leaders t1),
            shard2nodes := append_at SupervisorShardID [supervisor] (shard2nodes t1)\<rparr>)"

definition find_node :: "string \<Rightarrow> 'v option \<Rightarrow> 'v res" where
  "find_node what v = (case v of None \<Rightarrow> Inl (ErrOther what) | Some i \<Rightarrow> Inr i)"

definition GetSupervisor :: "TopoGetter \<Rightarrow> NodeInfo res" where
  "GetSupervisor t = find_node ''no supervisor found'' (map_of (leaders t) SupervisorShardID)"

definition GetSolver :: "TopoGetter \<Rightarrow> NodeInfo res" where
  "GetSolver t = find_node ''no solver found'' (map_of (leaders t) SolverShardID)"

definition topo_GetNodesInShard :: "TopoGetter \<Rightarrow> int \<Rightarrow> NodeInfo list res" where
  "topo_GetNodesInShard t s = find_node ''shard not found'' (shard2nodes t s)"

definition topo_GetLeader :: "TopoGetter \<Rightarrow> int \<Rightarrow> NodeInfo res" where
  "topo_GetLeader t s = find_node ''shard not found'' (map_of (leaders t) s)"

definition ChangeLeader :: "int \<Rightarrow> NodeInfo \<Rightarrow> TopoGetter \<Rightarrow> TopoGetter \<times> unit res" where
  "ChangeLeader s info t =
     (if map_of (leaders t) s = None then (t, Inl (ErrOther ''shard not found''))
      else (t\<lparr>leaders := alist_set s info (leaders t)\<rparr>, Inr ()))"

definition GetAllLeaders :: "TopoGetter \<Rightarrow> NodeInfo list" where
  "GetAllLeaders t = filter (\<lambda>v. \<not> IsSystemShardID (ShardID v)) (map snd (leaders t))"

lemma ChangeLeader_GetLeader:
  "ChangeLeader s info t = (t', Inr ()) \<Longrightarrow> topo_GetLeader t' s' = (if s' = s then Inr info else topo_GetLeader t s')"
  by (auto simp: ChangeLeader_def topo_GetLeader_def find_node_def map_of_alist_set split: if_splits)

text \<open>The supervisor is always resolved after the topology has been set.\<close>

lemma SetTopoGetter_supervisor: "GetSupervisor (SetTopoGetter infoSet t) = Inr \<lparr>NodeID = 0, ShardID = SupervisorShardID\<rparr>"
  by (simp add: GetSupervisor_def SetTopoGetter_def find_node_def Let_def map_of_alist_set)

section \<open>Sending transactions to shards\<close>

text \<open>
  \<open>MSendDifferentMessages\<close> sends each leader the last message collected for it.
\<close>

fun collect_shard_msgs ::
    "msg_codecs \<Rightarrow> TopoGetter \<Rightarrow> int \<Rightarrow> Transaction list list \<Rightarrow> (NodeInfo \<times> WrappedMsg) list \<Rightarrow> (NodeInfo \<times> WrappedMsg) list res" where
  "collect_shard_msgs C t i [] node2Msg = Inr node2Msg"
| "collect_shard_msgs C t i (txs2Shard # rest) node2Msg =
     (if txs2Shard = [] then collect_shard_msgs C t (i + 1) rest node2Msg
      else bind_res (topo_GetLeader t i) (\<lambda>l.
           bind_res (WrapMsg ReceiveTxsMessageType (enc (mc_ReceiveTxs C) txs2Shard)) (\<lambda>w.
           collect_shard_msgs C t (i + 1) rest (alist_set l w node2Msg))))"

definition SendWrappedTxs2Shards :: "msg_codecs \<Rightarrow> TopoGetter \<Rightarrow> Transaction list list \<Rightarrow> net \<Rightarrow> net \<times> unit res" where
  "SendWrappedTxs2Shards C t txs out =
     (case collect_shard_msgs C t 0 txs [] of
        Inl e \<Rightarrow> (out, Inl e)
      | Inr node2Msg \<Rightarrow> (out @ map (\<lambda>(l, w). ([l], w)) node2Msg, Inr ()))"

end
