(* ===== verification/Beacon.thy ===== *)
theory Beacon
  imports Batch_Correct Fallback
begin

text \<open>
  The beacon's view of batches, \<open>pkg/netting/beacon\<close>: the validator that checks a proposal against
  the committed tip and re-derives it from the receipts it carries, and the store of committed
  match-root blocks. The database \<open>bbolt\<close> is a set of maps from keys to bytes, a transaction that
  returns an error changes nothing; \<open>encoding/gob\<close> is the parameter \<open>codec\<close>.
\<close>

section \<open>The store\<close>

record MatchRootBlock =
  mb_Number :: uint64
  mb_ParentHash :: hash256
  mb_Body :: MatchRootBlockBody
  mb_CommitTime :: int

record Store =
  blockBucket :: "hash256 \<rightharpoonup> bytes"
  sidecarBucket :: "hash256 \<rightharpoonup> bytes"
  consumedBucket :: "hash256 \<rightharpoonup> hash256"
  tipBytes :: "bytes option"

record gobs =
  gob_block :: "MatchRootBlock codec"
  gob_sidecar :: "BatchSidecar codec"

definition OpenStore :: Store where
  "OpenStore = \<lparr>blockBucket = Map.empty, sidecarBucket = Map.empty, consumedBucket = Map.empty, tipBytes = None\<rparr>"

definition block_Hash :: "hasher \<Rightarrow> gobs \<Rightarrow> MatchRootBlock \<Rightarrow> hash256 res" where
  "block_Hash H gob b = bind_res (enc (gob_block gob) b) (\<lambda>encoded. Inr (H encoded))"

text \<open>\<open>Tip\<close> returns the block and whether there is one; here an option.\<close>

definition Tip :: "gobs \<Rightarrow> Store \<Rightarrow> MatchRootBlock option res" where
  "Tip gob st =
     (case tipBytes st of
        None \<Rightarrow> Inr None
      | Some encoded \<Rightarrow>
          if encoded = [] then Inr None
          else bind_res (dec (gob_block gob) encoded) (\<lambda>b. Inr (Some b)))"

definition HasIntent :: "Store \<Rightarrow> hash256 \<Rightarrow> bool" where
  "HasIntent st i \<longleftrightarrow> consumedBucket st i \<noteq> None"

text \<open>The tip as \<open>Commit\<close> reads it, after its sequence check: the zero block when there is none.\<close>

definition zero_header :: MatchRootBlockBody where
  "zero_header = \<lparr>BatchID = 0, PreviousBatchID = 0, WindowID = 0, MatcherMode = [], CutRoot = 0, IntentResultRoot = 0,
     ShardSettlementRoot = 0, MatchRoot = 0, Cuts = []\<rparr>"

definition zero_block :: MatchRootBlock where
  "zero_block = \<lparr>mb_Number = 0, mb_ParentHash = 0, mb_Body = zero_header, mb_CommitTime = 0\<rparr>"

definition commit_tip :: "gobs \<Rightarrow> MatchRootBlockBody \<Rightarrow> Store \<Rightarrow> MatchRootBlock res" where
  "commit_tip gob h st =
     (case tipBytes st of
        Some encoded \<Rightarrow>
          bind_res (dec (gob_block gob) encoded) (\<lambda>tip.
          fail_if (PreviousBatchID h \<noteq> BatchID (mb_Body tip) \<or> WindowID h \<noteq> WindowID (mb_Body tip) + 1) ErrBeaconTipChanged (
          Inr tip))
      | None \<Rightarrow>
          fail_if (PreviousBatchID h \<noteq> 0 \<or> WindowID h \<noteq> 1) ErrBeaconTipChanged (Inr zero_block))"

definition save_batch :: "hash256 \<Rightarrow> bytes \<Rightarrow> bytes \<Rightarrow> IntentResult list \<Rightarrow> Store \<Rightarrow> Store" where
  "save_batch batchID blockBytes sidecarBytes results st =
     st\<lparr>blockBucket := (blockBucket st)(batchID \<mapsto> blockBytes),
        sidecarBucket := (sidecarBucket st)(batchID \<mapsto> sidecarBytes),
        consumedBucket := foldl (\<lambda>m r. m(ir_IntentID r \<mapsto> batchID)) (consumedBucket st) results,
        tipBytes := Some blockBytes\<rparr>"

definition Commit :: "hasher \<Rightarrow> gobs \<Rightarrow> BatchProposal \<Rightarrow> int \<Rightarrow> Store \<Rightarrow> Store \<times> MatchRootBlock res" where
  "Commit H gob proposal now st =
     (let h = Header proposal in
      case fail_if (blockBucket st (BatchID h) \<noteq> None) ErrBatchCommitted (
           bind_res (commit_tip gob h st) (\<lambda>tip.
           bind_res (if tipBytes st \<noteq> None then block_Hash H gob tip else Inr 0) (\<lambda>parentHash.
           let committed = \<lparr>mb_Number = mb_Number tip + 1, mb_ParentHash = parentHash, mb_Body = h, mb_CommitTime = now\<rparr> in
           bind_res (enc (gob_block gob) committed) (\<lambda>blockBytes.
           bind_res (enc (gob_sidecar gob) (Sidecar proposal)) (\<lambda>sidecarBytes.
           Inr (committed, save_batch (BatchID h) blockBytes sidecarBytes (IntentResults (Sidecar proposal)) st)))))) of
        Inl e \<Rightarrow> (st, Inl e)
      | Inr (committed, st') \<Rightarrow> (st', Inr committed))"

definition GetProposal :: "gobs \<Rightarrow> Store \<Rightarrow> hash256 \<Rightarrow> BatchProposal res" where
  "GetProposal gob st i =
     (case (blockBucket st i, sidecarBucket st i) of
        (Some blockBytes, Some sidecarBytes) \<Rightarrow>
          fail_if (blockBytes = [] \<or> sidecarBytes = []) ErrBatchNotFound (
          bind_res (dec (gob_block gob) blockBytes) (\<lambda>b.
          bind_res (dec (gob_sidecar gob) sidecarBytes) (\<lambda>sidecar.
          Inr \<lparr>Header = mb_Body b, Sidecar = sidecar\<rparr>)))
      | _ \<Rightarrow> Inl ErrBatchNotFound)"

section \<open>The validator\<close>

definition validateSequence :: "MatchRootBlockBody \<Rightarrow> MatchRootBlock option \<Rightarrow> unit res" where
  "validateSequence h tip =
     (case tip of
        None \<Rightarrow> fail_if (WindowID h \<noteq> 1 \<or> PreviousBatchID h \<noteq> 0) ErrBatchSequence (Inr ())
      | Some b \<Rightarrow> fail_if (WindowID h \<noteq> WindowID (mb_Body b) + 1 \<or> PreviousBatchID h \<noteq> BatchID (mb_Body b)) ErrBatchSequence (Inr ()))"

text \<open>The receipts of a shard, by height; the map of the code has a list per shard.\<close>

definition receipts_of :: "int \<Rightarrow> FinalizedBlockReceipt list \<Rightarrow> FinalizedBlockReceipt list" where
  "receipts_of s rs = sort_key rc_Height (filter (\<lambda>r. rc_ShardID r = s) rs)"

definition acceptance_epoch :: "FinalizedBlockReceipt list \<Rightarrow> uint64" where
  "acceptance_epoch rs =
     foldl (\<lambda>acc r. if rc_Epoch r \<ge> 0 \<and> uint64_of_int64 (rc_Epoch r) > acc then uint64_of_int64 (rc_Epoch r) else acc) 0 rs"

text \<open>
  The loop over the receipts of one cut. The last argument tells whether the parent hash is checked
  (not for the first receipt of a shard the tip does not know).
\<close>

fun check_chain :: "int \<Rightarrow> uint64 \<Rightarrow> hash256 \<Rightarrow> bool \<Rightarrow> FinalizedBlockReceipt list \<Rightarrow> hash256 res" where
  "check_chain shard expectedHeight parent checked [] = Inr parent"
| "check_chain shard expectedHeight parent checked (r # rs) =
     fail_if (rc_Height r \<noteq> expectedHeight \<or> rc_ShardID r \<noteq> shard) ErrReceiptCoverage (
     fail_if (checked \<and> rc_ParentHash r \<noteq> parent) ErrReceiptCoverage (
     check_chain shard (expectedHeight + 1) (rc_BlockHash r) True rs))"

definition previous_cut :: "MatchRootBlock option \<Rightarrow> int \<Rightarrow> ShardCut option" where
  "previous_cut tip s =
     (case tip of None \<Rightarrow> None
      | Some b \<Rightarrow> find (\<lambda>c. cut_ShardID c = s) (rev (Cuts (mb_Body b))))"

definition check_cut :: "MatchRootBlock option \<Rightarrow> FinalizedBlockReceipt list \<Rightarrow> int list \<Rightarrow> ShardCut \<Rightarrow> PaymentIntent list res" where
  "check_cut tip rs seen c =
     (let s = cut_ShardID c; previous = previous_cut tip s; receipts = receipts_of s rs in
      fail_if (s \<in> set seen \<or> cut_EndHeight c < cut_PreviousHeight c) ErrCutSequence (
      fail_if (tip \<noteq> None \<and> (case previous of None \<Rightarrow> True | Some p \<Rightarrow> cut_PreviousHeight c \<noteq> cut_EndHeight p)) ErrCutSequence (
      fail_if (word_of_nat (length receipts) \<noteq> cut_EndHeight c - cut_PreviousHeight c) ErrReceiptCoverage (
      bind_res (check_chain s (cut_PreviousHeight c + 1) (case previous of None \<Rightarrow> 0 | Some p \<Rightarrow> cut_EndBlockHash p)
                  (previous \<noteq> None) receipts) (\<lambda>parent.
      fail_if (receipts \<noteq> [] \<and> parent \<noteq> cut_EndBlockHash c) ErrReceiptCoverage (
      fail_if (receipts = [] \<and> (case previous of None \<Rightarrow> False | Some p \<Rightarrow> cut_EndBlockHash c \<noteq> cut_EndBlockHash p)) ErrReceiptCoverage (
      Inr (concat (map rc_Intents receipts)))))))))"

fun check_cuts_of :: "MatchRootBlock option \<Rightarrow> FinalizedBlockReceipt list \<Rightarrow> int list \<Rightarrow> ShardCut list \<Rightarrow> PaymentIntent list res" where
  "check_cuts_of tip rs seen [] = Inr []"
| "check_cuts_of tip rs seen (c # cs) =
     bind_res (check_cut tip rs seen c) (\<lambda>ps.
     bind_res (check_cuts_of tip rs (cut_ShardID c # seen) cs) (\<lambda>qs. Inr (ps @ qs)))"

text \<open>
  After the loop no shard with receipts may be left without a cut. A key of the map stays with an
  empty list only if it was never inserted, so the test is on the receipts.
\<close>

definition validateReceiptCoverage ::
    "BatchProposal \<Rightarrow> MatchRootBlock option \<Rightarrow> (PaymentIntent list \<times> uint64) res" where
  "validateReceiptCoverage proposal tip =
     (let rs = FinalizedBlocks (Sidecar proposal); cuts = Cuts (Header proposal) in
      bind_res (check_cuts_of tip rs [] cuts) (\<lambda>intents.
      fail_if (\<exists>r \<in> set rs. rc_ShardID r \<notin> cut_ShardID ` set cuts) ErrReceiptCoverage (
      Inr (intents, acceptance_epoch rs))))"

fun check_intents :: "hasher \<Rightarrow> Store \<Rightarrow> uint64 \<Rightarrow> hash256 set \<Rightarrow> PaymentIntent list \<Rightarrow> unit res" where
  "check_intents H st epoch seen [] = Inr ()"
| "check_intents H st epoch seen (p # ps) =
     bind_res (ID H p) (\<lambda>i.
     fail_if (i \<in> seen) ErrDuplicateBatchIntent (
     fail_if (HasIntent st i) ErrDuplicateBatchIntent (
     fail_if (ExpiryEpoch p \<le> epoch) ErrExpiredBatchIntent (
     check_intents H st epoch (insert i seen) ps))))"

text \<open>\<open>equalIntentResults\<close> and \<open>equalShardSettlements\<close> compare field by field and element by element.\<close>

definition equalIntentResults :: "IntentResult list \<Rightarrow> IntentResult list \<Rightarrow> bool" where
  "equalIntentResults expected actual \<longleftrightarrow>
     length expected = length actual \<and> (\<forall>(e, a) \<in> set (zip expected actual). e = a)"

definition equalShardSettlements :: "ShardSettlement list \<Rightarrow> ShardSettlement list \<Rightarrow> bool" where
  "equalShardSettlements expected actual \<longleftrightarrow>
     length expected = length actual
     \<and> (\<forall>(l, r) \<in> set (zip expected actual).
          ss_BatchID l = ss_BatchID r \<and> ss_WindowID l = ss_WindowID r \<and> ss_ShardID l = ss_ShardID r
          \<and> ss_ChunkIndex l = ss_ChunkIndex r \<and> ss_ChunkCount l = ss_ChunkCount r
          \<and> equalIntentResults (ss_Outgoing l) (ss_Outgoing r) \<and> equalIntentResults (ss_Incoming l) (ss_Incoming r))"

definition derived_window :: "BatchProposal \<Rightarrow> PaymentIntent list \<Rightarrow> FrozenWindow" where
  "derived_window proposal intents =
     \<lparr>fw_WindowID = WindowID (Header proposal), fw_OpenedAt = 0, fw_SealedAt = 0, fw_CloseReason = [],
      fw_Cuts = Cuts (Header proposal), fw_Receipts = FinalizedBlocks (Sidecar proposal), fw_Intents = intents\<rparr>"

definition Validate_proposal :: "'t btree \<Rightarrow> hasher \<Rightarrow> gobs \<Rightarrow> Store \<Rightarrow> BatchProposal \<Rightarrow> unit res" where
  "Validate_proposal bt H gob st proposal =
     bind_res (Tip gob st) (\<lambda>tip.
     bind_res (validateSequence (Header proposal) tip) (\<lambda>_.
     bind_res (validateReceiptCoverage proposal tip) (\<lambda>(intents, epoch).
     bind_res (check_intents H st epoch {} intents) (\<lambda>_.
     bind_res (map_res (IntentResult_Validate H) (IntentResults (Sidecar proposal))) (\<lambda>_.
     bind_res (Builder_Build bt H (MatcherMode (Header proposal)) (derived_window proposal intents)
                (PreviousBatchID (Header proposal))) (\<lambda>expected.
     fail_if (Header expected \<noteq> Header proposal
              \<or> IntentResults (Sidecar expected) \<noteq> IntentResults (Sidecar proposal)
              \<or> \<not> equalShardSettlements (ShardSettlements (Sidecar expected)) (ShardSettlements (Sidecar proposal)))
       ErrDerivedBatchMismatch (Inr ())))))))"

end
