(* ===== verification/Beacon_Correct.thy ===== *)
theory Beacon_Correct
  imports Beacon Fallback_Correct
begin

text \<open>
  Correctness of the beacon: a proposal is accepted exactly when it is the one the builder derives
  from the receipts it carries, and the batches committed one after the other form a chain in
  which no intent is settled twice and no block of a shard is skipped.
\<close>

section \<open>What validation accepts\<close>

lemma equalIntentResults_eq [simp]: "equalIntentResults xs ys \<longleftrightarrow> xs = ys"
proof
  assume e: "equalIntentResults xs ys"
  show "xs = ys"
  proof (rule nth_equalityI)
    show l: "length xs = length ys" using e by (simp add: equalIntentResults_def)
    fix i assume i: "i < length xs"
    then have "(xs ! i, ys ! i) \<in> set (zip xs ys)" using l by (auto simp: set_zip)
    then show "xs ! i = ys ! i" using e by (auto simp: equalIntentResults_def)
  qed
qed (auto simp: equalIntentResults_def zip_same)

lemma equalShardSettlements_eq [simp]: "equalShardSettlements xs ys \<longleftrightarrow> xs = ys"
proof
  assume e: "equalShardSettlements xs ys"
  show "xs = ys"
  proof (rule nth_equalityI)
    show l: "length xs = length ys" using e by (simp add: equalShardSettlements_def)
    fix i assume i: "i < length xs"
    then have "(xs ! i, ys ! i) \<in> set (zip xs ys)" using l by (auto simp: set_zip)
    then show "xs ! i = ys ! i" using e by (auto simp: equalShardSettlements_def)
  qed
qed (auto simp: equalShardSettlements_def zip_same)

lemma check_intents_Inr:
  "check_intents H st epoch seen ps = Inr () \<longleftrightarrow>
     (\<forall>p \<in> set ps. \<exists>i. ID H p = Inr i) \<and> distinct (map (pid H) ps) \<and> pid H ` set ps \<inter> seen = {}
     \<and> (\<forall>p \<in> set ps. \<not> HasIntent st (pid H p) \<and> epoch < ExpiryEpoch p)"
proof (induction ps arbitrary: seen)
  case (Cons p ps)
  show ?case
    by (cases "ID H p") (auto simp: fail_if_eq_Inr Cons.IH pid_def not_le)
qed simp

lemma map_res_unit: "map_res f xs = Inr ys \<Longrightarrow> \<forall>x \<in> set xs. \<exists>y. f x = Inr y"
  by (induction xs arbitrary: ys) (auto simp: bind_res_eq_Inr)

lemma Builder_Build_sidecar:
  "Builder_Build bt H mode frozen prev = Inr p \<Longrightarrow> FinalizedBlocks (Sidecar p) = fw_Receipts frozen"
  by (auto simp: Builder_Build_def BuildMeasured_def Build_proposal_def Let_def res_elims split: prod.splits)

lemma Builder_Build_results:
  assumes "btree_laws bt elems valid" "Builder_Build bt H mode frozen prev = Inr p"
  shows "mset (map ir_Intent (IntentResults (Sidecar p))) = mset (fw_Intents frozen)
      \<and> (\<forall>r \<in> set (IntentResults (Sidecar p)). IntentResult_Validate H r = Inr ())"
proof -
  obtain out where "Build_proposal bt H mode frozen prev = Inr (p, out)"
    using assms(2) by (auto simp: Builder_Build_def BuildMeasured_def bind_res_eq_Inr)
  from Build_results [OF assms(1) this] show ?thesis by blast
qed

definition fresh_intents :: "hasher \<Rightarrow> Store \<Rightarrow> uint64 \<Rightarrow> PaymentIntent list \<Rightarrow> bool" where
  "fresh_intents H st epoch ps \<longleftrightarrow> (\<forall>p \<in> set ps. \<exists>i. ID H p = Inr i) \<and> distinct (map (pid H) ps)
     \<and> (\<forall>p \<in> set ps. \<not> HasIntent st (pid H p) \<and> epoch < ExpiryEpoch p)"

lemma Validate_iff:
  assumes bt: "btree_laws bt elems valid"
  shows "Validate_proposal bt H gob st p = Inr () \<longleftrightarrow>
    (\<exists>tip intents epoch. Tip gob st = Inr tip \<and> validateSequence (Header p) tip = Inr ()
       \<and> validateReceiptCoverage p tip = Inr (intents, epoch) \<and> fresh_intents H st epoch intents
       \<and> Builder_Build bt H (MatcherMode (Header p)) (derived_window p intents) (PreviousBatchID (Header p)) = Inr p)"
    (is "?L \<longleftrightarrow> ?R")
proof
  assume ?L
  then obtain tip intents epoch q where t: "Tip gob st = Inr tip" "validateSequence (Header p) tip = Inr ()"
    "validateReceiptCoverage p tip = Inr (intents, epoch)" "check_intents H st epoch {} intents = Inr ()"
    and q: "Builder_Build bt H (MatcherMode (Header p)) (derived_window p intents) (PreviousBatchID (Header p)) = Inr q"
    "Header q = Header p" "IntentResults (Sidecar q) = IntentResults (Sidecar p)"
    "ShardSettlements (Sidecar q) = ShardSettlements (Sidecar p)"
    by (auto simp: Validate_proposal_def res_elims)
  have "FinalizedBlocks (Sidecar q) = FinalizedBlocks (Sidecar p)"
    using Builder_Build_sidecar [OF q(1)] by (simp add: derived_window_def)
  with q have "q = p" by (cases q; cases p; cases "Sidecar q"; cases "Sidecar p") simp
  then show ?R using t q(1) by (auto simp: check_intents_Inr fresh_intents_def)
next
  assume ?R
  then obtain tip intents epoch where t: "Tip gob st = Inr tip" "validateSequence (Header p) tip = Inr ()"
    "validateReceiptCoverage p tip = Inr (intents, epoch)" "fresh_intents H st epoch intents"
    and b: "Builder_Build bt H (MatcherMode (Header p)) (derived_window p intents) (PreviousBatchID (Header p)) = Inr p"
    by blast
  have "map_res (IntentResult_Validate H) (IntentResults (Sidecar p)) = Inr (map (\<lambda>_. ()) (IntentResults (Sidecar p)))"
    by (rule map_res_total) (use Builder_Build_results [OF bt b] in simp)
  moreover have "check_intents H st epoch {} intents = Inr ()"
    using t(4) by (simp add: check_intents_Inr fresh_intents_def)
  ultimately show ?L using t(1-3) b by (simp add: Validate_proposal_def)
qed

text \<open>
  C35. The beacon accepts a proposal exactly when it follows the committed tip, its receipts cover
  its cuts without gaps, its intents are valid, pairwise different, unexpired and not settled
  before, and the proposal is, header and sidecar, the one the builder derives from those intents
  and cuts. Two beacon nodes with the same tip therefore accept the same proposals.
\<close>

theorem Validate_accepts_derived:
  assumes "btree_laws bt elems valid"
  shows "Validate_proposal bt H gob st p = Inr () \<longleftrightarrow>
    (\<exists>tip intents epoch. Tip gob st = Inr tip \<and> validateSequence (Header p) tip = Inr ()
       \<and> validateReceiptCoverage p tip = Inr (intents, epoch) \<and> fresh_intents H st epoch intents
       \<and> Builder_Build bt H (MatcherMode (Header p)) (derived_window p intents) (PreviousBatchID (Header p)) = Inr p)"
  by (rule Validate_iff [OF assms])

section \<open>Committed batches\<close>

text \<open>\<open>gob\<close> decodes what it encoded, and encodes nothing as the empty string.\<close>

locale codec_laws =
  fixes c :: "'a codec"
  assumes dec_enc: "enc c x = Inr b \<Longrightarrow> dec c b = Inr x"
    and enc_nonempty: "enc c x = Inr b \<Longrightarrow> b \<noteq> []"

definition proposal_ids :: "BatchProposal \<Rightarrow> hash256 list" where
  "proposal_ids p = map ir_IntentID (IntentResults (Sidecar p))"

text \<open>The store after a sequence of validated and committed proposals, with the history kept.\<close>

inductive beacon_reach :: "'t btree \<Rightarrow> hasher \<Rightarrow> gobs \<Rightarrow> BatchProposal list \<Rightarrow> Store \<Rightarrow> bool"
  for bt H gob where
  genesis: "beacon_reach bt H gob [] OpenStore"
| commit: "beacon_reach bt H gob ps st \<Longrightarrow> Validate_proposal bt H gob st p = Inr ()
    \<Longrightarrow> Beacon.Commit H gob p now st = (st', Inr b) \<Longrightarrow> beacon_reach bt H gob (ps @ [p]) st'"

lemma Commit_Inr:
  assumes "Beacon.Commit H gob p now st = (st', Inr b)"
  shows "\<exists>bb sb. blockBucket st (BatchID (Header p)) = None \<and> enc (gob_block gob) b = Inr bb \<and> mb_Body b = Header p
    \<and> enc (gob_sidecar gob) (Sidecar p) = Inr sb
    \<and> st' = save_batch (BatchID (Header p)) bb sb (IntentResults (Sidecar p)) st"
  using assms by (auto simp: Beacon.Commit_def Let_def fail_if_eq_Inr bind_res_eq_Inr split: sum.splits)

lemma dom_consumed: "dom (foldl (\<lambda>m r. m(f r \<mapsto> b)) m rs) = dom m \<union> f ` set rs"
  by (induction rs arbitrary: m) auto

definition linked :: "BatchProposal list \<Rightarrow> bool" where
  "linked ps \<longleftrightarrow> (\<forall>k < length ps.
     WindowID (Header (ps ! k)) = word_of_nat (k + 1)
     \<and> PreviousBatchID (Header (ps ! k)) = (if k = 0 then 0 else BatchID (Header (ps ! (k - 1)))))"

definition cuts_joined :: "BatchProposal list \<Rightarrow> bool" where
  "cuts_joined ps \<longleftrightarrow> (\<forall>k. 0 < k \<longrightarrow> k < length ps \<longrightarrow> (\<forall>c \<in> set (Cuts (Header (ps ! k))).
     \<exists>c' \<in> set (Cuts (Header (ps ! (k - 1)))). cut_ShardID c' = cut_ShardID c \<and> cut_PreviousHeight c = cut_EndHeight c'))"

definition store_ok :: "hasher \<Rightarrow> gobs \<Rightarrow> BatchProposal list \<Rightarrow> Store \<Rightarrow> bool" where
  "store_ok H gob ps st \<longleftrightarrow>
     linked ps \<and> cuts_joined ps \<and> distinct (concat (map proposal_ids ps)) \<and> distinct (map (\<lambda>p. BatchID (Header p)) ps)
     \<and> dom (consumedBucket st) = set (concat (map proposal_ids ps))
     \<and> dom (blockBucket st) = set (map (\<lambda>p. BatchID (Header p)) ps)
     \<and> (\<forall>p \<in> set ps. GetProposal gob st (BatchID (Header p)) = Inr p)
     \<and> (case tipBytes st of None \<Rightarrow> ps = [] | Some bs \<Rightarrow> ps \<noteq> [] \<and> bs \<noteq> []
          \<and> (\<exists>b. dec (gob_block gob) bs = Inr b \<and> mb_Body b = Header (last ps)))"

lemma check_cuts_of_member:
  "check_cuts_of tip rs seen cs = Inr ps \<Longrightarrow> c \<in> set cs \<Longrightarrow> \<exists>seen' qs. check_cut tip rs seen' c = Inr qs"
  by (induction cs arbitrary: seen ps) (auto simp: bind_res_eq_Inr)

lemma check_cut_joined:
  assumes "check_cut (Some b) rs seen c = Inr qs"
  shows "\<exists>c' \<in> set (Cuts (mb_Body b)). cut_ShardID c' = cut_ShardID c \<and> cut_PreviousHeight c = cut_EndHeight c'"
proof -
  obtain p where "previous_cut (Some b) (cut_ShardID c) = Some p" "cut_PreviousHeight c = cut_EndHeight p"
    using assms by (auto simp: check_cut_def Let_def fail_if_eq_Inr bind_res_eq_Inr split: option.splits)
  then show ?thesis by (auto simp: previous_cut_def find_Some_iff intro!: bexI [of _ p]) (metis nth_mem set_rev length_rev)
qed

lemma GetProposal_save:
  assumes "codec_laws (gob_block gob)" "codec_laws (gob_sidecar gob)"
    and "enc (gob_block gob) b = Inr bb" "mb_Body b = Header p" "enc (gob_sidecar gob) (Sidecar p) = Inr sb"
  shows "GetProposal gob (save_batch (BatchID (Header p)) bb sb rs st) (BatchID (Header p)) = Inr p"
  using assms codec_laws.dec_enc [OF assms(1,3)] codec_laws.dec_enc [OF assms(2,5)]
    codec_laws.enc_nonempty [OF assms(1,3)] codec_laws.enc_nonempty [OF assms(2,5)]
  by (simp add: GetProposal_def save_batch_def)

lemma GetProposal_save_other:
  "i \<noteq> j \<Longrightarrow> GetProposal gob (save_batch i bb sb rs st) j = GetProposal gob st j"
  by (simp add: GetProposal_def save_batch_def)

lemma Tip_store_ok:
  assumes "store_ok H gob ps st"
  shows "\<exists>tip. Tip gob st = Inr tip \<and> (tip = None \<longleftrightarrow> ps = []) \<and> (\<forall>b. tip = Some b \<longrightarrow> mb_Body b = Header (last ps))"
  using assms by (auto simp: store_ok_def Tip_def split: option.splits)

lemma last_window: "linked ps \<Longrightarrow> ps \<noteq> [] \<Longrightarrow> WindowID (Header (last ps)) = word_of_nat (length ps)"
proof -
  assume l: "linked ps" "ps \<noteq> []"
  then have "WindowID (Header (ps ! (length ps - 1))) = word_of_nat (length ps - 1 + 1)"
    unfolding linked_def by (metis diff_less length_greater_0_conv zero_less_one)
  then show ?thesis using l(2) by (simp add: last_conv_nth del: of_nat_add)
qed

lemma store_ok_commit:
  assumes bt: "btree_laws bt elems valid" and cb: "codec_laws (gob_block gob)" and cs: "codec_laws (gob_sidecar gob)"
    and ok: "store_ok H gob ps st" and v: "Validate_proposal bt H gob st p = Inr ()"
    and c: "Beacon.Commit H gob p now st = (st', Inr b)"
  shows "store_ok H gob (ps @ [p]) st'"
proof -
  obtain tip intents epoch where t: "Tip gob st = Inr tip" "validateSequence (Header p) tip = Inr ()"
    "validateReceiptCoverage p tip = Inr (intents, epoch)" "fresh_intents H st epoch intents"
    and bd: "Builder_Build bt H (MatcherMode (Header p)) (derived_window p intents) (PreviousBatchID (Header p)) = Inr p"
    using v unfolding Validate_iff [OF bt] by blast
  obtain bb sb where cm: "blockBucket st (BatchID (Header p)) = None" "enc (gob_block gob) b = Inr bb" "mb_Body b = Header p"
    "enc (gob_sidecar gob) (Sidecar p) = Inr sb"
    and st': "st' = save_batch (BatchID (Header p)) bb sb (IntentResults (Sidecar p)) st"
    using Commit_Inr [OF c] by blast
  note o = ok [unfolded store_ok_def]
  have tip: "tip = None \<longleftrightarrow> ps = []" "\<And>b. tip = Some b \<Longrightarrow> mb_Body b = Header (last ps)"
    using Tip_store_ok [OF ok] t(1) by auto
  note R = Builder_Build_results [OF bt bd]
  have ints: "mset (map ir_Intent (IntentResults (Sidecar p))) = mset intents" using R by (simp add: derived_window_def)
  have "map ir_IntentID (IntentResults (Sidecar p)) = map (pid H) (map ir_Intent (IntentResults (Sidecar p)))"
    using R by (auto simp: IntentResult_Validate_ok_iff pid_def)
  then have ids: "mset (proposal_ids p) = mset (map (pid H) intents)"
    unfolding proposal_ids_def by (simp only: mset_map ints [unfolded mset_map])
  have di: "distinct (proposal_ids p)" using t(4) mset_eq_imp_distinct_iff [OF ids] by (simp add: fresh_intents_def)
  have sp: "set (proposal_ids p) = pid H ` set intents" using mset_eq_setD [OF ids] by simp
  have dc: "dom (consumedBucket st) = set (concat (map proposal_ids ps))" using o by blast
  have new: "set (proposal_ids p) \<inter> set (concat (map proposal_ids ps)) = {}"
    unfolding sp dc [symmetric] using t(4) by (auto simp: fresh_intents_def HasIntent_def)
  have nb: "BatchID (Header p) \<notin> set (map (\<lambda>p. BatchID (Header p)) ps)" using cm(1) o by (metis domIff)
  have lk: "linked (ps @ [p])"
  proof -
    have w: "WindowID (Header p) = word_of_nat (length ps + 1) \<and> PreviousBatchID (Header p)
        = (if ps = [] then 0 else BatchID (Header (last ps)))"
    proof (cases tip)
      case None
      then show ?thesis using t(2) tip(1) by (simp add: validateSequence_def fail_if_eq_Inr)
    next
      case (Some b)
      then show ?thesis
        using t(2) tip last_window o by (auto simp: validateSequence_def fail_if_eq_Inr add.commute)
    qed
    show ?thesis
      unfolding linked_def
    proof (intro allI impI)
      fix k assume k: "k < length (ps @ [p])"
      show "WindowID (Header ((ps @ [p]) ! k)) = word_of_nat (k + 1)
        \<and> PreviousBatchID (Header ((ps @ [p]) ! k)) = (if k = 0 then 0 else BatchID (Header ((ps @ [p]) ! (k - 1))))"
      proof (cases "k < length ps")
        case True
        then show ?thesis using o by (auto simp: linked_def nth_append)
      next
        case False
        then have "k = length ps" using k by simp
        then show ?thesis using w by (auto simp: nth_append last_conv_nth)
      qed
    qed
  qed
  have cj: "cuts_joined (ps @ [p])"
    unfolding cuts_joined_def
  proof (intro allI impI ballI)
    fix k cut assume k: "0 < k" "k < length (ps @ [p])" and cut: "cut \<in> set (Cuts (Header ((ps @ [p]) ! k)))"
    show "\<exists>c' \<in> set (Cuts (Header ((ps @ [p]) ! (k - 1)))). cut_ShardID c' = cut_ShardID cut \<and> cut_PreviousHeight cut = cut_EndHeight c'"
    proof (cases "k < length ps")
      case True
      then have "k - 1 < length ps" by simp
      then show ?thesis using o k cut True unfolding cuts_joined_def by (simp add: nth_append)
    next
      case False
      then have kl: "k = length ps" "ps \<noteq> []" using k by auto
      then obtain tb where tb: "tip = Some tb" "mb_Body tb = Header (last ps)" using tip by auto
      have "cut \<in> set (Cuts (Header p))" using cut kl by (simp add: nth_append)
      then obtain seen qs where "check_cut tip (FinalizedBlocks (Sidecar p)) seen cut = Inr qs"
        using t(3) check_cuts_of_member by (fastforce simp: validateReceiptCoverage_def Let_def bind_res_eq_Inr)
      from check_cut_joined [OF this [unfolded tb(1)]] tb(2) kl show ?thesis
        by (simp add: nth_append last_conv_nth)
    qed
  qed
  show ?thesis
    unfolding store_ok_def
  proof (intro conjI)
    show "linked (ps @ [p])" "cuts_joined (ps @ [p])" by (rule lk, rule cj)
    show "distinct (concat (map proposal_ids (ps @ [p])))" using o di new by auto
    show "distinct (map (\<lambda>p. BatchID (Header p)) (ps @ [p]))" using o nb by simp
    show "dom (consumedBucket st') = set (concat (map proposal_ids (ps @ [p])))"
      using o by (simp add: st' save_batch_def dom_consumed proposal_ids_def)
    show "dom (blockBucket st') = set (map (\<lambda>p. BatchID (Header p)) (ps @ [p]))"
      using o by (auto simp: st' save_batch_def)
    show "\<forall>q \<in> set (ps @ [p]). GetProposal gob st' (BatchID (Header q)) = Inr q"
    proof
      fix q assume q: "q \<in> set (ps @ [p])"
      show "GetProposal gob st' (BatchID (Header q)) = Inr q"
      proof (cases "q = p")
        case True
        then show ?thesis unfolding st' using GetProposal_save [OF cb cs cm(2,3,4)] by simp
      next
        case False
        then have "q \<in> set ps" using q by simp
        moreover from this have "BatchID (Header p) \<noteq> BatchID (Header q)" using nb by auto
        ultimately show ?thesis unfolding st' using o by (simp add: GetProposal_save_other)
      qed
    qed
    show "case tipBytes st' of None \<Rightarrow> ps @ [p] = [] | Some bs \<Rightarrow> ps @ [p] \<noteq> [] \<and> bs \<noteq> []
          \<and> (\<exists>b. dec (gob_block gob) bs = Inr b \<and> mb_Body b = Header (last (ps @ [p])))"
      using codec_laws.dec_enc [OF cb cm(2)] codec_laws.enc_nonempty [OF cb cm(2)] cm(3) by (simp add: st' save_batch_def)
  qed
qed

lemma beacon_reach_ok:
  assumes "btree_laws bt elems valid" "codec_laws (gob_block gob)" "codec_laws (gob_sidecar gob)"
    and "beacon_reach bt H gob ps st"
  shows "store_ok H gob ps st"
  using assms(4)
proof induction
  case genesis
  show ?case by (simp add: store_ok_def linked_def cuts_joined_def OpenStore_def)
next
  case (commit ps st p now st' b)
  then show ?case using store_ok_commit [OF assms(1-3)] by blast
qed

text \<open>
  C2. The batches the beacon commits, each after validation, form a chain: their windows are
  numbered from one without gaps, each names the batch before it, each cut of a shard starts at the
  height where the previous batch's cut of that shard ended, no intent is settled twice in the
  whole history, and every committed proposal can be read back unchanged.
\<close>

theorem beacon_history:
  assumes "btree_laws bt elems valid" "codec_laws (gob_block gob)" "codec_laws (gob_sidecar gob)"
    and "beacon_reach bt H gob ps st"
  shows "linked ps \<and> cuts_joined ps \<and> distinct (concat (map proposal_ids ps))
    \<and> (\<forall>p \<in> set ps. GetProposal gob st (BatchID (Header p)) = Inr p)
    \<and> (\<forall>i. HasIntent st i \<longleftrightarrow> i \<in> set (concat (map proposal_ids ps)))"
  using beacon_reach_ok [OF assms] by (auto simp: store_ok_def HasIntent_def simp flip: domIff)

section \<open>Witnesses\<close>

text \<open>A codec for the values of a list, by their position in it.\<close>

fun position :: "'a list \<Rightarrow> 'a \<Rightarrow> nat option" where
  "position [] x = None"
| "position (y # ys) x = (if y = x then Some 0 else map_option Suc (position ys x))"

definition table_codec :: "'a list \<Rightarrow> 'a codec" where
  "table_codec xs = \<lparr>enc = (\<lambda>x. case position xs x of None \<Rightarrow> Inl (ErrOther ''encode'') | Some i \<Rightarrow> Inr (replicate (Suc i) 0)),
     dec = (\<lambda>b. if b \<noteq> [] \<and> length b \<le> length xs then Inr (xs ! (length b - 1)) else Inl (ErrOther ''decode''))\<rparr>"

lemma position_Some: "position xs x = Some i \<Longrightarrow> i < length xs \<and> xs ! i = x"
  by (induction xs arbitrary: i) (auto split: if_splits)

interpretation tc: codec_laws "table_codec xs" for xs
  by unfold_locales (auto simp: table_codec_def dest: position_Some split: option.splits)

text \<open>A first batch: one block of shard 0 with the example payment, no block of shard 1.\<close>

definition first_receipt :: FinalizedBlockReceipt where
  "first_receipt = \<lparr>rc_ShardID = 0, rc_Height = 1, rc_BlockHash = 7, rc_ParentHash = 0, rc_StateRoot = 0, rc_Epoch = 0,
     rc_Intents = [example_intent], rc_CommitTime = 0\<rparr>"

definition first_window :: FrozenWindow where
  "first_window =
     \<lparr>fw_WindowID = 1, fw_OpenedAt = 0, fw_SealedAt = 0, fw_CloseReason = [],
      fw_Cuts = [\<lparr>cut_ShardID = 0, cut_PreviousHeight = 0, cut_EndHeight = 1, cut_EndBlockHash = 7\<rparr>,
                 \<lparr>cut_ShardID = 1, cut_PreviousHeight = 0, cut_EndHeight = 0, cut_EndBlockHash = 0\<rparr>],
      fw_Receipts = [first_receipt], fw_Intents = [example_intent]\<rparr>"

lemma first_builds: "\<exists>p. Builder_Build list_btree length_hash FullMode first_window 0 = Inr p"
proof -
  obtain out where "MatchWithMode list_btree length_hash (fw_Intents first_window) (NormalizeMode FullMode) = Inr out"
    using solo_match [of length_hash FullMode] by (auto simp: solo_frozen_def first_window_def)
  from Build_succeeds [OF lbt.btree_laws_axioms _ this, of 0]
  have "\<exists>p. Build_proposal list_btree length_hash FullMode first_window 0 = Inr (p, out)"
    by (simp add: first_window_def good_cut_def int64_range_def)
  then show ?thesis by (auto simp: Builder_Build_def BuildMeasured_def)
qed

lemma first_header:
  assumes "Builder_Build list_btree length_hash FullMode first_window 0 = Inr p"
  shows "WindowID (Header p) = 1" "PreviousBatchID (Header p) = 0" "MatcherMode (Header p) = FullMode"
    "Cuts (Header p) = fw_Cuts first_window" "FinalizedBlocks (Sidecar p) = [first_receipt]"
    "derived_window p [example_intent] = first_window"
proof -
  obtain cuts ids where c: "canonicalCuts (fw_Cuts first_window) = Inr (cuts, ids)" and
    f: "WindowID (Header p) = fw_WindowID first_window" "PreviousBatchID (Header p) = 0"
    "MatcherMode (Header p) = NormalizeMode FullMode" "Cuts (Header p) = cuts" "FinalizedBlocks (Sidecar p) = fw_Receipts first_window"
    using assms by (auto simp: Builder_Build_def BuildMeasured_def Build_proposal_def Let_def res_elims split: prod.splits)
  have "cuts = fw_Cuts first_window" using canonicalCuts_Inr(1) [OF c] by (simp add: first_window_def)
  moreover have "NormalizeMode FullMode = FullMode" by (simp add: NormalizeMode_def FullMode_def)
  ultimately show "WindowID (Header p) = 1" "PreviousBatchID (Header p) = 0" "MatcherMode (Header p) = FullMode"
    "Cuts (Header p) = fw_Cuts first_window" "FinalizedBlocks (Sidecar p) = [first_receipt]"
    "derived_window p [example_intent] = first_window"
    using f by (simp_all add: first_window_def derived_window_def)
qed

lemma first_covered:
  assumes "Builder_Build list_btree length_hash FullMode first_window 0 = Inr p"
  shows "validateReceiptCoverage p None = Inr ([example_intent], 0)"
proof -
  note f = first_header [OF assms]
  have "receipts_of 0 [first_receipt] = [first_receipt]" "receipts_of 1 [first_receipt] = []"
    by (simp_all add: receipts_of_def first_receipt_def)
  then show ?thesis
    unfolding validateReceiptCoverage_def f(4,5)
    by (simp add: first_window_def check_cut_def previous_cut_def)
      (simp add: first_receipt_def acceptance_epoch_def uint64_of_int64_def)
qed

lemma first_fresh: "fresh_intents length_hash OpenStore 0 [example_intent]"
  by (simp add: fresh_intents_def HasIntent_def OpenStore_def example_IDs) (simp add: example_intent_def)

lemma Validate_accepts_derived_witness:
  "\<exists>p. Validate_proposal list_btree length_hash \<lparr>gob_block = table_codec [], gob_sidecar = table_codec []\<rparr> OpenStore p = Inr ()
     \<and> WindowID (Header p) = 1"
proof -
  obtain p where b: "Builder_Build list_btree length_hash FullMode first_window 0 = Inr p" using first_builds by blast
  note f = first_header [OF b]
  show ?thesis
    unfolding Validate_accepts_derived [OF lbt.btree_laws_axioms]
    by (intro exI [of _ p] conjI exI [of _ None] exI [of _ "[example_intent]"] exI [of _ 0])
      (use b f first_covered [OF b] first_fresh in \<open>simp_all add: Tip_def OpenStore_def validateSequence_def\<close>)
qed

lemma beacon_history_witness:
  "\<exists>gob p st. beacon_reach list_btree length_hash gob [p] st \<and> proposal_ids p = [150]
     \<and> GetProposal gob st (BatchID (Header p)) = Inr p \<and> HasIntent st 150"
proof -
  obtain p where b: "Builder_Build list_btree length_hash FullMode first_window 0 = Inr p" using first_builds by blast
  note f = first_header [OF b]
  define blk where "blk = \<lparr>mb_Number = 1, mb_ParentHash = 0, mb_Body = Header p, mb_CommitTime = 0\<rparr>"
  define gob where "gob = \<lparr>gob_block = table_codec [blk], gob_sidecar = table_codec [Sidecar p]\<rparr>"
  have e: "enc (gob_block gob) blk = Inr [0]" "enc (gob_sidecar gob) (Sidecar p) = Inr [0]"
    by (simp_all add: gob_def table_codec_def)
  have v: "Validate_proposal list_btree length_hash gob OpenStore p = Inr ()"
    unfolding Validate_iff [OF lbt.btree_laws_axioms]
    by (intro conjI exI [of _ None] exI [of _ "[example_intent]"] exI [of _ 0])
      (use b f first_covered [OF b] first_fresh in \<open>simp_all add: Tip_def OpenStore_def validateSequence_def\<close>)
  have "\<exists>st. Beacon.Commit length_hash gob p 0 OpenStore = (st, Inr blk)"
    using e f by (simp add: Beacon.Commit_def OpenStore_def commit_tip_def zero_block_def Let_def flip: blk_def)
  then obtain st where re: "beacon_reach list_btree length_hash gob ([] @ [p]) st"
    using beacon_reach.commit [OF beacon_reach.genesis v] by blast
  have "mset (map ir_Intent (IntentResults (Sidecar p))) = mset [example_intent]"
    using Builder_Build_results [OF lbt.btree_laws_axioms b] by (simp add: first_window_def)
  then have r: "map ir_Intent (IntentResults (Sidecar p)) = [example_intent]"
    by (simp only: mset.simps mset_single_iff)
  then have ids: "proposal_ids p = [150]"
    using Builder_Build_results [OF lbt.btree_laws_axioms b]
    by (auto simp: proposal_ids_def IntentResult_Validate_ok_iff map_eq_Cons_conv example_IDs)
  have "codec_laws (gob_block gob)" "codec_laws (gob_sidecar gob)" by (simp_all add: gob_def tc.codec_laws_axioms)
  from beacon_history [OF lbt.btree_laws_axioms this re] re ids show ?thesis by auto
qed

end
