(* ===== verification/Solver.thy ===== *)
theory Solver
  imports Messages Beacon_Correct
begin

text \<open>
  The solver process: its store \<open>pkg/netting/batchstore\<close> and its node \<open>pkg/netting/solver\<close>, which
  collects receipts, builds a proposal from every sealed window, sends the proposals to the beacon
  one at a time and the settlement packages to the shards once a proposal is final.

  A bbolt bucket is a map and an \<open>Update\<close> transaction one step. The two types that the store
  encodes have \<open>gob\<close> codecs as parameters. Metrics are sent to the supervisor and read nowhere else: only the
  encodings on whose success the loop depends are kept. The buffer of the connection is the list of
  messages given to \<open>Step\<close>; the ticker loop around \<open>Step\<close> is a sequence of its calls.
\<close>

section \<open>The store\<close>

record SolverState =
  sv_ManagerState :: "State option"
  sv_BootstrapReceipts :: "(int \<times> FinalizedBlockReceipt list) list"
  sv_ChainTip :: hash256
  sv_PendingBatchIDs :: "hash256 list"

record BatchStore =
  bs_state :: "bytes option"
  bs_proposals :: "hash256 \<rightharpoonup> bytes"

record store_codecs =
  sg_state :: "SolverState codec"
  sg_proposal :: "BatchProposal codec"

definition Open_batchstore :: BatchStore where
  "Open_batchstore = \<lparr>bs_state = None, bs_proposals = Map.empty\<rparr>"

definition zero_state :: SolverState where
  "zero_state = \<lparr>sv_ManagerState = None, sv_BootstrapReceipts = [], sv_ChainTip = 0, sv_PendingBatchIDs = []\<rparr>"

definition encode_failed :: err where
  "encode_failed = ErrOther ''encode''"

definition SaveState :: "store_codecs \<Rightarrow> SolverState \<Rightarrow> BatchStore \<Rightarrow> BatchStore \<times> unit res" where
  "SaveState G state s =
     (case enc (sg_state G) state of
        Inl e \<Rightarrow> (s, Inl encode_failed)
      | Inr encoded \<Rightarrow> (s\<lparr>bs_state := Some encoded\<rparr>, Inr ()))"

definition PutProposalAndState :: "store_codecs \<Rightarrow> BatchProposal \<Rightarrow> SolverState \<Rightarrow> BatchStore \<Rightarrow> BatchStore \<times> unit res" where
  "PutProposalAndState G proposal state s =
     (case enc (sg_proposal G) proposal of
        Inl e \<Rightarrow> (s, Inl encode_failed)
      | Inr proposalBytes \<Rightarrow>
          (case enc (sg_state G) state of
             Inl e \<Rightarrow> (s, Inl encode_failed)
           | Inr stateBytes \<Rightarrow>
               (s\<lparr>bs_proposals := (bs_proposals s)(BatchID (Header proposal) \<mapsto> proposalBytes), bs_state := Some stateBytes\<rparr>, Inr ())))"

definition stored_bytes :: "bytes option \<Rightarrow> bytes" where
  "stored_bytes v = (case v of None \<Rightarrow> [] | Some b \<Rightarrow> b)"

definition LoadState :: "store_codecs \<Rightarrow> BatchStore \<Rightarrow> (SolverState \<times> bool) res" where
  "LoadState G s =
     (let encoded = stored_bytes (bs_state s) in
      if encoded = [] then Inr (zero_state, False)
      else bind_res (dec (sg_state G) encoded) (\<lambda>state. Inr (state, True)))"

definition store_GetProposal :: "store_codecs \<Rightarrow> BatchStore \<Rightarrow> hash256 \<Rightarrow> BatchProposal res" where
  "store_GetProposal G s i =
     (let encoded = stored_bytes (bs_proposals s i) in
      if encoded = [] then Inl (ErrOther ''batch proposal not found'')
      else dec (sg_proposal G) encoded)"

section \<open>The node\<close>

record SolverConfig =
  sc_Count :: int
  sc_BatchSize :: int
  sc_MaxWindowDuration :: int
  sc_TickInterval :: int
  sc_MatcherMode :: Mode

record Solver =
  so_cfg :: SolverConfig
  so_clock :: "nat \<Rightarrow> int"
  so_store :: BatchStore
  so_manager :: "Manager option"
  so_bootstrap :: "(int \<times> FinalizedBlockReceipt list) list"
  so_chainTip :: hash256
  so_pending :: "hash256 list"
  so_dispatched :: "hash256 set"
  so_stopped :: bool
  so_out :: net

text \<open>What the node uses of other packages.\<close>

record 't solver_env =
  se_bt :: "'t btree"
  se_H :: hasher
  se_G :: store_codecs
  se_C :: msg_codecs
  se_sidecar :: "BatchSidecar codec"
  se_topo :: TopoGetter

definition window_config :: "SolverConfig \<Rightarrow> Config" where
  "window_config cfg =
     \<lparr>cfg_ShardCount = sc_Count cfg, cfg_BatchSize = sc_BatchSize cfg, cfg_MaxWindowDuration = sc_MaxWindowDuration cfg\<rparr>"

definition snapshot :: "Solver \<Rightarrow> SolverState" where
  "snapshot n =
     \<lparr>sv_ManagerState = map_option Snapshot (so_manager n), sv_BootstrapReceipts = so_bootstrap n,
      sv_ChainTip = so_chainTip n, sv_PendingBatchIDs = so_pending n\<rparr>"

definition restore :: "hasher \<Rightarrow> SolverState \<Rightarrow> Solver \<Rightarrow> Solver res" where
  "restore H state n =
     (let n1 = n\<lparr>so_bootstrap := sv_BootstrapReceipts state, so_chainTip := sv_ChainTip state, so_pending := sv_PendingBatchIDs state\<rparr> in
      case sv_ManagerState state of
        None \<Rightarrow> Inr n1
      | Some ms \<Rightarrow> bind_res (Restore H (window_config (so_cfg n1)) (so_clock n1) ms) (\<lambda>manager. Inr (n1\<lparr>so_manager := Some manager\<rparr>)))"

definition new_solver :: "SolverConfig \<Rightarrow> (nat \<Rightarrow> int) \<Rightarrow> BatchStore \<Rightarrow> Solver" where
  "new_solver cfg clock store =
     \<lparr>so_cfg = cfg, so_clock = clock, so_store = store, so_manager = None, so_bootstrap = [], so_chainTip = 0, so_pending = [],
      so_dispatched = {}, so_stopped = False, so_out = []\<rparr>"

definition New_Solver :: "'t solver_env \<Rightarrow> SolverConfig \<Rightarrow> (nat \<Rightarrow> int) \<Rightarrow> BatchStore \<Rightarrow> Solver res" where
  "New_Solver E cfg clock store =
     fail_if (sc_Count cfg \<le> 0 \<or> sc_BatchSize cfg \<le> 0 \<or> sc_MaxWindowDuration cfg \<le> 0 \<or> sc_TickInterval cfg \<le> 0) ErrInvalidConfig (
     bind_res (LoadState (se_G E) store) (\<lambda>(state, found).
     if found then restore (se_H E) state (new_solver cfg clock store) else Inr (new_solver cfg clock store)))"

definition save :: "'t solver_env \<Rightarrow> Solver \<Rightarrow> Solver \<times> unit res" where
  "save E n = (case SaveState (se_G E) (snapshot n) (so_store n) of (s, r) \<Rightarrow> (n\<lparr>so_store := s\<rparr>, r))"

subsection \<open>Building proposals\<close>

definition encodedSize :: "'v codec \<Rightarrow> 'v \<Rightarrow> nat res" where
  "encodedSize c v = bind_res (enc c v) (\<lambda>b. Inr (length b))"

text \<open>One iteration of the loop of \<open>drainFrozen\<close>; the result says whether the loop goes on.\<close>

definition drain_one :: "'t solver_env \<Rightarrow> Solver \<Rightarrow> Solver \<times> bool res" where
  "drain_one E n =
     (case so_manager n of
        None \<Rightarrow> (n, Inr False)
      | Some m \<Rightarrow>
          (case PeekFrozen m of
             None \<Rightarrow> (n, Inr False)
           | Some frozen \<Rightarrow>
               (case BuildMeasured (se_bt E) (se_H E) (sc_MatcherMode (so_cfg n)) frozen (so_chainTip n) of
                  Inl e \<Rightarrow> (n, Inl e)
                | Inr (proposal, metric) \<Rightarrow>
                    (case AcknowledgeFrozen (fw_WindowID frozen) m of
                       Inl e \<Rightarrow> (n, Inl e)
                     | Inr m1 \<Rightarrow>
                         (let n1 = n\<lparr>so_manager := Some m1, so_chainTip := BatchID (Header proposal),
                                     so_pending := so_pending n @ [BatchID (Header proposal)]\<rparr> in
                          case PutProposalAndState (se_G E) proposal (snapshot n1) (so_store n1) of
                            (s, Inl e) \<Rightarrow> (n1\<lparr>so_store := s\<rparr>, Inl e)
                          | (s, Inr _) \<Rightarrow>
                              (n1\<lparr>so_store := s\<rparr>,
                               bind_res (encodedSize (mc_BatchProposal (se_C E)) \<lparr>bpm_NodeID = 0, bpm_Proposal = proposal\<rparr>) (\<lambda>_.
                               bind_res (encodedSize (se_sidecar E) (Sidecar proposal)) (\<lambda>_. Inr True))))))))"

definition frozen_count :: "Solver \<Rightarrow> nat" where
  "frozen_count n = (case so_manager n of None \<Rightarrow> 0 | Some m \<Rightarrow> FrozenWindowCount m)"

lemma drain_one_shrinks: "drain_one E n = (n', Inr True) \<Longrightarrow> frozen_count n' < frozen_count n"
  by (auto simp: drain_one_def frozen_count_def FrozenWindowCount_def PeekFrozen_def AcknowledgeFrozen_def fail_if_def Let_def
      split: option.splits sum.splits prod.splits list.splits if_splits)

function drainFrozen :: "'t solver_env \<Rightarrow> Solver \<Rightarrow> Solver \<times> unit res" where
  "drainFrozen E n =
     (case drain_one E n of
        (n1, Inl e) \<Rightarrow> (n1, Inl e)
      | (n1, Inr again) \<Rightarrow> if again then drainFrozen E n1 else (n1, Inr ()))"
  by pat_completeness auto
termination
  by (relation "measure (\<lambda>(E, n). frozen_count n)") (auto simp: drain_one_shrinks)

declare drainFrozen.simps [simp del]

subsection \<open>Receipts\<close>

text \<open>The receipts collected before the first one of every shard has arrived, sorted in place shard by shard.\<close>

fun collect_bootstrap ::
    "int list \<Rightarrow> (int \<times> FinalizedBlockReceipt list) list
     \<Rightarrow> (int \<times> FinalizedBlockReceipt list) list \<times> ((int \<times> ShardCheckpoint) list \<times> FinalizedBlockReceipt list) res" where
  "collect_bootstrap [] boot = (boot, Inr ([], []))"
| "collect_bootstrap (shard # shards) boot =
     (case sort_key rc_Height (case map_of boot shard of None \<Rightarrow> [] | Some rs \<Rightarrow> rs) of
        [] \<Rightarrow> (boot, Inl GoPanic)
      | first # later \<Rightarrow>
          (let boot1 = alist_set shard (first # later) boot in
           if rc_Height first = 0 then (boot1, Inl (ErrOther ''bootstrap shard at height zero''))
           else case collect_bootstrap shards boot1 of
                  (boot2, Inl e) \<Rightarrow> (boot2, Inl e)
                | (boot2, Inr (checkpoints, all)) \<Rightarrow>
                    (boot2, Inr ((shard, \<lparr>cp_Height = rc_Height first - 1, cp_BlockHash = rc_ParentHash first\<rparr>) # checkpoints,
                                 (first # later) @ all))))"

fun add_receipts :: "hasher \<Rightarrow> FinalizedBlockReceipt list \<Rightarrow> Manager \<Rightarrow> Manager \<times> unit res" where
  "add_receipts H [] m = (m, Inr ())"
| "add_receipts H (r # rs) m =
     (case AddReceipt H r m of
        (m1, w, Some e) \<Rightarrow> (m1, Inl e)
      | (m1, w, None) \<Rightarrow> add_receipts H rs m1)"

definition initializeManager :: "hasher \<Rightarrow> Solver \<Rightarrow> Solver \<times> unit res" where
  "initializeManager H n =
     (case collect_bootstrap (shard_range (window_config (so_cfg n))) (so_bootstrap n) of
        (boot, Inl e) \<Rightarrow> (n\<lparr>so_bootstrap := boot\<rparr>, Inl e)
      | (boot, Inr (checkpoints, all)) \<Rightarrow>
          (case New (window_config (so_cfg n)) (so_clock n) checkpoints of
             Inl e \<Rightarrow> (n\<lparr>so_bootstrap := boot\<rparr>, Inl e)
           | Inr manager \<Rightarrow>
               (case add_receipts H (sort_key (\<lambda>r. (rc_Height r, rc_ShardID r)) all) manager of
                  (m, r) \<Rightarrow> (n\<lparr>so_bootstrap := [], so_manager := Some m\<rparr>, r))))"

definition take_receipt_msg :: "hasher \<Rightarrow> FinalizedBlockReceipt \<Rightarrow> Solver \<Rightarrow> Solver \<times> unit res" where
  "take_receipt_msg H receipt n =
     (case so_manager n of
        None \<Rightarrow>
          (let n1 = n\<lparr>so_bootstrap := alist_set (rc_ShardID receipt)
                 ((case map_of (so_bootstrap n) (rc_ShardID receipt) of None \<Rightarrow> [] | Some rs \<Rightarrow> rs) @ [receipt]) (so_bootstrap n)\<rparr> in
           if int (length (so_bootstrap n1)) = sc_Count (so_cfg n1) then initializeManager H n1 else (n1, Inr ()))
      | Some m \<Rightarrow>
          (case AddReceipt H receipt m of
             (m1, w, Some e) \<Rightarrow> (n\<lparr>so_manager := Some m1\<rparr>, Inl e)
           | (m1, w, None) \<Rightarrow> (n\<lparr>so_manager := Some m1\<rparr>, Inr ())))"

definition HandleReceipt :: "'t solver_env \<Rightarrow> FinalizedBlockReceiptMsg \<Rightarrow> Solver \<Rightarrow> Solver \<times> unit res" where
  "HandleReceipt E msg n =
     (if fr_NodeID msg \<noteq> 0 then (n, Inl (ErrOther ''receipt is not from shard leader''))
      else if rc_ShardID (fr_Receipt msg) < 0 \<or> rc_ShardID (fr_Receipt msg) \<ge> sc_Count (so_cfg n)
      then (n, Inl (ErrOther ''receipt has invalid shard''))
      else bind_st (take_receipt_msg (se_H E) (fr_Receipt msg) n) (\<lambda>_ n1.
           bind_st (drainFrozen E n1) (\<lambda>_ n2. save E n2)))"

subsection \<open>Final batches\<close>

fun send_packages :: "'t solver_env \<Rightarrow> SettlementPackage list \<Rightarrow> Solver \<Rightarrow> Solver \<times> unit res" where
  "send_packages E [] n = (n, Inr ())"
| "send_packages E (pack # packs) n =
     (case bind_res (topo_GetLeader (se_topo E) (ss_ShardID (pk_Settlement pack))) (\<lambda>l.
           bind_res (WrapMsg SettlementPackageMessageType (enc (mc_SettlementPackage (se_C E)) \<lparr>sp_NodeID = 0, sp_Package = pack\<rparr>)) (\<lambda>w.
           Inr (l, w))) of
        Inl e \<Rightarrow> (n, Inl e)
      | Inr (l, w) \<Rightarrow> send_packages E packs (n\<lparr>so_out := so_out n @ [([l], w)]\<rparr>))"

definition sendSettlementPackages :: "'t solver_env \<Rightarrow> BatchProposal \<Rightarrow> Solver \<Rightarrow> Solver \<times> unit res" where
  "sendSettlementPackages E proposal n =
     (case BuildSettlementPackages (se_H E) proposal of
        Inl e \<Rightarrow> (n, Inl e)
      | Inr packages \<Rightarrow> send_packages E packages n)"

definition HandleFinalized :: "'t solver_env \<Rightarrow> MatchRootFinalizedMsg \<Rightarrow> Solver \<Rightarrow> Solver \<times> unit res" where
  "HandleFinalized E msg n =
     (if mf_NodeID msg \<noteq> 0 then (n, Inl (ErrOther ''finalized MatchRoot is not from Beacon leader''))
      else case so_pending n of
             [] \<Rightarrow> (n, Inl (ErrOther ''unexpected finalized batch''))
           | front # later \<Rightarrow>
               if front \<noteq> BatchID (mf_Header msg) then (n, Inl (ErrOther ''unexpected finalized batch''))
               else case store_GetProposal (se_G E) (so_store n) (BatchID (mf_Header msg)) of
                      Inl e \<Rightarrow> (n, Inl e)
                    | Inr proposal \<Rightarrow>
                        if BatchID (Header proposal) \<noteq> BatchID (mf_Header msg) \<or> MatchRoot (Header proposal) \<noteq> MatchRoot (mf_Header msg)
                        then (n, Inl (ErrOther ''finalized header differs from submitted batch''))
                        else bind_st (sendSettlementPackages E proposal n) (\<lambda>_ n1.
                             save E (n1\<lparr>so_pending := later, so_dispatched := so_dispatched n1 - {BatchID (mf_Header msg)}\<rparr>)))"

definition dispatchPending :: "'t solver_env \<Rightarrow> Solver \<Rightarrow> Solver \<times> unit res" where
  "dispatchPending E n =
     (case so_pending n of
        [] \<Rightarrow> (n, Inr ())
      | batchID # _ \<Rightarrow>
          if batchID \<in> so_dispatched n then (n, Inr ())
          else case bind_res (store_GetProposal (se_G E) (so_store n) batchID) (\<lambda>proposal.
                    bind_res (WrapMsg BatchProposalMessageType
                       (enc (mc_BatchProposal (se_C E)) \<lparr>bpm_NodeID = 0, bpm_Proposal = proposal\<rparr>)) (\<lambda>wrapped.
                    bind_res (topo_GetLeader (se_topo E) BeaconShardID) (\<lambda>beaconLeader. Inr (beaconLeader, wrapped)))) of
                 Inl e \<Rightarrow> (n, Inl e)
               | Inr (beaconLeader, wrapped) \<Rightarrow>
                   (n\<lparr>so_out := so_out n @ [([beaconLeader], wrapped)], so_dispatched := insert batchID (so_dispatched n)\<rparr>, Inr ()))"

subsection \<open>Messages and steps\<close>

definition HandleMessage :: "'t solver_env \<Rightarrow> WrappedMsg \<Rightarrow> Solver \<Rightarrow> Solver \<times> unit res" where
  "HandleMessage E wrapped n =
     (if MsgType wrapped = StopConsensusMessageType then (n\<lparr>so_stopped := True\<rparr>, Inr ())
      else if MsgType wrapped = FinalizedBlockReceiptMessageType
      then case dec (mc_FinalizedBlockReceipt (se_C E)) (Payload wrapped) of
             Inl e \<Rightarrow> (n, Inl e)
           | Inr msg \<Rightarrow> HandleReceipt E msg n
      else if MsgType wrapped = MatchRootFinalizedMessageType
      then case dec (mc_MatchRootFinalized (se_C E)) (Payload wrapped) of
             Inl e \<Rightarrow> (n, Inl e)
           | Inr msg \<Rightarrow> HandleFinalized E msg n
      else (n, Inr ()))"

fun handle_buffer :: "'t solver_env \<Rightarrow> WrappedMsg list \<Rightarrow> Solver \<Rightarrow> Solver \<times> unit res" where
  "handle_buffer E [] n = (n, Inr ())"
| "handle_buffer E (w # ws) n = bind_st (HandleMessage E w n) (\<lambda>_ n1. handle_buffer E ws n1)"

definition try_close :: "Solver \<Rightarrow> Solver" where
  "try_close n = (case so_manager n of None \<Rightarrow> n | Some m \<Rightarrow> n\<lparr>so_manager := Some (snd (TryClose m))\<rparr>)"

definition Step :: "'t solver_env \<Rightarrow> WrappedMsg list \<Rightarrow> Solver \<Rightarrow> Solver \<times> unit res" where
  "Step E buffer n =
     bind_st (handle_buffer E buffer n) (\<lambda>_ n1.
     if so_stopped n1 then (n1, Inl (ErrOther ''solver stopped''))
     else bind_st (drainFrozen E (try_close n1)) (\<lambda>_ n2. dispatchPending E n2))"

definition PendingBatchIDs :: "Solver \<Rightarrow> hash256 list" where
  "PendingBatchIDs n = so_pending n"

text \<open>
  A message that is refused ends the step: the messages behind it in the drained buffer are not handled, and nobody sends them
  again. A receipt that claims to come from another node than a leader is such a message.
\<close>

lemma refused_message_drops_rest:
  assumes "dec (mc_FinalizedBlockReceipt (se_C E)) (WrappedMsg.Payload w) = Inr msg" "MsgType w = FinalizedBlockReceiptMessageType" "fr_NodeID msg \<noteq> 0"
  shows "Step E (w # ws) n = (n, Inl (ErrOther ''receipt is not from shard leader''))"
  using assms by (simp add: Step_def HandleMessage_def HandleReceipt_def message_type_defs)

end
