(* ===== verification/Window_Restore.thy ===== *)
theory Window_Restore
  imports Window_History
begin

text \<open>
  Saving and restoring a window manager, \<open>Snapshot\<close> and \<open>Restore\<close> of \<open>pkg/netting/window/state.go\<close>:
  \<open>Restore\<close> checks a saved state again, and accepts every state that a manager can reach.
\<close>

section \<open>Taken blocks hold well-formed intents\<close>

definition ids_ok :: "hasher \<Rightarrow> Manager \<Rightarrow> bool" where
  "ids_ok H m \<longleftrightarrow> (\<forall>s. \<forall>hr \<in> set (UnassignedBlocks (stream_of m s)). \<forall>p \<in> set (rc_Intents (snd hr)). ID H p = Inr (pid H p))"

lemma ids_ok_mono:
  assumes "ids_ok H m" "\<And>s. set (UnassignedBlocks (stream_of m' s)) \<subseteq> set (UnassignedBlocks (stream_of m s))"
  shows "ids_ok H m'"
  using assms unfolding ids_ok_def by blast

lemma ids_ok_TryClose:
  assumes "ids_ok H m" "TryClose m = (wo, m')"
  shows "ids_ok H m'"
  using assms(2)
proof (cases rule: TryClose_cases)
  case (sealed w reason)
  let ?m = "m\<lparr>wm_ticks := Suc (Suc (wm_ticks m))\<rparr>"
  obtain m1 cuts rs where f: "foldl seal_shard (?m, [], []) (shard_range (wm_cfg m)) = (m1, cuts, rs)"
    by (metis prod_cases3)
  have "stream_of m' = stream_of m1" using sealed(4) f by (auto simp: seal_def Now_def Let_def)
  moreover have "stream_of m1 s = (if s \<in> set (shard_range (wm_cfg m)) then sealed_stream ?m s else stream_of ?m s)" for s
    using seal_shards [OF distinct_shard_range f] by blast
  ultimately show ?thesis using assms(1) by (intro ids_ok_mono [OF assms(1)]) (auto simp: sealed_stream_def)
qed (use assms(1) in \<open>auto simp: ids_ok_def\<close>)

lemma set_alist_set: "set (alist_set k v xs) \<subseteq> insert (k, v) (set xs)"
  by (induction xs) auto

lemma ids_ok_set_stream:
  "ids_ok H m \<Longrightarrow> UnassignedBlocks st = UnassignedBlocks (stream_of m s) \<Longrightarrow> ids_ok H (set_stream s st m)"
  by (auto simp: ids_ok_def)

lemma ids_ok_take_receipt:
  assumes "ids_ok H m" "validateReceiptIntents H m r = Inr ids"
  shows "ids_ok H (take_receipt s r ids m)"
  unfolding ids_ok_def
proof (intro allI ballI)
  fix t hr p
  assume h: "hr \<in> set (UnassignedBlocks (stream_of (take_receipt s r ids m) t))" "p \<in> set (rc_Intents (snd hr))"
  have "hr = (rc_Height r, r) \<or> hr \<in> set (UnassignedBlocks (stream_of m t))"
    using h(1) set_alist_set [of "rc_Height r" r] by (auto simp: stream_take_receipt(1) split: if_splits)
  then show "ID H p = Inr (pid H p)"
    using h(2) assms(1) validate_intents_Inr(2) [OF assms(2) [unfolded validateReceiptIntents_def]] by (auto simp: ids_ok_def)
qed

lemma ids_ok_advance: "ids_ok H m \<Longrightarrow> advance fuel H s fs m = (m', fw, e) \<Longrightarrow> ids_ok H m'"
proof (induction fuel H s fs m rule: advance.induct)
  case (2 fuel H s fs m)
  show ?case
  proof (cases "map_of (BufferedBlocks (stream_of m s)) (NextExpectedHeight (stream_of m s))")
    case (Some r)
    then show ?thesis
      using 2 ids_ok_take_receipt [OF 2(2)] ids_ok_TryClose ids_ok_set_stream [OF 2(2)]
      by (fastforce simp: dropBuffered_def Let_def split: if_splits sum.splits prod.splits)
  qed (use 2 in \<open>simp add: Let_def\<close>)
qed simp

lemma ids_ok_AddReceipt:
  assumes i: "ids_ok H m" and a: "AddReceipt H r m = (m', fw, e)"
  shows "ids_ok H m'"
proof (cases "map_of (wm_streams m) (rc_ShardID r)")
  case (Some st)
  let ?m = "set_stream (rc_ShardID r) (st\<lparr>BufferedBlocks := alist_set (rc_Height r) r (BufferedBlocks st),
     SeenHashes := (SeenHashes st)(rc_Height r \<mapsto> rc_BlockHash r)\<rparr>) m"
  have "ids_ok H ?m" using Some by (intro ids_ok_set_stream [OF i]) (simp add: stream_of_def)
  then have s: "ids_ok H m1" if "advanceStream H (rc_ShardID r) ?m = (m1, f1, e1)" for m1 f1 e1
    using that [unfolded advanceStream_def] by (rule ids_ok_advance)
  show ?thesis
    using a i Some ids_ok_TryClose [OF i] s ids_ok_TryClose [OF s]
    by (auto simp: AddReceipt_def split: if_splits option.splits prod.splits)
qed (use i a in \<open>simp add: AddReceipt_def\<close>)

lemma ids_ok_empty: "(\<And>s. UnassignedBlocks (stream_of m s) = []) \<Longrightarrow> ids_ok H m"
  by (simp add: ids_ok_def)

lemma ids_ok_New:
  assumes "New cfg clk cps = Inr m"
  shows "ids_ok H m"
proof (rule ids_ok_empty)
  fix s
  obtain m0 where "fold_res (New_shard cps) m0 (shard_range cfg) = Inr m" "wm_streams m0 = []" "wm_lastAssigned m0 = []"
    using assms by (auto simp: New_def bind_res_eq_Inr fail_if_eq_Inr)
  then have "m = m0\<lparr>wm_streams := map (\<lambda>s. (s, initial_stream (the (map_of cps s)))) (shard_range cfg),
      wm_lastAssigned := map (\<lambda>s. (s, base_heights cps s)) (shard_range cfg)\<rparr>"
    using New_shards [of cps m0 "shard_range cfg" m] by simp
  then have "wm_streams m = map (\<lambda>s. (s, initial_stream (the (map_of cps s)))) (shard_range cfg)"
    by simp
  then show "UnassignedBlocks (stream_of m s) = []"
    by (auto simp: stream_of_def nil_stream_def initial_stream_def map_of_map_restrict restrict_map_def)
qed

lemma ids_ok_ack: "ids_ok H m \<Longrightarrow> AcknowledgeFrozen i m = Inr m' \<Longrightarrow> ids_ok H m'"
  by (auto simp: AcknowledgeFrozen_def fail_if_eq_Inr ids_ok_def split: list.splits)

lemma wreach_ids_ok: "wreach H cfg clk cps acked m \<Longrightarrow> ids_ok H m"
  by (induction rule: wreach.induct) (auto intro: ids_ok_New ids_ok_AddReceipt ids_ok_TryClose ids_ok_ack)

section \<open>The checks on a saved state\<close>

lemma collectReceiptIntentIDs_ok:
  "\<forall>p \<in> set ps. ID H p = Inr (pid H p) \<Longrightarrow> distinct (map (pid H) ps @ ids)
   \<Longrightarrow> collectReceiptIntentIDs H ids ps = Inr (rev (map (pid H) ps) @ ids)"
  by (induction ps arbitrary: ids) (auto simp: wrap_err_def fail_if_def)

lemma height_range_step:
  assumes "a < b"
  shows "height_range a b = (a + 1) # height_range (a + 1) b" "unat (a + 1) = Suc (unat a)"
proof -
  show u: "unat (a + 1) = Suc (unat a)" 
  proof -
    have "unat a < unat b" "unat b < 2 ^ 64" using assms unsigned_less [of b] by (simp_all add: word_less_nat_alt)
    then show ?thesis by (simp add: unat_word_ariths)
  qed
  have "Suc (unat a) < Suc (unat b)" using assms by (simp add: word_less_nat_alt)
  then have "[Suc (unat a)..<Suc (unat b)] = Suc (unat a) # [Suc (Suc (unat a))..<Suc (unat b)]" by (rule upt_conv_Cons)
  then show "height_range a b = (a + 1) # height_range (a + 1) b"
    using u unfolding height_range_def by (simp add: add.commute)
qed

text \<open>The receipt taken at a height, and the identifiers of the receipts taken after a height, in order.\<close>

definition receipt_at :: "StreamState \<Rightarrow> uint64 \<Rightarrow> FinalizedBlockReceipt" where
  "receipt_at st h = the (map_of (UnassignedBlocks st) h)"

definition ids_after :: "hasher \<Rightarrow> StreamState \<Rightarrow> uint64 \<Rightarrow> hash256 list" where
  "ids_after H st a = concat (map (\<lambda>h. receipt_ids H (receipt_at st h)) (height_range a (ContinuousHeight st)))"

lemma receipt_at:
  assumes "sinv s l st" "l < h" "h \<le> ContinuousHeight st"
  shows "map_of (UnassignedBlocks st) h = Some (receipt_at st h)" "(h, receipt_at st h) \<in> set (UnassignedBlocks st)"
    "rc_ShardID (receipt_at st h) = s" "rc_Height (receipt_at st h) = h" "SeenHashes st h = Some (rc_BlockHash (receipt_at st h))"
    "SeenHashes st (h - 1) = Some (rc_ParentHash (receipt_at st h))"
proof -
  have "h \<in> fst ` set (UnassignedBlocks st)" "distinct (map fst (UnassignedBlocks st))" using assms unfolding sinv_def by blast+
  then obtain r where "map_of (UnassignedBlocks st) h = Some r" by fastforce
  then show m: "map_of (UnassignedBlocks st) h = Some (receipt_at st h)" by (simp add: receipt_at_def)
  then show i: "(h, receipt_at st h) \<in> set (UnassignedBlocks st)" by (rule map_of_SomeD)
  show "rc_ShardID (receipt_at st h) = s" "rc_Height (receipt_at st h) = h" "SeenHashes st h = Some (rc_BlockHash (receipt_at st h))"
    "SeenHashes st (h - 1) = Some (rc_ParentHash (receipt_at st h))"
    using assms(1) i unfolding sinv_def by (blast dest: bspec)+
qed

lemma mset_ids_after:
  assumes "sinv s l st"
  shows "mset (ids_after H st l) = mset (ids_of H st)"
proof -
  have d: "distinct (map fst (UnassignedBlocks st))" "set (map fst (UnassignedBlocks st)) = set (height_range l (ContinuousHeight st))"
    using assms by (auto simp: sinv_def set_height_range)
  then have "mset (map fst (UnassignedBlocks st)) = mset (height_range l (ContinuousHeight st))"
    using set_eq_iff_mset_eq_distinct distinct_height_range by blast
  moreover have "map (\<lambda>hr. receipt_ids H (snd hr)) (UnassignedBlocks st) = map (\<lambda>h. receipt_ids H (receipt_at st h)) (map fst (UnassignedBlocks st))"
    using d(1) by (auto simp: receipt_at_def)
  ultimately show ?thesis unfolding ids_after_def ids_of_def by (simp only: mset_concat_image)
qed

lemma validate_unassigned_ok:
  assumes I: "sinv s l st" and ok: "\<forall>hr \<in> set (UnassignedBlocks st). \<forall>p \<in> set (rc_Intents (snd hr)). ID H p = Inr (pid H p)"
  shows "l \<le> a \<Longrightarrow> a \<le> ContinuousHeight st \<Longrightarrow> SeenHashes st a = Some parent \<Longrightarrow> distinct (ids_after H st a @ ids) \<Longrightarrow>
    \<exists>x. fold_res (validate_unassigned H s st) (parent, ids) (height_range a (ContinuousHeight st)) = Inr (x, rev (ids_after H st a) @ ids)"
proof (induction "unat (ContinuousHeight st) - unat a" arbitrary: a parent ids)
  case 0
  then have "a = ContinuousHeight st" by (metis diff_is_0_eq word_le_nat_alt order_antisym)
  then show ?case by (simp add: ids_after_def)
next
  case (Suc n)
  then have lt: "a < ContinuousHeight st" by (simp add: word_less_nat_alt)
  note hr = height_range_step [OF lt]
  have h: "l < a + 1" "a + 1 \<le> ContinuousHeight st" "n = unat (ContinuousHeight st) - unat (a + 1)"
    using hr(2) Suc.hyps(2) Suc.prems(1) lt by (auto simp: word_less_nat_alt word_le_nat_alt)
  note r = receipt_at [OF I h(1,2)]
  define b where "b = receipt_at st (a + 1)"
  note r' = r [folded b_def]
  have i: "ids_after H st a = receipt_ids H b @ ids_after H st (a + 1)" by (simp add: ids_after_def hr(1) b_def)
  have c: "collectReceiptIntentIDs H ids (rc_Intents b) = Inr (rev (receipt_ids H b) @ ids)"
    using ok r'(2) Suc.prems(4) unfolding receipt_ids_def i by (intro collectReceiptIntentIDs_ok) (auto simp: receipt_ids_def)
  have "validate_unassigned H s st (parent, ids) (a + 1) = Inr (rc_BlockHash b, rev (receipt_ids H b) @ ids)"
    using r' Suc.prems(3) by (simp add: validate_unassigned_def c fail_if_def)
  moreover have "\<exists>x. fold_res (validate_unassigned H s st) (rc_BlockHash b, rev (receipt_ids H b) @ ids) (height_range (a + 1) (ContinuousHeight st))
      = Inr (x, rev (ids_after H st (a + 1)) @ rev (receipt_ids H b) @ ids)"
    using h r'(5) Suc.prems(4) by (intro Suc.hyps(1)) (auto simp: i)
  ultimately show ?case by (simp add: hr(1) i)
qed

definition quiet_stream :: "StreamState \<Rightarrow> bool" where
  "quiet_stream st \<longleftrightarrow> ContinuousHeight st \<noteq> - 1 \<and> NextExpectedHeight st \<notin> fst ` set (BufferedBlocks st)"

lemma validateStreamState_ok:
  assumes I: "sinv s l st" and ok: "\<forall>hr \<in> set (UnassignedBlocks st). \<forall>p \<in> set (rc_Intents (snd hr)). ID H p = Inr (pid H p)"
    and q: "quiet_stream st" and d: "distinct (ids_of H st @ ids)"
  shows "validateStreamState H s l st ids = Inr (rev (ids_after H st l) @ ids)"
proof -
  obtain parent where p: "SeenHashes st l = Some parent" using I by (auto simp: sinv_def)
  have "l \<le> ContinuousHeight st" using I by (simp add: sinv_def)
  moreover have "distinct (ids_after H st l @ ids)" using d mset_ids_after [OF I] by (metis mset_append mset_eq_imp_distinct_iff)
  ultimately obtain x where x: "fold_res (validate_unassigned H s st) (parent, ids) (height_range l (ContinuousHeight st)) = Inr (x, rev (ids_after H st l) @ ids)"
    using validate_unassigned_ok [OF I ok order_refl _ p] by blast
  have u: "\<not> (\<exists>(height, receipt) \<in> set (UnassignedBlocks st). height \<le> l \<or> height > ContinuousHeight st \<or> rc_ShardID receipt \<noteq> s \<or> rc_Height receipt \<noteq> height)"
  proof clarify
    fix h r
    assume hr: "(h, r) \<in> set (UnassignedBlocks st)" and f: "h \<le> l \<or> h > ContinuousHeight st \<or> rc_ShardID r \<noteq> s \<or> rc_Height r \<noteq> h"
    have "h \<in> {h. l < h \<and> h \<le> ContinuousHeight st}" "rc_ShardID r = s \<and> rc_Height r = h"
      using I hr unfolding sinv_def by (metis (no_types, lifting) fst_conv image_eqI, blast)
    then show False using f by auto
  qed
  have b: "\<not> (\<exists>(height, receipt) \<in> set (BufferedBlocks st). height \<le> NextExpectedHeight st \<or> rc_ShardID receipt \<noteq> s
      \<or> rc_Height receipt \<noteq> height \<or> SeenHashes st height \<noteq> Some (rc_BlockHash receipt))"
  proof clarify
    fix h r
    assume hr: "(h, r) \<in> set (BufferedBlocks st)" and f: "h \<le> NextExpectedHeight st \<or> rc_ShardID r \<noteq> s \<or> rc_Height r \<noteq> h
      \<or> SeenHashes st h \<noteq> Some (rc_BlockHash r)"
    have "NextExpectedHeight st \<le> h \<and> rc_ShardID r = s \<and> rc_Height r = h \<and> SeenHashes st h = Some (rc_BlockHash r)"
      using I hr unfolding sinv_def by blast
    moreover have "NextExpectedHeight st \<noteq> h" using q hr unfolding quiet_stream_def by (metis fst_conv image_eqI)
    ultimately show False using f by auto
  qed
  show ?thesis
    using I q p u b unfolding validateStreamState_def by (simp add: x fail_if_def sinv_def quiet_stream_def leD)
qed

lemma stream_lookup:
  assumes "wcore H m" "s \<in> {0..<cfg_ShardCount (wm_cfg m)}"
  shows "map_of (wm_streams m) s = Some (stream_of m s)" "map_of (wm_lastAssigned m) s = Some (last_of m s)"
  using assms keys_ok_lookup [of "wm_cfg m" "wm_streams m" s] keys_ok_lookup [of "wm_cfg m" "wm_lastAssigned m" s]
  by (auto simp: stream_of_def last_of_def wcore_def)

lemma validate_shards_ok:
  assumes I: "wcore H m" "ids_ok H m" and q: "\<forall>s \<in> set ss. s \<in> {0..<cfg_ShardCount (wm_cfg m)} \<and> quiet_stream (stream_of m s)"
    and d: "distinct (concat (map (\<lambda>s. ids_of H (stream_of m s)) ss) @ ids)"
  shows "\<exists>ids'. fold_res (validate_shard_state H (Snapshot m)) ids ss = Inr ids'
     \<and> mset ids' = mset (concat (map (\<lambda>s. ids_of H (stream_of m s)) ss) @ ids)"
  using q d
proof (induction ss arbitrary: ids)
  case (Cons s ss)
  let ?st = "stream_of m s" and ?jds = "rev (ids_after H (stream_of m s) (last_of m s)) @ ids"
  have si: "sinv s (last_of m s) ?st" using I(1) Cons.prems(1) by (simp add: wcore_def)
  have "validateStreamState H s (last_of m s) ?st ids = Inr ?jds"
    using Cons.prems I(2) by (intro validateStreamState_ok [OF si]) (auto simp: ids_ok_def)
  then have v: "validate_shard_state H (Snapshot m) ids s = Inr ?jds"
    using stream_lookup [OF I(1), of s] Cons.prems(1) by (simp add: validate_shard_state_def Snapshot_def)
  have e: "mset (concat (map (\<lambda>s. ids_of H (stream_of m s)) (s # ss)) @ ids) = mset (concat (map (\<lambda>s. ids_of H (stream_of m s)) ss) @ ?jds)"
    by (simp add: mset_ids_after [OF si])
  then have "distinct (concat (map (\<lambda>s. ids_of H (stream_of m s)) ss) @ ?jds)"
    using Cons.prems(2) mset_eq_imp_distinct_iff by blast
  then show ?case using Cons.IH [of ?jds] Cons.prems(1) v e by auto
qed simp

text \<open>The numbers of the windows sealed so far.\<close>

lemma window_numbers:
  assumes "map fw_WindowID ws = map word_of_nat [1..<Suc (length ws)]" "Suc (length ws) < 2 ^ 64" "k < length ws"
  shows "unat (fw_WindowID (ws ! k)) = Suc k"
proof -
  have "map fw_WindowID ws ! k = word_of_nat (Suc k)" using assms by (simp del: upt_Suc of_nat_Suc)
  then show ?thesis using assms(2,3) by (simp add: unat_of_nat take_bit_nat_eq_self del: of_nat_Suc)
qed

lemma validate_frozen_ok:
  assumes "\<And>k. k < length ws \<Longrightarrow> unat (fw_WindowID (ws ! k)) = Suc (k + a)" "Suc (length ws + a) \<le> unat next" "case prev of None \<Rightarrow> True | Some p \<Rightarrow> unat p \<le> a"
    and "\<forall>w \<in> set ws. int (length (fw_Cuts w)) = cfg_ShardCount cfg \<and> fw_OpenedAt w \<le> fw_SealedAt w"
  shows "validate_frozen cfg next prev ws = Inr ()"
  using assms
proof (induction ws arbitrary: a prev)
  case (Cons w ws)
  have w: "unat (fw_WindowID w) = Suc a" using Cons.prems(1) [of 0] by simp
  have "validate_frozen cfg next (Some (fw_WindowID w)) ws = Inr ()"
  proof (rule Cons.IH [of "Suc a"])
    show "unat (fw_WindowID (ws ! k)) = Suc (k + Suc a)" if "k < length ws" for k using Cons.prems(1) [of "Suc k"] that by simp
  qed (use Cons.prems w in auto)
  moreover have "fw_WindowID w \<noteq> 0" "fw_WindowID w < next" "case prev of None \<Rightarrow> True | Some p \<Rightarrow> p < fw_WindowID w"
    using w Cons.prems(2,3) by (auto simp: word_less_nat_alt split: option.splits)
  ultimately show ?case using Cons.prems(4) by (auto simp: fail_if_def split: option.splits)
qed simp

section \<open>Restoring\<close>

lemma validateState_Snapshot:
  assumes I: "winv H m" "hinv H base acked m" "settled m" "ids_ok H m"
    and t: "\<forall>w \<in> set (wm_frozen m). fw_OpenedAt w \<le> fw_SealedAt w"
    and n: "Suc (length (acked @ wm_frozen m)) < 2 ^ 64"
    and h: "\<forall>s \<in> {0..<cfg_ShardCount (wm_cfg m)}. ContinuousHeight (stream_of m s) \<noteq> - 1"
  shows "validateState H (wm_cfg m) (Snapshot m) = Inr ()"
proof -
  let ?ws = "acked @ wm_frozen m"
  have c: "wcore H m" "wm_openedAt m = None \<longleftrightarrow> wm_pending m = []" using I(1) by (simp_all add: winv_def)
  have w: "map fw_WindowID ?ws = map word_of_nat [1..<Suc (length ?ws)]" "wm_nextWindowID m = word_of_nat (Suc (length ?ws))"
    "\<forall>w \<in> set ?ws. window_ok H (wm_cfg m) w"
    "mset (wm_assigned m) = mset (concat (map (\<lambda>w. map (\<lambda>i. (i, fw_WindowID w)) (window_ids H w)) ?ws))"
    using I(2) unfolding hinv_def Let_def by blast+
  have pos: "0 < cfg_ShardCount (wm_cfg m)" using c(1) validateConfig_pos by (simp add: wcore_def)
  have nx: "unat (wm_nextWindowID m) = Suc (length ?ws)" using n by (simp only: w(2)) (simp add: unat_of_nat take_bit_nat_eq_self del: of_nat_Suc)
  then have "wm_nextWindowID m \<noteq> 0" by auto
  moreover have "int (length (wm_streams m)) = cfg_ShardCount (wm_cfg m)" "int (length (wm_lastAssigned m)) = cfg_ShardCount (wm_cfg m)"
    using c(1) pos by (auto intro!: keys_ok_length simp: wcore_def)
  moreover obtain ids where ids: "fold_res (validate_shard_state H (Snapshot m)) [] (shard_range (wm_cfg m)) = Inr ids" "mset ids = mset (map fst (wm_pending m))"
  proof -
    have "distinct (all_ids H m)" "mset (all_ids H m) = mset (map fst (wm_pending m))"
      using c(1) mset_eq_imp_distinct_iff unfolding wcore_def by blast+
    moreover have "\<forall>s \<in> set (shard_range (wm_cfg m)). s \<in> {0..<cfg_ShardCount (wm_cfg m)} \<and> quiet_stream (stream_of m s)"
      using I(3) h by (simp add: set_shard_range quiet_stream_def settled_def)
    ultimately show ?thesis using validate_shards_ok [OF c(1) I(4), of "shard_range (wm_cfg m)" "[]"] that by (auto simp: all_ids_def)
  qed
  moreover have "validatePendingState H (Snapshot m) ids = Inr ()"
  proof -
    have "length ids = length (wm_pending m)" "set ids = fst ` set (wm_pending m)"
      using ids(2) by (metis length_map size_mset, metis list.set_map set_mset_mset)
    moreover have "ID H p = Inr i" "map_of (wm_assigned m) i = None" if "(i, p) \<in> set (wm_pending m)" for i p
      using c(1) that unfolding wcore_def by (blast, force simp: map_of_eq_None_iff)
    ultimately show ?thesis by (force simp: validatePendingState_def Snapshot_def fail_if_eq_Inr)
  qed
  moreover have "validateAssignedState (Snapshot m) = Inr ()"
  proof -
    have "i \<noteq> 0 \<and> i < wm_nextWindowID m" if "(x, i) \<in> set (wm_assigned m)" for x i
    proof -
      have "(x, i) \<in> set (concat (map (\<lambda>w. map (\<lambda>i. (i, fw_WindowID w)) (window_ids H w)) ?ws))"
        using mset_eq_setD [OF w(4)] that by blast
      then obtain w where "w \<in> set ?ws" "i = fw_WindowID w" by auto
      then obtain k where "k < length ?ws" "i = fw_WindowID (?ws ! k)" unfolding in_set_conv_nth by blast
      then show ?thesis using window_numbers [OF w(1) n] nx by (auto simp: word_less_nat_alt) (metis nat.distinct(1) unat_0)
    qed
    then show ?thesis by (force simp: validateAssignedState_def Snapshot_def fail_if_eq_Inr)
  qed
  moreover have "validateFrozenQueue (wm_cfg m) (Snapshot m) = Inr ()"
    unfolding validateFrozenQueue_def
  proof (rule validate_frozen_ok [where a = "length acked"])
    show "unat (fw_WindowID (st_Frozen (Snapshot m) ! k)) = Suc (k + length acked)" if "k < length (st_Frozen (Snapshot m))" for k
      using window_numbers [OF w(1) n, of "length acked + k"] that by (simp add: Snapshot_def add.commute nth_append)
    show "\<forall>w \<in> set (st_Frozen (Snapshot m)). int (length (fw_Cuts w)) = cfg_ShardCount (wm_cfg m) \<and> fw_OpenedAt w \<le> fw_SealedAt w"
    proof
      fix x assume "x \<in> set (st_Frozen (Snapshot m))"
      then have x: "x \<in> set (wm_frozen m)" by (simp add: Snapshot_def)
      then have "map cut_ShardID (fw_Cuts x) = shard_range (wm_cfg m)" using w(3) by (auto simp: window_ok_def)
      then have "length (fw_Cuts x) = length (shard_range (wm_cfg m))" by (metis length_map)
      then show "int (length (fw_Cuts x)) = cfg_ShardCount (wm_cfg m) \<and> fw_OpenedAt x \<le> fw_SealedAt x"
        using x t pos by (simp add: length_shard_range)
    qed
  qed (use nx in \<open>simp_all add: Snapshot_def\<close>)
  ultimately show ?thesis
    using c(2) by (auto simp: validateState_def Snapshot_def fail_if_def)
qed

lemma Restore_ok:
  assumes "winv H m" "hinv H base acked m" "settled m" "ids_ok H m" "\<forall>w \<in> set (wm_frozen m). fw_OpenedAt w \<le> fw_SealedAt w"
    "Suc (length (acked @ wm_frozen m)) < 2 ^ 64" "\<forall>s \<in> {0..<cfg_ShardCount (wm_cfg m)}. ContinuousHeight (stream_of m s) \<noteq> - 1"
  shows "Restore H (wm_cfg m) clk (Snapshot m) = Inr (m\<lparr>wm_clock := clk, wm_ticks := 0\<rparr>)"
  using validateState_Snapshot [OF assms] assms(1) by (simp add: Restore_def Snapshot_def winv_def wcore_def)

text \<open>
  C18. A saved window manager can always be restored: whatever a manager has received, its snapshot passes all
  checks of \<open>Restore\<close>, and the restored manager is the saved one with the new clock. (The clock must not go
  back, and the window numbers and block heights must stay below the last 64-bit value.)
\<close>

theorem Restore_Snapshot:
  assumes "wreach H cfg clk cps acked m" "mono clk" "Suc (length (acked @ wm_frozen m)) < 2 ^ 64"
    and "\<forall>s \<in> {0..<cfg_ShardCount cfg}. ContinuousHeight (stream_of m s) \<noteq> - 1"
  shows "Restore H cfg clk' (Snapshot m) = Inr (m\<lparr>wm_clock := clk', wm_ticks := 0\<rparr>)"
proof -
  have i: "advanced H (base_heights cps) acked m m" "wm_cfg m = cfg" "wm_clock m = clk" using wreach_inv [OF assms(1)] by blast+
  then have "\<forall>w \<in> set (wm_frozen m). fw_OpenedAt w \<le> fw_SealedAt w" using assms(2) by (simp add: advanced_def tinv_def)
  then show ?thesis
    using Restore_ok [of H m "base_heights cps" acked clk'] i assms(3,4) wreach_ids_ok [OF assms(1)] by (simp add: advanced_def)
qed

text \<open>The manager of two shards that has sealed a window with the example payment.\<close>

lemma ex_add_heights:
  "\<exists>m' w. AddReceipt length_hash ex_receipt ex_manager = (m', Some w, None)
     \<and> wm_frozen m' = [w] \<and> ContinuousHeight (stream_of m' 0) = 2 \<and> ContinuousHeight (stream_of m' 1) = 1"
proof -
  have src: "SourceShard example_intent = 0" by (simp add: example_intent_def)
  show ?thesis
    by (simp add: window_eval ex_new(2) ex_checkpoints_def ex_receipt_def example_IDs src upto_01 ex_cfg_def)
qed

theorem Restore_Snapshot_witness:
  "\<exists>m w. wreach length_hash ex_cfg int ex_checkpoints [] m \<and> wm_frozen m = [w]
     \<and> Restore length_hash ex_cfg (\<lambda>k. 50) (Snapshot m) = Inr (m\<lparr>wm_clock := (\<lambda>k. 50), wm_ticks := 0\<rparr>)"
proof -
  obtain m w where m: "AddReceipt length_hash ex_receipt ex_manager = (m, Some w, None)" "wm_frozen m = [w]"
    "ContinuousHeight (stream_of m 0) = 2" "ContinuousHeight (stream_of m 1) = 1" using ex_add_heights by blast
  have r: "wreach length_hash ex_cfg int ex_checkpoints [] m" by (rule wreach.receipt [OF wreach.init [OF ex_new(1)] m(1)])
  have "{0..<cfg_ShardCount ex_cfg} = {0, 1}" by (auto simp: ex_cfg_def)
  then have "\<forall>s \<in> {0..<cfg_ShardCount ex_cfg}. ContinuousHeight (stream_of m s) \<noteq> - 1" using m(3,4) by simp
  moreover have "mono int" by (rule monoI) simp
  ultimately have "Restore length_hash ex_cfg (\<lambda>k. 50) (Snapshot m) = Inr (m\<lparr>wm_clock := (\<lambda>k. 50), wm_ticks := 0\<rparr>)"
    using Restore_Snapshot [OF r, of "\<lambda>k. 50"] m(2) by simp
  then show ?thesis using r m(2) by blast
qed

end
