(* ===== verification/Solver_Correct.thy ===== *)
theory Solver_Correct
  imports Solver Window_Restore "HOL-Library.Sublist"
begin

text \<open>
  The solver keeps one chain of batches, whatever it receives, whether its writes to the store succeed, and however
  often it is stopped and started again on its store. The invariant relates its memory to the list \<open>ps\<close> of all
  proposals built so far and its store to a prefix \<open>pd\<close> of it: a write that fails leaves the memory ahead of the store.
  Both lists are ghosts that the code does not keep.
\<close>

section \<open>The invariant\<close>

definition chain_tip :: "BatchProposal list \<Rightarrow> hash256" where
  "chain_tip ps = (if ps = [] then 0 else BatchID (Header (last ps)))"

definition batch_ids :: "BatchProposal list \<Rightarrow> hash256 list" where
  "batch_ids ps = map (\<lambda>p. BatchID (Header p)) ps"

text \<open>The proposals are built, each on the one before, from the windows taken off the frozen queue.\<close>

definition built :: "'t solver_env \<Rightarrow> Mode \<Rightarrow> FrozenWindow list \<Rightarrow> BatchProposal list \<Rightarrow> bool" where
  "built E mode acked ps \<longleftrightarrow> length ps = length acked
     \<and> (\<forall>k < length ps. Builder_Build (se_bt E) (se_H E) mode (acked ! k) (chain_tip (take k ps)) = Inr (ps ! k))"

definition manager_ok :: "'t solver_env \<Rightarrow> SolverConfig \<Rightarrow> BatchProposal list \<Rightarrow> Manager \<Rightarrow> bool" where
  "manager_ok E cfg ps m \<longleftrightarrow> wm_cfg m = window_config cfg \<and> ids_ok (se_H E) m \<and> winv (se_H E) m \<and> settled m
     \<and> (\<exists>base acked. hinv (se_H E) base acked m \<and> built E (sc_MatcherMode cfg) acked ps)"

definition queue_ok :: "BatchProposal list \<Rightarrow> hash256 \<Rightarrow> hash256 list \<Rightarrow> bool" where
  "queue_ok ps tip pending \<longleftrightarrow> tip = chain_tip ps \<and> (\<exists>k. pending = drop k (batch_ids ps))"

definition state_ok :: "'t solver_env \<Rightarrow> SolverConfig \<Rightarrow> BatchProposal list \<Rightarrow> SolverState \<Rightarrow> bool" where
  "state_ok E cfg ps s \<longleftrightarrow> queue_ok ps (sv_ChainTip s) (sv_PendingBatchIDs s)
     \<and> (case sv_ManagerState s of None \<Rightarrow> ps = [] | Some ms \<Rightarrow> \<exists>m. ms = Snapshot m \<and> manager_ok E cfg ps m)"

text \<open>Every proposal that can be read from the store is one of the chain; when no write fails, every one of the chain can be read.\<close>

definition stored_ok :: "'t solver_env \<Rightarrow> BatchProposal list \<Rightarrow> BatchStore \<Rightarrow> bool" where
  "stored_ok E pd s \<longleftrightarrow> (\<forall>i q. store_GetProposal (se_G E) s i = Inr q \<longrightarrow> q \<in> set pd \<and> BatchID (Header q) = i)"

definition proposals_ok :: "'t solver_env \<Rightarrow> BatchProposal list \<Rightarrow> BatchStore \<Rightarrow> bool" where
  "proposals_ok E ps s \<longleftrightarrow> (\<forall>p \<in> set ps. \<exists>q \<in> set ps. BatchID (Header q) = BatchID (Header p)
     \<and> store_GetProposal (se_G E) s (BatchID (Header p)) = Inr q)"

definition disk_ok :: "'t solver_env \<Rightarrow> SolverConfig \<Rightarrow> BatchProposal list \<Rightarrow> BatchStore \<Rightarrow> bool" where
  "disk_ok E cfg pd s \<longleftrightarrow> stored_ok E pd s
     \<and> (case bs_state s of None \<Rightarrow> pd = [] | Some b \<Rightarrow> b \<noteq> [] \<and> (\<exists>v. dec (sg_state (se_G E)) b = Inr v \<and> state_ok E cfg pd v))"

text \<open>No write to the store fails.\<close>

definition writes_succeed :: "'t solver_env \<Rightarrow> bool" where
  "writes_succeed E \<longleftrightarrow> (\<forall>v. \<exists>b. enc (sg_state (se_G E)) v = Inr b) \<and> (\<forall>p. \<exists>b. enc (sg_proposal (se_G E)) p = Inr b)"

definition nothing_lost :: "'t solver_env \<Rightarrow> BatchProposal list \<Rightarrow> BatchProposal list \<Rightarrow> BatchStore \<Rightarrow> bool" where
  "nothing_lost E pd ps s \<longleftrightarrow> (writes_succeed E \<longrightarrow> pd = ps \<and> proposals_ok E ps s)"

text \<open>Every proposal that was sent to the beacon is one of the chain.\<close>

definition sent_ok :: "'t solver_env \<Rightarrow> BatchProposal list \<Rightarrow> net \<Rightarrow> bool" where
  "sent_ok E ps out \<longleftrightarrow> (\<forall>(dest, w) \<in> set out. MsgType w = BatchProposalMessageType \<longrightarrow>
     (\<exists>p \<in> set ps. enc (mc_BatchProposal (se_C E)) \<lparr>bpm_NodeID = 0, bpm_Proposal = p\<rparr> = Inr (WrappedMsg.Payload w)
        \<and> (\<exists>l. topo_GetLeader (se_topo E) BeaconShardID = Inr l \<and> dest = [l])))"

lemma sent_ok_Un: "sent_ok E ps (a @ b) \<longleftrightarrow> sent_ok E ps a \<and> sent_ok E ps b"
  by (auto simp: sent_ok_def)

definition solver_ok :: "'t solver_env \<Rightarrow> SolverConfig \<Rightarrow> BatchProposal list \<Rightarrow> BatchProposal list \<Rightarrow> Solver \<Rightarrow> bool" where
  "solver_ok E cfg pd ps n \<longleftrightarrow> so_cfg n = cfg \<and> prefix pd ps \<and> queue_ok ps (so_chainTip n) (so_pending n)
     \<and> (case so_manager n of None \<Rightarrow> ps = [] | Some m \<Rightarrow> manager_ok E cfg ps m \<and> tinv m)
     \<and> disk_ok E cfg pd (so_store n) \<and> sent_ok E pd (so_out n) \<and> nothing_lost E pd ps (so_store n)"

lemma solver_ok_updates [simp]:
  "solver_ok E cfg pd ps (n\<lparr>so_bootstrap := b\<rparr>) = solver_ok E cfg pd ps n"
  "solver_ok E cfg pd ps (n\<lparr>so_stopped := st\<rparr>) = solver_ok E cfg pd ps n"
  "solver_ok E cfg pd ps (n\<lparr>so_dispatched := d\<rparr>) = solver_ok E cfg pd ps n"
  by (simp_all add: solver_ok_def)

lemma snapshot_ok: "solver_ok E cfg pd ps n \<Longrightarrow> state_ok E cfg ps (snapshot n)"
  by (auto simp: solver_ok_def state_ok_def snapshot_def split: option.splits)

text \<open>What an operation keeps: the chain in the store can only grow.\<close>

definition extends :: "'t solver_env \<Rightarrow> SolverConfig \<Rightarrow> BatchProposal list \<Rightarrow> Solver \<times> 'r res \<Rightarrow> bool" where
  "extends E cfg pd nr \<longleftrightarrow> (\<exists>pd' ps'. prefix pd pd' \<and> solver_ok E cfg pd' ps' (fst nr))"

lemma extends_here: "solver_ok E cfg pd ps n \<Longrightarrow> extends E cfg pd (n, r)"
  unfolding extends_def by auto

lemma extends_bind:
  assumes m: "extends E cfg pd m" and f: "\<And>x n pd' ps'. solver_ok E cfg pd' ps' n \<Longrightarrow> extends E cfg pd' (f x n)"
  shows "extends E cfg pd (bind_st m f)"
proof -
  obtain n r where n: "m = (n, r)" by fastforce
  obtain pd' ps' where ok: "prefix pd pd'" "solver_ok E cfg pd' ps' n" using m n by (auto simp: extends_def)
  show ?thesis
  proof (cases r)
    case (Inr x)
    from f [OF ok(2), of x] obtain pd2 ps2 where "prefix pd' pd2" "solver_ok E cfg pd2 ps2 (fst (f x n))" by (auto simp: extends_def)
    then show ?thesis using ok(1) n Inr unfolding extends_def by (auto intro: prefix_order.trans)
  qed (use ok n in \<open>auto simp: extends_def\<close>)
qed

section \<open>Managers and proposals\<close>

lemma manager_ok_mono:
  assumes "manager_ok E cfg ps m" "\<And>base acked. hinv (se_H E) base acked m \<Longrightarrow> advanced (se_H E) base acked m m'" "ids_ok (se_H E) m'"
  shows "manager_ok E cfg ps m' \<and> tinv m'"
  using assms unfolding manager_ok_def advanced_def by fastforce

lemma manager_ok_AddReceipt:
  assumes "manager_ok E cfg ps m" "tinv m" "AddReceipt (se_H E) r m = (m', w, e)"
  shows "manager_ok E cfg ps m' \<and> tinv m'"
  using assms AddReceipt_ok [OF _ _ _ assms(2,3)] ids_ok_AddReceipt [OF _ assms(3)]
  by (intro manager_ok_mono [OF assms(1)]) (auto simp: manager_ok_def)

lemma manager_ok_TryClose:
  assumes "manager_ok E cfg ps m" "tinv m" "TryClose m = (w, m')"
  shows "manager_ok E cfg ps m' \<and> tinv m'"
  using assms TryClose_advanced [OF _ _ _ assms(2,3)] ids_ok_TryClose [OF _ assms(3)]
  by (intro manager_ok_mono [OF assms(1)]) (auto simp: manager_ok_def)

lemma manager_ok_New:
  assumes "New (window_config cfg) clk cps = Inr m"
  shows "manager_ok E cfg [] m \<and> tinv m"
proof -
  have "advanced (se_H E) (base_heights cps) [] m m" "wm_cfg m = window_config cfg" using New_ok [OF assms] by blast+
  moreover have "built E (sc_MatcherMode cfg) [] []" by (simp add: built_def)
  ultimately show ?thesis using ids_ok_New [OF assms] unfolding manager_ok_def advanced_def by blast
qed

lemma add_receipts_ok:
  "manager_ok E cfg ps m \<Longrightarrow> tinv m \<Longrightarrow> add_receipts (se_H E) rs m = (m', e) \<Longrightarrow> manager_ok E cfg ps m' \<and> tinv m'"
proof (induction rs arbitrary: m)
  case (Cons r rs)
  obtain m1 w x where a: "AddReceipt (se_H E) r m = (m1, w, x)" by (metis prod_cases3)
  note k = manager_ok_AddReceipt [OF Cons.prems(1,2) a]
  show ?case using Cons.prems(3) Cons.IH [of m1] k by (cases x) (simp_all add: a)
qed simp

lemma built_snoc:
  "built E mode acked ps \<Longrightarrow> Builder_Build (se_bt E) (se_H E) mode w (chain_tip ps) = Inr p \<Longrightarrow> built E mode (acked @ [w]) (ps @ [p])"
  by (auto simp: built_def nth_append less_Suc_eq)

lemma queue_ok_snoc:
  assumes "queue_ok ps tip pending"
  shows "queue_ok (ps @ [p]) (BatchID (Header p)) (pending @ [BatchID (Header p)])"
proof -
  obtain k where "pending = drop k (batch_ids ps)" using assms by (auto simp: queue_ok_def)
  then have "pending = drop (min k (length ps)) (batch_ids ps)" by (cases "k \<le> length ps") (auto simp: batch_ids_def)
  then have "pending @ [BatchID (Header p)] = drop (min k (length ps)) (batch_ids (ps @ [p]))" by (simp add: batch_ids_def)
  then show ?thesis by (auto simp: queue_ok_def chain_tip_def)
qed

lemma queue_ok_tl: "queue_ok ps tip (i # pending) \<Longrightarrow> queue_ok ps tip pending"
  unfolding queue_ok_def by (metis drop_Suc tl_drop list.sel(3))

lemma sent_ok_mono: "sent_ok E pd out \<Longrightarrow> prefix pd pd' \<Longrightarrow> sent_ok E pd' out"
  unfolding sent_ok_def by (fastforce dest: set_mono_prefix)

lemma stored_ok_mono: "stored_ok E pd s \<Longrightarrow> prefix pd pd' \<Longrightarrow> stored_ok E pd' s"
  unfolding stored_ok_def by (fastforce dest: set_mono_prefix)

section \<open>Operations\<close>

locale solver_laws = sc: codec_laws "sg_state (se_G E)" + pc: codec_laws "sg_proposal (se_G E)"
  for E :: "'t solver_env"
begin

lemma extends_save:
  assumes ok: "solver_ok E cfg pd ps n"
  shows "extends E cfg pd (save E n)"
proof (cases "enc (sg_state (se_G E)) (snapshot n)")
  case (Inr b)
  then have "dec (sg_state (se_G E)) b = Inr (snapshot n)" "b \<noteq> []"
    using sc.dec_enc sc.enc_nonempty by blast+
  then have "solver_ok E cfg ps ps (n\<lparr>so_store := so_store n\<lparr>bs_state := Some b\<rparr>\<rparr>)"
    using ok snapshot_ok [OF ok] stored_ok_mono [of E pd "so_store n" ps] sent_ok_mono [of E pd "so_out n" ps]
    by (simp add: solver_ok_def disk_ok_def nothing_lost_def proposals_ok_def stored_ok_def store_GetProposal_def)
  moreover have "prefix pd ps" using ok by (simp add: solver_ok_def)
  ultimately show ?thesis using Inr by (auto simp: save_def SaveState_def extends_def)
qed (use ok in \<open>simp add: save_def SaveState_def extends_here\<close>)

lemma put_ok:
  assumes "enc (sg_proposal (se_G E)) p = Inr b"
  shows "proposals_ok E ps s \<Longrightarrow> proposals_ok E (ps @ [p]) (s\<lparr>bs_proposals := (bs_proposals s)(BatchID (Header p) \<mapsto> b), bs_state := v\<rparr>)"
    and "stored_ok E ps s \<Longrightarrow> stored_ok E (ps @ [p]) (s\<lparr>bs_proposals := (bs_proposals s)(BatchID (Header p) \<mapsto> b), bs_state := v\<rparr>)"
proof -
  have "dec (sg_proposal (se_G E)) b = Inr p" "b \<noteq> []"
    using assms pc.dec_enc pc.enc_nonempty by blast+
  then have g: "store_GetProposal (se_G E) (s\<lparr>bs_proposals := (bs_proposals s)(BatchID (Header p) \<mapsto> b), bs_state := v\<rparr>) i
      = (if i = BatchID (Header p) then Inr p else store_GetProposal (se_G E) s i)" for i
    by (simp add: store_GetProposal_def stored_bytes_def)
  show "proposals_ok E ps s \<Longrightarrow> proposals_ok E (ps @ [p]) (s\<lparr>bs_proposals := (bs_proposals s)(BatchID (Header p) \<mapsto> b), bs_state := v\<rparr>)"
    unfolding proposals_ok_def g by auto
  show "stored_ok E ps s \<Longrightarrow> stored_ok E (ps @ [p]) (s\<lparr>bs_proposals := (bs_proposals s)(BatchID (Header p) \<mapsto> b), bs_state := v\<rparr>)"
    unfolding stored_ok_def g by auto
qed

lemma drain_one_put:
  assumes ok: "solver_ok E cfg pd ps n" and m: "so_manager n = Some m" and w: "PeekFrozen m = Some w"
    and b: "Builder_Build (se_bt E) (se_H E) (sc_MatcherMode (so_cfg n)) w (so_chainTip n) = Inr p"
    and a: "AcknowledgeFrozen (fw_WindowID w) m = Inr m1"
    and n1: "n1 = n\<lparr>so_manager := Some m1, so_chainTip := BatchID (Header p), so_pending := so_pending n @ [BatchID (Header p)]\<rparr>"
    and put: "PutProposalAndState (se_G E) p (snapshot n1) (so_store n1) = (s, r)"
  shows "extends E cfg pd (n1\<lparr>so_store := s\<rparr>, r')"
proof -
  have c: "so_cfg n = cfg" "queue_ok ps (so_chainTip n) (so_pending n)" "manager_ok E cfg ps m" "tinv m" "prefix pd ps"
    "disk_ok E cfg pd (so_store n)" "nothing_lost E pd ps (so_store n)" "sent_ok E pd (so_out n)" using ok m by (simp_all add: solver_ok_def)
  obtain ws where f: "wm_frozen m = w # ws" "m1 = m\<lparr>wm_frozen := ws\<rparr>"
    using w a by (auto simp: PeekFrozen_def AcknowledgeFrozen_def fail_if_eq_Inr split: list.splits)
  obtain base acked where h: "hinv (se_H E) base acked m" "built E (sc_MatcherMode cfg) acked ps" using c(3) by (auto simp: manager_ok_def)
  have "built E (sc_MatcherMode cfg) (acked @ [w]) (ps @ [p])"
    using built_snoc [OF h(2)] b c(1,2) by (simp add: queue_ok_def)
  moreover have "hinv (se_H E) base (acked @ [w]) m1" using h(1) f by (simp add: hinv_def Let_def)
  ultimately have m1: "manager_ok E cfg (ps @ [p]) m1 \<and> tinv m1"
    using c(3,4) ids_ok_ack [OF _ a] f unfolding manager_ok_def by (auto simp: winv_def settled_def tinv_def)
  have q: "queue_ok (ps @ [p]) (BatchID (Header p)) (so_pending n @ [BatchID (Header p)])" by (rule queue_ok_snoc [OF c(2)])
  have pre: "prefix pd (ps @ [p])" using c(5) by (rule prefix_prefix)
  show ?thesis
  proof (cases "\<exists>pb sb. enc (sg_proposal (se_G E)) p = Inr pb \<and> enc (sg_state (se_G E)) (snapshot n1) = Inr sb")
    case True
    then obtain pb sb where e: "enc (sg_proposal (se_G E)) p = Inr pb" "enc (sg_state (se_G E)) (snapshot n1) = Inr sb" by blast
    then have s: "s = so_store n\<lparr>bs_proposals := (bs_proposals (so_store n))(BatchID (Header p) \<mapsto> pb), bs_state := Some sb\<rparr>"
      using put by (simp add: PutProposalAndState_def n1)
    have "state_ok E cfg (ps @ [p]) (snapshot n1)" using m1 q by (auto simp: state_ok_def snapshot_def n1)
    moreover have "dec (sg_state (se_G E)) sb = Inr (snapshot n1)" "sb \<noteq> []"
      using e(2) sc.dec_enc sc.enc_nonempty by blast+
    moreover have "stored_ok E (ps @ [p]) s"
      unfolding s using c(5,6) stored_ok_mono by (intro put_ok(2) [OF e(1)]) (auto simp: disk_ok_def)
    ultimately have "disk_ok E cfg (ps @ [p]) s" by (simp add: disk_ok_def s)
    moreover have "nothing_lost E (ps @ [p]) (ps @ [p]) s" using c(7) put_ok(1) [OF e(1)] by (simp add: nothing_lost_def s)
    ultimately have "solver_ok E cfg (ps @ [p]) (ps @ [p]) (n1\<lparr>so_store := s\<rparr>)"
      using c(1) m1 q sent_ok_mono [OF c(8) pre] by (simp add: solver_ok_def n1)
    then show ?thesis using pre unfolding extends_def fst_conv by blast
  next
    case False
    have "\<not> writes_succeed E" using False unfolding writes_succeed_def by blast
    moreover have "s = so_store n" using put False by (auto simp: PutProposalAndState_def n1 split: sum.splits)
    ultimately have "solver_ok E cfg pd (ps @ [p]) (n1\<lparr>so_store := s\<rparr>)"
      using c m1 q pre by (simp add: solver_ok_def n1 nothing_lost_def)
    then show ?thesis by (rule extends_here)
  qed
qed

lemma extends_drain_one: "solver_ok E cfg pd ps n \<Longrightarrow> extends E cfg pd (drain_one E n)"
proof -
  assume ok: "solver_ok E cfg pd ps n"
  show "extends E cfg pd (drain_one E n)"
  proof (cases "\<exists>m w p me m1. so_manager n = Some m \<and> PeekFrozen m = Some w
      \<and> BuildMeasured (se_bt E) (se_H E) (sc_MatcherMode (so_cfg n)) w (so_chainTip n) = Inr (p, me) \<and> AcknowledgeFrozen (fw_WindowID w) m = Inr m1")
    case True
    then obtain m w p me m1 where c: "so_manager n = Some m" "PeekFrozen m = Some w"
      "BuildMeasured (se_bt E) (se_H E) (sc_MatcherMode (so_cfg n)) w (so_chainTip n) = Inr (p, me)" "AcknowledgeFrozen (fw_WindowID w) m = Inr m1" by blast
    define n1 where "n1 = n\<lparr>so_manager := Some m1, so_chainTip := BatchID (Header p), so_pending := so_pending n @ [BatchID (Header p)]\<rparr>"
    have b: "Builder_Build (se_bt E) (se_H E) (sc_MatcherMode (so_cfg n)) w (so_chainTip n) = Inr p" using c(3) by (simp add: Builder_Build_def)
    have st: "so_store n1 = so_store n" by (simp add: n1_def)
    obtain s r where put: "PutProposalAndState (se_G E) p (snapshot n1) (so_store n1) = (s, r)" by fastforce
    have "fst (drain_one E n) = n1\<lparr>so_store := s\<rparr>"
      using put st c by (cases r) (simp_all add: drain_one_def n1_def [symmetric] Let_def)
    then show ?thesis using drain_one_put [OF ok c(1,2) b c(4) n1_def put] by (simp add: extends_def)
  next
    case False
    then have "fst (drain_one E n) = n" by (auto simp: drain_one_def split: option.splits sum.splits)
    moreover have "extends E cfg pd (n, snd (drain_one E n))" by (rule extends_here [OF ok])
    ultimately show ?thesis by (metis prod.collapse)
  qed
qed

lemma extends_drainFrozen: "solver_ok E cfg pd ps n \<Longrightarrow> extends E cfg pd (drainFrozen E n)"
proof (induction "frozen_count n" arbitrary: n pd ps rule: less_induct)
  case less
  obtain n1 r where d: "drain_one E n = (n1, r)" by fastforce
  obtain pd' ps' where x: "prefix pd pd'" "solver_ok E cfg pd' ps' n1" using extends_drain_one [OF less.prems] d by (auto simp: extends_def)
  show ?case
  proof (cases "r = Inr True")
    case True
    then have "extends E cfg pd' (drainFrozen E n1)" using less.hyps [OF _ x(2)] drain_one_shrinks d by blast
    then show ?thesis using d True x(1) by (subst drainFrozen.simps) (auto simp: extends_def intro: prefix_order.trans)
  next
    case False
    then show ?thesis using d x by (subst drainFrozen.simps) (auto simp: extends_def split: sum.splits)
  qed
qed

lemma extends_initializeManager:
  assumes "solver_ok E cfg pd ps n" "so_manager n = None"
  shows "extends E cfg pd (initializeManager (se_H E) n)"
proof -
  have n: "ps = []" "so_cfg n = cfg" using assms by (simp_all add: solver_ok_def)
  obtain boot r where c: "collect_bootstrap (shard_range (window_config (so_cfg n))) (so_bootstrap n) = (boot, r)" by fastforce
  show ?thesis
  proof (cases "\<exists>cps all m. r = Inr (cps, all) \<and> New (window_config cfg) (so_clock n) cps = Inr m")
    case True
    then obtain cps all m where t: "r = Inr (cps, all)" "New (window_config cfg) (so_clock n) cps = Inr m" by blast
    obtain m' e where a: "add_receipts (se_H E) (sort_key (\<lambda>r. (rc_Height r, rc_ShardID r)) all) m = (m', e)" by fastforce
    have "manager_ok E cfg [] m' \<and> tinv m'" using manager_ok_New [OF t(2)] add_receipts_ok [OF _ _ a] by blast
    then have "solver_ok E cfg pd ps (n\<lparr>so_bootstrap := [], so_manager := Some m'\<rparr>)" using assms(1) n by (auto simp: solver_ok_def)
    then show ?thesis using c t a n by (simp add: initializeManager_def extends_here)
  next
    case False
    then have "fst (initializeManager (se_H E) n) = n\<lparr>so_bootstrap := boot\<rparr>"
      using c n(2) by (auto simp: initializeManager_def split: sum.splits prod.splits)
    moreover have "extends E cfg pd (n\<lparr>so_bootstrap := boot\<rparr>, snd (initializeManager (se_H E) n))" using assms(1) by (simp add: extends_here)
    ultimately show ?thesis by (metis prod.collapse)
  qed
qed

lemma extends_take_receipt_msg:
  assumes "solver_ok E cfg pd ps n"
  shows "extends E cfg pd (take_receipt_msg (se_H E) r n)"
proof (cases "so_manager n")
  case None
  let ?b = "alist_set (rc_ShardID r) ((case map_of (so_bootstrap n) (rc_ShardID r) of None \<Rightarrow> [] | Some rs \<Rightarrow> rs) @ [r]) (so_bootstrap n)"
  have "solver_ok E cfg pd ps (n\<lparr>so_bootstrap := ?b\<rparr>)" using assms by simp
  then show ?thesis
    using None extends_initializeManager [of cfg pd ps "n\<lparr>so_bootstrap := ?b\<rparr>"] by (simp add: take_receipt_msg_def Let_def extends_here)
next
  case (Some m)
  obtain m1 w e where a: "AddReceipt (se_H E) r m = (m1, w, e)" by (metis prod_cases3)
  have "manager_ok E cfg ps m1 \<and> tinv m1" using assms Some by (intro manager_ok_AddReceipt [OF _ _ a]) (simp_all add: solver_ok_def)
  then have "solver_ok E cfg pd ps (n\<lparr>so_manager := Some m1\<rparr>)" using assms Some by (simp add: solver_ok_def)
  then show ?thesis using Some a by (auto simp: take_receipt_msg_def extends_here split: option.splits)
qed

lemma extends_HandleReceipt: "solver_ok E cfg pd ps n \<Longrightarrow> extends E cfg pd (HandleReceipt E msg n)"
  unfolding HandleReceipt_def
  by (auto intro!: extends_here extends_bind extends_take_receipt_msg extends_drainFrozen extends_save)

lemma send_packages_ok: "solver_ok E cfg pd ps n \<Longrightarrow> solver_ok E cfg pd ps (fst (send_packages E packs n))"
proof (induction packs arbitrary: n)
  case (Cons pack packs)
  have "solver_ok E cfg pd ps (n\<lparr>so_out := so_out n @ [([l], w)]\<rparr>)" if "MsgType w = SettlementPackageMessageType" for l w
    using Cons.prems that by (auto simp: solver_ok_def sent_ok_def message_type_defs)
  then show ?case using Cons by (auto simp: WrapMsg_def bind_res_eq_Inr split: sum.splits)
qed simp

lemma send_packages_pending: "so_pending (fst (send_packages E packs n)) = so_pending n"
  by (induction packs arbitrary: n) (auto split: sum.splits)

lemma extends_HandleFinalized:
  assumes "solver_ok E cfg pd ps n"
  shows "extends E cfg pd (HandleFinalized E msg n)"
proof -
  have f: "extends E cfg pd (bind_st (sendSettlementPackages E p n) (\<lambda>_ n1. save E (n1\<lparr>so_pending := later, so_dispatched := so_dispatched n1 - D\<rparr>)))"
    if "so_pending n = front # later" for p front later D
  proof (cases "BuildSettlementPackages (se_H E) p")
    case (Inr packs)
    obtain n1 r where s: "send_packages E packs n = (n1, r)" by fastforce
    have ok: "solver_ok E cfg pd ps n1" "so_pending n1 = front # later"
      using send_packages_ok [OF assms, of packs] send_packages_pending [of packs n] s that by simp_all
    then have "solver_ok E cfg pd ps (n1\<lparr>so_pending := later, so_dispatched := so_dispatched n1 - D\<rparr>)"
      using queue_ok_tl by (fastforce simp: solver_ok_def)
    then show ?thesis using Inr s extends_here [OF ok(1)] extends_save by (cases r) (auto simp: sendSettlementPackages_def)
  qed (simp add: sendSettlementPackages_def extends_here [OF assms])
  show ?thesis unfolding HandleFinalized_def using extends_here [OF assms] f
    by (auto split: list.splits sum.splits)
qed

lemma dispatched_in_chain:
  assumes "solver_ok E cfg pd ps n" "store_GetProposal (se_G E) (so_store n) i = Inr p"
  shows "p \<in> set pd" "p \<in> set ps" "BatchID (Header p) = i"
  using assms by (auto simp: solver_ok_def disk_ok_def stored_ok_def dest: set_mono_prefix)

lemma extends_dispatchPending:
  assumes "solver_ok E cfg pd ps n"
  shows "extends E cfg pd (dispatchPending E n)"
proof (cases "so_pending n")
  case (Cons i later)
  have d: "extends E cfg pd (n\<lparr>so_out := so_out n @ [([l], w)], so_dispatched := D\<rparr>, r)"
    if "store_GetProposal (se_G E) (so_store n) i = Inr p" "topo_GetLeader (se_topo E) BeaconShardID = Inr l"
      "WrapMsg BatchProposalMessageType (enc (mc_BatchProposal (se_C E)) \<lparr>bpm_NodeID = 0, bpm_Proposal = p\<rparr>) = Inr w" for p l w D r
    using assms that dispatched_in_chain [OF assms that(1)] by (intro extends_here [of _ _ _ ps]) (auto simp: solver_ok_def sent_ok_def WrapMsg_def bind_res_eq_Inr)
  show ?thesis using extends_here [OF assms] Cons
    by (auto simp: dispatchPending_def bind_res_eq_Inr intro: d split: sum.splits)
qed (simp add: dispatchPending_def extends_here [OF assms])

lemma extends_HandleMessage: "solver_ok E cfg pd ps n \<Longrightarrow> extends E cfg pd (HandleMessage E w n)"
  by (auto simp: HandleMessage_def extends_here extends_HandleReceipt extends_HandleFinalized split: sum.splits)

lemma extends_handle_buffer: "solver_ok E cfg pd ps n \<Longrightarrow> extends E cfg pd (handle_buffer E ws n)"
  by (induction ws arbitrary: pd ps n) (auto intro!: extends_here extends_bind extends_HandleMessage)

lemma try_close_ok: "solver_ok E cfg pd ps n \<Longrightarrow> solver_ok E cfg pd ps (try_close n)"
proof -
  assume ok: "solver_ok E cfg pd ps n"
  show "solver_ok E cfg pd ps (try_close n)"
  proof (cases "so_manager n")
    case (Some m)
    then have "manager_ok E cfg ps (snd (TryClose m)) \<and> tinv (snd (TryClose m))"
      using ok by (intro manager_ok_TryClose [of E cfg ps m "fst (TryClose m)"]) (simp_all add: solver_ok_def)
    then show ?thesis using ok Some by (simp add: solver_ok_def try_close_def)
  qed (use ok in \<open>simp add: try_close_def\<close>)
qed

lemma extends_Step: "solver_ok E cfg pd ps n \<Longrightarrow> extends E cfg pd (Step E buffer n)"
  unfolding Step_def
  by (rule extends_bind [OF extends_handle_buffer]) (auto intro!: extends_here extends_bind extends_drainFrozen try_close_ok extends_dispatchPending)

end

section \<open>Starting again\<close>

lemma Restore_Inr:
  assumes "Restore H (wm_cfg m) clk (Snapshot m) = Inr m'"
  shows "m' = m\<lparr>wm_clock := clk, wm_ticks := 0\<rparr>" "\<forall>w \<in> set (wm_frozen m). fw_OpenedAt w \<le> fw_SealedAt w"
proof -
  have f: "validate_frozen cfg nx prev ws = Inr () \<Longrightarrow> \<forall>w \<in> set ws. fw_OpenedAt w \<le> fw_SealedAt w" for cfg nx prev ws
    by (induction cfg nx prev ws rule: validate_frozen.induct) (auto simp: fail_if_eq_Inr)
  show "m' = m\<lparr>wm_clock := clk, wm_ticks := 0\<rparr>" using assms by (cases m) (auto simp: Restore_def Snapshot_def bind_res_eq_Inr)
  show "\<forall>w \<in> set (wm_frozen m). fw_OpenedAt w \<le> fw_SealedAt w"
    using assms f by (auto simp: Restore_def Snapshot_def bind_res_eq_Inr validateState_def validateFrozenQueue_def fail_if_eq_Inr)
qed

lemma manager_ok_clock [simp]: "manager_ok E cfg ps (m\<lparr>wm_clock := clk, wm_ticks := t\<rparr>) = manager_ok E cfg ps m"
proof -
  have "stream_of (m\<lparr>wm_clock := clk, wm_ticks := t\<rparr>) = stream_of m" "last_of (m\<lparr>wm_clock := clk, wm_ticks := t\<rparr>) = last_of m"
    by (simp_all add: fun_eq_iff stream_of_def last_of_def)
  then show ?thesis by (simp add: manager_ok_def ids_ok_def winv_def wcore_def all_ids_def settled_def hinv_def Let_def)
qed

text \<open>The clock of the new process is not behind the saved opening time.\<close>

definition clock_resumes :: "Solver \<Rightarrow> bool" where
  "clock_resumes n \<longleftrightarrow> (\<forall>m t. so_manager n = Some m \<longrightarrow> wm_openedAt m = Some t \<longrightarrow> t \<le> wm_clock m 0)"

lemma New_Solver_fields:
  "New_Solver E cfg clk s = Inr n \<Longrightarrow> so_cfg n = cfg \<and> so_store n = s \<and> so_out n = [] \<and> so_dispatched n = {} \<and> \<not> so_stopped n"
  by (auto simp: New_Solver_def fail_if_eq_Inr bind_res_eq_Inr restore_def new_solver_def Let_def split: if_splits option.splits)

lemma restart_ok:
  assumes d: "disk_ok E cfg ps s" and l: "nothing_lost E ps ps s" and n: "New_Solver E cfg clk s = Inr n" and c: "clock_resumes n"
  shows "solver_ok E cfg ps ps n"
proof (cases "bs_state s")
  case None
  then have "n = new_solver cfg clk s" using n by (auto simp: New_Solver_def LoadState_def stored_bytes_def fail_if_eq_Inr bind_res_eq_Inr)
  then show ?thesis using d l None by (auto simp: new_solver_def solver_ok_def disk_ok_def queue_ok_def chain_tip_def batch_ids_def sent_ok_def)
next
  case (Some b)
  then obtain v where v: "dec (sg_state (se_G E)) b = Inr v" "b \<noteq> []" "state_ok E cfg ps v" using d by (auto simp: disk_ok_def)
  then have r: "restore (se_H E) v (new_solver cfg clk s) = Inr n"
    using n Some by (auto simp: New_Solver_def LoadState_def stored_bytes_def fail_if_eq_Inr bind_res_eq_Inr)
  have q: "queue_ok ps (so_chainTip n) (so_pending n)"
    using r v(3) by (auto simp: restore_def new_solver_def state_ok_def Let_def bind_res_eq_Inr split: option.splits)
  have "case so_manager n of None \<Rightarrow> ps = [] | Some m \<Rightarrow> manager_ok E cfg ps m \<and> tinv m"
  proof (cases "sv_ManagerState v")
    case None
    then show ?thesis using r v(3) by (auto simp: restore_def new_solver_def state_ok_def Let_def)
  next
    case (Some ms)
    then obtain m where m: "ms = Snapshot m" "manager_ok E cfg ps m" using v(3) by (auto simp: state_ok_def)
    obtain m' where m': "Restore (se_H E) (wm_cfg m) clk (Snapshot m) = Inr m'" "so_manager n = Some m'"
      using r Some m by (auto simp: restore_def new_solver_def Let_def bind_res_eq_Inr manager_ok_def)
    note e = Restore_Inr [OF m'(1)]
    have "tinv m'" using c m'(2) e by (auto simp: tinv_def clock_resumes_def)
    then show ?thesis using m'(2) m(2) e(1) by simp
  qed
  then show ?thesis using d l q New_Solver_fields [OF n] by (simp add: solver_ok_def sent_ok_def)
qed

section \<open>Runs\<close>

text \<open>
  The runs of a solver, with the messages of earlier incarnations kept. A process may stop between
  any two writes to the store, so that the calls that lie between two writes are steps of their own.
\<close>

inductive solver_reach :: "'t solver_env \<Rightarrow> SolverConfig \<Rightarrow> net \<Rightarrow> Solver \<Rightarrow> bool" for E cfg where
  start: "New_Solver E cfg clk Open_batchstore = Inr n \<Longrightarrow> solver_reach E cfg [] n"
| step: "solver_reach E cfg out n \<Longrightarrow> Step E buffer n = (n', r) \<Longrightarrow> solver_reach E cfg out n'"
| receipt: "solver_reach E cfg out n \<Longrightarrow> HandleReceipt E rmsg n = (n', r) \<Longrightarrow> solver_reach E cfg out n'"
| finalized: "solver_reach E cfg out n \<Longrightarrow> HandleFinalized E fmsg n = (n', r) \<Longrightarrow> solver_reach E cfg out n'"
| receive: "solver_reach E cfg out n \<Longrightarrow> take_receipt_msg (se_H E) rcpt n = (n', r) \<Longrightarrow> solver_reach E cfg out n'"
| drain: "solver_reach E cfg out n \<Longrightarrow> drain_one E n = (n', r') \<Longrightarrow> solver_reach E cfg out n'"
| restart: "solver_reach E cfg out n \<Longrightarrow> New_Solver E cfg clk (so_store n) = Inr n' \<Longrightarrow> clock_resumes n'
    \<Longrightarrow> solver_reach E cfg (out @ so_out n) n'"

lemma disk_ok_new: "disk_ok E cfg [] Open_batchstore"
  by (simp add: disk_ok_def Open_batchstore_def stored_ok_def store_GetProposal_def stored_bytes_def)

lemma New_Solver_new: "New_Solver E cfg clk Open_batchstore = Inr n \<Longrightarrow> n = new_solver cfg clk Open_batchstore"
  by (auto simp: New_Solver_def LoadState_def stored_bytes_def Open_batchstore_def fail_if_eq_Inr bind_res_eq_Inr)

lemma carry_on:
  assumes "\<exists>pd ps. solver_ok E cfg pd ps n \<and> sent_ok E pd (out @ so_out n)" "\<And>pd ps. solver_ok E cfg pd ps n \<Longrightarrow> extends E cfg pd (n', r)"
  shows "\<exists>pd ps. solver_ok E cfg pd ps n' \<and> sent_ok E pd (out @ so_out n')"
proof -
  obtain pd ps where ps: "solver_ok E cfg pd ps n" "sent_ok E pd (out @ so_out n)" using assms(1) by blast
  then obtain pd' ps' where ok: "prefix pd pd'" "solver_ok E cfg pd' ps' n'" using assms(2) by (fastforce simp: extends_def)
  then have "sent_ok E pd' (out @ so_out n')" using ps(2) sent_ok_mono by (auto simp: solver_ok_def sent_ok_Un)
  then show ?thesis using ok(2) by blast
qed

context solver_laws
begin

lemma reach_ok: "solver_reach E cfg out n \<Longrightarrow> \<exists>pd ps. solver_ok E cfg pd ps n \<and> sent_ok E pd (out @ so_out n)"
proof (induction rule: solver_reach.induct)
  case (start clk n)
  then have "clock_resumes n" by (auto dest!: New_Solver_new simp: clock_resumes_def new_solver_def)
  moreover have "nothing_lost E [] [] Open_batchstore" by (simp add: nothing_lost_def proposals_ok_def)
  ultimately have "solver_ok E cfg [] [] n" using restart_ok [OF disk_ok_new _ start] by blast
  then show ?case by (auto simp: solver_ok_def)
next
  case (restart out n clk n')
  then obtain pd ps where ps: "solver_ok E cfg pd ps n" "sent_ok E pd (out @ so_out n)" by blast
  then have "disk_ok E cfg pd (so_store n)" "nothing_lost E pd pd (so_store n)" by (auto simp: solver_ok_def nothing_lost_def)
  then have "solver_ok E cfg pd pd n'" using restart.hyps(2,3) by (rule restart_ok)
  then show ?case using ps(2) New_Solver_fields [OF restart.hyps(2)] by auto
next
  case (step out n buffer n' r)
  show ?case using step extends_Step by (intro carry_on [OF step.IH, of _ r]) metis
next
  case (receipt out n msg n' r)
  show ?case using receipt extends_HandleReceipt by (intro carry_on [OF receipt.IH, of _ r]) metis
next
  case (finalized out n msg n' r)
  show ?case using finalized extends_HandleFinalized by (intro carry_on [OF finalized.IH, of _ r]) metis
next
  case (receive out n rcpt n' r)
  show ?case using receive extends_take_receipt_msg by (intro carry_on [OF receive.IH, of _ r]) metis
next
  case (drain out n n' r)
  show ?case using drain extends_drain_one by (intro carry_on [OF drain.IH, of _ r]) metis
qed

end

section \<open>The chain of batches\<close>

lemma windows_distinct:
  assumes "winv H m" "hinv H base acked m"
  shows "distinct (concat (map (window_ids H) (acked @ wm_frozen m)))"
proof -
  define as where "as = concat (map (\<lambda>w. map (\<lambda>i. (i, fw_WindowID w)) (window_ids H w)) (acked @ wm_frozen m))"
  have "mset (wm_assigned m) = mset as" using assms(2) by (simp add: hinv_def Let_def as_def)
  then have "mset (map fst (wm_assigned m)) = mset (map fst as)" by (metis mset_map)
  moreover have "distinct (map fst (wm_assigned m))" using assms(1) by (simp add: winv_def wcore_def)
  ultimately have "distinct (map fst as)" using mset_eq_imp_distinct_iff by blast
  then show ?thesis by (simp add: as_def map_concat comp_def)
qed

lemma proposal_ids_window:
  assumes "btree_laws bt elems valid" "Builder_Build bt H mode w prev = Inr p"
  shows "mset (proposal_ids p) = mset (window_ids H w)"
proof -
  note r = Builder_Build_results [OF assms]
  have "ir_IntentID x = pid H (ir_Intent x)" if "x \<in> set (IntentResults (Sidecar p))" for x
    using r that by (auto simp: IntentResult_Validate_ok_iff pid_def)
  then have "proposal_ids p = map (pid H) (map ir_Intent (IntentResults (Sidecar p)))" by (simp add: proposal_ids_def)
  then show ?thesis using r unfolding window_ids_def by (metis mset_map)
qed

lemma Builder_Build_header:
  assumes "btree_laws bt elems valid" "Builder_Build bt H mode w prev = Inr p"
  shows "WindowID (Header p) = fw_WindowID w" "PreviousBatchID (Header p) = prev" "set (Cuts (Header p)) = set (fw_Cuts w)"
proof -
  obtain out where b: "Build_proposal bt H mode w prev = Inr (p, out)"
    using assms(2) by (auto simp: Builder_Build_def BuildMeasured_def bind_res_eq_Inr)
  obtain cuts ids where c: "canonicalCuts (fw_Cuts w) = Inr (cuts, ids)" "PreviousBatchID (Header p) = prev"
    "WindowID (Header p) = fw_WindowID w" "Cuts (Header p) = cuts"
    by (rule Build_proposal_Inr [OF assms(1) b]) blast
  then show "WindowID (Header p) = fw_WindowID w" "PreviousBatchID (Header p) = prev" "set (Cuts (Header p)) = set (fw_Cuts w)"
    using canonicalCuts_Inr(1) [OF c(1)] by simp_all
qed

lemma contiguous_nth: "contiguous a spans b \<Longrightarrow> Suc k < length spans \<Longrightarrow> fst (spans ! Suc k) = snd (spans ! k)"
proof (induction a spans b arbitrary: k rule: contiguous.induct)
  case (2 a p e spans b)
  then show ?case by (cases k; cases spans) auto
qed simp

text \<open>The cut of a shard in a complete window.\<close>

lemma cut_of_shard:
  assumes "map cut_ShardID (fw_Cuts w) = shard_range cfg"
  shows "c \<in> set (fw_Cuts w) \<Longrightarrow> cut_ShardID c \<in> {0..<cfg_ShardCount cfg} \<and> c = fw_Cuts w ! nat (cut_ShardID c)"
    and "s \<in> {0..<cfg_ShardCount cfg} \<Longrightarrow> fw_Cuts w ! nat s \<in> set (fw_Cuts w) \<and> cut_ShardID (fw_Cuts w ! nat s) = s"
proof -
  have l: "length (fw_Cuts w) = nat (cfg_ShardCount cfg)" using arg_cong [OF assms, of length] by (simp add: shard_range_def)
  have n: "cut_ShardID (fw_Cuts w ! k) = int k" if "k < length (fw_Cuts w)" for k
    using arg_cong [OF assms, of "\<lambda>xs. xs ! k"] that l by (simp add: shard_range_def)
  show "cut_ShardID c \<in> {0..<cfg_ShardCount cfg} \<and> c = fw_Cuts w ! nat (cut_ShardID c)" if c: "c \<in> set (fw_Cuts w)"
    using n l c by (fastforce simp: in_set_conv_nth)
  show "fw_Cuts w ! nat s \<in> set (fw_Cuts w) \<and> cut_ShardID (fw_Cuts w ! nat s) = s" if "s \<in> {0..<cfg_ShardCount cfg}"
    using n [of "nat s"] l that by auto
qed

lemma built_chain:
  assumes bt: "btree_laws (se_bt E) elems valid" and I: "winv (se_H E) m" "hinv (se_H E) base acked m" and b: "built E mode acked ps"
  shows "linked ps" "cuts_joined ps" "distinct (concat (map proposal_ids ps))"
proof -
  have l: "length ps = length acked" and B: "\<And>k. k < length ps \<Longrightarrow> Builder_Build (se_bt E) (se_H E) mode (acked ! k) (chain_tip (take k ps)) = Inr (ps ! k)"
    using b by (simp_all add: built_def)
  note hd = Builder_Build_header [OF bt B]
  have w: "map fw_WindowID (acked @ wm_frozen m) = map word_of_nat [1..<Suc (length (acked @ wm_frozen m))]"
    "\<And>w. w \<in> set acked \<Longrightarrow> window_ok (se_H E) (wm_cfg m) w"
    "\<And>s. s \<in> {0..<cfg_ShardCount (wm_cfg m)} \<Longrightarrow> contiguous (base s) (map (span_of s) (acked @ wm_frozen m)) (last_of m s)"
    using I(2) by (auto simp: hinv_def Let_def)
  have n: "fw_WindowID (acked ! k) = word_of_nat (k + 1)" if "k < length acked" for k
    using arg_cong [OF w(1), of "\<lambda>xs. xs ! k"] that by (simp add: nth_append del: upt_Suc)
  have t: "chain_tip (take k ps) = (if k = 0 then 0 else BatchID (Header (ps ! (k - 1))))" if "k < length ps" for k
    using that by (cases k) (auto simp: chain_tip_def last_conv_nth)
  show "linked ps" using hd n t l by (simp add: linked_def)
  show "cuts_joined ps" unfolding cuts_joined_def
  proof (intro allI impI ballI)
    fix k c
    assume k: "0 < k" "k < length ps" and c: "c \<in> set (Cuts (Header (ps ! k)))"
    then obtain j where j: "k = Suc j" by (cases k) auto
    let ?s = "cut_ShardID c" and ?v = "acked ! j" and ?w = "acked ! k"
    have c': "c \<in> set (fw_Cuts ?w)" using hd(3) [OF k(2)] c by simp
    have wo: "map cut_ShardID (fw_Cuts ?w) = shard_range (wm_cfg m)" "map cut_ShardID (fw_Cuts ?v) = shard_range (wm_cfg m)"
      using w(2) [of ?w] w(2) [of ?v] k j l by (auto simp: window_ok_def)
    note s = cut_of_shard(1) [OF wo(1) c']
    note v = cut_of_shard(2) [OF wo(2), of ?s]
    have "fst (span_of ?s ?w) = snd (span_of ?s ?v)"
      using contiguous_nth [OF w(3) [of ?s], of j] s k j l by (simp add: nth_append)
    then have "cut_PreviousHeight c = cut_EndHeight (fw_Cuts ?v ! nat ?s)" using s by (simp add: span_of_def)
    then show "\<exists>c' \<in> set (Cuts (Header (ps ! (k - 1)))). cut_ShardID c' = cut_ShardID c \<and> cut_PreviousHeight c = cut_EndHeight c'"
      using v s hd(3) [of j] k j by auto
  qed
  have "list_all2 (\<lambda>p w. mset (proposal_ids p) = mset (window_ids (se_H E) w)) ps acked"
    using proposal_ids_window [OF bt B] l by (simp add: list_all2_conv_all_nth)
  then have "mset (concat (map proposal_ids ps)) = mset (concat (map (window_ids (se_H E)) acked))"
    by (induction rule: list_all2_induct) auto
  moreover have "distinct (concat (map (window_ids (se_H E)) acked))" using windows_distinct [OF I] by simp
  ultimately show "distinct (concat (map proposal_ids ps))" using mset_eq_imp_distinct_iff by blast
qed

lemma solver_ok_chain:
  assumes "btree_laws (se_bt E) elems valid" "solver_ok E cfg pd ps n"
  shows "linked ps \<and> cuts_joined ps \<and> distinct (concat (map proposal_ids ps))"
proof (cases "so_manager n")
  case None
  then show ?thesis using assms(2) by (simp add: solver_ok_def linked_def cuts_joined_def)
next
  case (Some m)
  then show ?thesis using assms built_chain by (fastforce simp: solver_ok_def manager_ok_def)
qed

text \<open>
  C9. Whatever a solver receives, whether its writes to the store succeed or fail, and however often its process stops, between any two
  writes, and is started again with a clock that is not behind the opening time it saved, its batches form one chain \<open>ps\<close>: windows numbered
  from one, each batch on the one before, the cuts of every shard joined, no intent in two batches, the chain tip the last batch and the batches
  waiting for the beacon the last ones. The store holds proposals of a prefix \<open>pd\<close> of it only, and every proposal that any
  incarnation ever sent went to the beacon leader and is one of \<open>pd\<close>. When no write fails, \<open>pd\<close> is the whole chain and
  the store has every batch of it; a failed write leaves a chain in memory that is longer than the stored one, and a restart goes back to \<open>pd\<close>.
\<close>

theorem solver_history:
  assumes "btree_laws (se_bt E) elems valid" "codec_laws (sg_state (se_G E))" "codec_laws (sg_proposal (se_G E))"
    and "solver_reach E cfg out n"
  shows "\<exists>pd ps. prefix pd ps \<and> linked ps \<and> cuts_joined ps \<and> distinct (concat (map proposal_ids ps))
     \<and> so_chainTip n = chain_tip ps \<and> (\<exists>k. so_pending n = drop k (batch_ids ps))
     \<and> stored_ok E pd (so_store n) \<and> sent_ok E pd (out @ so_out n)
     \<and> (writes_succeed E \<longrightarrow> pd = ps \<and> proposals_ok E ps (so_store n))"
proof -
  have "solver_laws E" using assms(2,3) by (rule solver_laws.intro)
  then obtain pd ps where "solver_ok E cfg pd ps n" "sent_ok E pd (out @ so_out n)" using solver_laws.reach_ok assms(4) by blast
  then show ?thesis using solver_ok_chain [OF assms(1)] unfolding solver_ok_def queue_ok_def nothing_lost_def disk_ok_def by blast
qed

text \<open>
  A write that fails comes after the window has been taken off the queue and the tip has moved: the batch is pending and is not in the store, so that
  it can never be sent, nor any batch behind it.
\<close>

lemma failed_write_blocks:
  assumes "so_manager n = Some m" "PeekFrozen m = Some w" "AcknowledgeFrozen (fw_WindowID w) m = Inr m1"
    and "BuildMeasured (se_bt E) (se_H E) (sc_MatcherMode (so_cfg n)) w (so_chainTip n) = Inr (p, me)"
    and "enc (sg_proposal (se_G E)) p = Inl e" "so_pending n = []" "bs_proposals (so_store n) (BatchID (Header p)) = None"
    and "BatchID (Header p) \<notin> so_dispatched n"
  shows "\<exists>n'. drain_one E n = (n', Inl encode_failed) \<and> so_chainTip n' = BatchID (Header p) \<and> so_pending n' = [BatchID (Header p)]
     \<and> so_store n' = so_store n \<and> dispatchPending E n' = (n', Inl (ErrOther ''batch proposal not found''))"
  using assms by (simp add: drain_one_def PutProposalAndState_def dispatchPending_def store_GetProposal_def stored_bytes_def Let_def)

section \<open>Recovery\<close>

lemma reach_cfg: "solver_reach E cfg out n \<Longrightarrow> 0 < sc_Count cfg \<and> 0 < sc_BatchSize cfg \<and> 0 < sc_MaxWindowDuration cfg \<and> 0 < sc_TickInterval cfg"
  by (induction rule: solver_reach.induct) (auto simp: New_Solver_def fail_if_eq_Inr)

text \<open>Counters that have not used up their 64 bits, and a clock that does not go back.\<close>

definition within_bounds :: "Manager \<Rightarrow> bool" where
  "within_bounds m \<longleftrightarrow> mono (wm_clock m) \<and> Suc (length (wm_assigned m)) < 2 ^ 64
     \<and> (\<forall>s \<in> {0..<cfg_ShardCount (wm_cfg m)}. ContinuousHeight (stream_of m s) \<noteq> - 1)"

lemma windows_assigned:
  assumes "hinv H base acked m"
  shows "length (acked @ wm_frozen m) \<le> length (wm_assigned m)"
proof -
  let ?ws = "acked @ wm_frozen m"
  have "mset (wm_assigned m) = mset (concat (map (\<lambda>w. map (\<lambda>i. (i, fw_WindowID w)) (window_ids H w)) ?ws))"
    using assms unfolding hinv_def Let_def by blast
  then have "length (wm_assigned m) = length (concat (map (\<lambda>w. map (\<lambda>i. (i, fw_WindowID w)) (window_ids H w)) ?ws))"
    by (rule mset_eq_length)
  also have "\<dots> = sum_list (map (\<lambda>w. length (fw_Intents w)) ?ws)" by (simp add: length_concat comp_def window_ids_def)
  also have "sum_list (map (\<lambda>w. 1) ?ws) \<le> \<dots>"
  proof (rule sum_list_mono)
    fix w assume "w \<in> set ?ws"
    then have "fw_Intents w \<noteq> []" using assms unfolding hinv_def Let_def window_ok_def by blast
    then show "1 \<le> length (fw_Intents w)" by (cases "fw_Intents w") auto
  qed
  finally show ?thesis by (simp add: sum_list_triv)
qed

lemma manager_restored:
  assumes "manager_ok E cfg ps m" "tinv m" "within_bounds m"
  shows "Restore (se_H E) (window_config cfg) clk (Snapshot m) = Inr (m\<lparr>wm_clock := clk, wm_ticks := 0\<rparr>)"
proof -
  obtain base acked where h: "hinv (se_H E) base acked m" using assms(1) by (auto simp: manager_ok_def)
  have c: "wm_cfg m = window_config cfg" "winv (se_H E) m" "settled m" "ids_ok (se_H E) m" using assms(1) by (simp_all add: manager_ok_def)
  have "\<forall>w \<in> set (wm_frozen m). fw_OpenedAt w \<le> fw_SealedAt w" using assms(2,3) by (simp add: tinv_def within_bounds_def)
  moreover have "Suc (length (acked @ wm_frozen m)) < 2 ^ 64" using windows_assigned [OF h] assms(3) by (simp add: within_bounds_def)
  ultimately show ?thesis using Restore_ok [OF c(2) h c(3,4)] assms(3) c(1) by (simp add: within_bounds_def)
qed

definition restarted :: "(nat \<Rightarrow> int) \<Rightarrow> Solver \<Rightarrow> Solver" where
  "restarted clk n = n\<lparr>so_clock := clk, so_manager := map_option (\<lambda>m. m\<lparr>wm_clock := clk, wm_ticks := 0\<rparr>) (so_manager n),
     so_dispatched := {}, so_stopped := False, so_out := []\<rparr>"

context solver_laws
begin

lemma save_restart:
  assumes ok: "solver_ok E cfg pd ps n" and s: "save E n = (n', Inr ())" and b: "\<forall>m. so_manager n = Some m \<longrightarrow> within_bounds m"
    and c: "0 < sc_Count cfg \<and> 0 < sc_BatchSize cfg \<and> 0 < sc_MaxWindowDuration cfg \<and> 0 < sc_TickInterval cfg"
  shows "New_Solver E cfg clk (so_store n') = Inr (restarted clk n')"
proof -
  obtain bs where e: "enc (sg_state (se_G E)) (snapshot n) = Inr bs" "n' = n\<lparr>so_store := so_store n\<lparr>bs_state := Some bs\<rparr>\<rparr>"
    using s by (auto simp: save_def SaveState_def split: sum.splits)
  have d: "dec (sg_state (se_G E)) bs = Inr (snapshot n)" "bs \<noteq> []" using e(1) sc.dec_enc sc.enc_nonempty by blast+
  have "New_Solver E cfg clk (so_store n') = restore (se_H E) (snapshot n) (new_solver cfg clk (so_store n'))"
    using c d by (simp add: New_Solver_def LoadState_def stored_bytes_def e(2) fail_if_def)
  also have "\<dots> = Inr (restarted clk n')"
  proof (cases "so_manager n")
    case None
    then show ?thesis using ok by (cases n) (auto simp: restore_def snapshot_def new_solver_def restarted_def e(2) solver_ok_def)
  next
    case (Some m)
    then have "Restore (se_H E) (window_config cfg) clk (Snapshot m) = Inr (m\<lparr>wm_clock := clk, wm_ticks := 0\<rparr>)"
      using ok b by (intro manager_restored) (auto simp: solver_ok_def)
    then show ?thesis using Some ok by (cases n) (auto simp: restore_def snapshot_def new_solver_def restarted_def e(2) solver_ok_def)
  qed
  finally show ?thesis .
qed

lemma receipt_restart:
  assumes r: "solver_reach E cfg out n" and h: "HandleReceipt E msg n = (n', Inr ())" and b: "\<forall>m. so_manager n' = Some m \<longrightarrow> within_bounds m"
  shows "New_Solver E cfg clk (so_store n') = Inr (restarted clk n')"
proof -
  obtain n1 n2 where s: "take_receipt_msg (se_H E) (fr_Receipt msg) n = (n1, Inr ())" "drainFrozen E n1 = (n2, Inr ())" "save E n2 = (n', Inr ())"
    using h by (auto simp: HandleReceipt_def bind_st_eq_Inr split: if_splits)
  obtain pd ps where "solver_ok E cfg pd ps n" using reach_ok [OF r] by blast
  from extends_take_receipt_msg [OF this, of "fr_Receipt msg"] s(1) obtain pd1 ps1 where "solver_ok E cfg pd1 ps1 n1" by (auto simp: extends_def)
  from extends_drainFrozen [OF this] s(2) obtain pd2 ps2 where ok: "solver_ok E cfg pd2 ps2 n2" by (auto simp: extends_def)
  have "so_manager n' = so_manager n2" using s(3) by (auto simp: save_def split: prod.splits)
  then show ?thesis using save_restart [OF ok s(3) _ reach_cfg [OF r]] b by simp
qed

end

text \<open>
  C10. Nothing that a solver has acknowledged is lost: once \<open>HandleReceipt\<close> has returned without an error, a new process
  started on the store has the same window manager, bootstrap receipts, chain tip and pending batches; it has only forgotten
  which proposal it had already sent, and sends that one again.
\<close>

theorem solver_recovers:
  assumes "codec_laws (sg_state (se_G E))" "codec_laws (sg_proposal (se_G E))" "solver_reach E cfg out n"
    and "HandleReceipt E msg n = (n', Inr ())" "\<forall>m. so_manager n' = Some m \<longrightarrow> within_bounds m"
  shows "New_Solver E cfg clk (so_store n') = Inr (restarted clk n')"
  using solver_laws.receipt_restart [OF solver_laws.intro [OF assms(1,2)] assms(3-5)] .

section \<open>Final batches\<close>

definition package_sent :: "'t solver_env \<Rightarrow> SettlementPackage \<Rightarrow> NodeInfo list \<times> WrappedMsg \<Rightarrow> bool" where
  "package_sent E pk dw \<longleftrightarrow> (\<exists>l. topo_GetLeader (se_topo E) (ss_ShardID (pk_Settlement pk)) = Inr l \<and> fst dw = [l])
     \<and> MsgType (snd dw) = SettlementPackageMessageType
     \<and> enc (mc_SettlementPackage (se_C E)) \<lparr>sp_NodeID = 0, sp_Package = pk\<rparr> = Inr (WrappedMsg.Payload (snd dw))"

lemma send_packages_Inr:
  "send_packages E packs n = (n', Inr ()) \<Longrightarrow> \<exists>msgs. n' = n\<lparr>so_out := so_out n @ msgs\<rparr> \<and> list_all2 (package_sent E) packs msgs"
proof (induction packs arbitrary: n)
  case (Cons pk packs)
  obtain l w where w: "topo_GetLeader (se_topo E) (ss_ShardID (pk_Settlement pk)) = Inr l"
    "WrapMsg SettlementPackageMessageType (enc (mc_SettlementPackage (se_C E)) \<lparr>sp_NodeID = 0, sp_Package = pk\<rparr>) = Inr w"
    "send_packages E packs (n\<lparr>so_out := so_out n @ [([l], w)]\<rparr>) = (n', Inr ())"
    using Cons.prems by (auto simp: bind_res_eq_Inr split: sum.splits)
  obtain msgs where m: "n' = n\<lparr>so_out := (so_out n @ [([l], w)]) @ msgs\<rparr>" "list_all2 (package_sent E) packs msgs" using Cons.IH [OF w(3)] by auto
  have "package_sent E pk ([l], w)" using w(1,2) by (auto simp: package_sent_def WrapMsg_def bind_res_eq_Inr)
  then show ?case using m by (intro exI [of _ "([l], w) # msgs"]) simp
qed auto

lemma solver_ok_built:
  assumes "solver_ok E cfg pd ps n" "p \<in> set ps"
  shows "\<exists>w prev. Builder_Build (se_bt E) (se_H E) (sc_MatcherMode cfg) w prev = Inr p"
proof (cases "so_manager n")
  case None
  then show ?thesis using assms by (simp add: solver_ok_def)
next
  case (Some m)
  then obtain acked where "built E (sc_MatcherMode cfg) acked ps" using assms(1) by (auto simp: solver_ok_def manager_ok_def)
  then show ?thesis using assms(2) unfolding built_def in_set_conv_nth by metis
qed

context solver_laws
begin

lemma finalized_sends:
  assumes bt: "btree_laws (se_bt E) elems valid" and r: "solver_reach E cfg out n" and h: "HandleFinalized E msg n = (n', Inr ())"
  shows "\<exists>(p :: BatchProposal) packs msgs. so_pending n = BatchID (Header p) # so_pending n' \<and> BatchID (Header p) = BatchID (mf_Header msg) \<and> MatchRoot (Header p) = MatchRoot (mf_Header msg)
     \<and> so_out n' = so_out n @ msgs \<and> list_all2 (package_sent E) packs msgs
     \<and> map pk_Settlement packs = ShardSettlements (Sidecar p)
     \<and> (\<forall>pk \<in> set packs. pk_Header pk = Header p \<and> VerifySettlementPackage (se_H E) pk = Inr ())"
proof -
  obtain pd ps where ok: "solver_ok E cfg pd ps n" using reach_ok [OF r] by blast
  obtain later p packs n1 where s: "so_pending n = BatchID (mf_Header msg) # later" "store_GetProposal (se_G E) (so_store n) (BatchID (mf_Header msg)) = Inr p"
    "BatchID (Header p) = BatchID (mf_Header msg)" "MatchRoot (Header p) = MatchRoot (mf_Header msg)"
    "BuildSettlementPackages (se_H E) p = Inr packs" "send_packages E packs n = (n1, Inr ())"
    "save E (n1\<lparr>so_pending := later, so_dispatched := so_dispatched n1 - {BatchID (mf_Header msg)}\<rparr>) = (n', Inr ())"
    using h by (auto simp: HandleFinalized_def sendSettlementPackages_def bind_st_eq_Inr split: if_splits list.splits sum.splits)
  obtain w prev where "Builder_Build (se_bt E) (se_H E) (sc_MatcherMode cfg) w prev = Inr p"
    using solver_ok_built [OF ok] dispatched_in_chain [OF ok s(2)] by blast
  then obtain o1 where "Build_proposal (se_bt E) (se_H E) (sc_MatcherMode cfg) w prev = Inr (p, o1)"
    by (auto simp: Builder_Build_def BuildMeasured_def bind_res_eq_Inr)
  from built_packages_verify [OF bt this] s(5) have "map pk_Settlement packs = ShardSettlements (Sidecar p)
     \<and> (\<forall>pk \<in> set packs. pk_Header pk = Header p \<and> VerifySettlementPackage (se_H E) pk = Inr ())" by auto
  moreover obtain msgs where "n1 = n\<lparr>so_out := so_out n @ msgs\<rparr>" "list_all2 (package_sent E) packs msgs" using send_packages_Inr [OF s(6)] by blast
  moreover have "so_out n' = so_out n1" "so_pending n' = later" using s(7) by (auto simp: save_def split: prod.splits)
  ultimately have "so_pending n = BatchID (Header p) # so_pending n' \<and> BatchID (Header p) = BatchID (mf_Header msg) \<and> MatchRoot (Header p) = MatchRoot (mf_Header msg)
     \<and> so_out n' = so_out n @ msgs \<and> list_all2 (package_sent E) packs msgs
     \<and> map pk_Settlement packs = ShardSettlements (Sidecar p)
     \<and> (\<forall>pk \<in> set packs. pk_Header pk = Header p \<and> VerifySettlementPackage (se_H E) pk = Inr ())"
    using s(1,3,4) by simp
  then show ?thesis by blast
qed

end

text \<open>
  C17. When the beacon leader reports a batch as final, the solver sends the shards exactly that batch: it was the oldest
  pending one, every shard's leader is sent its own settlement, in the order of the batch, and each package carries proofs
  that the verification at the shard accepts; then the batch is no longer pending.
\<close>

theorem HandleFinalized_sends:
  assumes "btree_laws (se_bt E) elems valid" "codec_laws (sg_state (se_G E))" "codec_laws (sg_proposal (se_G E))"
    and "solver_reach E cfg out n" "HandleFinalized E msg n = (n', Inr ())"
  shows "\<exists>(p :: BatchProposal) packs msgs. so_pending n = BatchID (Header p) # so_pending n' \<and> BatchID (Header p) = BatchID (mf_Header msg) \<and> MatchRoot (Header p) = MatchRoot (mf_Header msg)
     \<and> so_out n' = so_out n @ msgs \<and> list_all2 (package_sent E) packs msgs
     \<and> map pk_Settlement packs = ShardSettlements (Sidecar p)
     \<and> (\<forall>pk \<in> set packs. pk_Header pk = Header p \<and> VerifySettlementPackage (se_H E) pk = Inr ())"
  using solver_laws.finalized_sends [OF solver_laws.intro [OF assms(2,3)] assms(1,4,5)] .

section \<open>Witnesses\<close>

text \<open>Two shards whose first receipts arrive, one of them with the example payment, and the batch built from it.\<close>

definition side_receipt :: FinalizedBlockReceipt where
  "side_receipt = \<lparr>rc_ShardID = 1, rc_Height = 2, rc_BlockHash = 9, rc_ParentHash = 6, rc_StateRoot = 0, rc_Epoch = 0,
     rc_Intents = [], rc_CommitTime = 0\<rparr>"

definition ex_solver_cfg :: SolverConfig where
  "ex_solver_cfg = \<lparr>sc_Count = 2, sc_BatchSize = 1, sc_MaxWindowDuration = 10, sc_TickInterval = 1, sc_MatcherMode = FullMode\<rparr>"

lemma ex_window_config [simp]: "window_config ex_solver_cfg = ex_cfg"
  by (simp add: window_config_def ex_solver_cfg_def ex_cfg_def)

definition ex_sealed :: "Manager \<Rightarrow> FrozenWindow \<Rightarrow> bool" where
  "ex_sealed m w \<longleftrightarrow> wm_frozen m = [w] \<and> fw_WindowID w = 1 \<and> fw_Intents w = [example_intent]
     \<and> fw_Cuts w = [\<lparr>cut_ShardID = 0, cut_PreviousHeight = 1, cut_EndHeight = 2, cut_EndBlockHash = 7\<rparr>,
                    \<lparr>cut_ShardID = 1, cut_PreviousHeight = 1, cut_EndHeight = 1, cut_EndBlockHash = 6\<rparr>]
     \<and> wm_clock m = int \<and> wm_cfg m = ex_cfg \<and> length (wm_assigned m) = 1
     \<and> ContinuousHeight (stream_of m 0) = 2 \<and> ContinuousHeight (stream_of m 1) = 2"

lemma ex_receipts_added: "\<exists>m w. add_receipts length_hash [ex_receipt, side_receipt] ex_manager = (m, Inr ()) \<and> ex_sealed m w"
proof -
  have src: "SourceShard example_intent = 0" by (simp add: example_intent_def)
  show ?thesis
    by (simp add: window_eval ex_new(2) ex_checkpoints_def ex_receipt_def side_receipt_def example_IDs src upto_01 ex_cfg_def ex_sealed_def)
qed

lemma ex_initialized:
  "\<exists>m w. initializeManager length_hash ((new_solver ex_solver_cfg int s)\<lparr>so_bootstrap := [(1, [side_receipt]), (0, [ex_receipt])]\<rparr>)
       = ((new_solver ex_solver_cfg int s)\<lparr>so_manager := Some m\<rparr>, Inr ()) \<and> ex_sealed m w"
proof -
  have c: "collect_bootstrap [0, 1] [(1, [side_receipt]), (0, [ex_receipt])]
      = ([(1, [side_receipt]), (0, [ex_receipt])], Inr (ex_checkpoints, [ex_receipt, side_receipt]))"
    by (simp add: ex_checkpoints_def) (simp add: ex_receipt_def side_receipt_def)
  have o: "sort_key (\<lambda>r. (rc_Height r, rc_ShardID r)) [ex_receipt, side_receipt] = [ex_receipt, side_receipt]"
    by (simp add: ex_receipt_def side_receipt_def)
  obtain m w where m: "add_receipts length_hash [ex_receipt, side_receipt] ex_manager = (m, Inr ())" "ex_sealed m w"
    using ex_receipts_added by blast
  have "initializeManager length_hash ((new_solver ex_solver_cfg int s)\<lparr>so_bootstrap := [(1, [side_receipt]), (0, [ex_receipt])]\<rparr>)
      = ((new_solver ex_solver_cfg int s)\<lparr>so_manager := Some m\<rparr>, Inr ())"
    by (simp add: initializeManager_def new_solver_def ex_range c ex_new(1) o m(1) del: collect_bootstrap.simps add_receipts.simps sort_key_simps)
  then show ?thesis using m(2) by blast
qed

lemma ex_builds:
  assumes "ex_sealed m w"
  shows "\<exists>p me. BuildMeasured list_btree length_hash FullMode w 0 = Inr (p, me)"
proof -
  have w: "fw_Intents w = [example_intent]"
      "fw_Cuts w = [\<lparr>cut_ShardID = 0, cut_PreviousHeight = 1, cut_EndHeight = 2, cut_EndBlockHash = 7\<rparr>,
                    \<lparr>cut_ShardID = 1, cut_PreviousHeight = 1, cut_EndHeight = 1, cut_EndBlockHash = 6\<rparr>]"
    using assms by (simp_all add: ex_sealed_def)
  obtain out where "MatchWithMode list_btree length_hash (fw_Intents w) (NormalizeMode FullMode) = Inr out"
    using solo_match [of length_hash FullMode] by (auto simp: solo_frozen_def w(1))
  from Build_succeeds [OF lbt.btree_laws_axioms _ this, of 0] show ?thesis by (auto simp: w good_cut_def int64_range_def BuildMeasured_def)
qed

text \<open>An environment for these values: codecs for the listed values, and leaders for both shards and the beacon.\<close>

definition ex_solver_env :: "SolverState list \<Rightarrow> BatchProposal \<Rightarrow> SettlementPackage list \<Rightarrow> workItem list solver_env" where
  "ex_solver_env sts p packs =
     \<lparr>se_bt = list_btree, se_H = length_hash, se_G = \<lparr>sg_state = table_codec sts, sg_proposal = table_codec [p]\<rparr>,
      se_C = \<lparr>mc_ReceiveTxs = table_codec [], mc_FinalizedBlockReceipt = table_codec [],
        mc_BatchProposal = table_codec [\<lparr>bpm_NodeID = 0, bpm_Proposal = p\<rparr>], mc_MatchRootFinalized = table_codec [],
        mc_SettlementPackage = table_codec (map (\<lambda>pk. \<lparr>sp_NodeID = 0, sp_Package = pk\<rparr>) packs), mc_FallbackTx = table_codec [],
        mc_FallbackCompleted = table_codec [], mc_NettingProgress = table_codec [], mc_RelayBlockInfo = table_codec [],
        mc_BrokerBlockInfo = table_codec []\<rparr>,
      se_sidecar = table_codec [Sidecar p],
      se_topo = NewTopoGetter (map (\<lambda>s. (s, \<lparr>NodeID = 0, ShardID = s\<rparr>)) [0, 1, BeaconShardID]) Map.empty\<rparr>"

lemma ex_solver_env_sel [simp]:
  "se_bt (ex_solver_env sts p packs) = list_btree" "se_H (ex_solver_env sts p packs) = length_hash"
  "sg_state (se_G (ex_solver_env sts p packs)) = table_codec sts" "sg_proposal (se_G (ex_solver_env sts p packs)) = table_codec [p]"
  "mc_BatchProposal (se_C (ex_solver_env sts p packs)) = table_codec [\<lparr>bpm_NodeID = 0, bpm_Proposal = p\<rparr>]"
  "mc_SettlementPackage (se_C (ex_solver_env sts p packs)) = table_codec (map (\<lambda>pk. \<lparr>sp_NodeID = 0, sp_Package = pk\<rparr>) packs)"
  "se_sidecar (ex_solver_env sts p packs) = table_codec [Sidecar p]"
  "topo_GetLeader (se_topo (ex_solver_env sts p packs)) 0 = Inr \<lparr>NodeID = 0, ShardID = 0\<rparr>"
  "topo_GetLeader (se_topo (ex_solver_env sts p packs)) 1 = Inr \<lparr>NodeID = 0, ShardID = 1\<rparr>"
  by (simp_all add: ex_solver_env_def topo_GetLeader_def NewTopoGetter_def find_node_def BeaconShardID_def)

interpretation sl: solver_laws "ex_solver_env sts p packs" for sts p packs
  by unfold_locales (auto intro: tc.dec_enc dest: tc.enc_nonempty)

lemma position_mem: "x \<in> set xs \<Longrightarrow> \<exists>i. position xs x = Some i"
  by (induction xs) auto

lemma table_codec_mem: "x \<in> set xs \<Longrightarrow> \<exists>b. enc (table_codec xs) x = Inr b"
  using position_mem [of x xs] by (auto simp: table_codec_def)

text \<open>The first shard's receipt, the second one, and the batch.\<close>

definition ex_start :: Solver where
  "ex_start = new_solver ex_solver_cfg int Open_batchstore"

lemma ex_first:
  "solver_reach E ex_solver_cfg [] ex_start" "take_receipt_msg H side_receipt ex_start = (ex_start\<lparr>so_bootstrap := [(1, [side_receipt])]\<rparr>, Inr ())"
proof -
  show "solver_reach E ex_solver_cfg [] ex_start" unfolding ex_start_def
    by (rule solver_reach.start) (simp add: New_Solver_def ex_solver_cfg_def LoadState_def stored_bytes_def Open_batchstore_def fail_if_def)
  show "take_receipt_msg H side_receipt ex_start = (ex_start\<lparr>so_bootstrap := [(1, [side_receipt])]\<rparr>, Inr ())"
    by (simp add: take_receipt_msg_def new_solver_def side_receipt_def ex_solver_cfg_def ex_start_def)
qed

definition ex_built :: "Manager \<Rightarrow> BatchProposal \<Rightarrow> Solver" where
  "ex_built m p = ex_start\<lparr>so_manager := Some (m\<lparr>wm_frozen := []\<rparr>), so_chainTip := BatchID (Header p), so_pending := [BatchID (Header p)]\<rparr>"

lemma ex_drain:
  assumes "ex_sealed m w" "BuildMeasured list_btree length_hash FullMode w 0 = Inr (p, me)" "snapshot (ex_built m p) \<in> set sts"
  shows "\<exists>s. drainFrozen (ex_solver_env sts p packs) (ex_start\<lparr>so_manager := Some m\<rparr>) = ((ex_built m p)\<lparr>so_store := s\<rparr>, Inr ())
     \<and> store_GetProposal (se_G (ex_solver_env sts p packs)) s (BatchID (Header p)) = Inr p"
proof -
  let ?E = "ex_solver_env sts p packs"
  obtain b where b: "enc (table_codec sts) (snapshot (ex_built m p)) = Inr b" using table_codec_mem [OF assms(3)] by blast
  have pe: "enc (table_codec [x]) x = Inr [0]" "dec (table_codec [x]) [0] = Inr x" for x :: 'x by (simp_all add: table_codec_def)
  define s where "s = \<lparr>bs_state = Some b, bs_proposals = [BatchID (Header p) \<mapsto> [0]]\<rparr>"
  have "drain_one ?E (ex_start\<lparr>so_manager := Some m\<rparr>) = ((ex_built m p)\<lparr>so_store := s\<rparr>, Inr True)"
    using assms b by (simp add: drain_one_def PeekFrozen_def AcknowledgeFrozen_def fail_if_def new_solver_def ex_start_def Open_batchstore_def
        ex_solver_cfg_def PutProposalAndState_def encodedSize_def ex_built_def Let_def pe ex_sealed_def s_def)
  moreover have "drain_one ?E ((ex_built m p)\<lparr>so_store := s\<rparr>) = ((ex_built m p)\<lparr>so_store := s\<rparr>, Inr False)"
    by (simp add: drain_one_def ex_built_def PeekFrozen_def)
  ultimately have "drainFrozen ?E (ex_start\<lparr>so_manager := Some m\<rparr>) = ((ex_built m p)\<lparr>so_store := s\<rparr>, Inr ())"
    by (simp add: drainFrozen.simps)
  moreover have "store_GetProposal (se_G ?E) s (BatchID (Header p)) = Inr p"
    by (simp add: store_GetProposal_def s_def stored_bytes_def pe)
  ultimately show ?thesis by blast
qed

lemma ex_receipt_handled:
  assumes "ex_sealed m w" "BuildMeasured list_btree length_hash FullMode w 0 = Inr (p, me)" "snapshot (ex_built m p) \<in> set sts"
    and i: "initializeManager length_hash (ex_start\<lparr>so_bootstrap := [(1, [side_receipt]), (0, [ex_receipt])]\<rparr>) = (ex_start\<lparr>so_manager := Some m\<rparr>, Inr ())"
  shows "\<exists>s. HandleReceipt (ex_solver_env sts p packs) \<lparr>fr_NodeID = 0, fr_Receipt = ex_receipt\<rparr> (ex_start\<lparr>so_bootstrap := [(1, [side_receipt])]\<rparr>)
       = ((ex_built m p)\<lparr>so_store := s\<rparr>, Inr ()) \<and> store_GetProposal (se_G (ex_solver_env sts p packs)) s (BatchID (Header p)) = Inr p"
proof -
  let ?E = "ex_solver_env sts p packs"
  obtain s where s: "drainFrozen ?E (ex_start\<lparr>so_manager := Some m\<rparr>) = ((ex_built m p)\<lparr>so_store := s\<rparr>, Inr ())"
    "store_GetProposal (se_G ?E) s (BatchID (Header p)) = Inr p" using ex_drain [OF assms(1-3)] by blast
  obtain b where b: "enc (table_codec sts) (snapshot (ex_built m p)) = Inr b" using table_codec_mem [OF assms(3)] by blast
  have "snapshot ((ex_built m p)\<lparr>so_store := s\<rparr>) = snapshot (ex_built m p)" by (simp add: snapshot_def)
  then have v: "save ?E ((ex_built m p)\<lparr>so_store := s\<rparr>) = ((ex_built m p)\<lparr>so_store := s\<lparr>bs_state := Some b\<rparr>\<rparr>, Inr ())"
    using b by (simp add: save_def SaveState_def)
  have r: "rc_ShardID ex_receipt = 0" by (simp add: ex_receipt_def)
  have "take_receipt_msg length_hash ex_receipt (ex_start\<lparr>so_bootstrap := [(1, [side_receipt])]\<rparr>) = (ex_start\<lparr>so_manager := Some m\<rparr>, Inr ())"
    using i by (simp add: take_receipt_msg_def r ex_start_def new_solver_def ex_solver_cfg_def)
  then have "HandleReceipt ?E \<lparr>fr_NodeID = 0, fr_Receipt = ex_receipt\<rparr> (ex_start\<lparr>so_bootstrap := [(1, [side_receipt])]\<rparr>)
      = ((ex_built m p)\<lparr>so_store := s\<lparr>bs_state := Some b\<rparr>\<rparr>, Inr ())"
    using s(1) v by (simp add: HandleReceipt_def r ex_start_def new_solver_def ex_solver_cfg_def)
  moreover have "store_GetProposal (se_G ?E) (s\<lparr>bs_state := Some b\<rparr>) (BatchID (Header p)) = Inr p" using s(2) by (simp add: store_GetProposal_def)
  ultimately show ?thesis by blast
qed

text \<open>A run that ends with the handling of the second receipt.\<close>

definition ex_handled :: "workItem list solver_env \<Rightarrow> Manager \<Rightarrow> BatchProposal \<Rightarrow> Solver \<Rightarrow> BatchStore \<Rightarrow> bool" where
  "ex_handled E m p n s \<longleftrightarrow> solver_reach E ex_solver_cfg [] n
     \<and> HandleReceipt E \<lparr>fr_NodeID = 0, fr_Receipt = ex_receipt\<rparr> n = ((ex_built m p)\<lparr>so_store := s\<rparr>, Inr ())
     \<and> solver_reach E ex_solver_cfg [] ((ex_built m p)\<lparr>so_store := s\<rparr>) \<and> store_GetProposal (se_G E) s (BatchID (Header p)) = Inr p"

lemma ex_run:
  "\<exists>m w p me. ex_sealed m w \<and> BuildMeasured list_btree length_hash FullMode w 0 = Inr (p, me)
     \<and> (\<forall>sts packs. snapshot (ex_built m p) \<in> set sts \<longrightarrow> (\<exists>n s. ex_handled (ex_solver_env sts p packs) m p n s))"
proof -
  obtain m w where m: "initializeManager length_hash (ex_start\<lparr>so_bootstrap := [(1, [side_receipt]), (0, [ex_receipt])]\<rparr>) = (ex_start\<lparr>so_manager := Some m\<rparr>, Inr ())"
    "ex_sealed m w" using ex_initialized [of Open_batchstore] unfolding ex_start_def by blast
  obtain p me where b: "BuildMeasured list_btree length_hash FullMode w 0 = Inr (p, me)" using ex_builds [OF m(2)] by blast
  have "\<exists>n s. ex_handled (ex_solver_env sts p packs) m p n s" if st: "snapshot (ex_built m p) \<in> set sts" for sts packs
  proof -
    let ?E = "ex_solver_env sts p packs" and ?n = "ex_start\<lparr>so_bootstrap := [(1, [side_receipt])]\<rparr>" and ?msg = "\<lparr>fr_NodeID = 0, fr_Receipt = ex_receipt\<rparr>"
    have n: "solver_reach ?E ex_solver_cfg [] ?n" by (rule solver_reach.receive [OF ex_first])
    obtain s where s: "HandleReceipt ?E ?msg ?n = ((ex_built m p)\<lparr>so_store := s\<rparr>, Inr ())"
      "store_GetProposal (se_G ?E) s (BatchID (Header p)) = Inr p" using ex_receipt_handled [OF m(2) b st m(1)] by blast
    have "solver_reach ?E ex_solver_cfg [] ((ex_built m p)\<lparr>so_store := s\<rparr>)" by (rule solver_reach.receipt [OF n s(1)])
    then show ?thesis unfolding ex_handled_def using n s by blast
  qed
  then show ?thesis using m(2) b by blast
qed

lemma ex_env_laws:
  "btree_laws (se_bt (ex_solver_env sts p packs)) set (sorted_wrt lessWorkItem)" "codec_laws (sg_state (se_G (ex_solver_env sts p packs)))"
  "codec_laws (sg_proposal (se_G (ex_solver_env sts p packs)))"
  by (simp_all add: lbt.btree_laws_axioms tc.codec_laws_axioms)

lemma ex_run_single: "\<exists>m w p n s. ex_sealed m w \<and> ex_handled (ex_solver_env [snapshot (ex_built m p)] p []) m p n s"
  using ex_run by (metis list.set_intros(1))

theorem solver_history_witness:
  "\<exists>sts p n ps. solver_reach (ex_solver_env sts p []) ex_solver_cfg [] n \<and> so_pending n = [BatchID (Header p)]
     \<and> linked ps \<and> distinct (concat (map proposal_ids ps)) \<and> (\<exists>k. so_pending n = drop k (batch_ids ps))"
proof -
  obtain m p n s where h: "ex_handled (ex_solver_env [snapshot (ex_built m p)] p []) m p n s" using ex_run_single by blast
  let ?n = "(ex_built m p)\<lparr>so_store := s\<rparr>"
  have "so_pending ?n = [BatchID (Header p)]" by (simp add: ex_built_def)
  moreover have "solver_reach (ex_solver_env [snapshot (ex_built m p)] p []) ex_solver_cfg [] ?n" using h by (simp add: ex_handled_def)
  ultimately show ?thesis using solver_history [OF ex_env_laws] by blast
qed

theorem solver_recovers_witness:
  "\<exists>sts p n n'. HandleReceipt (ex_solver_env sts p []) \<lparr>fr_NodeID = 0, fr_Receipt = ex_receipt\<rparr> n = (n', Inr ())
     \<and> so_pending n' = [BatchID (Header p)] \<and> New_Solver (ex_solver_env sts p []) ex_solver_cfg (\<lambda>k. 90) (so_store n') = Inr (restarted (\<lambda>k. 90) n')"
proof -
  obtain m w p n s where h: "ex_sealed m w" "ex_handled (ex_solver_env [snapshot (ex_built m p)] p []) m p n s" using ex_run_single by blast
  let ?n = "(ex_built m p)\<lparr>so_store := s\<rparr>" and ?E = "ex_solver_env [snapshot (ex_built m p)] p []"
  have "{0..<cfg_ShardCount ex_cfg} = {0, 1}" by (auto simp: ex_cfg_def)
  moreover have "mono int" by (rule monoI) simp
  ultimately have "\<forall>m. so_manager ?n = Some m \<longrightarrow> within_bounds m"
    using h(1) by (simp add: ex_built_def within_bounds_def ex_sealed_def)
  moreover have r: "solver_reach ?E ex_solver_cfg [] n" "HandleReceipt ?E \<lparr>fr_NodeID = 0, fr_Receipt = ex_receipt\<rparr> n = (?n, Inr ())"
    using h(2) by (simp_all add: ex_handled_def)
  ultimately have "New_Solver ?E ex_solver_cfg (\<lambda>k. 90) (so_store ?n) = Inr (restarted (\<lambda>k. 90) ?n)"
    using solver_recovers [OF ex_env_laws(2,3) r] by blast
  moreover have "so_pending ?n = [BatchID (Header p)]" by (simp add: ex_built_def)
  ultimately show ?thesis using r(2) by blast
qed

lemma send_packages_all:
  assumes "\<forall>pk \<in> set packs. (\<exists>l. topo_GetLeader (se_topo E) (ss_ShardID (pk_Settlement pk)) = Inr l)
     \<and> (\<exists>b. enc (mc_SettlementPackage (se_C E)) \<lparr>sp_NodeID = 0, sp_Package = pk\<rparr> = Inr b)"
  shows "\<exists>msgs. send_packages E packs n = (n\<lparr>so_out := so_out n @ msgs\<rparr>, Inr ())"
  using assms
proof (induction packs arbitrary: n)
  case Nil
  show ?case by (intro exI [of _ "[]"]) simp
next
  case (Cons pk packs)
  obtain l b where l: "topo_GetLeader (se_topo E) (ss_ShardID (pk_Settlement pk)) = Inr l"
    "enc (mc_SettlementPackage (se_C E)) \<lparr>sp_NodeID = 0, sp_Package = pk\<rparr> = Inr b" using Cons.prems by auto
  let ?w = "([l], \<lparr>MsgType = SettlementPackageMessageType, Payload = b\<rparr>)"
  obtain msgs where "send_packages E packs (n\<lparr>so_out := so_out n @ [?w]\<rparr>) = (n\<lparr>so_out := (so_out n @ [?w]) @ msgs\<rparr>, Inr ())"
    using Cons.IH [of "n\<lparr>so_out := so_out n @ [?w]\<rparr>"] Cons.prems by auto
  then show ?case using l by (intro exI [of _ "?w # msgs"]) (simp add: WrapMsg_def)
qed

theorem HandleFinalized_sends_witness:
  "\<exists>sts p packs n n'. HandleFinalized (ex_solver_env sts p packs) \<lparr>mf_NodeID = 0, mf_Header = Header p\<rparr> n = (n', Inr ())
     \<and> so_pending n = [BatchID (Header p)] \<and> so_pending n' = []
     \<and> (\<exists>packs' msgs. so_out n' = so_out n @ msgs \<and> list_all2 (package_sent (ex_solver_env sts p packs)) packs' msgs)"
proof -
  obtain m w p me where h: "ex_sealed m w" "BuildMeasured list_btree length_hash FullMode w 0 = Inr (p, me)"
    "\<And>sts packs. snapshot (ex_built m p) \<in> set sts \<Longrightarrow> \<exists>n s. ex_handled (ex_solver_env sts p packs) m p n s" using ex_run by blast
  obtain o1 where o: "Build_proposal list_btree length_hash FullMode w 0 = Inr (p, o1)" using h(2) by (auto simp: BuildMeasured_def bind_res_eq_Inr)
  obtain packs where packs: "BuildSettlementPackages length_hash p = Inr packs" "map pk_Settlement packs = ShardSettlements (Sidecar p)"
    using built_packages_verify [OF lbt.btree_laws_axioms o] by blast
  define fin where "fin = (ex_built m p)\<lparr>so_pending := []\<rparr>"
  let ?E = "ex_solver_env [snapshot (ex_built m p), snapshot fin] p packs" and ?msg = "\<lparr>mf_NodeID = 0, mf_Header = Header p\<rparr>"
  obtain n0 s where s: "ex_handled ?E m p n0 s" using h(3) [of "[snapshot (ex_built m p), snapshot fin]" packs] by auto
  let ?n = "(ex_built m p)\<lparr>so_store := s\<rparr>"
  have "ss_ShardID st = 0 \<or> ss_ShardID st = 1" if "st \<in> set (ShardSettlements (Sidecar p))" for st
    using that Build_settlements [OF lbt.btree_laws_axioms o] h(1) by (auto simp: ex_sealed_def spec_settlement_def empty_settlement_def)
  then have "ss_ShardID (pk_Settlement pk) = 0 \<or> ss_ShardID (pk_Settlement pk) = 1" if "pk \<in> set packs" for pk
    using that packs(2) by (metis image_eqI list.set_map)
  then have "(\<exists>l. topo_GetLeader (se_topo ?E) (ss_ShardID (pk_Settlement pk)) = Inr l)
     \<and> (\<exists>b. enc (mc_SettlementPackage (se_C ?E)) \<lparr>sp_NodeID = 0, sp_Package = pk\<rparr> = Inr b)" if "pk \<in> set packs" for pk
    using that table_codec_mem [of "\<lparr>sp_NodeID = 0, sp_Package = pk\<rparr>" "map (\<lambda>pk. \<lparr>sp_NodeID = 0, sp_Package = pk\<rparr>) packs"] by fastforce
  then obtain msgs where ms: "send_packages ?E packs ?n = (?n\<lparr>so_out := so_out ?n @ msgs\<rparr>, Inr ())" using send_packages_all by blast
  let ?n2 = "?n\<lparr>so_out := so_out ?n @ msgs, so_pending := [], so_dispatched := {}\<rparr>"
  have "snapshot ?n2 = snapshot fin" by (simp add: snapshot_def fin_def)
  moreover obtain b where "enc (table_codec [snapshot (ex_built m p), snapshot fin]) (snapshot fin) = Inr b"
    using table_codec_mem [of "snapshot fin" "[snapshot (ex_built m p), snapshot fin]"] by auto
  ultimately have "save ?E ?n2 = (?n2\<lparr>so_store := s\<lparr>bs_state := Some b\<rparr>\<rparr>, Inr ())" by (simp add: save_def SaveState_def)
  then have f: "HandleFinalized ?E ?msg ?n = (?n2\<lparr>so_store := s\<lparr>bs_state := Some b\<rparr>\<rparr>, Inr ())"
    using s ms packs(1) by (simp add: HandleFinalized_def ex_handled_def sendSettlementPackages_def ex_built_def ex_start_def new_solver_def)
  have "solver_reach ?E ex_solver_cfg [] ?n" using s by (simp add: ex_handled_def)
  from HandleFinalized_sends [OF ex_env_laws this f] obtain msgs' packs' where "so_out (?n2\<lparr>so_store := s\<lparr>bs_state := Some b\<rparr>\<rparr>) = so_out ?n @ msgs'"
    "list_all2 (package_sent ?E) packs' msgs'" by blast
  moreover have "so_pending ?n = [BatchID (Header p)]" "so_pending (?n2\<lparr>so_store := s\<lparr>bs_state := Some b\<rparr>\<rparr>) = []" by (simp_all add: ex_built_def)
  ultimately show ?thesis using f by blast
qed

end
