(* ===== verification/Receipts.thy ===== *)
theory Receipts
  imports Messages Chain_Ledger
begin

text \<open>
  Receipts of finalized blocks, \<open>pkg/netting/receipt/receipt.go\<close>, with which a shard tells the solver
  about its blocks, and what the chain guarantees about them: the receipts of the blocks a chain
  adds form the hash chain that the window manager asks for.
\<close>

definition toHash :: "bytes \<Rightarrow> err \<Rightarrow> hash256 res" where
  "toHash value kind = fail_if (length value \<noteq> 32) kind (Inr (word_of_nat (be_val value)))"

definition block_intents :: "hasher \<Rightarrow> int \<Rightarrow> Transaction list \<Rightarrow> PaymentIntent list res" where
  "block_intents H sid txs =
     map_res (\<lambda>tx. case tx_Intent tx of
        None \<Rightarrow> Inl GoPanic
      | Some p \<Rightarrow>
          fail_if (SourceShard p \<noteq> sid) (ErrOther ''receipt contains intent from another source shard'') (
          bind_res (ID H p) (\<lambda>_. Inr p)))
       (filter (\<lambda>tx. TxType tx = IntentSubmitTxType) txs)"

definition Build_receipt ::
    "hasher \<Rightarrow> block_codecs \<Rightarrow> int \<Rightarrow> int \<Rightarrow> Block \<Rightarrow> int \<Rightarrow> FinalizedBlockReceipt res" where
  "Build_receipt H bc sid epoch b commitTime =
     (let h = b_Header b in
      fail_if (bh_Type h \<noteq> TxBlockType) (ErrOther ''cannot build receipt for non-transaction block'') (
      bind_res (header_Hash H bc h) (\<lambda>blockHashBytes.
      bind_res (toHash blockHashBytes (ErrOther ''invalid block hash length'')) (\<lambda>blockHash.
      bind_res (toHash (ParentBlockHash h) (ErrOther ''invalid parent hash length'')) (\<lambda>parentHash.
      bind_res (toHash (StateRoot h) (ErrOther ''invalid state root length'')) (\<lambda>stateRoot.
      bind_res (block_intents H sid (TxList b)) (\<lambda>intents.
      Inr \<lparr>rc_ShardID = sid, rc_Height = bh_Number h, rc_BlockHash = blockHash, rc_ParentHash = parentHash,
           rc_StateRoot = stateRoot, rc_Epoch = epoch, rc_Intents = intents, rc_CommitTime = commitTime\<rparr>))))))) "

definition Publish ::
    "bool \<Rightarrow> int \<Rightarrow> hasher \<Rightarrow> block_codecs \<Rightarrow> msg_codecs \<Rightarrow> TopoGetter \<Rightarrow> int \<Rightarrow> int \<Rightarrow> Block \<Rightarrow> int \<Rightarrow> net \<Rightarrow> net \<times> unit res" where
  "Publish enabled nodeID H bc C topo sid epoch b commitTime out =
     (if \<not> enabled \<or> nodeID \<noteq> 0 then (out, Inr ())
      else case bind_res (Build_receipt H bc sid epoch b commitTime) (\<lambda>finalized.
                bind_res (WrapMsg FinalizedBlockReceiptMessageType
                   (enc (mc_FinalizedBlockReceipt C) \<lparr>fr_NodeID = nodeID, fr_Receipt = finalized\<rparr>)) (\<lambda>wrapped.
                bind_res (GetSolver topo) (\<lambda>solver. Inr (solver, wrapped)))) of
             Inl e \<Rightarrow> (out, Inl e)
           | Inr (solver, wrapped) \<Rightarrow> (out @ [([solver], wrapped)], Inr ()))"

section \<open>The receipts of a chain\<close>

text \<open>The blocks of a chain are numbered from one and each names the hash of the one before it.\<close>

lemma added_links:
  assumes "AddBlock E b c = (c', Inr ())"
  shows "header_Hash (ce_hash E) (ce_block E) (curHeader c) = Inr (ParentBlockHash (b_Header b))"
    "bh_Number (b_Header b) = bh_Number (curHeader c) + 1" "curHeader c' = b_Header b"
    "\<exists>r. StateRoot (b_Header b) = hash_bytes r"
proof -
  have v: "validateBlock E c b = Inr ()" and "curHeader c' = b_Header b" by (rule AddBlock_Inr [OF assms]; auto)+
  then show "header_Hash (ce_hash E) (ce_block E) (curHeader c) = Inr (ParentBlockHash (b_Header b))"
    "bh_Number (b_Header b) = bh_Number (curHeader c) + 1" "curHeader c' = b_Header b"
    by (auto simp: validateBlock_def Let_def bind_res_eq_Inr fail_if_eq_Inr)
  show "\<exists>r. StateRoot (b_Header b) = hash_bytes r"
  proof (rule AddBlock_Inr [OF assms])
    fix c1
    assume u: "updateTrieByBlock E b c = (c1, Inr (StateRoot (b_Header b), LocationRoot (b_Header b)))"
    show ?thesis by (rule updateTrieByBlock_Inr [OF u]) blast
  qed
qed

lemma chain_run_links:
  "chain_run E c bs \<Longrightarrow> bh_Number (curHeader c) = word_of_nat (length bs) \<and> (bs \<noteq> [] \<longrightarrow> curHeader c = b_Header (last bs))
     \<and> (\<forall>i < length bs. bh_Number (b_Header (bs ! i)) = word_of_nat (Suc i))
     \<and> (\<forall>i. Suc i < length bs \<longrightarrow>
          header_Hash (ce_hash E) (ce_block E) (b_Header (bs ! i)) = Inr (ParentBlockHash (b_Header (bs ! Suc i))))"
proof (induction rule: chain_run.induct)
  case (added c bs b c')
  note a = added_links [OF added.hyps(2)]
  have "bh_Number (b_Header ((bs @ [b]) ! i)) = word_of_nat (Suc i)" if "i < length (bs @ [b])" for i
    using that added.IH a(2) by (cases "i < length bs") (auto simp: nth_append less_Suc_eq add.commute)
  moreover have "header_Hash (ce_hash E) (ce_block E) (b_Header ((bs @ [b]) ! i)) = Inr (ParentBlockHash (b_Header ((bs @ [b]) ! Suc i)))"
    if "Suc i < length (bs @ [b])" for i
  proof (cases "Suc i < length bs")
    case True
    then show ?thesis using added.IH by (simp add: nth_append)
  next
    case False
    then have "i = length bs - 1" "bs \<noteq> []" using that by auto
    then show ?thesis using added.IH a(1) by (simp add: nth_append last_conv_nth)
  qed
  ultimately show ?case using added.IH a by (auto simp: add.commute)
next
  case (refused c bs b c' e)
  then show ?case using AddBlock_Inl [OF refused.hyps(2)] by simp
next
  case (confirmed c bs h c' r)
  then have "curHeader c' = curHeader c" by (auto simp: ConfirmMatchRoot_def split: if_splits option.splits)
  then show ?case using confirmed by simp
qed (auto simp: UpdateEpoch_def)

lemma block_intents_Inr:
  "block_intents H sid txs = Inr ints \<Longrightarrow>
     map Some ints = map tx_Intent (filter (\<lambda>tx. TxType tx = IntentSubmitTxType) txs) \<and> (\<forall>p \<in> set ints. SourceShard p = sid)"
  by (induction txs arbitrary: ints) (auto simp: block_intents_def bind_res_eq_Inr fail_if_eq_Inr split: if_splits option.splits)

lemma toHash_hash_bytes: "toHash (hash_bytes x) e = Inr x"
  by (simp add: toHash_def be_val_hash_bytes)

lemma header_Hash_bytes: "header_Hash H bc h = Inr v \<Longrightarrow> \<exists>x. v = hash_bytes x"
  by (auto simp: header_Hash_def bind_res_eq_Inr)

text \<open>
  C8. The receipt of a block that a chain adds ties the header before the block to the header after it: its parent
  hash and its block hash are the hashes of the two, its height is the number of blocks of the
  chain, and it lists the payment intents of the block in their order, all of them of the shard. So the
  receipts of successive transaction blocks form the hash chain that the window manager advances along.
\<close>

theorem receipt_of_block:
  assumes "chain_run E c bs" "AddBlock E b c = (c', Inr ())"
    "Build_receipt (ce_hash E) (ce_block E) sid epoch b t = Inr r"
  shows "rc_Height r = word_of_nat (length bs + 1)
    \<and> header_Hash (ce_hash E) (ce_block E) (curHeader c) = Inr (hash_bytes (rc_ParentHash r))
    \<and> header_Hash (ce_hash E) (ce_block E) (curHeader c') = Inr (hash_bytes (rc_BlockHash r))
    \<and> map Some (rc_Intents r) = map tx_Intent (filter (\<lambda>tx. TxType tx = IntentSubmitTxType) (TxList b))
    \<and> (\<forall>p \<in> set (rc_Intents r). SourceShard p = sid)"
proof -
  note a = added_links [OF assms(2)]
  obtain x y z ints where r: "header_Hash (ce_hash E) (ce_block E) (b_Header b) = Inr x" "toHash x (ErrOther ''invalid block hash length'') = Inr y"
      "toHash (ParentBlockHash (b_Header b)) (ErrOther ''invalid parent hash length'') = Inr z"
      "block_intents (ce_hash E) sid (TxList b) = Inr ints"
    and f: "rc_Height r = bh_Number (b_Header b)" "rc_BlockHash r = y" "rc_ParentHash r = z" "rc_Intents r = ints"
    using assms(3) by (auto simp: Build_receipt_def Let_def bind_res_eq_Inr fail_if_eq_Inr)
  have "hash_bytes y = x" "hash_bytes z = ParentBlockHash (b_Header b)"
    using r header_Hash_bytes [OF r(1)] header_Hash_bytes [OF a(1)] by (auto simp: toHash_hash_bytes)
  moreover have "rc_Height r = word_of_nat (length bs + 1)" using f(1) a(2) chain_run_links [OF assms(1)] by (simp add: add.commute)
  moreover have "map Some ints = map tx_Intent (filter (\<lambda>tx. TxType tx = IntentSubmitTxType) (TxList b)) \<and> (\<forall>p \<in> set ints. SourceShard p = sid)"
    using block_intents_Inr [OF r(4)] .
  ultimately show ?thesis using f r(1) a(1,3) by simp
qed

text \<open>
  A migration block has no receipt, so a window manager that follows the chain waits for its height for ever.
\<close>

lemma migration_has_no_receipt:
  "bh_Type (b_Header b) = MigrationBlockType \<Longrightarrow> \<exists>e. Build_receipt H bc sid epoch b t = Inl e"
  by (simp add: Build_receipt_def Let_def TxBlockType_def MigrationBlockType_def)

theorem receipt_of_block_witness:
  "\<exists>b c' r. AddBlock (example_env no_codec) b example_chain = (c', Inr ())
     \<and> Build_receipt (ce_hash (example_env no_codec)) (ce_block (example_env no_codec)) 0 0 b 9 = Inr r
     \<and> TxList b = [example_tx] \<and> rc_Height r = 1 \<and> rc_Intents r = []"
proof (rule example_generates)
  fix b h
  assume g: "\<And>g. GenerateBlock (example_env g) example_chain 7 1 TxBlockType [example_tx] no_migration = Inr b"
    and b: "b = \<lparr>b_Header = h, TxList = [example_tx], b_Migration = no_migration\<rparr>"
  let ?E = "example_env no_codec"
  have w: "well_shaped TxBlockType [example_tx] no_migration" by (simp add: well_shaped_def no_migration_def)
  have l: "bitset_laws (ce_bits ?E)" "vm_laws (ce_geth ?E) (ce_vm ?E)" "trie_store_laws (ce_loc ?E)"
    by (simp_all add: example_env_def lb.bitset_laws_axioms mv.vm_laws_axioms rt.eth.trie_store_laws_axioms)
  have v: "validateBlock ?E example_chain b = Inr ()" using generated_valid [OF l(1) g w] .
  have en: "enc (gob_Block (ce_block ?E)) b = Inr [1]" by (simp add: example_env_def no_codec_def)
  obtain hb where hb: "rlp_header (ce_block ?E) (b_Header b) = Inr hb" by (simp add: example_env_def)
  obtain c' where a: "AddBlock ?E b example_chain = (c', Inr ())"
    using AddBlock_succeeds [OF l(2,3) v _ en hb] example_commits [of no_codec h] b by auto
  have c: "chain_run ?E example_chain []" by (rule fresh) (simp_all add: example_chain_def empty_header_def)
  have ty: "bh_Type (b_Header b) = TxBlockType"
    using g [of no_codec] by (auto simp: GenerateBlock_def Let_def bind_res_eq_Inr NewBlock_def split: if_splits prod.splits)
  obtain x where x: "header_Hash (ce_hash ?E) (ce_block ?E) (b_Header b) = Inr (hash_bytes x)" using hb by (simp add: header_Hash_def)
  obtain z where z: "ParentBlockHash (b_Header b) = hash_bytes z" using header_Hash_bytes [OF added_links(1) [OF a]] by blast
  obtain s where s: "StateRoot (b_Header b) = hash_bytes s" using added_links(4) [OF a] by blast
  have "TxType example_tx \<noteq> IntentSubmitTxType" by (simp add: example_tx_def TxType_def NewTransaction_def zero_tx_def tx_type_defs)
  then have i: "block_intents (ce_hash ?E) 0 (TxList b) = Inr []" using b by (simp add: block_intents_def)
  obtain r where r: "Build_receipt (ce_hash ?E) (ce_block ?E) 0 0 b 9 = Inr r"
    using ty x z s i by (simp add: Build_receipt_def Let_def toHash_hash_bytes)
  from receipt_of_block [OF c a r] have "rc_Height r = 1" "rc_Intents r = []"
    using \<open>TxType example_tx \<noteq> IntentSubmitTxType\<close> b by auto
  then show ?thesis using a r b by auto
qed

end
