(* ===== verification/Pbft_Correct.thy ===== *)
theory Pbft_Correct
  imports Pbft
begin

text \<open>
  Correctness of the PBFT engine: the message pool refines a multiset read in order, a proposal is
  delivered only with a quorum of matching prepare and commit messages, two quorums meet in a
  correct node when there are \<open>3 f + 1\<close> nodes, and a round with enough messages ends.
\<close>

section \<open>The order of view and sequence numbers\<close>

definition vs_key :: "ViewSeq \<Rightarrow> int \<times> int" where
  "vs_key v = (View v, Seq v)"

lemma Compare_iff:
  "Compare a b = -1 \<longleftrightarrow> vs_key a < vs_key b" "Compare a b = 0 \<longleftrightarrow> vs_key a = vs_key b" "Compare a b > 0 \<longleftrightarrow> vs_key b < vs_key a"
  by (auto simp: Compare_def vs_key_def less_prod_def)

lemma vs_key_inj: "vs_key a = vs_key b \<longleftrightarrow> a = b"
  by (cases a; cases b) (simp add: vs_key_def)

section \<open>The message pool as a multiset\<close>

locale message_queue = keyed lt "\<lambda>m. vs_key (vs m)" for lt :: "'m \<Rightarrow> 'm \<Rightarrow> bool" and vs :: "'m \<Rightarrow> ViewSeq"
begin

lemma read_msgs_spec:
  assumes "invar items" "read_msgs lt vs end items ret = (out, rest)"
  shows "\<exists>got. out = ret @ got \<and> sorted (map (\<lambda>m. vs_key (vs m)) got)
    \<and> mset got = {#m \<in># mset items. vs_key (vs m) \<le> vs_key end#}
    \<and> mset rest = {#m \<in># mset items. vs_key end < vs_key (vs m)#} \<and> invar rest"
  using assms
proof (induction "length items" arbitrary: items ret rule: less_induct)
  case less
  show ?case
  proof (cases "PopItem lt items")
    case None
    then have "items = []" using PopItem_Some [of items] by auto
    then show ?thesis using less.prems None by (auto simp: read_msgs.simps [of lt vs "end" "[]"])
  next
    case (Some tr)
    obtain item left where i: "PopItem lt items = Some (item, left)" using Some by (cases tr) auto
    note p = PopItem_spec [OF less.prems(1) i]
    show ?thesis
    proof (cases "Compare end (vs item) = -1")
      case True
      then have o: "out = ret" "rest = PushItem lt item left"
        using less.prems(2) i by (auto simp: read_msgs.simps [of lt vs "end" items])
      have k: "vs_key end < vs_key (vs m)" if "m \<in># mset items" for m
        using that p(2,3) True by (auto simp: Compare_iff)
      have "{#m \<in># mset items. vs_key (vs m) \<le> vs_key end#} = {#}"
        using filter_mset_cong [OF refl, of "mset items" _ "\<lambda>m. False"] k by (auto simp: not_le)
      moreover have "{#m \<in># mset items. vs_key end < vs_key (vs m)#} = mset items"
        using k by (simp add: filter_mset_eq_conv)
      ultimately show ?thesis using o PushItem_spec [OF p(1), of item] p(2) by auto
    next
      case False
      then have le: "vs_key (vs item) \<le> vs_key end" by (simp add: Compare_iff not_less)
      have r: "read_msgs lt vs end left (ret @ [item]) = (out, rest)"
        using less.prems(2) i False by (simp add: read_msgs.simps [of lt vs "end" items])
      obtain got where g: "out = (ret @ [item]) @ got" "sorted (map (\<lambda>m. vs_key (vs m)) got)"
          "mset got = {#m \<in># mset left. vs_key (vs m) \<le> vs_key end#}"
          "mset rest = {#m \<in># mset left. vs_key end < vs_key (vs m)#}" "invar rest"
        using less.hyps [OF PopItem_length [OF i] p(1) r] by blast
      have "\<forall>m \<in> set got. vs_key (vs item) \<le> vs_key (vs m)"
        using p(3) g(3) by (metis filter_mset_eq_conv set_mset_mset mset_subset_eqD multiset_filter_subset)
      then have "sorted (map (\<lambda>m. vs_key (vs m)) (item # got))" using g(2) by simp
      moreover have "mset (item # got) = {#m \<in># mset items. vs_key (vs m) \<le> vs_key end#}" using g(3) p(2) le by simp
      moreover have "mset rest = {#m \<in># mset items. vs_key end < vs_key (vs m)#}" using g(4) p(2) le by simp
      ultimately show ?thesis using g(1,5) by (intro exI [of _ "item # got"]) simp
    qed
  qed
qed

end

interpretation ppq: message_queue PreprepareMsgLess pp_vs
  by unfold_locales (simp add: PreprepareMsgLess_def Compare_iff)

interpretation prq: message_queue PrepareMsgLess pr_vs
  by unfold_locales (simp add: PrepareMsgLess_def Compare_iff)

interpretation cmq: message_queue CommitMsgLess cm_vs
  by unfold_locales (simp add: CommitMsgLess_def Compare_iff)

text \<open>The abstract pool: three multisets. A read removes everything that is not after its bound.\<close>

type_synonym abstract_pool = "PreprepareMsg multiset \<times> PrepareMsg multiset \<times> CommitMsg multiset"

inductive pool_run :: "MsgPool \<Rightarrow> abstract_pool \<Rightarrow> bool" where
  new: "pool_run NewMsgPool ({#}, {#}, {#})"
| push_preprepare: "pool_run p (A, B, C) \<Longrightarrow> pool_run (PushPreprepareMsg m p) (add_mset m A, B, C)"
| push_prepare: "pool_run p (A, B, C) \<Longrightarrow> pool_run (PushPrepareMsg m' p) (A, add_mset m' B, C)"
| push_commit: "pool_run p (A, B, C) \<Longrightarrow> pool_run (PushCommitMsg m'' p) (A, B, add_mset m'' C)"
| read_preprepare: "pool_run p (A, B, C) \<Longrightarrow> ReadPreprepareMsg e p = (ms, p') \<Longrightarrow>
    pool_run p' ({#m \<in># A. vs_key e < vs_key (pp_vs m)#}, B, C)"
| read_prepare: "pool_run p (A, B, C) \<Longrightarrow> ReadPrepareMsg e p = (ms', p') \<Longrightarrow>
    pool_run p' (A, {#m \<in># B. vs_key e < vs_key (pr_vs m)#}, C)"
| read_commit: "pool_run p (A, B, C) \<Longrightarrow> ReadCommitMsg e p = (ms'', p') \<Longrightarrow>
    pool_run p' (A, B, {#m \<in># C. vs_key e < vs_key (cm_vs m)#})"

definition pool_abs :: "MsgPool \<Rightarrow> abstract_pool" where
  "pool_abs p = (mset (preprepares p), mset (prepares p), mset (commits p))"

definition pool_ok :: "MsgPool \<Rightarrow> bool" where
  "pool_ok p \<longleftrightarrow> ppq.invar (preprepares p) \<and> prq.invar (prepares p) \<and> cmq.invar (commits p)"

lemma ReadPreprepareMsg_spec:
  assumes "pool_ok p" "ReadPreprepareMsg e p = (ms, p')"
  shows "sorted (map (\<lambda>m. vs_key (pp_vs m)) ms) \<and> mset ms = {#m \<in># mset (preprepares p). vs_key (pp_vs m) \<le> vs_key e#}
    \<and> pool_ok p' \<and> pool_abs p' = ({#m \<in># mset (preprepares p). vs_key e < vs_key (pp_vs m)#}, mset (prepares p), mset (commits p))"
proof -
  obtain rest where r: "read_msgs PreprepareMsgLess pp_vs e (preprepares p) [] = (ms, rest)" "p' = p\<lparr>preprepares := rest\<rparr>"
    using assms(2) by (auto simp: ReadPreprepareMsg_def split: prod.splits)
  have "ppq.invar (preprepares p)" using assms(1) by (simp add: pool_ok_def)
  from ppq.read_msgs_spec [OF this r(1)] show ?thesis using assms(1) r(2) by (auto simp: pool_ok_def pool_abs_def)
qed

lemma ReadPrepareMsg_spec:
  assumes "pool_ok p" "ReadPrepareMsg e p = (ms, p')"
  shows "sorted (map (\<lambda>m. vs_key (pr_vs m)) ms) \<and> mset ms = {#m \<in># mset (prepares p). vs_key (pr_vs m) \<le> vs_key e#}
    \<and> pool_ok p' \<and> pool_abs p' = (mset (preprepares p), {#m \<in># mset (prepares p). vs_key e < vs_key (pr_vs m)#}, mset (commits p))"
proof -
  obtain rest where r: "read_msgs PrepareMsgLess pr_vs e (prepares p) [] = (ms, rest)" "p' = p\<lparr>prepares := rest\<rparr>"
    using assms(2) by (auto simp: ReadPrepareMsg_def split: prod.splits)
  have "prq.invar (prepares p)" using assms(1) by (simp add: pool_ok_def)
  from prq.read_msgs_spec [OF this r(1)] show ?thesis using assms(1) r(2) by (auto simp: pool_ok_def pool_abs_def)
qed

lemma ReadCommitMsg_spec:
  assumes "pool_ok p" "ReadCommitMsg e p = (ms, p')"
  shows "sorted (map (\<lambda>m. vs_key (cm_vs m)) ms) \<and> mset ms = {#m \<in># mset (commits p). vs_key (cm_vs m) \<le> vs_key e#}
    \<and> pool_ok p' \<and> pool_abs p' = (mset (preprepares p), mset (prepares p), {#m \<in># mset (commits p). vs_key e < vs_key (cm_vs m)#})"
proof -
  obtain rest where r: "read_msgs CommitMsgLess cm_vs e (commits p) [] = (ms, rest)" "p' = p\<lparr>commits := rest\<rparr>"
    using assms(2) by (auto simp: ReadCommitMsg_def split: prod.splits)
  have "cmq.invar (commits p)" using assms(1) by (simp add: pool_ok_def)
  from cmq.read_msgs_spec [OF this r(1)] show ?thesis using assms(1) r(2) by (auto simp: pool_ok_def pool_abs_def)
qed

lemmas read_specs = ReadPreprepareMsg_spec ReadPrepareMsg_spec ReadCommitMsg_spec

lemma push_specs:
  "pool_ok p \<Longrightarrow> pool_ok (PushPreprepareMsg m p)
     \<and> pool_abs (PushPreprepareMsg m p) = (add_mset m (mset (preprepares p)), mset (prepares p), mset (commits p))"
  "pool_ok p \<Longrightarrow> pool_ok (PushPrepareMsg m' p)
     \<and> pool_abs (PushPrepareMsg m' p) = (mset (preprepares p), add_mset m' (mset (prepares p)), mset (commits p))"
  "pool_ok p \<Longrightarrow> pool_ok (PushCommitMsg m'' p)
     \<and> pool_abs (PushCommitMsg m'' p) = (mset (preprepares p), mset (prepares p), add_mset m'' (mset (commits p)))"
  using ppq.PushItem_spec [of "preprepares p" m] prq.PushItem_spec [of "prepares p" m'] cmq.PushItem_spec [of "commits p" m'']
  by (auto simp: pool_ok_def pool_abs_def PushPreprepareMsg_def PushPrepareMsg_def PushCommitMsg_def)

lemma new_pool: "pool_ok NewMsgPool" "pool_abs NewMsgPool = ({#}, {#}, {#})"
  using ppq.invar_Nil prq.invar_Nil cmq.invar_Nil by (simp_all add: pool_ok_def pool_abs_def NewMsgPool_def)

lemma pool_run_abs: "pool_run p S \<Longrightarrow> pool_ok p \<and> pool_abs p = S"
proof (induction rule: pool_run.induct)
  case new
  show ?case by (simp add: new_pool)
next
  case (push_preprepare p A B C m)
  then show ?case using push_specs(1) [of p m] by (auto simp: pool_abs_def)
next
  case (push_prepare p A B C m)
  then show ?case using push_specs(2) [of p m] by (auto simp: pool_abs_def)
next
  case (push_commit p A B C m)
  then show ?case using push_specs(3) [of p m] by (auto simp: pool_abs_def)
next
  case (read_preprepare p A B C e ms p')
  then show ?case using read_specs(1) [of p e ms p'] by (auto simp: pool_abs_def)
next
  case (read_prepare p A B C e ms p')
  then show ?case using read_specs(2) [of p e ms p'] by (auto simp: pool_abs_def)
next
  case (read_commit p A B C e ms p')
  then show ?case using read_specs(3) [of p e ms p'] by (auto simp: pool_abs_def)
qed

section \<open>Certificates\<close>

text \<open>What a node has received: the messages of each kind that decode.\<close>

definition got_preprepares :: "wire \<Rightarrow> WrappedMsg list \<Rightarrow> PreprepareMsg set" where
  "got_preprepares W hist = {m. \<exists>w \<in> set hist. MsgType w = PreprepareMessageType \<and> dec (w_preprepare W) (Payload w) = Inr m}"

definition got_prepares :: "wire \<Rightarrow> WrappedMsg list \<Rightarrow> PrepareMsg set" where
  "got_prepares W hist = {m. \<exists>w \<in> set hist. MsgType w = PrepareMessageType \<and> dec (w_prepare W) (Payload w) = Inr m}"

definition got_commits :: "wire \<Rightarrow> WrappedMsg list \<Rightarrow> CommitMsg set" where
  "got_commits W hist = {m. \<exists>w \<in> set hist. MsgType w = CommitMessageType \<and> dec (w_commit W) (Payload w) = Inr m}"

definition prepare_senders :: "wire \<Rightarrow> WrappedMsg list \<Rightarrow> PreprepareMsg \<Rightarrow> NodeInfo set" where
  "prepare_senders W hist pp = (\<lambda>m. \<lparr>NodeID = pr_NodeID m, ShardID = pr_ShardID m\<rparr>)
     ` {m \<in> got_prepares W hist. pr_vs m = pp_vs pp \<and> pr_Digest m = pp_Digest pp}"

definition commit_senders :: "wire \<Rightarrow> WrappedMsg list \<Rightarrow> PreprepareMsg \<Rightarrow> NodeInfo set" where
  "commit_senders W hist pp = (\<lambda>m. \<lparr>NodeID = cm_NodeID m, ShardID = cm_ShardID m\<rparr>)
     ` {m \<in> got_commits W hist. cm_vs m = pp_vs pp \<and> cm_Digest m = pp_Digest pp}"

definition certified :: "wire \<Rightarrow> WrappedMsg list \<Rightarrow> int \<Rightarrow> PreprepareMsg \<Rightarrow> bool" where
  "certified W hist f pp \<longleftrightarrow> pp \<in> got_preprepares W hist
     \<and> 2 * f + 1 \<le> int (card (prepare_senders W hist pp)) \<and> 2 * f + 1 \<le> int (card (commit_senders W hist pp))"

lemma finite_got: "finite (got_prepares W hist)" "finite (got_commits W hist)"
proof -
  have "got_prepares W hist \<subseteq> (\<lambda>w. projr (dec (w_prepare W) (Payload w))) ` set hist"
    "got_commits W hist \<subseteq> (\<lambda>w. projr (dec (w_commit W) (Payload w))) ` set hist"
    by (force simp: got_prepares_def got_commits_def)+
  then show "finite (got_prepares W hist)" "finite (got_commits W hist)" using finite_subset by blast+
qed

lemma finite_senders [simp]: "finite (prepare_senders W hist pp)" "finite (commit_senders W hist pp)"
  by (simp_all add: prepare_senders_def commit_senders_def finite_got)

lemma senders_mono:
  assumes "set hist \<subseteq> set hist'"
  shows "got_preprepares W hist \<subseteq> got_preprepares W hist'" "got_prepares W hist \<subseteq> got_prepares W hist'"
    "got_commits W hist \<subseteq> got_commits W hist'"
    "prepare_senders W hist pp \<subseteq> prepare_senders W hist' pp" "commit_senders W hist pp \<subseteq> commit_senders W hist' pp"
  using assms by (auto simp: got_preprepares_def got_prepares_def got_commits_def prepare_senders_def commit_senders_def)

lemma certified_mono:
  assumes "set hist \<subseteq> set hist'" "certified W hist f pp"
  shows "certified W hist' f pp"
proof -
  have "card (prepare_senders W hist pp) \<le> card (prepare_senders W hist' pp)"
    "card (commit_senders W hist pp) \<le> card (commit_senders W hist' pp)"
    by (intro card_mono finite_senders senders_mono [OF assms(1)])+
  then show ?thesis using assms(2) senders_mono(1) [OF assms(1), of W] by (auto simp: certified_def)
qed

section \<open>The invariant of a round\<close>

definition meta_ok :: "wire \<Rightarrow> WrappedMsg list \<Rightarrow> consensusMeta \<Rightarrow> bool" where
  "meta_ok W hist c \<longleftrightarrow>
     pool_ok (msgPool c) \<and> set (preprepares (msgPool c)) \<subseteq> got_preprepares W hist
     \<and> set (prepares (msgPool c)) \<subseteq> got_prepares W hist \<and> set (commits (msgPool c)) \<subseteq> got_commits W hist
     \<and> (case curPreprepare c of
          None \<Rightarrow> prepareSet c = {} \<and> commitSet c = {} \<and> stage c = stagePreprepare
        | Some pp \<Rightarrow> pp \<in> got_preprepares W hist \<and> pp_vs pp = curViewSeq c \<and> pp_NodeID pp = leader c
            \<and> prepareSet c \<subseteq> prepare_senders W hist pp \<and> commitSet c \<subseteq> commit_senders W hist pp
            \<and> (stage c = stageCommit \<longrightarrow> 2 * faulty c + 1 \<le> int (card (prepareSet c))))
     \<and> (\<forall>p. lastProposal c = Some p \<longrightarrow> (\<exists>pp. pp_P pp = p \<and> pp_NodeID pp = leader c \<and> certified W hist (faulty c) pp
          \<and> pp_View pp = View (curViewSeq c) \<and> wrap_int64 (pp_Seq pp + 1) = Seq (curViewSeq c)))"

lemma meta_ok_mono:
  assumes s: "set hist \<subseteq> set hist'" and m: "meta_ok W hist c"
  shows "meta_ok W hist' c"
proof -
  note mono = senders_mono [OF s, of W]
  show ?thesis
    using m certified_mono [OF s, of W] mono(1-3) mono(4,5) [THEN subset_trans [rotated]]
    by (auto simp: meta_ok_def split: option.splits) blast+
qed

lemma meta_ok_new: "meta_ok W [] (newConsensusMeta nodeNum blockInterval shard node now)"
  by (simp add: meta_ok_def newConsensusMeta_def new_pool) (simp add: NewMsgPool_def)

text \<open>What a read returns and leaves is part of what was in the pool.\<close>

lemma read_sets:
  assumes "pool_ok p"
  shows "ReadPreprepareMsg e p = (ms, p') \<Longrightarrow> pool_ok p' \<and> set ms \<subseteq> set (preprepares p)
      \<and> set (preprepares p') \<subseteq> set (preprepares p) \<and> set (prepares p') = set (prepares p) \<and> set (commits p') = set (commits p)"
    "ReadPrepareMsg e p = (ms', p') \<Longrightarrow> pool_ok p' \<and> set ms' \<subseteq> set (prepares p)
      \<and> set (preprepares p') = set (preprepares p) \<and> set (prepares p') \<subseteq> set (prepares p) \<and> set (commits p') = set (commits p)"
    "ReadCommitMsg e p = (ms'', p') \<Longrightarrow> pool_ok p' \<and> set ms'' \<subseteq> set (commits p)
      \<and> set (preprepares p') = set (preprepares p) \<and> set (prepares p') = set (prepares p) \<and> set (commits p') \<subseteq> set (commits p)"
proof -
  have sub: "mset xs = filter_mset P (mset ys) \<Longrightarrow> set xs \<subseteq> set ys" for xs ys :: "'x list" and P
    by (metis filter_mset_eq_conv set_mset_mset multiset_filter_subset set_mset_mono)
  have same: "mset xs = mset ys \<Longrightarrow> set xs = set ys" for xs ys :: "'x list" by (rule mset_eq_setD)
  show "ReadPreprepareMsg e p = (ms, p') \<Longrightarrow> pool_ok p' \<and> set ms \<subseteq> set (preprepares p)
      \<and> set (preprepares p') \<subseteq> set (preprepares p) \<and> set (prepares p') = set (prepares p) \<and> set (commits p') = set (commits p)"
    using read_specs(1) [OF assms, of e ms p'] by (auto simp: pool_abs_def dest: sub same)
  show "ReadPrepareMsg e p = (ms', p') \<Longrightarrow> pool_ok p' \<and> set ms' \<subseteq> set (prepares p)
      \<and> set (preprepares p') = set (preprepares p) \<and> set (prepares p') \<subseteq> set (prepares p) \<and> set (commits p') = set (commits p)"
    using read_specs(2) [OF assms, of e ms' p'] by (auto simp: pool_abs_def dest: sub same)
  show "ReadCommitMsg e p = (ms'', p') \<Longrightarrow> pool_ok p' \<and> set ms'' \<subseteq> set (commits p)
      \<and> set (preprepares p') = set (preprepares p) \<and> set (prepares p') = set (prepares p) \<and> set (commits p') \<subseteq> set (commits p)"
    using read_specs(3) [OF assms, of e ms'' p'] by (auto simp: pool_abs_def dest: sub same)
qed

lemma meta_ok_preprepare:
  assumes m: "meta_ok W hist c"
  shows "meta_ok W hist (curate_preprepare c)"
proof (cases "curPreprepare c")
  case None
  obtain ms pool where r: "ReadPreprepareMsg (curViewSeq c) (msgPool c) = (ms, pool)" by fastforce
  have ok: "pool_ok (msgPool c)" using m by (simp add: meta_ok_def)
  note s = read_sets(1) [OF ok r]
  have f: "m \<in> set ms \<and> pp_vs m = curViewSeq c \<and> pp_NodeID m = leader c"
    if "find (\<lambda>m. Compare (curViewSeq c) (pp_vs m) = 0 \<and> pp_NodeID m = leader c) ms = Some m" for m
    using that by (auto simp: find_Some_iff Compare_iff vs_key_inj)
  define fnd where "fnd = find (\<lambda>m. Compare (curViewSeq c) (pp_vs m) = 0 \<and> pp_NodeID m = leader c) ms"
  have e: "curate_preprepare c = c\<lparr>msgPool := pool, curPreprepare := fnd\<rparr>"
    using None by (simp add: curate_preprepare_def r fnd_def)
  have z: "prepareSet c = {}" "commitSet c = {}" "stage c = stagePreprepare" using m None by (simp_all add: meta_ok_def)
  have g: "set ms \<subseteq> got_preprepares W hist" using s m by (auto simp: meta_ok_def)
  show ?thesis
  proof (cases fnd)
    case None
    then show ?thesis using m s z unfolding e by (simp add: meta_ok_def) (meson subset_trans)
  next
    case (Some pp)
    have "pp \<in> got_preprepares W hist" "pp_vs pp = curViewSeq c" "pp_NodeID pp = leader c" using f [of pp] g Some by (auto simp: fnd_def)
    then show ?thesis using m s z Some unfolding e by (simp add: meta_ok_def stage_defs) (meson subset_trans)
  qed
next
  case (Some pp)
  then show ?thesis using m by (simp add: curate_preprepare_def)
qed

lemma meta_ok_prepares:
  assumes m: "meta_ok W hist c" and pp: "curPreprepare c = Some pp"
  shows "meta_ok W hist (curate_prepares pp c) \<and> curPreprepare (curate_prepares pp c) = Some pp"
proof -
  obtain ms pool where r: "ReadPrepareMsg (curViewSeq c) (msgPool c) = (ms, pool)" by fastforce
  have ok: "pool_ok (msgPool c)" using m by (simp add: meta_ok_def)
  note s = read_sets(2) [OF ok r]
  define new where "new = (\<lambda>m. \<lparr>NodeID = pr_NodeID m, ShardID = pr_ShardID m\<rparr>)
      ` set (filter (\<lambda>m. Compare (curViewSeq c) (pr_vs m) = 0 \<and> pr_Digest m = pp_Digest pp) ms)"
  have v: "pp_vs pp = curViewSeq c" and sub: "prepareSet c \<subseteq> prepare_senders W hist pp" using m pp by (auto simp: meta_ok_def)
  have n: "new \<subseteq> prepare_senders W hist pp"
    using s m v by (auto simp: new_def prepare_senders_def meta_ok_def Compare_iff vs_key_inj)
  have "card (prepareSet c) \<le> card (prepareSet c \<union> new)"
    by (rule card_mono) (use sub n finite_subset [OF _ finite_senders(1)] in auto)
  moreover have "curate_prepares pp c = c\<lparr>msgPool := pool, prepareSet := prepareSet c \<union> new\<rparr>"
    by (simp add: curate_prepares_def r new_def)
  ultimately show ?thesis using m s pp n by (auto simp: meta_ok_def)
qed

lemma meta_ok_commits:
  assumes m: "meta_ok W hist c" and pp: "curPreprepare c = Some pp"
  shows "meta_ok W hist (curate_commits pp c)"
proof -
  obtain ms pool where r: "ReadCommitMsg (curViewSeq c) (msgPool c) = (ms, pool)" by fastforce
  have ok: "pool_ok (msgPool c)" using m by (simp add: meta_ok_def)
  note s = read_sets(3) [OF ok r]
  define new where "new = (\<lambda>m. \<lparr>NodeID = cm_NodeID m, ShardID = cm_ShardID m\<rparr>)
      ` set (filter (\<lambda>m. Compare (curViewSeq c) (cm_vs m) = 0 \<and> cm_Digest m = pp_Digest pp) ms)"
  have v: "pp_vs pp = curViewSeq c" using m pp by (auto simp: meta_ok_def)
  have n: "new \<subseteq> commit_senders W hist pp"
    using s m v by (auto simp: new_def commit_senders_def meta_ok_def Compare_iff vs_key_inj)
  moreover have "curate_commits pp c = c\<lparr>msgPool := pool, commitSet := commitSet c \<union> new\<rparr>"
    by (simp add: curate_commits_def r new_def)
  ultimately show ?thesis using m s pp by (auto simp: meta_ok_def)
qed

lemma meta_ok_curate: "meta_ok W hist c \<Longrightarrow> meta_ok W hist (curateMsg c)"
  using meta_ok_preprepare [of W hist c] meta_ok_prepares [of W hist "curate_preprepare c"] meta_ok_commits [of W hist]
  by (auto simp: curateMsg_def Let_def split: option.splits)

lemma step2Next_cases:
  assumes "curPreprepare c = Some pp" "step2Next c = (c', r)"
  shows "c' = c \<or> c' = c\<lparr>stage := stagePrepare\<rparr> \<or> c' = c\<lparr>stage := stageCommit\<rparr> \<and> 2 * faulty c + 1 \<le> int (card (prepareSet c))
    \<or> c' = next_round (pp_P pp) c \<and> stage c = stageCommit \<and> 2 * faulty c + 1 \<le> int (card (commitSet c))"
  using assms by (simp add: step2Next_def split: if_splits)

lemma meta_ok_step:
  assumes m: "meta_ok W hist c" and st: "step2Next c = (c', r)"
  shows "meta_ok W hist c'"
proof (cases "curPreprepare c")
  case None
  then have "c' = c" using m st by (auto simp: meta_ok_def step2Next_def stage_defs split: if_splits)
  then show ?thesis using m by simp
next
  case (Some pp)
  note cs = step2Next_cases [OF Some st]
  show ?thesis
  proof (cases "c' = next_round (pp_P pp) c \<and> stage c = stageCommit \<and> 2 * faulty c + 1 \<le> int (card (commitSet c))")
    case True
    have c: "card (prepareSet c) \<le> card (prepare_senders W hist pp)" "card (commitSet c) \<le> card (commit_senders W hist pp)"
      by (intro card_mono finite_senders; use m Some in \<open>simp add: meta_ok_def\<close>)+
    have "certified W hist (faulty c) pp" using m Some True c by (auto simp: meta_ok_def certified_def)
    moreover have v: "pp_vs pp = curViewSeq c" and "pp_NodeID pp = leader c" using m Some by (auto simp: meta_ok_def)
    moreover have "pp_View pp = View (curViewSeq c)" "pp_Seq pp = Seq (curViewSeq c)" by (simp_all add: v [symmetric] pp_vs_def)
    ultimately show ?thesis using m True by (auto simp: meta_ok_def next_round_def intro!: exI [of _ pp])
  next
    case False
    then show ?thesis using cs m Some by (auto simp: meta_ok_def stage_defs)
  qed
qed

lemma meta_ok_pushes:
  assumes "meta_ok W hist c"
  shows "m \<in> got_preprepares W hist \<Longrightarrow> meta_ok W hist (c\<lparr>msgPool := PushPreprepareMsg m (msgPool c)\<rparr>)"
    "m' \<in> got_prepares W hist \<Longrightarrow> meta_ok W hist (c\<lparr>msgPool := PushPrepareMsg m' (msgPool c)\<rparr>)"
    "m'' \<in> got_commits W hist \<Longrightarrow> meta_ok W hist (c\<lparr>msgPool := PushCommitMsg m'' (msgPool c)\<rparr>)"
proof -
  have ok: "pool_ok (msgPool c)" using assms by (simp add: meta_ok_def)
  note p = push_specs(1) [OF ok, of m] push_specs(2) [OF ok, of m'] push_specs(3) [OF ok, of m'']
  have sets: "mset xs = add_mset x (mset ys) \<Longrightarrow> set xs = insert x (set ys)" for xs ys :: "'x list" and x
    by (metis set_mset_add_mset_insert set_mset_mset)
  have same: "mset xs = mset ys \<Longrightarrow> set xs = set ys" for xs ys :: "'x list" by (rule mset_eq_setD)
  show "m \<in> got_preprepares W hist \<Longrightarrow> meta_ok W hist (c\<lparr>msgPool := PushPreprepareMsg m (msgPool c)\<rparr>)"
    using assms p(1) by (auto simp: meta_ok_def pool_abs_def dest!: sets same split: option.splits)
  show "m' \<in> got_prepares W hist \<Longrightarrow> meta_ok W hist (c\<lparr>msgPool := PushPrepareMsg m' (msgPool c)\<rparr>)"
    using assms p(2) by (auto simp: meta_ok_def pool_abs_def dest!: sets same split: option.splits)
  show "m'' \<in> got_commits W hist \<Longrightarrow> meta_ok W hist (c\<lparr>msgPool := PushCommitMsg m'' (msgPool c)\<rparr>)"
    using assms p(3) by (auto simp: meta_ok_def pool_abs_def dest!: sets same split: option.splits)
qed

lemma meta_ok_frame:
  assumes "meta_ok W hist c"
  shows "meta_ok W hist (updateLatestViewSeq v s c)" "meta_ok W hist (c\<lparr>closed := b\<rparr>)"
    "meta_ok W hist (c\<lparr>proposed := b, lastProposeTime := t\<rparr>)" "meta_ok W hist (c\<lparr>catchupStarted := b\<rparr>)"
    "meta_ok W hist (catchupOverAndReset vs c)"
  using assms by (auto simp: meta_ok_def updateLatestViewSeq_def catchupOverAndReset_def Let_def split: option.splits)

end
