(* ===== verification/Pbft_Runs.thy ===== *)
theory Pbft_Runs
  imports Pbft_Correct
begin

text \<open>
  Runs of a PBFT node: what a message, an advance of the round, a proposal and a catch-up request
  do to the state of the round, to the messages sent and to the application, an induction
  principle for \<open>run\<close>, and its two uses: only certified proposals are delivered, and a node
  commits to one digest per view and sequence number.
\<close>

section \<open>One step\<close>

lemma bind_st_pres:
  assumes "P (fst m)" "\<And>x s. m = (s, Inr x) \<Longrightarrow> P s \<Longrightarrow> P (fst (f x s))"
  shows "P (fst (bind_st m f))"
  using assms by (cases m; cases "snd m") (auto simp: bind_st_def)

lemma on_app_simps [simp]:
  "pbftMeta (fst (on_app f n)) = pbftMeta n" "sent (fst (on_app f n)) = sent n" "app (fst (on_app f n)) = fst (f (app n))"
  by (auto simp: on_app_def split: prod.splits)

lemma send_simps [simp]:
  "pbftMeta (send d w n) = pbftMeta n" "sent (send d w n) = sent n @ [(d, w)]" "app (send d w n) = app n"
  by (simp_all add: send_def)

lemma lift_res_fst [simp]: "fst (lift_res r s) = s"
  by (simp add: lift_res_def)

text \<open>What handling one message may do to the state of the round.\<close>

inductive meta_step :: "wire \<Rightarrow> WrappedMsg \<Rightarrow> consensusMeta \<Rightarrow> consensusMeta \<Rightarrow> bool" for W w c where
  step_same: "meta_step W w c c"
| step_stop: "MsgType w = StopConsensusMessageType \<Longrightarrow> meta_step W w c (c\<lparr>closed := True\<rparr>)"
| step_preprepare: "MsgType w = PreprepareMessageType \<Longrightarrow> dec (w_preprepare W) (Payload w) = Inr m \<Longrightarrow>
    meta_step W w c (updateLatestViewSeq (pp_View m) (pp_Seq m) (c\<lparr>msgPool := PushPreprepareMsg m (msgPool c)\<rparr>))"
| step_prepare: "MsgType w = PrepareMessageType \<Longrightarrow> dec (w_prepare W) (Payload w) = Inr m \<Longrightarrow>
    meta_step W w c (c\<lparr>msgPool := PushPrepareMsg m (msgPool c)\<rparr>)"
| step_commit: "MsgType w = CommitMessageType \<Longrightarrow> dec (w_commit W) (Payload w) = Inr m \<Longrightarrow>
    meta_step W w c (c\<lparr>msgPool := PushCommitMsg m (msgPool c)\<rparr>)"
| step_reset: "MsgType w = CatchupRespMessageType \<Longrightarrow> meta_step W w c (catchupOverAndReset vs c)"

lemma add_proposals_meta [simp]: "pbftMeta (fst (add_proposals bc ps n)) = pbftMeta n"
  by (induction bc ps n rule: add_proposals.induct) (auto simp: bind_st_def on_app_def split: option.splits prod.splits sum.splits)

lemma add_proposals_sent [simp]: "sent (fst (add_proposals bc ps n)) = sent n"
  by (induction bc ps n rule: add_proposals.induct) (auto simp: bind_st_def on_app_def split: option.splits prod.splits sum.splits)

lemma handlePreprepare_step:
  "meta_step (op_wire X) \<lparr>MsgType = PreprepareMessageType, Payload = b\<rparr> (pbftMeta n) (pbftMeta (fst (handlePreprepare X b n)))"
proof -
  have "meta_step (op_wire X) \<lparr>MsgType = PreprepareMessageType, Payload = b\<rparr> c
      (updateLatestViewSeq (pp_View m) (pp_Seq m) (c\<lparr>msgPool := PushPreprepareMsg m (msgPool c)\<rparr>))"
    if "dec (w_preprepare (op_wire X)) b = Inr m" for c m
    by (rule step_preprepare) (simp_all add: that)
  then show ?thesis
    by (auto simp: handlePreprepare_def bind_st_def lift_res_def on_app_def Let_def intro: step_same split: sum.splits prod.splits)
qed

lemma handlePrepare_step:
  "meta_step (op_wire X) \<lparr>MsgType = PrepareMessageType, Payload = b\<rparr> (pbftMeta n) (pbftMeta (fst (handlePrepare X b n)))"
  by (auto simp: handlePrepare_def bind_st_def lift_res_def Let_def intro: meta_step.intros split: sum.splits)

lemma handleCommit_step:
  "meta_step (op_wire X) \<lparr>MsgType = CommitMessageType, Payload = b\<rparr> (pbftMeta n) (pbftMeta (fst (handleCommit X b n)))"
  by (auto simp: handleCommit_def bind_st_def lift_res_def Let_def intro: meta_step.intros split: sum.splits)

lemma handleCatchupReq_meta [simp]: "pbftMeta (fst (handleCatchupReq X b n)) = pbftMeta n"
  by (auto simp: handleCatchupReq_def bind_st_def lift_res_def Let_def split: sum.splits option.splits)

lemma handleCatchupResp_step:
  "meta_step (op_wire X) \<lparr>MsgType = CatchupRespMessageType, Payload = b\<rparr> (pbftMeta n) (pbftMeta (fst (handleCatchupResp X b n)))"
proof -
  have "pbftMeta n1 = pbftMeta n" if "add_proposals bc ps n = (n1, r)" for bc ps r n1
    using add_proposals_meta [of bc ps n] that by simp
  then show ?thesis
    by (auto simp: handleCatchupResp_def bind_st_def lift_res_def intro: meta_step.intros split: sum.splits prod.splits option.splits)
qed

lemma handleMessage_step: "meta_step (op_wire X) w (pbftMeta n) (pbftMeta (fst (handleMessage X w n)))"
proof -
  have w: "w = \<lparr>MsgType = MsgType w, Payload = Payload w\<rparr>" by simp
  show ?thesis
    using handlePreprepare_step [of X "Payload w" n] handlePrepare_step [of X "Payload w" n] handleCommit_step [of X "Payload w" n]
      handleCatchupResp_step [of X "Payload w" n]
    by (cases w) (auto simp: handleMessage_def handleStopConsensus_def intro: meta_step.intros)
qed

lemmas handler_defs = handleMessage_def handleStopConsensus_def handlePreprepare_def handlePrepare_def handleCommit_def
  handleCatchupReq_def handleCatchupResp_def

text \<open>The messages of a type among those sent.\<close>

definition sent_msgs :: "string \<Rightarrow> 'a Node \<Rightarrow> WrappedMsg list" where
  "sent_msgs ty n = filter (\<lambda>w. MsgType w = ty) (map snd (sent n))"

lemma broadcast_sent:
  "sent (fst (broadcastMsgInnerShard X ty encoded n)) = sent n
   \<or> (\<exists>d b. encoded = Inr b \<and> sent (fst (broadcastMsgInnerShard X ty encoded n)) = sent n @ [(d, \<lparr>MsgType = ty, Payload = b\<rparr>)])"
  by (auto simp: broadcastMsgInnerShard_def WrapMsg_def bind_res_def split: sum.splits prod.splits)

lemma message_types_distinct [simp]:
  "CatchupRespMessageType \<noteq> CommitMessageType" "CatchupReqMessageType \<noteq> CommitMessageType"
  "PrepareMessageType \<noteq> CommitMessageType" "PreprepareMessageType \<noteq> CommitMessageType"
  by (simp_all add: CatchupRespMessageType_def CatchupReqMessageType_def CommitMessageType_def PrepareMessageType_def PreprepareMessageType_def)

lemma handleMessage_sent: "sent_msgs CommitMessageType (fst (handleMessage X w n)) = sent_msgs CommitMessageType n"
proof -
  have a: "sent n1 = sent n2" if "add_proposals bc ps n2 = (n1, r)" for bc ps r n1 and n2 :: "'a Node"
    using add_proposals_sent [of bc ps n2] that by simp
  have "sent_msgs CommitMessageType (fst (handleCatchupResp X b n)) = sent_msgs CommitMessageType n" for b
    by (auto simp: handleCatchupResp_def bind_st_def lift_res_def sent_msgs_def split: sum.splits prod.splits option.splits dest: a)
  moreover have "sent_msgs CommitMessageType (fst (handleCatchupReq X b n)) = sent_msgs CommitMessageType n" for b
    by (auto simp: handleCatchupReq_def bind_st_def lift_res_def WrapMsg_def bind_res_def sent_msgs_def Let_def
        split: sum.splits prod.splits option.splits)
  moreover have "sent_msgs CommitMessageType (fst (handlePreprepare X b n)) = sent_msgs CommitMessageType n"
    "sent_msgs CommitMessageType (fst (handlePrepare X b n)) = sent_msgs CommitMessageType n"
    "sent_msgs CommitMessageType (fst (handleCommit X b n)) = sent_msgs CommitMessageType n" for b
    by (auto simp: handlePreprepare_def handlePrepare_def handleCommit_def bind_st_def lift_res_def on_app_def sent_msgs_def Let_def
        split: sum.splits prod.splits)
  ultimately show ?thesis by (simp add: handleMessage_def handleStopConsensus_def sent_msgs_def)
qed

section \<open>Induction over a run\<close>

text \<open>
  A property of a node, indexed by a bound on the number of advances so far, that every step of
  the loop keeps holds after any run.
\<close>

definition work :: "(int \<times> WrappedMsg list) list \<Rightarrow> nat" where
  "work ticks = (\<Sum>(now, msgs)\<leftarrow>ticks. Suc (length msgs))"

lemma work_simps [simp]: "work [] = 0" "work ((now, msgs) # ticks) = Suc (length msgs) + work ticks"
  by (simp_all add: work_def)

definition received :: "(int \<times> WrappedMsg list) list \<Rightarrow> WrappedMsg list" where
  "received ticks = concat (map snd ticks)"

lemma received_simps [simp]: "received [] = []" "received ((now, msgs) # ticks) = msgs @ received ticks"
  by (simp_all add: received_def)

locale node_invariant =
  fixes X :: "'a node_ops" and msgs :: "WrappedMsg set" and bound :: nat and P :: "nat \<Rightarrow> 'a Node \<Rightarrow> bool"
  assumes handles: "P k n \<Longrightarrow> w \<in> msgs \<Longrightarrow> P k (fst (handleMessage X w n))"
    and advances: "P k n \<Longrightarrow> Suc k \<le> bound \<Longrightarrow> P (Suc k) (advanceConsensus X n)"
    and proposes: "P k n \<Longrightarrow> P k (fst (propose X now n))"
    and asks: "P k n \<Longrightarrow> op_chain X = Some bc \<Longrightarrow> P k (fst (catchUpStart X bc n))"
begin

lemma handle_all_inv: "P k n \<Longrightarrow> set ws \<subseteq> msgs \<Longrightarrow> P k (handle_all X ws n)"
  by (induction ws arbitrary: n) (auto intro: handles)

lemma handle_preprepares_inv:
  "P k n \<Longrightarrow> set ws \<subseteq> msgs \<Longrightarrow> k + length ws \<le> bound \<Longrightarrow> \<exists>k'. k' \<le> k + length ws \<and> P k' (handle_preprepares X ws n)"
proof (induction ws arbitrary: k n)
  case Nil
  then show ?case by auto
next
  case (Cons w ws)
  obtain n1 r where h: "handleMessage X w n = (n1, r)" by fastforce
  have p: "P k n1" using handles [OF Cons.prems(1), of w] Cons.prems(2) h by simp
  show ?case
  proof (cases r)
    case (Inl e)
    then show ?thesis using Cons.IH [OF p] Cons.prems h by (auto intro: le_SucI)
  next
    case (Inr u)
    have "P (Suc k) (advanceConsensus X n1)" using p Cons.prems(3) by (intro advances) auto
    from Cons.IH [OF this] show ?thesis using Inr Cons.prems h by auto
  qed
qed

lemma tick_inv:
  assumes "P k n" "set ws \<subseteq> msgs" "k + Suc (length ws) \<le> bound"
  shows "\<exists>k' \<le> k + Suc (length ws). P k' (tick X now ws n)"
proof -
  let ?pre = "\<lambda>m. MsgType m = PreprepareMessageType"
  let ?n1 = "advanceConsensus X (handle_all X (filter (\<lambda>m. \<not> ?pre m) ws) n)"
  have l: "length (filter ?pre ws) \<le> length ws" by simp
  have "P (Suc k) ?n1" using assms by (intro advances handle_all_inv) auto
  from handle_preprepares_inv [OF this, of "filter ?pre ws"] assms(2,3) l
  obtain k' where k': "k' \<le> Suc k + length (filter ?pre ws)" and p: "P k' (handle_preprepares X (filter ?pre ws) ?n1)" by auto
  have "P k' (tick X now ws n)"
    using p proposes [OF p, of now] asks [OF p] unfolding tick_def by (auto simp: Let_def split: option.splits)
  moreover have "k' \<le> k + Suc (length ws)" using k' l by linarith
  ultimately show ?thesis by blast
qed

lemma run_inv:
  "P k n \<Longrightarrow> set (received ticks) \<subseteq> msgs \<Longrightarrow> k + work ticks \<le> bound \<Longrightarrow> \<exists>k'. P k' (run X ticks n)"
proof (induction ticks arbitrary: k n)
  case (Cons t ticks)
  obtain now ws where t: "t = (now, ws)" by (cases t)
  obtain k' where "k' \<le> k + Suc (length ws)" "P k' (tick X now ws n)"
    using tick_inv [OF Cons.prems(1), of ws now] Cons.prems(2,3) t by auto
  then show ?case using Cons.IH [of k' "tick X now ws n"] Cons.prems t by auto
qed auto

end

definition new_node :: "int \<Rightarrow> int \<Rightarrow> int \<Rightarrow> int \<Rightarrow> int \<Rightarrow> 'a \<Rightarrow> 'a Node" where
  "new_node nodeNum blockInterval shard node now a =
     \<lparr>pbftMeta = newConsensusMeta nodeNum blockInterval shard node now, app = a, sent = []\<rparr>"

section \<open>What reaches the application\<close>

text \<open>
  The application records the proposals it is asked to commit and the blocks it is asked to add to its chain.
\<close>

datatype app_event = Delivered Proposal | CaughtUp Block

definition logged :: "'a node_ops \<Rightarrow> ('a \<times> app_event list) node_ops" where
  "logged X = \<lparr>BuildProposal = (\<lambda>(a, l). case BuildProposal X a of (a', r) \<Rightarrow> ((a', l), r)),
     ValidateProposal = (\<lambda>p (a, l). case ValidateProposal X p a of (a', r) \<Rightarrow> ((a', l), r)),
     ProposalCommitAndDeliver = (\<lambda>b p (a, l). case ProposalCommitAndDeliver X b p a of (a', r) \<Rightarrow> ((a', l @ [Delivered p]), r)),
     HandleMsgOutsideShard = (\<lambda>w (a, l). case HandleMsgOutsideShard X w a of (a', r) \<Rightarrow> ((a', l), r)),
     op_chain = map_option (\<lambda>bc. \<lparr>bc_GetBlocksAfterHeight = (\<lambda>(a, l). bc_GetBlocksAfterHeight bc a),
       bc_AddBlock = (\<lambda>b (a, l). case bc_AddBlock bc b a of (a', r) \<Rightarrow> ((a', l @ [CaughtUp b]), r)),
       bc_Number = (\<lambda>(a, l). bc_Number bc a)\<rparr>) (op_chain X),
     op_record = map_option (\<lambda>f b (a, l). case f b a of (a', r) \<Rightarrow> ((a', l), r)) (op_record X),
     GetNodesInShard = GetNodesInShard X, GetLeader = GetLeader X, op_wire = op_wire X, op_proposal_Hash = op_proposal_Hash X\<rparr>"

text \<open>A block of a catch-up response that names the leader as its sender.\<close>

definition offered :: "wire \<Rightarrow> WrappedMsg list \<Rightarrow> Block \<Rightarrow> bool" where
  "offered W hist b \<longleftrightarrow> (\<exists>w \<in> set hist. \<exists>m. MsgType w = CatchupRespMessageType \<and> dec (w_catchupResp W) (Payload w) = Inr m
     \<and> cr_NodeID m = initialLeader \<and> (\<exists>p \<in> set (cr_Proposals m). p_Block p = Some b))"

fun event_ok :: "wire \<Rightarrow> WrappedMsg list \<Rightarrow> int \<Rightarrow> app_event \<Rightarrow> bool" where
  "event_ok W hist f (Delivered p) \<longleftrightarrow> (\<exists>pp. pp_P pp = p \<and> certified W hist f pp)"
| "event_ok W hist f (CaughtUp b) \<longleftrightarrow> offered W hist b"

text \<open>The state of the round agrees with the messages received so far, and \<open>Q\<close> holds of the application.\<close>

definition app_ok :: "wire \<Rightarrow> WrappedMsg list \<Rightarrow> int \<Rightarrow> ('a \<Rightarrow> bool) \<Rightarrow> nat \<Rightarrow> 'a Node \<Rightarrow> bool" where
  "app_ok W hist f Q k n \<longleftrightarrow> meta_ok W hist (pbftMeta n) \<and> faulty (pbftMeta n) = f \<and> leader (pbftMeta n) = initialLeader \<and> Q (app n)"

lemma updateLatestViewSeq_simps [simp]:
  "faulty (updateLatestViewSeq v s c) = faulty c" "curViewSeq (updateLatestViewSeq v s c) = curViewSeq c"
  "stage (updateLatestViewSeq v s c) = stage c" "curPreprepare (updateLatestViewSeq v s c) = curPreprepare c"
  "lp_NodeID (updateLatestViewSeq v s c) = lp_NodeID c" "lp_ShardID (updateLatestViewSeq v s c) = lp_ShardID c"
  "leader (updateLatestViewSeq v s c) = leader c" "catchupStarted (updateLatestViewSeq v s c) = catchupStarted c"
  by (simp_all add: updateLatestViewSeq_def Let_def)

lemma meta_step_ok:
  assumes "meta_step W w c c'" "meta_ok W hist c" "w \<in> set hist"
  shows "meta_ok W hist c' \<and> faulty c' = faulty c \<and> leader c' = leader c"
  using assms
proof cases
  case (step_preprepare m)
  then have "m \<in> got_preprepares W hist" using assms(3) by (auto simp: got_preprepares_def)
  then show ?thesis using step_preprepare meta_ok_frame(1) [OF meta_ok_pushes(1) [OF assms(2)], of m] by simp
next
  case (step_prepare m)
  then have "m \<in> got_prepares W hist" using assms(3) by (auto simp: got_prepares_def)
  then show ?thesis using step_prepare meta_ok_pushes(2) [OF assms(2)] by simp
next
  case (step_commit m)
  then have "m \<in> got_commits W hist" using assms(3) by (auto simp: got_commits_def)
  then show ?thesis using step_commit meta_ok_pushes(3) [OF assms(2)] by simp
qed (use assms meta_ok_frame in \<open>auto simp: catchupOverAndReset_def\<close>)

lemma logged_simps [simp]:
  "op_wire (logged X) = op_wire X" "snd (fst (BuildProposal (logged X) al)) = snd al"
  "snd (fst (ValidateProposal (logged X) p al)) = snd al" "snd (fst (HandleMsgOutsideShard (logged X) w al)) = snd al"
  "snd (fst (ProposalCommitAndDeliver (logged X) b p al)) = snd al @ [Delivered p]"
  by (auto simp: logged_def split: prod.splits)

lemma logged_chain:
  "op_chain (logged X) = Some bc \<Longrightarrow> snd (fst (bc_AddBlock bc b al)) = snd al @ [CaughtUp b]"
  "op_record (logged X) = Some rec \<Longrightarrow> snd (fst (rec b al)) = snd al"
  by (auto simp: logged_def split: prod.splits)

lemma broadcasts_app:
  "app (fst (broadcastMsgInnerShard X ty encoded n)) = app n"
  "prepareBroadcast X n = (n', r) \<Longrightarrow> app n' = app n" "commitBroadcast X n = (n', r) \<Longrightarrow> app n' = app n"
  by (auto simp: prepareBroadcast_def commitBroadcast_def broadcastMsgInnerShard_def split: option.splits sum.splits)

lemma step2Next_frame:
  assumes "step2Next c = (c', r)"
  shows "faulty c' = faulty c" "lp_NodeID c' = lp_NodeID c" "lp_ShardID c' = lp_ShardID c" "leader c' = leader c"
    "catchupStarted c' = catchupStarted c"
  using assms by (auto simp: step2Next_def next_round_def split: if_splits option.splits)

lemma curate_frame:
  "faulty (curateMsg c) = faulty c" "lp_NodeID (curateMsg c) = lp_NodeID c" "lp_ShardID (curateMsg c) = lp_ShardID c"
  "curViewSeq (curateMsg c) = curViewSeq c" "stage (curateMsg c) = stage c" "leader (curateMsg c) = leader c"
  "catchupStarted (curateMsg c) = catchupStarted c"
  by (auto simp: curateMsg_def curate_preprepare_def curate_prepares_def curate_commits_def Let_def split: option.splits prod.splits)

text \<open>A property of the node along the loop of \<open>step2NextStage\<close>.\<close>

lemma step2Next_result:
  "step2Next c = (c', r) \<Longrightarrow> (c' = c \<and> ((\<exists>e. r = Inl e) \<or> (\<exists>s. r = Inr (s, s))))
     \<or> r = Inr (0, 1) \<and> stage c = 0 \<and> stage c' = 1 \<or> r = Inr (1, 2) \<and> stage c = 1 \<and> stage c' = 2 \<or> r = Inr (2, 0)"
  by (auto simp: step2Next_def stage_defs split: if_splits option.splits)

lemma step2NextStage_pres:
  assumes "P n" and weak: "\<And>n. P n \<Longrightarrow> Q n"
    and prep: "\<And>n c. P n \<Longrightarrow> step2Next (pbftMeta n) = (c, Inr (0, 1)) \<Longrightarrow> P (fst (prepareBroadcast X (n\<lparr>pbftMeta := c\<rparr>)))"
    and comm: "\<And>n c. P n \<Longrightarrow> step2Next (pbftMeta n) = (c, Inr (1, 2)) \<Longrightarrow> P (fst (commitBroadcast X (n\<lparr>pbftMeta := c\<rparr>)))"
    and dlv: "\<And>n c. P n \<Longrightarrow> step2Next (pbftMeta n) = (c, Inr (2, 0)) \<Longrightarrow> Q (fst (deliver X (n\<lparr>pbftMeta := c\<rparr>)))"
  shows "Q (fst (step2NextStage X n))"
  using assms(1)
proof (induction "nat (3 - stage (pbftMeta n))" arbitrary: n rule: less_induct)
  case less
  obtain c r where s: "step2Next (pbftMeta n) = (c, r)" by fastforce
  obtain n1 q1 where p: "prepareBroadcast X (n\<lparr>pbftMeta := c\<rparr>) = (n1, q1)" by fastforce
  obtain n2 q2 where m: "commitBroadcast X (n\<lparr>pbftMeta := c\<rparr>) = (n2, q2)" by fastforce
  consider (stays) "c = pbftMeta n" "(\<exists>e. r = Inl e) \<or> (\<exists>s. r = Inr (s, s))"
    | (prepare) "r = Inr (0, 1)" "stage (pbftMeta n) = 0" "stage c = 1" | (commit) "r = Inr (1, 2)" "stage (pbftMeta n) = 1" "stage c = 2"
    | (ends) "r = Inr (2, 0)"
    using step2Next_result [OF s] by blast
  then show ?case
  proof cases
    case stays
    then show ?thesis using weak [OF less.prems] s by (auto simp: step2NextStage.simps [of X n])
  next
    case prepare
    have "pbftMeta n1 = c" using broadcasts_meta(1) [OF p] by simp
    moreover have "P n1" using prep [OF less.prems, of c] s p prepare by simp
    ultimately have "Q n1" "Q (fst (step2NextStage X n1))" using weak less.hyps [of n1] prepare by auto
    then show ?thesis using s p prepare by (cases q1) (simp_all add: step2NextStage.simps [of X n] stage_defs)
  next
    case commit
    have "pbftMeta n2 = c" using broadcasts_meta(2) [OF m] by simp
    moreover have "P n2" using comm [OF less.prems, of c] s m commit by simp
    ultimately have "Q n2" "Q (fst (step2NextStage X n2))" using weak less.hyps [of n2] commit by auto
    then show ?thesis using s m commit by (cases q2) (simp_all add: step2NextStage.simps [of X n] stage_defs)
  next
    case ends
    then show ?thesis using dlv [OF less.prems, of c] s by (simp add: step2NextStage.simps [of X n] stage_defs)
  qed
qed

lemma propose_frame:
  "pbftMeta (fst (propose X now n)) = pbftMeta n \<or> pbftMeta (fst (propose X now n)) = (pbftMeta n)\<lparr>proposed := True, lastProposeTime := now\<rparr>"
proof -
  have "pbftMeta n' = pbftMeta m" if "broadcastMsgInnerShard X ty e m = (n', r)" for ty e n' r and m :: "'a Node"
    using broadcast_meta [of X ty e m] that by simp
  then show ?thesis
    by (auto simp: propose_def bind_st_def lift_res_def on_app_def Let_def split: sum.splits option.splits prod.splits)
qed

lemma catchUpStart_frame:
  "pbftMeta (fst (catchUpStart X bc n)) = pbftMeta n \<or> pbftMeta (fst (catchUpStart X bc n)) = (pbftMeta n)\<lparr>catchupStarted := True\<rparr>"
  "app (fst (catchUpStart X bc n)) = app n" "sent_msgs CommitMessageType (fst (catchUpStart X bc n)) = sent_msgs CommitMessageType n"
  by (auto simp: catchUpStart_def bind_st_def lift_res_def WrapMsg_def bind_res_def sent_msgs_def Let_def split: sum.splits)

text \<open>
  A property of the application that its operations keep, when only certified proposals are committed and only blocks of
  catch-up responses are added besides, holds throughout every run of a node.
\<close>

locale certified_app =
  fixes X :: "'a node_ops" and hist :: "WrappedMsg list" and f :: int and Q :: "'a \<Rightarrow> bool"
  assumes builds: "Q a \<Longrightarrow> Q (fst (BuildProposal X a))" and validates: "Q a \<Longrightarrow> Q (fst (ValidateProposal X p a))"
    and outside: "Q a \<Longrightarrow> w \<in> set hist \<Longrightarrow> Q (fst (HandleMsgOutsideShard X w a))"
    and commits: "Q a \<Longrightarrow> certified (op_wire X) hist f pp \<Longrightarrow> Q (fst (ProposalCommitAndDeliver X lead (pp_P pp) a))"
    and adds: "Q a \<Longrightarrow> op_chain X = Some bc \<Longrightarrow> offered (op_wire X) hist b \<Longrightarrow> Q (fst (bc_AddBlock bc b a))"
    and records: "Q a \<Longrightarrow> op_record X = Some rec \<Longrightarrow> Q (fst (rec b a))"
begin

lemma add_proposals_app:
  "Q (app n) \<Longrightarrow> op_chain X = Some bc \<Longrightarrow> (\<And>p b. p \<in> set ps \<Longrightarrow> p_Block p = Some b \<Longrightarrow> offered (op_wire X) hist b)
     \<Longrightarrow> Q (app (fst (add_proposals bc ps n)))"
proof (induction ps arbitrary: n)
  case (Cons p ps)
  show ?case
  proof (cases "p_Block p")
    case (Some b)
    have "offered (op_wire X) hist b" by (rule Cons.prems(3) [OF _ Some]) simp
    then have "Q (app (fst (on_app (bc_AddBlock bc b) n)))" using adds [OF Cons.prems(1,2)] by simp
    then show ?thesis using Some Cons.IH Cons.prems(2,3) by (auto intro!: bind_st_pres [where P = "\<lambda>m. Q (app m)"])
  qed (use Cons.prems in simp)
qed simp

lemma handleCatchupResp_app:
  assumes "Q (app n)" "w \<in> set hist" "MsgType w = CatchupRespMessageType" "leader (pbftMeta n) = initialLeader"
  shows "Q (app (fst (handleCatchupResp X (Payload w) n)))"
proof -
  have o: "offered (op_wire X) hist b"
    if "dec (w_catchupResp (op_wire X)) (Payload w) = Inr m" "cr_NodeID m = initialLeader" "p \<in> set (cr_Proposals m)" "p_Block p = Some b" for m p b
    unfolding offered_def using assms(2,3) that by blast
  have "Q (app n1)"
    if "dec (w_catchupResp (op_wire X)) (Payload w) = Inr m" "cr_NodeID m = initialLeader" "op_chain X = Some bc"
      "add_proposals bc (cr_Proposals m) n = (n1, r)" for m bc n1 r
  proof -
    have "Q (app (fst (add_proposals bc (cr_Proposals m) n)))" by (rule add_proposals_app [OF assms(1) that(3)]) (rule o [OF that(1,2)])
    then show ?thesis using that(4) by simp
  qed
  then show ?thesis using assms(1,4)
    by (auto simp: handleCatchupResp_def bind_st_def lift_res_def split: sum.splits prod.splits option.splits)
qed

lemma handleMessage_app:
  assumes q: "Q (app n)" and w: "w \<in> set hist" and l: "leader (pbftMeta n) = initialLeader"
  shows "Q (app (fst (handleMessage X w n)))"
proof -
  have v: "Q (app n1)" if "on_app (ValidateProposal X p) n = (n1, r)" for p n1 r
    using validates [OF q, of p] that on_app_simps(3) [of "ValidateProposal X p" n] by simp
  have pp: "Q (app (fst (handlePreprepare X b n)))" for b
    using q v by (auto simp: handlePreprepare_def bind_st_def lift_res_def Let_def split: sum.splits prod.splits)
  have "Q (app (fst (handlePrepare X b n)))" "Q (app (fst (handleCommit X b n)))" "Q (app (fst (handleCatchupReq X b n)))" for b
    using q by (auto simp: handlePrepare_def handleCommit_def handleCatchupReq_def bind_st_def lift_res_def Let_def split: sum.splits prod.splits option.splits)
  then show ?thesis using q pp handleCatchupResp_app [OF q w _ l] outside [OF q w]
    by (simp add: handleMessage_def handleStopConsensus_def)
qed

lemma deliver_app:
  assumes "app_ok (op_wire X) hist f Q k n"
  shows "app_ok (op_wire X) hist f Q k' (fst (deliver X n))"
proof (cases "lastProposal (pbftMeta n)")
  case (Some p)
  then obtain pp where pp: "p = pp_P pp" "certified (op_wire X) hist f pp" using assms by (auto simp: app_ok_def meta_ok_def)
  have d: "app_ok (op_wire X) hist f Q k' (fst (on_app (ProposalCommitAndDeliver X b p) n))" for b
    using assms commits [OF _ pp(2)] by (simp add: app_ok_def pp(1))
  have r: "app_ok (op_wire X) hist f Q k' (fst (on_app (rec b) m))" if "app_ok (op_wire X) hist f Q k' m" "op_record X = Some rec" for rec b m
    using that records by (simp add: app_ok_def)
  show ?thesis unfolding deliver_def
    by (auto simp: Let_def Some split: option.splits intro!: bind_st_pres [of "app_ok (op_wire X) hist f Q k'"] d r)
qed (use assms in \<open>simp add: deliver_def app_ok_def\<close>)

lemma step2NextStage_app:
  assumes "app_ok (op_wire X) hist f Q k n"
  shows "app_ok (op_wire X) hist f Q k' (fst (step2NextStage X n))"
proof (rule step2NextStage_pres [of "app_ok (op_wire X) hist f Q k"])
  have s: "app_ok (op_wire X) hist f Q k (n\<lparr>pbftMeta := c\<rparr>)" if "app_ok (op_wire X) hist f Q k n" "step2Next (pbftMeta n) = (c, r)" for n c r
    using that(1) meta_ok_step [OF _ that(2)] step2Next_frame(1,4) [OF that(2)] by (simp add: app_ok_def)
  have b: "app_ok (op_wire X) hist f Q k m"
    if "app_ok (op_wire X) hist f Q k n" "prepareBroadcast X n = (m, q) \<or> commitBroadcast X n = (m, q)" for n m q
    using that by (auto simp: app_ok_def dest: broadcasts_app(2,3) broadcasts_meta)
  show "app_ok (op_wire X) hist f Q k (fst (prepareBroadcast X (n\<lparr>pbftMeta := c\<rparr>)))"
    "app_ok (op_wire X) hist f Q k (fst (commitBroadcast X (n\<lparr>pbftMeta := c\<rparr>)))"
    "app_ok (op_wire X) hist f Q k' (fst (deliver X (n\<lparr>pbftMeta := c\<rparr>)))"
    if "app_ok (op_wire X) hist f Q k n" "step2Next (pbftMeta n) = (c, r)" for n c r
    using b [OF s [OF that]] deliver_app [OF s [OF that]] surjective_pairing by blast+
qed (use assms in \<open>simp_all add: app_ok_def\<close>)

lemma propose_app: "Q (app n) \<Longrightarrow> Q (app (fst (propose X now n)))"
  unfolding propose_def
  by (auto intro!: bind_st_pres [where P = "\<lambda>m. Q (app m)"] builds simp: Let_def broadcasts_app split: option.splits)

end

sublocale certified_app < ca: node_invariant X "set hist" bound "app_ok (op_wire X) hist f Q" for bound
proof
  show "app_ok (op_wire X) hist f Q k (fst (handleMessage X w n))" if "app_ok (op_wire X) hist f Q k n" "w \<in> set hist" for k n w
    using that meta_step_ok [OF handleMessage_step [of X w n], of hist] handleMessage_app [of n w] by (auto simp: app_ok_def)
  show "app_ok (op_wire X) hist f Q (Suc k) (advanceConsensus X n)" if "app_ok (op_wire X) hist f Q k n" for k n
    unfolding advanceConsensus_def
    by (rule step2NextStage_app [of k]) (use that in \<open>simp add: app_ok_def meta_ok_curate curate_frame\<close>)
  show "app_ok (op_wire X) hist f Q k (fst (propose X now n))" if "app_ok (op_wire X) hist f Q k n" for k n now
    using that propose_frame [of X now n] propose_app [of n now] by (auto simp: app_ok_def meta_ok_frame)
  show "app_ok (op_wire X) hist f Q k (fst (catchUpStart X bc n))" if "app_ok (op_wire X) hist f Q k n" for k n bc
    using that catchUpStart_frame(1,2) [of X bc n] by (auto simp: app_ok_def meta_ok_frame)
qed

context certified_app
begin

lemma run_app:
  assumes "Q a" "hist = received ticks" "f = (nodeNum - 1) sdiv 3"
  shows "Q (app (run X ticks (new_node nodeNum blockInterval shard node now a)))"
proof -
  let ?n = "new_node nodeNum blockInterval shard node now a"
  have "meta_ok (op_wire X) hist (newConsensusMeta nodeNum blockInterval shard node now)"
    by (rule meta_ok_mono [OF _ meta_ok_new]) simp
  then have "app_ok (op_wire X) hist f Q 0 ?n" using assms(1,3) by (simp add: app_ok_def new_node_def newConsensusMeta_def)
  then show ?thesis using ca.run_inv [of 0 ?n ticks "work ticks"] assms(2) by (auto simp: app_ok_def)
qed

end

interpretation lg: certified_app "logged X" hist f "\<lambda>al. \<forall>e \<in> set (snd al). event_ok (op_wire X) hist f e" for X hist f
proof
  show "\<forall>e \<in> set (snd (fst (bc_AddBlock bc b al))). event_ok (op_wire X) hist f e"
    if "\<forall>e \<in> set (snd al). event_ok (op_wire X) hist f e" "op_chain (logged X) = Some bc" "offered (op_wire (logged X)) hist b"
    for al bc b using that logged_chain(1) [OF that(2), of b al] by auto
  show "\<forall>e \<in> set (snd (fst (rec b al))). event_ok (op_wire X) hist f e"
    if "\<forall>e \<in> set (snd al). event_ok (op_wire X) hist f e" "op_record (logged X) = Some rec" for al rec b
    using that logged_chain(2) [OF that(2), of b al] by simp
qed auto

text \<open>
  C13. What reaches the application of a node, whatever it receives and however the application behaves: a proposal is handed to
  \<open>ProposalCommitAndDeliver\<close> only if it was pre-prepared and has at least \<open>2 f + 1\<close> senders of matching prepare messages and
  \<open>2 f + 1\<close> of matching commit messages among the messages the node received, with \<open>f = (NodeNum - 1) / 3\<close>; the
  only other blocks handed to its chain are those of received catch-up responses that name the leader as their sender. For these the code asks for no
  certificate, and the sender is what the message says.
\<close>

theorem delivered_certified:
  "e \<in> set (snd (app (run (logged X) ticks (new_node nodeNum blockInterval shard node now (a, [])))))
     \<Longrightarrow> event_ok (op_wire X) (received ticks) ((nodeNum - 1) sdiv 3) e"
  using lg.run_app [where X = X and hist = "received ticks" and f = "(nodeNum - 1) sdiv 3" and a = "(a, [])"] by simp

section \<open>One commit per view and sequence number\<close>

definition commits_sent :: "wire \<Rightarrow> 'a Node \<Rightarrow> CommitMsg set" where
  "commits_sent W n = {m. \<exists>w \<in> set (sent_msgs CommitMessageType n). dec (w_commit W) (Payload w) = Inr m}"

text \<open>
  The votes of a node: they are in its view, not after the current sequence number, one digest for
  each; a vote for the current one is for the current pre-prepare, in the commit stage.
\<close>

definition one_vote :: "CommitMsg set \<Rightarrow> bool" where
  "one_vote V \<longleftrightarrow> (\<forall>m \<in> V. \<forall>m' \<in> V. cm_vs m = cm_vs m' \<longrightarrow> cm_Digest m = cm_Digest m')"

definition votes_at :: "CommitMsg set \<Rightarrow> ViewSeq \<Rightarrow> int \<Rightarrow> PreprepareMsg option \<Rightarrow> bool" where
  "votes_at V vs st cur \<longleftrightarrow>
     (\<forall>pp. cur = Some pp \<longrightarrow> pp_vs pp = vs)
     \<and> (\<forall>m \<in> V. cm_View m = View vs \<and> cm_Seq m \<le> Seq vs
          \<and> (cm_Seq m = Seq vs \<longrightarrow> st = stageCommit \<and> (\<exists>pp. cur = Some pp \<and> cm_Digest m = pp_Digest pp)))
     \<and> one_vote V"

definition votes_ok :: "wire \<Rightarrow> nat \<Rightarrow> 'a Node \<Rightarrow> bool" where
  "votes_ok W k n \<longleftrightarrow> 0 \<le> Seq (curViewSeq (pbftMeta n)) \<and> Seq (curViewSeq (pbftMeta n)) \<le> int k
     \<and> votes_at (commits_sent W n) (curViewSeq (pbftMeta n)) (stage (pbftMeta n)) (curPreprepare (pbftMeta n))"

lemma votes_frame:
  assumes "votes_ok W k n" "sent_msgs CommitMessageType n' = sent_msgs CommitMessageType n"
    "curViewSeq (pbftMeta n') = curViewSeq (pbftMeta n)" "stage (pbftMeta n') = stage (pbftMeta n)"
    "curPreprepare (pbftMeta n') = curPreprepare (pbftMeta n)"
  shows "votes_ok W k n'"
proof -
  have "commits_sent W n' = commits_sent W n" by (simp add: commits_sent_def assms(2))
  then show ?thesis using assms(1) by (simp add: votes_ok_def assms(3-5))
qed

lemma cm_vs_iff: "cm_vs m = vs \<longleftrightarrow> cm_View m = View vs \<and> cm_Seq m = Seq vs"
  by (cases vs) (auto simp: cm_vs_def)

lemma votes_at_old:
  assumes "votes_at V vs st cur" "st \<noteq> stageCommit" "m \<in> V"
  shows "cm_View m = View vs" "cm_Seq m < Seq vs"
  using assms by (auto simp: votes_at_def order_less_le)

lemma votes_at_prepare: "votes_at V vs st cur \<Longrightarrow> st \<noteq> stageCommit \<Longrightarrow> votes_at V vs st' cur"
  by (auto simp: votes_at_def)

lemma votes_at_commit:
  assumes v: "votes_at V vs st cur" "st \<noteq> stageCommit"
    and new: "\<And>m. m \<in> V' \<Longrightarrow> m \<in> V \<or> (\<exists>pp. cur = Some pp \<and> cm_vs m = pp_vs pp \<and> cm_Digest m = pp_Digest pp)"
  shows "votes_at V' vs stageCommit cur"
proof -
  have p: "cur = Some pp \<Longrightarrow> pp_vs pp = vs" for pp using v by (simp add: votes_at_def)
  have cur: "(\<exists>pp. cur = Some pp \<and> cm_Digest m = pp_Digest pp) \<and> cm_vs m = vs" if "m \<in> V'" "m \<notin> V" for m
    using new [OF that(1)] that(2) p by metis
  note old = votes_at_old [OF v]
  have vs: "cm_View m = View vs \<and> cm_Seq m \<le> Seq vs \<and> (cm_Seq m = Seq vs \<longrightarrow> (\<exists>pp. cur = Some pp \<and> cm_Digest m = pp_Digest pp))"
    if "m \<in> V'" for m
    using cur [OF that] old [of m] by (cases "m \<in> V") (simp_all add: cm_vs_iff)
  have "cm_Digest m = cm_Digest m'" if m: "m \<in> V'" "m' \<in> V'" and e: "cm_vs m = cm_vs m'" for m m'
  proof (cases "m \<in> V \<longleftrightarrow> m' \<in> V")
    case True
    have "one_vote V" using v by (simp add: votes_at_def)
    then show ?thesis using cur [OF m(1)] cur [OF m(2)] e True unfolding one_vote_def by (metis option.inject)
  next
    case False
    have "cm_vs x \<noteq> vs" if "x \<in> V" for x using old [OF that] by (simp add: cm_vs_iff)
    then show ?thesis using cur [OF m(1)] cur [OF m(2)] False e by metis
  qed
  then have "one_vote V'" unfolding one_vote_def by blast
  with vs show ?thesis using p by (simp add: votes_at_def)
qed

lemma votes_at_next:
  assumes "votes_at V vs st cur"
  shows "votes_at V (vs\<lparr>Seq := Seq vs + 1\<rparr>) st' None"
proof -
  have "cm_View m = View vs" "cm_Seq m \<le> Seq vs + 1" "cm_Seq m \<noteq> Seq vs + 1" if "m \<in> V" for m
    using assms that by (force simp: votes_at_def)+
  then show ?thesis using assms by (simp add: votes_at_def)
qed

lemma meta_step_frame:
  assumes "meta_step W w c c'" "MsgType w \<noteq> CatchupRespMessageType"
  shows "curViewSeq c' = curViewSeq c" "stage c' = stage c" "curPreprepare c' = curPreprepare c"
proof -
  have "curViewSeq c' = curViewSeq c \<and> stage c' = stage c \<and> curPreprepare c' = curPreprepare c"
    using assms by (cases rule: meta_step.cases) simp_all
  then show "curViewSeq c' = curViewSeq c" "stage c' = stage c" "curPreprepare c' = curPreprepare c" by simp_all
qed

lemma prepareBroadcast_sent: "sent_msgs CommitMessageType (fst (prepareBroadcast X n)) = sent_msgs CommitMessageType n"
proof (cases "curPreprepare (pbftMeta n)")
  case (Some pp)
  let ?e = "enc (w_prepare (op_wire X)) \<lparr>pr_Digest = pp_Digest pp, pr_Seq = pp_Seq pp, pr_View = pp_View pp,
     pr_ShardID = lp_ShardID (pbftMeta n), pr_NodeID = lp_NodeID (pbftMeta n)\<rparr>"
  have "prepareBroadcast X n = broadcastMsgInnerShard X PrepareMessageType ?e n" using Some by (simp add: prepareBroadcast_def)
  then show ?thesis using broadcast_sent [of X PrepareMessageType ?e n] by (auto simp: sent_msgs_def)
qed (simp add: prepareBroadcast_def)

lemma deliver_frame: "pbftMeta (fst (deliver X n)) = pbftMeta n" "sent (fst (deliver X n)) = sent n"
  by (auto simp: deliver_def on_app_def bind_st_def Let_def split: option.splits sum.splits prod.splits)

lemma propose_sent: "sent_msgs CommitMessageType (fst (propose X now n)) = sent_msgs CommitMessageType n"
proof -
  have b: "sent_msgs CommitMessageType (fst (broadcastMsgInnerShard X PreprepareMessageType e m)) = sent_msgs CommitMessageType m"
    for e and m :: "'a Node"
    using broadcast_sent [of X PreprepareMessageType e m] by (auto simp: sent_msgs_def)
  have a: "sent_msgs CommitMessageType (fst (on_app f n)) = sent_msgs CommitMessageType n"
    "sent_msgs CommitMessageType (m\<lparr>pbftMeta := c\<rparr>) = sent_msgs CommitMessageType m" for f :: "'a \<Rightarrow> 'a \<times> 'r res" and c and m :: "'a Node"
    by (simp_all add: sent_msgs_def)
  show ?thesis unfolding propose_def
    by (auto intro!: bind_st_pres [of "\<lambda>m. sent_msgs CommitMessageType m = sent_msgs CommitMessageType n"] simp: Let_def a b split: option.splits)
qed

lemma votes_prepare:
  assumes "votes_ok W k n" "step2Next (pbftMeta n) = (c, Inr (0, 1))"
  shows "votes_ok W k (fst (prepareBroadcast X (n\<lparr>pbftMeta := c\<rparr>)))"
proof -
  have c: "c = (pbftMeta n)\<lparr>stage := stagePrepare\<rparr>" "stage (pbftMeta n) = 0"
    using assms(2) by (auto simp: step2Next_def stage_defs split: if_splits option.splits)
  have m: "pbftMeta (fst (prepareBroadcast X (n\<lparr>pbftMeta := c\<rparr>))) = c" by (simp add: broadcasts_meta(1) [OF surjective_pairing])
  have s: "commits_sent W (fst (prepareBroadcast X (n\<lparr>pbftMeta := c\<rparr>))) = commits_sent W n"
    by (simp add: commits_sent_def prepareBroadcast_sent) (simp add: sent_msgs_def)
  have "votes_at (commits_sent W n) (curViewSeq c) (stage c) (curPreprepare c)"
    using assms(1) c by (auto simp: votes_ok_def stage_defs intro: votes_at_prepare)
  then show ?thesis unfolding votes_ok_def m s using assms(1) c(1) by (simp add: votes_ok_def)
qed

lemma commits_sent_snoc:
  "sent n' = sent n @ [(d, \<lparr>MsgType = CommitMessageType, Payload = b\<rparr>)] \<Longrightarrow> dec (w_commit W) b = Inr m \<Longrightarrow>
    commits_sent W n' = insert m (commits_sent W n)"
  by (auto simp: commits_sent_def sent_msgs_def)

lemma commitBroadcast_sent:
  assumes codec: "\<And>m b. enc (w_commit (op_wire X)) m = Inr b \<Longrightarrow> dec (w_commit (op_wire X)) b = Inr m"
  shows "commits_sent (op_wire X) (fst (commitBroadcast X n)) \<subseteq> commits_sent (op_wire X) n
    \<union> {m. \<exists>pp. curPreprepare (pbftMeta n) = Some pp \<and> cm_vs m = pp_vs pp \<and> cm_Digest m = pp_Digest pp}"
proof (cases "curPreprepare (pbftMeta n)")
  case (Some pp)
  let ?m = "\<lparr>cm_Digest = pp_Digest pp, cm_Seq = pp_Seq pp, cm_View = pp_View pp, cm_ShardID = lp_ShardID (pbftMeta n),
    cm_NodeID = lp_NodeID (pbftMeta n)\<rparr>"
  have e: "commitBroadcast X n = broadcastMsgInnerShard X CommitMessageType (enc (w_commit (op_wire X)) ?m) n"
    using Some by (simp add: commitBroadcast_def)
  have m: "cm_vs ?m = pp_vs pp" "cm_Digest ?m = pp_Digest pp" by (simp_all add: cm_vs_def pp_vs_def)
  from broadcast_sent [of X CommitMessageType "enc (w_commit (op_wire X)) ?m" n]
  have "commits_sent (op_wire X) (fst (commitBroadcast X n)) \<subseteq> insert ?m (commits_sent (op_wire X) n)"
  proof (elim disjE exE conjE)
    fix d b
    assume "enc (w_commit (op_wire X)) ?m = Inr b"
      "sent (fst (broadcastMsgInnerShard X CommitMessageType (enc (w_commit (op_wire X)) ?m) n)) = sent n @ [(d, \<lparr>MsgType = CommitMessageType, Payload = b\<rparr>)]"
    then show ?thesis unfolding e using commits_sent_snoc codec by blast
  qed (auto simp: e commits_sent_def sent_msgs_def)
  then show ?thesis using m Some by blast
qed (simp add: commitBroadcast_def)

lemma votes_commit:
  assumes v: "votes_ok (op_wire X) k n" and st: "step2Next (pbftMeta n) = (c, Inr (1, 2))"
    and codec: "\<And>m b. enc (w_commit (op_wire X)) m = Inr b \<Longrightarrow> dec (w_commit (op_wire X)) b = Inr m"
  shows "votes_ok (op_wire X) k (fst (commitBroadcast X (n\<lparr>pbftMeta := c\<rparr>)))"
proof -
  have c: "c = (pbftMeta n)\<lparr>stage := stageCommit\<rparr>" and st: "stage (pbftMeta n) \<noteq> stageCommit"
    using st by (auto simp: step2Next_def stage_defs split: if_splits option.splits)
  let ?n = "fst (commitBroadcast X (n\<lparr>pbftMeta := c\<rparr>))"
  have m: "pbftMeta ?n = c" by (simp add: broadcasts_meta(2) [OF surjective_pairing])
  have e: "commits_sent (op_wire X) (n\<lparr>pbftMeta := c\<rparr>) = commits_sent (op_wire X) n" by (simp add: commits_sent_def sent_msgs_def)
  have new: "x \<in> commits_sent (op_wire X) n \<or> (\<exists>pp. curPreprepare c = Some pp \<and> cm_vs x = pp_vs pp \<and> cm_Digest x = pp_Digest pp)"
    if "x \<in> commits_sent (op_wire X) ?n" for x
    using commitBroadcast_sent [OF codec, of "n\<lparr>pbftMeta := c\<rparr>"] that by (auto simp: e)
  have "votes_at (commits_sent (op_wire X) n) (curViewSeq (pbftMeta n)) (stage (pbftMeta n)) (curPreprepare c)"
    using v c by (simp add: votes_ok_def)
  from votes_at_commit [OF this st new]
  have "votes_at (commits_sent (op_wire X) ?n) (curViewSeq (pbftMeta n)) stageCommit (curPreprepare c)" .
  then show ?thesis unfolding votes_ok_def m using v c by (simp add: votes_ok_def)
qed

lemma votes_deliver:
  assumes v: "votes_ok W k n" and st: "step2Next (pbftMeta n) = (c, Inr (2, 0))" and k: "int (Suc k) < 2 ^ 63"
  shows "votes_ok W (Suc k) (fst (deliver X (n\<lparr>pbftMeta := c\<rparr>)))"
proof -
  obtain p where c: "c = next_round p (pbftMeta n)" using st by (auto simp: step2Next_def stage_defs split: if_splits option.splits)
  let ?s = "Seq (curViewSeq (pbftMeta n))"
  have r: "0 \<le> ?s" "?s \<le> int k" using v by (simp_all add: votes_ok_def)
  have w: "wrap_int64 (?s + 1) = ?s + 1" using r k by (intro wrap_int64_id) (simp add: int64_range_def)
  have s: "commits_sent W (fst (deliver X (n\<lparr>pbftMeta := c\<rparr>))) = commits_sent W n"
    by (simp add: commits_sent_def sent_msgs_def deliver_frame)
  show ?thesis unfolding votes_ok_def s using v r votes_at_next by (simp add: votes_ok_def deliver_frame c next_round_def w)
qed

lemma curate_preprepare_cases:
  "curPreprepare (curateMsg c) = curPreprepare c
   \<or> curPreprepare c = None \<and> (\<forall>pp. curPreprepare (curateMsg c) = Some pp \<longrightarrow> pp_vs pp = curViewSeq c)"
  by (auto simp: curateMsg_def curate_preprepare_def curate_prepares_def curate_commits_def Let_def find_Some_iff Compare_iff vs_key_inj
      split: option.splits prod.splits)

lemma votes_curate:
  assumes "votes_ok W k n"
  shows "votes_ok W k (n\<lparr>pbftMeta := curateMsg (pbftMeta n)\<rparr>)"
proof -
  have s: "commits_sent W (n\<lparr>pbftMeta := curateMsg (pbftMeta n)\<rparr>) = commits_sent W n" by (simp add: commits_sent_def sent_msgs_def)
  have "votes_at (commits_sent W n) (curViewSeq (pbftMeta n)) (stage (pbftMeta n)) (curPreprepare (curateMsg (pbftMeta n)))"
    using assms curate_preprepare_cases [of "pbftMeta n"] by (auto simp: votes_ok_def votes_at_def)
  then show ?thesis unfolding votes_ok_def s using assms by (simp add: votes_ok_def curate_frame)
qed

definition commit_codec :: "wire \<Rightarrow> bool" where
  "commit_codec W \<longleftrightarrow> (\<forall>m b. enc (w_commit W) m = Inr b \<longrightarrow> dec (w_commit W) b = Inr m)"

lemma votes_mono: "votes_ok W k n \<Longrightarrow> k \<le> k' \<Longrightarrow> votes_ok W k' n"
  by (auto simp: votes_ok_def)

text \<open>A node without a chain never asks for a catch-up and refuses every response.\<close>

lemma handleCatchupResp_unasked: "\<not> catchupStarted (pbftMeta n) \<Longrightarrow> fst (handleCatchupResp X b n) = n"
  by (auto simp: handleCatchupResp_def lift_res_def bind_st_def split: sum.splits)

lemma meta_step_started: "meta_step W w c c' \<Longrightarrow> catchupStarted c' \<Longrightarrow> catchupStarted c"
  by (cases rule: meta_step.cases) (auto simp: catchupOverAndReset_def)

lemma advance_started: "catchupStarted (pbftMeta (advanceConsensus X n)) = catchupStarted (pbftMeta n)"
  unfolding advanceConsensus_def
proof (rule step2NextStage_pres [where P = "\<lambda>m. catchupStarted (pbftMeta m) = catchupStarted (pbftMeta n)"])
  fix m :: "'a Node" and c r
  assume m: "catchupStarted (pbftMeta m) = catchupStarted (pbftMeta n)"
  show "catchupStarted (pbftMeta (fst (prepareBroadcast X (m\<lparr>pbftMeta := c\<rparr>)))) = catchupStarted (pbftMeta n)" if "step2Next (pbftMeta m) = (c, Inr (0, 1))"
    using m step2Next_frame(5) [OF that] by (simp add: broadcasts_meta(1) [OF surjective_pairing])
  show "catchupStarted (pbftMeta (fst (commitBroadcast X (m\<lparr>pbftMeta := c\<rparr>)))) = catchupStarted (pbftMeta n)" if "step2Next (pbftMeta m) = (c, Inr (1, 2))"
    using m step2Next_frame(5) [OF that] by (simp add: broadcasts_meta(2) [OF surjective_pairing])
  show "catchupStarted (pbftMeta (fst (deliver X (m\<lparr>pbftMeta := c\<rparr>)))) = catchupStarted (pbftMeta n)" if "step2Next (pbftMeta m) = (c, Inr (2, 0))"
    using m step2Next_frame(5) [OF that] by (simp add: deliver_frame)
qed (simp_all add: curate_frame)

definition voting :: "'a node_ops \<Rightarrow> nat \<Rightarrow> 'a Node \<Rightarrow> bool" where
  "voting X k n \<longleftrightarrow> (commit_codec (op_wire X) \<longrightarrow> votes_ok (op_wire X) k n) \<and> (op_chain X = None \<longrightarrow> \<not> catchupStarted (pbftMeta n))"

lemma voting_advance:
  assumes "voting X k n" "Suc k \<le> 2 ^ 63 - 1"
  shows "voting X (Suc k) (advanceConsensus X n)"
proof -
  have "votes_ok (op_wire X) (Suc k) (advanceConsensus X n)" if c: "commit_codec (op_wire X)"
  proof -
    have "int (Suc k) \<le> int (2 ^ 63 - 1)" using assms(2) by (rule of_nat_mono)
    then have b: "int (Suc k) < 2 ^ 63" by simp
    show ?thesis unfolding advanceConsensus_def
    proof (rule step2NextStage_pres [where P = "votes_ok (op_wire X) k"])
      show "votes_ok (op_wire X) k (n\<lparr>pbftMeta := curateMsg (pbftMeta n)\<rparr>)" using assms(1) c votes_curate by (auto simp: voting_def)
      show "votes_ok (op_wire X) k (fst (commitBroadcast X (n\<lparr>pbftMeta := d\<rparr>)))"
        if "votes_ok (op_wire X) k n" "step2Next (pbftMeta n) = (d, Inr (1, 2))" for n d
        using votes_commit [OF that] c by (simp add: commit_codec_def)
    qed (use b votes_prepare votes_deliver in \<open>simp_all add: votes_mono [of _ k]\<close>)
  qed
  then show ?thesis using assms(1) by (simp add: voting_def advance_started)
qed

lemma voting_handle:
  assumes "voting X k n" "op_chain X = None \<or> MsgType w \<noteq> CatchupRespMessageType"
  shows "voting X k (fst (handleMessage X w n))"
proof (cases "MsgType w = CatchupRespMessageType")
  case True
  then have "fst (handleMessage X w n) = fst (handleCatchupResp X (Payload w) n)"
    by (simp add: handleMessage_def StopConsensusMessageType_def PreprepareMessageType_def PrepareMessageType_def CommitMessageType_def
        CatchupReqMessageType_def CatchupRespMessageType_def)
  then show ?thesis using assms True handleCatchupResp_unasked [of n X "Payload w"] by (simp add: voting_def)
next
  case False
  then show ?thesis
    using assms(1) votes_frame [OF _ handleMessage_sent] meta_step_frame [OF handleMessage_step] meta_step_started [OF handleMessage_step [of X w n]]
    unfolding voting_def by blast
qed

interpretation vt: node_invariant X "{w. op_chain X = None \<or> MsgType w \<noteq> CatchupRespMessageType}" "2 ^ 63 - 1" "voting X" for X
proof
  fix k and n :: "'a Node" and now bc
  assume v: "voting X k n"
  show "voting X k (fst (handleMessage X w n))" if "w \<in> {w. op_chain X = None \<or> MsgType w \<noteq> CatchupRespMessageType}" for w
    using voting_handle [OF v] that by blast
  show "voting X k (fst (propose X now n))"
    using v votes_frame [OF _ propose_sent] propose_frame [of X now n] unfolding voting_def by force
  show "voting X k (fst (catchUpStart X bc n))" if "op_chain X = Some bc"
    using v that votes_frame [OF _ catchUpStart_frame(3)] catchUpStart_frame(1) [of X bc n] unfolding voting_def by force
qed (rule voting_advance)

lemma run_one_vote:
  assumes "commit_codec (op_wire X)" "int (work ticks) < 2 ^ 63"
    and "op_chain X = None \<or> (\<forall>w \<in> set (received ticks). MsgType w \<noteq> CatchupRespMessageType)"
  shows "one_vote (commits_sent (op_wire X) (run X ticks (new_node nodeNum blockInterval shard node now a)))"
proof -
  let ?n = "new_node nodeNum blockInterval shard node now a"
  have "int (work ticks) \<le> int (2 ^ 63 - 1)" using assms(2) by simp
  then have "work ticks \<le> 2 ^ 63 - 1" by (simp only: of_nat_le_iff)
  moreover have "voting X 0 ?n"
    by (simp add: voting_def votes_ok_def votes_at_def one_vote_def commits_sent_def sent_msgs_def new_node_def newConsensusMeta_def)
  ultimately obtain k where "voting X k (run X ticks ?n)"
    using vt.run_inv [of X 0 ?n ticks] assms(3) by auto
  then show ?thesis using assms(1) by (simp add: voting_def votes_ok_def votes_at_def)
qed

end
