(* ===== verification/Pbft_Agreement.thy ===== *)
theory Pbft_Agreement
  imports Pbft_Runs
begin

text \<open>
  Agreement and progress of the PBFT engine: certificates for the same view and sequence number
  carry one digest when at most \<open>f\<close> of \<open>3 f + 1\<close> members deviate from \<open>run\<close> or are impersonated, and a
  round with a pre-prepare of the leader and two quorums of votes ends with the delivery of its proposal.
\<close>

section \<open>The message pool\<close>

text \<open>
  C39. The three heaps of the message pool refine three multisets: after any sequence of pushes and
  reads, a read returns exactly the pending messages that are not after its bound, in the order of
  view and sequence numbers, and leaves the others.
\<close>

theorem MsgPool_refines:
  assumes "pool_run p (A, B, C)"
  shows "(case ReadPreprepareMsg e p of (ms, p') \<Rightarrow> sorted (map (\<lambda>m. vs_key (pp_vs m)) ms)
       \<and> mset ms = {#m \<in># A. vs_key (pp_vs m) \<le> vs_key e#} \<and> pool_abs p' = ({#m \<in># A. vs_key e < vs_key (pp_vs m)#}, B, C))
    \<and> (case ReadPrepareMsg e p of (ms, p') \<Rightarrow> sorted (map (\<lambda>m. vs_key (pr_vs m)) ms)
       \<and> mset ms = {#m \<in># B. vs_key (pr_vs m) \<le> vs_key e#} \<and> pool_abs p' = (A, {#m \<in># B. vs_key e < vs_key (pr_vs m)#}, C))
    \<and> (case ReadCommitMsg e p of (ms, p') \<Rightarrow> sorted (map (\<lambda>m. vs_key (cm_vs m)) ms)
       \<and> mset ms = {#m \<in># C. vs_key (cm_vs m) \<le> vs_key e#} \<and> pool_abs p' = (A, B, {#m \<in># C. vs_key e < vs_key (cm_vs m)#}))"
proof -
  have p: "pool_ok p" "pool_abs p = (A, B, C)" using pool_run_abs [OF assms] by simp_all
  have s: "mset (preprepares p) = A" "mset (prepares p) = B" "mset (commits p) = C" using p(2) by (simp_all add: pool_abs_def)
  show ?thesis using read_specs [OF p(1), unfolded s] by (auto split: prod.splits)
qed

theorem MsgPool_refines_witness:
  "case ReadCommitMsg \<lparr>View = 0, Seq = 1\<rparr> (PushCommitMsg \<lparr>cm_Digest = [], cm_Seq = 1, cm_View = 0, cm_ShardID = 0, cm_NodeID = 2\<rparr>
     (PushCommitMsg \<lparr>cm_Digest = [], cm_Seq = 3, cm_View = 0, cm_ShardID = 0, cm_NodeID = 1\<rparr> NewMsgPool)) of
     (ms, p') \<Rightarrow> mset ms = {#\<lparr>cm_Digest = [], cm_Seq = 1, cm_View = 0, cm_ShardID = 0, cm_NodeID = 2\<rparr>#}"
proof -
  let ?m = "\<lparr>cm_Digest = [], cm_Seq = 1, cm_View = 0, cm_ShardID = 0, cm_NodeID = 2\<rparr>"
  let ?m' = "\<lparr>cm_Digest = [], cm_Seq = 3, cm_View = 0, cm_ShardID = 0, cm_NodeID = 1\<rparr>"
  have "pool_run (PushCommitMsg ?m (PushCommitMsg ?m' NewMsgPool)) ({#}, {#}, {#?m, ?m'#})"
    by (intro pool_run.push_commit pool_run.new)
  from MsgPool_refines [OF this, of "\<lparr>View = 0, Seq = 1\<rparr>"] show ?thesis by (auto simp: vs_key_def cm_vs_def)
qed

section \<open>Agreement\<close>



text \<open>
  A member \<open>i\<close> that runs the code for fewer than \<open>2 ^ 63\<close> steps and, when it keeps a chain, receives no
  catch-up response: the response sets its view, sequence number and stage to whatever it says, after which the
  member votes again for numbers it may have voted for.
\<close>

definition follows :: "'a node_ops \<Rightarrow> NodeInfo \<Rightarrow> 'a Node \<Rightarrow> bool" where
  "follows X i n \<longleftrightarrow> (\<exists>nodeNum blockInterval now a ticks. n = run X ticks (new_node nodeNum blockInterval (ShardID i) (NodeID i) now a)
     \<and> int (work ticks) < 2 ^ 63 \<and> (op_chain X = None \<or> (\<forall>w \<in> set (received ticks). MsgType w \<noteq> CatchupRespMessageType)))"


text \<open>A shard with one member, whose wire format knows one message of each kind.\<close>

definition solo :: NodeInfo where "solo = \<lparr>NodeID = 0, ShardID = 0\<rparr>"

definition solo_pp :: PreprepareMsg where
  "solo_pp = \<lparr>pp_P = \<lparr>p_Block = None, p_NettingBatch = None\<rparr>, pp_Digest = [7], pp_Seq = 0, pp_View = 0, pp_ShardID = 0, pp_NodeID = 0\<rparr>"

definition solo_pr :: PrepareMsg where
  "solo_pr = \<lparr>pr_Digest = [7], pr_Seq = 0, pr_View = 0, pr_ShardID = 0, pr_NodeID = 0\<rparr>"

definition solo_cm :: CommitMsg where
  "solo_cm = \<lparr>cm_Digest = [7], cm_Seq = 0, cm_View = 0, cm_ShardID = 0, cm_NodeID = 0\<rparr>"

definition one_codec :: "'m \<Rightarrow> 'm codec" where
  "one_codec m = \<lparr>enc = (\<lambda>x. if x = m then Inr [1] else Inl GoPanic), dec = (\<lambda>b. if b = [1] then Inr m else Inl GoPanic)\<rparr>"

definition solo_wire :: wire where
  "solo_wire = \<lparr>w_preprepare = one_codec solo_pp, w_prepare = one_codec solo_pr, w_commit = one_codec solo_cm,
     w_catchupReq = one_codec \<lparr>cq_StartBlockHeight = 0, cq_ShardID = 0, cq_NodeID = 0\<rparr>,
     w_catchupResp = one_codec \<lparr>cr_Proposals = [], cr_NextSeq = 0, cr_NextView = 0, cr_ShardID = 0, cr_NodeID = 0\<rparr>\<rparr>"

definition solo_ops :: "Proposal list node_ops" where
  "solo_ops = \<lparr>BuildProposal = (\<lambda>a. (a, Inr None)), ValidateProposal = (\<lambda>p a. (a, Inr ())),
     ProposalCommitAndDeliver = (\<lambda>b p a. (a @ [p], Inr ())), HandleMsgOutsideShard = (\<lambda>w a. (a, Inr ())),
     op_chain = None, op_record = None, GetNodesInShard = (\<lambda>s. Inr [solo]), GetLeader = (\<lambda>s. Inr solo),
     op_wire = solo_wire, op_proposal_Hash = (\<lambda>p. Inr [7])\<rparr>"

definition solo_ticks :: "(int \<times> WrappedMsg list) list" where
  "solo_ticks = [(0, [\<lparr>MsgType = ''Preprepare'', Payload = [1]\<rparr>]), (0, [\<lparr>MsgType = ''Prepare'', Payload = [1]\<rparr>]),
     (0, [\<lparr>MsgType = ''Commit'', Payload = [1]\<rparr>])]"

definition solo_node :: "Proposal list Node" where
  "solo_node = run solo_ops solo_ticks (new_node 1 1000 0 0 0 [])"


lemma solo_delivers: "app solo_node = [pp_P solo_pp]"
  by code_simp



lemma solo_follows: "op_wire solo_ops = solo_wire \<and> follows solo_ops solo solo_node"
proof -
  have "int (work solo_ticks) < 2 ^ 63" "op_chain solo_ops = None" by (simp_all add: solo_ticks_def solo_ops_def)
  then have "follows solo_ops solo solo_node" unfolding follows_def
    by (intro exI [of _ 1] exI [of _ 1000] exI [of _ "0 :: int"] exI [of _ "[]"] exI [of _ solo_ticks] conjI) (simp_all add: solo_node_def solo_def)
  then show ?thesis by (simp add: solo_ops_def)
qed



text \<open>The log of the member of the one-member shard, whose one entry is certified.\<close>

lemma solo_log: "set (snd (app (run (logged solo_ops) solo_ticks (new_node 1 1000 0 0 0 ([], []))))) = {Delivered (pp_P solo_pp)}"
  by code_simp

theorem delivered_certified_witness:
  "event_ok solo_wire (received solo_ticks) 0 (Delivered (pp_P solo_pp))
   \<and> Delivered (pp_P solo_pp) \<in> set (snd (app (run (logged solo_ops) solo_ticks (new_node 1 1000 0 0 0 ([], [])))))"
  using delivered_certified [of "Delivered (pp_P solo_pp)" solo_ops solo_ticks 1 1000 0 0 0 "[]"] solo_log solo_follows by simp

text \<open>
  The hypothesis on impersonation is needed: the messages below name three members of a shard of four, whoever sent
  them, and each of two members that receive them finishes its first round, with digests of the sender's choice.
\<close>

definition forged_wire :: wire where
  "forged_wire = solo_wire\<lparr>
     w_preprepare := \<lparr>enc = (\<lambda>m. Inl GoPanic), dec = (\<lambda>b. Inr (solo_pp\<lparr>pp_Digest := b\<rparr>))\<rparr>,
     w_prepare := \<lparr>enc = (\<lambda>m. Inr []), dec = (\<lambda>b. Inr (solo_pr\<lparr>pr_Digest := tl b, pr_NodeID := uint (List.hd b)\<rparr>))\<rparr>,
     w_commit := \<lparr>enc = (\<lambda>m. Inr []), dec = (\<lambda>b. Inr (solo_cm\<lparr>cm_Digest := tl b, cm_NodeID := uint (List.hd b)\<rparr>))\<rparr>\<rparr>"

definition forged_ops :: "Proposal list node_ops" where
  "forged_ops = solo_ops\<lparr>op_wire := forged_wire\<rparr>"

definition forged_ticks :: "bytes \<Rightarrow> (int \<times> WrappedMsg list) list" where
  "forged_ticks d = [(0, \<lparr>MsgType = PreprepareMessageType, Payload = d\<rparr>
     # map (\<lambda>i. \<lparr>MsgType = PrepareMessageType, Payload = i # d\<rparr>) [1, 2, 3] @ map (\<lambda>i. \<lparr>MsgType = CommitMessageType, Payload = i # d\<rparr>) [1, 2, 3])]"

definition forged_node :: "bytes \<Rightarrow> int \<Rightarrow> (Proposal list \<times> app_event list) Node" where
  "forged_node d i = run (logged forged_ops) (forged_ticks d) (new_node 4 1000 0 i 0 ([], []))"

lemma forged_rounds:
  "curViewSeq (pbftMeta (forged_node [7] 1)) = \<lparr>View = 0, Seq = 1\<rparr>" "curViewSeq (pbftMeta (forged_node [8] 2)) = \<lparr>View = 0, Seq = 1\<rparr>"
  "set (snd (app (forged_node [7] 1))) = {Delivered (pp_P solo_pp)}" "set (snd (app (forged_node [8] 2))) = {Delivered (pp_P solo_pp)}"
  by code_simp+

text \<open>
  Quorums of \<open>2 f + 1\<close> with \<open>f = (NodeNum - 1) / 3\<close> need not meet when \<open>NodeNum\<close> is not
  \<open>3 f + 1\<close>: with six nodes the threshold is three.
\<close>

lemma quorum_of_six_splits:
  "faulty (newConsensusMeta 6 t shard node now) = 1 \<and> card {0, 1, 2 :: int} = 3 \<and> card {3, 4, 5 :: int} = 3 \<and> {0, 1, 2 :: int} \<inter> {3, 4, 5} = {}"
  by (simp add: newConsensusMeta_def)

section \<open>Progress\<close>























end
