(* ===== verification/ShardOp.thy ===== *)
theory ShardOp
  imports Receipts Pbft_Agreement
begin

text \<open>
  A transaction shard: what \<open>insideop/staticshardop.go\<close> with \<open>txblockop\<close> and \<open>outsideop\<close> give to the PBFT
  engine, over the chain, the transaction pool, the inbox of settlement packages and the publishers of receipts and
  fallbacks (\<open>fallback/publisher.go\<close>). The record \<open>ShardApp\<close> is the state that these objects share; the
  clock is the sequence of instants it will return. Execution metrics are sent to the supervisor and read nowhere
  else; they are left out. A message sent in a goroutine of its own is sent at once.
\<close>

section \<open>State and environment\<close>

definition UndeterminedRelayTx :: uint64 where "UndeterminedRelayTx = 0"
definition RawTxBrokerStage :: uint64 where "RawTxBrokerStage = 0"

definition StaticRelayConsensus :: string where "StaticRelayConsensus = ''static_relay''"
definition StaticBrokerConsensus :: string where "StaticBrokerConsensus = ''static_broker''"
definition CLPARelayConsensus :: string where "CLPARelayConsensus = ''clpa_relay''"
definition CLPABrokerConsensus :: string where "CLPABrokerConsensus = ''clpa_broker''"

record ConsensusNodeCfg =
  cn_ConsensusType :: string
  cn_ShardNum :: int
  cn_BlockSizeLimit :: int
  cn_NettingEnabled :: bool
  cn_NodeID :: int
  cn_WalletAddr :: address

record ('st, 'l) ShardApp =
  sa_chain :: "('st, 'l) Chain"
  sa_pool :: TxPool
  sa_inbox :: Inbox
  sa_lastSent :: "FallbackKey \<rightharpoonup> int"
  sa_clock :: "nat \<Rightarrow> int"
  sa_calls :: nat
  sa_out :: net

record ('s, 'st, 'l) shard_env =
  sn_E :: "('s, 'st, 'l) chain_env"
  sn_C :: msg_codecs
  sn_topo :: TopoGetter
  sn_cfg :: ConsensusNodeCfg

definition sh_Now :: "('st, 'l) ShardApp \<Rightarrow> int \<times> ('st, 'l) ShardApp" where
  "sh_Now a = (sa_clock a (sa_calls a), a\<lparr>sa_calls := sa_calls a + 1\<rparr>)"

definition sh_send :: "NodeInfo \<Rightarrow> WrappedMsg \<Rightarrow> ('st, 'l) ShardApp \<Rightarrow> ('st, 'l) ShardApp" where
  "sh_send dest w a = a\<lparr>sa_out := sa_out a @ [([dest], w)]\<rparr>"

text \<open>\<open>WrapMsg\<close>, the lookup of the destination and the send.\<close>

definition sh_wrap_send :: "WrappedMsg res \<Rightarrow> NodeInfo res \<Rightarrow> ('st, 'l) ShardApp \<Rightarrow> ('st, 'l) ShardApp \<times> unit res" where
  "sh_wrap_send wrapped dest a =
     (case bind_res wrapped (\<lambda>w. bind_res dest (\<lambda>d. Inr (d, w))) of
        Inl e \<Rightarrow> (a, Inl e)
      | Inr (d, w) \<Rightarrow> (sh_send d w a, Inr ()))"

section \<open>The publisher of fallbacks\<close>

definition republishInterval :: int where
  "republishInterval = 5000000000"

fun publishCompletions :: "('s, 'st, 'l) shard_env \<Rightarrow> Transaction list \<Rightarrow> ('st, 'l) ShardApp \<Rightarrow> ('st, 'l) ShardApp \<times> unit res" where
  "publishCompletions S [] a = (a, Inr ())"
| "publishCompletions S (tx # txs) a =
     (case tx_FallbackCompleted tx of
        Some key \<Rightarrow> publishCompletions S txs (a\<lparr>sa_lastSent := (sa_lastSent a)(key := None)\<rparr>)
      | None \<Rightarrow>
          (case tx_ReservedFallback tx of
             None \<Rightarrow> publishCompletions S txs a
           | Some item \<Rightarrow>
               (let wrapped = WrapMsg FallbackCompletedMessageType (enc (mc_FallbackCompleted (sn_C S))
                      \<lparr>fc_NodeID = cn_NodeID (sn_cfg S), fc_SourceShard = fb_SourceShard item, fc_Key = fallback_Key item\<rparr>) in
                bind_st (sh_wrap_send wrapped (topo_GetLeader (sn_topo S) (fb_SourceShard item)) a) (\<lambda>_ a1.
                publishCompletions S txs (case (GetSupervisor (sn_topo S), wrapped) of (Inr spv, Inr w) \<Rightarrow> sh_send spv w a1 | _ \<Rightarrow> a1)))))"

fun finished_results :: "IntentResult list \<Rightarrow> hash256 list res" where
  "finished_results [] = Inr []"
| "finished_results (r # rs) =
     (case ir_FallbackAmount r of
        None \<Rightarrow> Inl GoPanic
      | Some x \<Rightarrow> bind_res (finished_results rs) (\<lambda>ids. Inr (if x = 0 then ir_IntentID r # ids else ids)))"

fun completed_intents :: "Transaction list \<Rightarrow> hash256 list res" where
  "completed_intents [] = Inr []"
| "completed_intents (tx # txs) =
     (case tx_ReservedFallback tx of
        Some item \<Rightarrow> bind_res (completed_intents txs) (\<lambda>ids. Inr (fb_IntentID item # ids))
      | None \<Rightarrow>
          (case tx_Settlement tx of
             None \<Rightarrow> completed_intents txs
           | Some pack \<Rightarrow>
               bind_res (finished_results (ss_Outgoing (pk_Settlement pack))) (\<lambda>ids.
               bind_res (completed_intents txs) (\<lambda>ids'. Inr (ids @ ids')))))"

definition publishProgress :: "('s, 'st, 'l) shard_env \<Rightarrow> Transaction list \<Rightarrow> ('st, 'l) ShardApp \<Rightarrow> ('st, 'l) ShardApp \<times> unit res" where
  "publishProgress S txs a =
     (case completed_intents txs of
        Inl e \<Rightarrow> (a, Inl e)
      | Inr completed \<Rightarrow>
          if completed = [] then (a, Inr ())
          else sh_wrap_send (WrapMsg NettingProgressMessageType
                 (enc (mc_NettingProgress (sn_C S)) \<lparr>np_NodeID = cn_NodeID (sn_cfg S), np_IntentIDs = completed\<rparr>)) (GetSupervisor (sn_topo S)) a)"

definition publish_item :: "('s, 'st, 'l) shard_env \<Rightarrow> ReservedFallback \<Rightarrow> ('st, 'l) ShardApp \<Rightarrow> ('st, 'l) ShardApp \<times> unit res" where
  "publish_item S item a =
     (case bind_res (topo_GetLeader (sn_topo S) (fb_DestinationShard item)) (\<lambda>d.
           bind_res (WrapMsg FallbackTxMessageType (enc (mc_FallbackTx (sn_C S)) \<lparr>ft_NodeID = cn_NodeID (sn_cfg S), ft_Fallback = item\<rparr>)) (\<lambda>w. Inr (d, w))) of
        Inl e \<Rightarrow> (a, Inl e)
      | Inr (d, w) \<Rightarrow>
          (case sh_Now (sh_send d w a) of (now, a1) \<Rightarrow> (a1\<lparr>sa_lastSent := (sa_lastSent a1)(fallback_Key item \<mapsto> now)\<rparr>, Inr ())))"

fun publish_pending :: "('s, 'st, 'l) shard_env \<Rightarrow> ReservedFallback list \<Rightarrow> ('st, 'l) ShardApp \<Rightarrow> ('st, 'l) ShardApp \<times> unit res" where
  "publish_pending S [] a = (a, Inr ())"
| "publish_pending S (item # items) a =
     (case sa_lastSent a (fallback_Key item) of
        None \<Rightarrow> bind_st (publish_item S item a) (\<lambda>_ a1. publish_pending S items a1)
      | Some sentAt \<Rightarrow>
          (case sh_Now a of (now, a1) \<Rightarrow>
             if now - sentAt < republishInterval then publish_pending S items a1
             else bind_st (publish_item S item a1) (\<lambda>_ a2. publish_pending S items a2)))"

definition PublishAfterBlock :: "('s, 'st, 'l) shard_env \<Rightarrow> Block \<Rightarrow> ('st, 'l) ShardApp \<Rightarrow> ('st, 'l) ShardApp \<times> unit res" where
  "PublishAfterBlock S b a =
     (if \<not> cn_NettingEnabled (sn_cfg S) \<or> cn_NodeID (sn_cfg S) \<noteq> 0 then (a, Inr ())
      else bind_st (publishCompletions S (TxList b) a) (\<lambda>_ a1.
           bind_st (publishProgress S (TxList b) a1) (\<lambda>_ a2.
           case GetPendingFallbacks (sn_E S) (sa_chain a2) of
             Inl e \<Rightarrow> (a2, Inl e)
           | Inr items \<Rightarrow> publish_pending S items a2)))"

section \<open>Transaction blocks of the relay mode\<close>

definition isNettingSystemTx :: "Transaction \<Rightarrow> bool" where
  "isNettingSystemTx tx \<longleftrightarrow>
     TxType tx = IntentSubmitTxType \<or> TxType tx = SettlementTxType \<or> TxType tx = ReservedFallbackTxType \<or> TxType tx = FallbackCompletedTxType"

definition to_relay1 :: "bytes \<Rightarrow> Transaction \<Rightarrow> Transaction" where
  "to_relay1 thash tx = tx\<lparr>tx_Relay := (tx_Relay tx)\<lparr>RelayStage := Relay1Tx, ROriginalHash := thash\<rparr>\<rparr>"

definition to_relay2 :: "Transaction \<Rightarrow> Transaction" where
  "to_relay2 tx = tx\<lparr>tx_Relay := (tx_Relay tx)\<lparr>RelayStage := Relay2Tx\<rparr>\<rparr>"

fun modify_txs :: "('s, 'st, 'l) shard_env \<Rightarrow> (address \<Rightarrow> int) \<Rightarrow> int \<Rightarrow> Transaction list \<Rightarrow> Transaction list res" where
  "modify_txs S loc sid [] = Inr []"
| "modify_txs S loc sid (tx # txs) =
     (if isNettingSystemTx tx \<or> RelayStage (tx_Relay tx) \<noteq> UndeterminedRelayTx
      then bind_res (modify_txs S loc sid txs) (\<lambda>ms. Inr (tx # ms))
      else if loc (tx_Sender tx) < 0 \<or> loc (tx_Recipient tx) < 0
      then Inl (ErrOther ''tx sender or recipient does not exist in the accountLocation map'')
      else if loc (tx_Sender tx) \<noteq> sid then modify_txs S loc sid txs
      else if loc (tx_Sender tx) = loc (tx_Recipient tx) then bind_res (modify_txs S loc sid txs) (\<lambda>ms. Inr (tx # ms))
      else bind_res (tx_Hash (ce_hash (sn_E S)) (ce_tx (sn_E S)) tx) (\<lambda>thash.
           bind_res (modify_txs S loc sid txs) (\<lambda>ms. Inr (to_relay1 thash tx # ms))))"

definition modifyTxRelayOpt :: "('s, 'st, 'l) shard_env \<Rightarrow> ('st, 'l) Chain \<Rightarrow> Transaction list \<Rightarrow> Transaction list res" where
  "modifyTxRelayOpt S c txs =
     bind_res (getAccountLocationsInTxs (sn_E S) c txs) (\<lambda>accountLocations. modify_txs S accountLocations (shardID c) txs)"

definition empty_migration :: MigrationOpt where
  "empty_migration = \<lparr>MigratedAddrs = [], MigratedStates = []\<rparr>"

definition generate_proposal :: "('s, 'st, 'l) shard_env \<Rightarrow> Transaction list \<Rightarrow> ('st, 'l) ShardApp \<Rightarrow> ('st, 'l) ShardApp \<times> Proposal option res" where
  "generate_proposal S txs a =
     (case sh_Now a of (now, a1) \<Rightarrow>
        (a1, bind_res (GenerateBlock (sn_E S) (sa_chain a1) now (cn_WalletAddr (sn_cfg S)) TxBlockType txs empty_migration) (\<lambda>b. Inr (Some (WrapProposal b)))))"

definition relay_BuildTxBlockProposal :: "('s, 'st, 'l) shard_env \<Rightarrow> Transaction list \<Rightarrow> ('st, 'l) ShardApp \<Rightarrow> ('st, 'l) ShardApp \<times> Proposal option res" where
  "relay_BuildTxBlockProposal S txs a =
     (case modifyTxRelayOpt S (sa_chain a) txs of
        Inl e \<Rightarrow> (a, Inl e)
      | Inr mTxs \<Rightarrow> generate_proposal S mTxs a)"

definition relay_splitTxs :: "Transaction list \<Rightarrow> Transaction list \<times> Transaction list \<times> Transaction list" where
  "relay_splitTxs txs =
     (let own = filter (\<lambda>tx. \<not> isNettingSystemTx tx) txs in
      (filter (\<lambda>tx. RelayStage (tx_Relay tx) = UndeterminedRelayTx) own,
       filter (\<lambda>tx. RelayStage (tx_Relay tx) = Relay1Tx) own,
       filter (\<lambda>tx. RelayStage (tx_Relay tx) = Relay2Tx) own))"

definition relay_deliverBlockInfo2Supervisor ::
    "('s, 'st, 'l) shard_env \<Rightarrow> Transaction list \<times> Transaction list \<times> Transaction list \<Rightarrow> Block \<Rightarrow> ('st, 'l) ShardApp \<Rightarrow> ('st, 'l) ShardApp \<times> unit res" where
  "relay_deliverBlockInfo2Supervisor S parts b a =
     (case (parts, sh_Now a) of ((inner, r1, r2), (now, a1)) \<Rightarrow>
        sh_wrap_send (WrapMsg RelayBlockInfoMessageType (enc (mc_RelayBlockInfo (sn_C S))
          \<lparr>rb_InnerShardTxs = inner, rb_Relay1Txs = r1, rb_Relay2Txs = r2, rb_Epoch = epochID (sa_chain a1),
           rb_BlockProposeTime = bh_CreateTime (b_Header b), rb_BlockCommitTime = now, rb_ShardID = shardID (sa_chain a1)\<rparr>))
          (GetSupervisor (sn_topo S)) a1)"

text \<open>The array of the transactions for every shard; an index outside of it panics.\<close>

fun split_relayed :: "(address \<Rightarrow> int) \<Rightarrow> Transaction list \<Rightarrow> Transaction list list \<Rightarrow> Transaction list list res" where
  "split_relayed loc [] arr = Inr arr"
| "split_relayed loc (tx # txs) arr =
     (let i = loc (tx_Recipient tx) in
      if i < 0 \<or> int (length arr) \<le> i then Inl GoPanic
      else split_relayed loc txs (arr[nat i := arr ! nat i @ [to_relay2 tx]]))"

text \<open>Every recipient is one of the accounts of the block, so the lookup always succeeds.\<close>

definition sendRelayedTxs :: "('s, 'st, 'l) shard_env \<Rightarrow> Block \<Rightarrow> Transaction list \<Rightarrow> ('st, 'l) ShardApp \<Rightarrow> ('st, 'l) ShardApp \<times> unit res" where
  "sendRelayedTxs S b r1Txs a =
     (case bind_res (getAccountLocationsInTxs (sn_E S) (sa_chain a) (TxList b)) (\<lambda>accountLocations.
           fail_if (cn_ShardNum (sn_cfg S) < 0) GoPanic (
           split_relayed accountLocations r1Txs (replicate (nat (cn_ShardNum (sn_cfg S))) []))) of
        Inl e \<Rightarrow> (a, Inl e)
      | Inr relayedTxs \<Rightarrow>
          (case SendWrappedTxs2Shards (sn_C S) (sn_topo S) relayedTxs (sa_out a) of (out, r) \<Rightarrow> (a\<lparr>sa_out := out\<rparr>, r)))"

text \<open>The part of \<open>BlockCommitAndDeliver\<close> that both modes share: adding the block and publishing its receipt and fallbacks.\<close>

definition add_block :: "('s, 'st, 'l) shard_env \<Rightarrow> Block \<Rightarrow> ('st, 'l) ShardApp \<Rightarrow> ('st, 'l) ShardApp \<times> unit res" where
  "add_block S b a = (case AddBlock (sn_E S) b (sa_chain a) of (c, r) \<Rightarrow> (a\<lparr>sa_chain := c\<rparr>, r))"

definition publish_receipt :: "('s, 'st, 'l) shard_env \<Rightarrow> Block \<Rightarrow> ('st, 'l) ShardApp \<Rightarrow> ('st, 'l) ShardApp \<times> unit res" where
  "publish_receipt S b a =
     (case sh_Now a of (committedAt, a1) \<Rightarrow>
      case Publish (cn_NettingEnabled (sn_cfg S)) (cn_NodeID (sn_cfg S)) (ce_hash (sn_E S)) (ce_block (sn_E S)) (sn_C S) (sn_topo S)
             (shardID (sa_chain a1)) (epochID (sa_chain a1)) b committedAt (sa_out a1) of
        (out, r) \<Rightarrow> (a1\<lparr>sa_out := out\<rparr>, r))"

definition relay_BlockCommitAndDeliver :: "('s, 'st, 'l) shard_env \<Rightarrow> bool \<Rightarrow> Block \<Rightarrow> ('st, 'l) ShardApp \<Rightarrow> ('st, 'l) ShardApp \<times> unit res" where
  "relay_BlockCommitAndDeliver S lead b a =
     bind_st (add_block S b a) (\<lambda>_ a1.
     if \<not> lead then (a1, Inr ())
     else bind_st (publish_receipt S b a1) (\<lambda>_ a2.
          bind_st (PublishAfterBlock S b a2) (\<lambda>_ a3.
          bind_st (relay_deliverBlockInfo2Supervisor S (relay_splitTxs (TxList b)) b a3) (\<lambda>_ a4.
          sendRelayedTxs S b (fst (snd (relay_splitTxs (TxList b)))) a4))))"

section \<open>Transaction blocks of the broker mode\<close>

definition broker_splitTxs ::
    "Transaction list \<Rightarrow> Transaction list \<times> Transaction list \<times> Transaction list \<times> Transaction list \<times> Transaction list" where
  "broker_splitTxs txs =
     (let own = filter (\<lambda>tx. \<not> isNettingSystemTx tx) txs;
          relayed = filter (\<lambda>tx. TxType tx = RelayTxType) own;
          other = filter (\<lambda>tx. TxType tx \<noteq> RelayTxType) own
      in (filter (\<lambda>tx. BrokerStage (tx_Broker tx) = RawTxBrokerStage) other,
          filter (\<lambda>tx. BrokerStage (tx_Broker tx) = Sigma1BrokerStage) other,
          filter (\<lambda>tx. BrokerStage (tx_Broker tx) = Sigma2BrokerStage) other,
          filter (\<lambda>tx. RelayStage (tx_Relay tx) = Relay1Tx) relayed,
          filter (\<lambda>tx. RelayStage (tx_Relay tx) \<noteq> Relay1Tx) relayed))"

definition broker_deliverBlockInfo2Supervisor ::
    "('s, 'st, 'l) shard_env \<Rightarrow> Transaction list \<times> Transaction list \<times> Transaction list \<times> Transaction list \<times> Transaction list \<Rightarrow> Block
     \<Rightarrow> ('st, 'l) ShardApp \<Rightarrow> ('st, 'l) ShardApp \<times> unit res" where
  "broker_deliverBlockInfo2Supervisor S parts b a =
     (case (parts, sh_Now a) of ((inner, b1, b2, r1, r2), (now, a1)) \<Rightarrow>
        sh_wrap_send (WrapMsg BrokerBlockInfoMessageType (enc (mc_BrokerBlockInfo (sn_C S))
          \<lparr>bb_InnerShardTxs = inner, bb_Broker1Txs = b1, bb_Broker2Txs = b2, bb_Relay1Txs = r1, bb_Relay2Txs = r2,
           bb_Epoch = epochID (sa_chain a1), bb_BlockProposeTime = bh_CreateTime (b_Header b), bb_BlockCommitTime = now,
           bb_ShardID = shardID (sa_chain a1)\<rparr>)) (GetSupervisor (sn_topo S)) a1)"

definition broker_BlockCommitAndDeliver :: "('s, 'st, 'l) shard_env \<Rightarrow> bool \<Rightarrow> Block \<Rightarrow> ('st, 'l) ShardApp \<Rightarrow> ('st, 'l) ShardApp \<times> unit res" where
  "broker_BlockCommitAndDeliver S lead b a =
     bind_st (add_block S b a) (\<lambda>_ a1.
     if \<not> lead then (a1, Inr ())
     else bind_st (publish_receipt S b a1) (\<lambda>_ a2.
          bind_st (PublishAfterBlock S b a2) (\<lambda>_ a3.
          case broker_splitTxs (TxList b) of (inner, b1, b2, r1, r2) \<Rightarrow>
          bind_st (broker_deliverBlockInfo2Supervisor S (inner, b1, b2, r1, r2) b a3) (\<lambda>_ a4.
          if r1 = [] then (a4, Inr ()) else sendRelayedTxs S b r1 a4))))"

section \<open>The static shard\<close>

definition is_relay :: "ConsensusNodeCfg \<Rightarrow> bool" where
  "is_relay cfg \<longleftrightarrow> cn_ConsensusType cfg = StaticRelayConsensus \<or> cn_ConsensusType cfg = CLPARelayConsensus"

text \<open>\<open>NewTxBlockOp\<close>: the mode by the type of consensus; any other type is refused when the node is made.\<close>

definition NewTxBlockOp :: "ConsensusNodeCfg \<Rightarrow> bool res" where
  "NewTxBlockOp cfg =
     (if is_relay cfg then Inr True
      else if cn_ConsensusType cfg = StaticBrokerConsensus \<or> cn_ConsensusType cfg = CLPABrokerConsensus then Inr False
      else Inl (ErrOther ''unknown consensus type''))"

definition BuildTxBlockProposal :: "('s, 'st, 'l) shard_env \<Rightarrow> Transaction list \<Rightarrow> ('st, 'l) ShardApp \<Rightarrow> ('st, 'l) ShardApp \<times> Proposal option res" where
  "BuildTxBlockProposal S txs a =
     (if is_relay (sn_cfg S) then relay_BuildTxBlockProposal S txs a else generate_proposal S txs a)"

definition BlockCommitAndDeliver :: "('s, 'st, 'l) shard_env \<Rightarrow> bool \<Rightarrow> Block \<Rightarrow> ('st, 'l) ShardApp \<Rightarrow> ('st, 'l) ShardApp \<times> unit res" where
  "BlockCommitAndDeliver S lead b a =
     (if is_relay (sn_cfg S) then relay_BlockCommitAndDeliver S lead b a else broker_BlockCommitAndDeliver S lead b a)"

definition static_BuildProposal :: "('s, 'st, 'l) shard_env \<Rightarrow> ('st, 'l) ShardApp \<Rightarrow> ('st, 'l) ShardApp \<times> Proposal option res" where
  "static_BuildProposal S a =
     (case PackTxs (cn_BlockSizeLimit (sn_cfg S)) (sa_pool a) of
        (p, Inl e) \<Rightarrow> (a\<lparr>sa_pool := p\<rparr>, Inl e)
      | (p, Inr txs) \<Rightarrow> BuildTxBlockProposal S txs (a\<lparr>sa_pool := p\<rparr>))"

definition static_ValidateProposal :: "('s, 'st, 'l) shard_env \<Rightarrow> Proposal \<Rightarrow> ('st, 'l) ShardApp \<Rightarrow> ('st, 'l) ShardApp \<times> unit res" where
  "static_ValidateProposal S p a =
     (a, case p_Block p of None \<Rightarrow> Inl GoPanic | Some b \<Rightarrow> validateBlock (sn_E S) (sa_chain a) b)"

definition static_ProposalCommitAndDeliver ::
    "('s, 'st, 'l) shard_env \<Rightarrow> bool \<Rightarrow> Proposal \<Rightarrow> ('st, 'l) ShardApp \<Rightarrow> ('st, 'l) ShardApp \<times> unit res" where
  "static_ProposalCommitAndDeliver S lead p a =
     (case p_Block p of None \<Rightarrow> (a, Inl GoPanic) | Some b \<Rightarrow> BlockCommitAndDeliver S lead b a)"

section \<open>Messages from outside the shard\<close>

definition pool_add :: "Transaction list \<Rightarrow> ('st, 'l) ShardApp \<Rightarrow> ('st, 'l) ShardApp \<times> unit res" where
  "pool_add txs a = (case AddTxs txs (sa_pool a) of (p, r) \<Rightarrow> (a\<lparr>sa_pool := p\<rparr>, r))"

definition staticloc_HandleMsgOutsideShard :: "('s, 'st, 'l) shard_env \<Rightarrow> WrappedMsg \<Rightarrow> ('st, 'l) ShardApp \<Rightarrow> ('st, 'l) ShardApp \<times> unit res" where
  "staticloc_HandleMsgOutsideShard S w a =
     (if MsgType w = ReceiveTxsMessageType
      then case dec (mc_ReceiveTxs (sn_C S)) (WrappedMsg.Payload w) of Inl e \<Rightarrow> (a, Inl e) | Inr txs \<Rightarrow> pool_add txs a
      else (a, Inl (ErrOther ''unknown msg type'')))"

definition add_settlement :: "SettlementPackage \<Rightarrow> ('st, 'l) ShardApp \<Rightarrow> ('st, 'l) ShardApp \<times> unit res" where
  "add_settlement pack a = (case sh_Now a of (now, a1) \<Rightarrow> pool_add [NewSettlementTransaction pack now] a1)"

definition confirm_root :: "('s, 'st, 'l) shard_env \<Rightarrow> MatchRootBlockBody \<Rightarrow> ('st, 'l) ShardApp \<Rightarrow> ('st, 'l) ShardApp \<times> unit res" where
  "confirm_root S h a = (case ConfirmMatchRoot (sn_E S) h (sa_chain a) of (c, r) \<Rightarrow> (a\<lparr>sa_chain := c\<rparr>, r))"

text \<open>The inbox keeps its own state and uses the chain and the pool.\<close>

definition with_inbox :: "(Inbox \<Rightarrow> ('st, 'l) ShardApp \<Rightarrow> (Inbox \<times> ('st, 'l) ShardApp) \<times> unit res) \<Rightarrow> ('st, 'l) ShardApp \<Rightarrow> ('st, 'l) ShardApp \<times> unit res" where
  "with_inbox f a = (case f (sa_inbox a) a of ((i, a1), r) \<Rightarrow> (a1\<lparr>sa_inbox := i\<rparr>, r))"

definition netting_HandleMsgOutsideShard :: "('s, 'st, 'l) shard_env \<Rightarrow> WrappedMsg \<Rightarrow> ('st, 'l) ShardApp \<Rightarrow> ('st, 'l) ShardApp \<times> unit res" where
  "netting_HandleMsgOutsideShard S w a =
     (if MsgType w = MatchRootFinalizedMessageType then
        (case dec (mc_MatchRootFinalized (sn_C S)) (WrappedMsg.Payload w) of
           Inl e \<Rightarrow> (a, Inl e)
         | Inr msg \<Rightarrow>
             if mf_NodeID msg \<noteq> 0 then (a, Inl (ErrOther ''finalized MatchRoot is not from Beacon leader''))
             else with_inbox (Confirm (confirm_root S) add_settlement (mf_Header msg)) a)
      else if MsgType w = SettlementPackageMessageType then
        (case dec (mc_SettlementPackage (sn_C S)) (WrappedMsg.Payload w) of
           Inl e \<Rightarrow> (a, Inl e)
         | Inr msg \<Rightarrow>
             if sp_NodeID msg \<noteq> 0 then (a, Inl (ErrOther ''settlement package is not from Solver''))
             else with_inbox (AddPackage add_settlement (sp_Package msg)) a)
      else if MsgType w = FallbackTxMessageType then
        (case dec (mc_FallbackTx (sn_C S)) (WrappedMsg.Payload w) of
           Inl e \<Rightarrow> (a, Inl e)
         | Inr msg \<Rightarrow>
             if ft_NodeID msg \<noteq> 0 then (a, Inl (ErrOther ''fallback is not from source leader''))
             else case sh_Now a of (now, a1) \<Rightarrow> pool_add [NewReservedFallbackTransaction (ft_Fallback msg) now] a1)
      else if MsgType w = FallbackCompletedMessageType then
        (case dec (mc_FallbackCompleted (sn_C S)) (WrappedMsg.Payload w) of
           Inl e \<Rightarrow> (a, Inl e)
         | Inr msg \<Rightarrow>
             if fc_NodeID msg \<noteq> 0 then (a, Inl (ErrOther ''fallback completion is not from destination leader''))
             else case sh_Now a of (now, a1) \<Rightarrow> pool_add [NewFallbackCompletedTransaction (fc_Key msg) now] a1)
      else staticloc_HandleMsgOutsideShard S w a)"

definition shard_HandleMsgOutsideShard :: "('s, 'st, 'l) shard_env \<Rightarrow> WrappedMsg \<Rightarrow> ('st, 'l) ShardApp \<Rightarrow> ('st, 'l) ShardApp \<times> unit res" where
  "shard_HandleMsgOutsideShard S w a =
     (if cn_NettingEnabled (sn_cfg S) then netting_HandleMsgOutsideShard S w a else staticloc_HandleMsgOutsideShard S w a)"

section \<open>The node\<close>

text \<open>The PBFT engine over these operations; writing the record of a block to a file is the parameter \<open>rec\<close>.\<close>

definition shard_ops ::
    "('s, 'st, 'l) shard_env \<Rightarrow> wire \<Rightarrow> (Block \<Rightarrow> unit res) \<Rightarrow> (Block \<Rightarrow> bytes res) \<Rightarrow> (BatchProposal \<Rightarrow> bytes res) \<Rightarrow> ('st, 'l) ShardApp node_ops" where
  "shard_ops S W rec rlp_block gob_batch =
     \<lparr>BuildProposal = static_BuildProposal S, ValidateProposal = static_ValidateProposal S,
      ProposalCommitAndDeliver = static_ProposalCommitAndDeliver S, HandleMsgOutsideShard = shard_HandleMsgOutsideShard S,
      op_chain = Some \<lparr>bc_GetBlocksAfterHeight = (\<lambda>a. GetBlocksAfterHeight (sn_E S) (sa_chain a)), bc_AddBlock = add_block S,
                       bc_Number = (\<lambda>a. bh_Number (curHeader (sa_chain a)))\<rparr>,
      op_record = Some (\<lambda>b a. (a, rec b)), GetNodesInShard = topo_GetNodesInShard (sn_topo S), GetLeader = topo_GetLeader (sn_topo S),
      op_wire = W, op_proposal_Hash = proposal_Hash (ce_hash (sn_E S)) rlp_block gob_batch\<rparr>"

definition new_shard_app :: "('st, 'l) Chain \<Rightarrow> TxPool \<Rightarrow> (nat \<Rightarrow> int) \<Rightarrow> ('st, 'l) ShardApp" where
  "new_shard_app c pool clock =
     \<lparr>sa_chain = c, sa_pool = pool, sa_inbox = NewInbox (shardID c), sa_lastSent = Map.empty, sa_clock = clock, sa_calls = 0, sa_out = []\<rparr>"

end
