(* ===== verification/BeaconOp.thy ===== *)
theory BeaconOp
  imports Messages Pbft_Agreement Beacon_Correct
begin

text \<open>
  The beacon shard: the operations that \<open>insideop/beaconop\<close> gives to the PBFT engine, over the store
  and the validator of \<open>pkg/netting/beacon\<close>. Metrics (\<open>receivedAt\<close>, \<open>validationTime\<close>,
  \<open>buildMetric\<close>) are sent to the supervisor and read nowhere else; they are left out. The clock is
  the sequence of instants it will return.

  The result: whatever a beacon node receives, its store only grows by batches that were
  valid for it when they were committed, although a proposal is validated when it arrives and
  committed later.
\<close>

section \<open>The operations\<close>

record Op =
  op_store :: Store
  op_shardCount :: int
  op_nodeID :: int
  op_queue :: "BatchProposal list"
  op_clock :: "nat \<Rightarrow> int"
  op_calls :: nat
  op_out :: net

definition New_Op :: "Store \<Rightarrow> int \<Rightarrow> int \<Rightarrow> (nat \<Rightarrow> int) \<Rightarrow> Op" where
  "New_Op store shardCount nodeID clock =
     \<lparr>op_store = store, op_shardCount = shardCount, op_nodeID = nodeID, op_queue = [], op_clock = clock, op_calls = 0, op_out = []\<rparr>"

definition beacon_HandleMsgOutsideShard :: "msg_codecs \<Rightarrow> WrappedMsg \<Rightarrow> Op \<Rightarrow> Op \<times> unit res" where
  "beacon_HandleMsgOutsideShard C wrapped o1 =
     (if MsgType wrapped \<noteq> BatchProposalMessageType then (o1, Inl (ErrOther ''unknown Beacon message type''))
      else case dec (mc_BatchProposal C) (Payload wrapped) of
             Inl e \<Rightarrow> (o1, Inl e)
           | Inr msg \<Rightarrow>
               if bpm_NodeID msg \<noteq> 0 then (o1, Inl (ErrOther ''batch proposal is not from Solver''))
               else if \<exists>queued \<in> set (op_queue o1). BatchID (Header queued) = BatchID (Header (bpm_Proposal msg)) then (o1, Inr ())
               else (o1\<lparr>op_queue := op_queue o1 @ [bpm_Proposal msg]\<rparr>, Inr ()))"

definition beacon_BuildProposal :: "'t btree \<Rightarrow> hasher \<Rightarrow> gobs \<Rightarrow> Op \<Rightarrow> Op \<times> Proposal option res" where
  "beacon_BuildProposal bt H gob o1 =
     (case op_queue o1 of
        [] \<Rightarrow> (o1, Inr None)
      | p # ps \<Rightarrow>
          (case Validate_proposal bt H gob (op_store o1) p of
             Inl e \<Rightarrow> (o1, Inl e)
           | Inr _ \<Rightarrow> (o1, Inr (Some (WrapNettingProposal p)))))"

definition beacon_ValidateProposal :: "'t btree \<Rightarrow> hasher \<Rightarrow> gobs \<Rightarrow> Proposal \<Rightarrow> Op \<Rightarrow> Op \<times> unit res" where
  "beacon_ValidateProposal bt H gob proposal o1 =
     (case (p_Block proposal, p_NettingBatch proposal) of
        (None, Some b) \<Rightarrow> (o1, Validate_proposal bt H gob (op_store o1) b)
      | _ \<Rightarrow> (o1, Inl (ErrOther ''invalid Beacon PBFT proposal'')))"

fun remove_batch :: "hash256 \<Rightarrow> BatchProposal list \<Rightarrow> BatchProposal list" where
  "remove_batch i [] = []"
| "remove_batch i (p # ps) = (if BatchID (Header p) = i then ps else p # remove_batch i ps)"

definition removeQueued :: "hash256 \<Rightarrow> Op \<Rightarrow> Op" where
  "removeQueued i o1 = o1\<lparr>op_queue := remove_batch i (op_queue o1)\<rparr>"

definition res_list :: "'v res \<Rightarrow> 'v list" where
  "res_list r = (case r of Inl e \<Rightarrow> [] | Inr v \<Rightarrow> [v])"

definition broadcastFinalized :: "TopoGetter \<Rightarrow> WrappedMsg \<Rightarrow> Op \<Rightarrow> Op \<times> unit res" where
  "broadcastFinalized topo wrapped o1 =
     (case map_res (topo_GetNodesInShard topo) (map int [0..<nat (op_shardCount o1)]) of
        Inl e \<Rightarrow> (o1, Inl e)
      | Inr nodes \<Rightarrow>
          (o1\<lparr>op_out := op_out o1 @ [(concat nodes @ res_list (GetSolver topo) @ res_list (GetSupervisor topo), wrapped)]\<rparr>, Inr ()))"

definition beacon_ProposalCommitAndDeliver ::
    "hasher \<Rightarrow> gobs \<Rightarrow> msg_codecs \<Rightarrow> TopoGetter \<Rightarrow> bool \<Rightarrow> Proposal \<Rightarrow> Op \<Rightarrow> Op \<times> unit res" where
  "beacon_ProposalCommitAndDeliver H gob C topo lead proposal o1 =
     (case p_NettingBatch proposal of
        None \<Rightarrow> (o1, Inl (ErrOther ''invalid Beacon PBFT proposal''))
      | Some batch \<Rightarrow>
          (case Beacon.Commit H gob batch (op_clock o1 (op_calls o1)) (op_store o1) of
             (st, Inl e) \<Rightarrow> (o1\<lparr>op_store := st, op_calls := op_calls o1 + 1\<rparr>, Inl e)
           | (st, Inr committed) \<Rightarrow>
               (let o2 = removeQueued (BatchID (mb_Body committed)) (o1\<lparr>op_store := st, op_calls := op_calls o1 + 1\<rparr>) in
                if \<not> lead then (o2, Inr ())
                else case WrapMsg MatchRootFinalizedMessageType
                       (enc (mc_MatchRootFinalized C) \<lparr>mf_NodeID = op_nodeID o2, mf_Header = mb_Body committed\<rparr>) of
                       Inl e \<Rightarrow> (o2, Inl e)
                     | Inr wrapped \<Rightarrow> broadcastFinalized topo wrapped o2)))"

text \<open>The PBFT engine over these operations; a beacon node has no chain and no record of blocks.\<close>

definition beacon_ops ::
    "'t btree \<Rightarrow> hasher \<Rightarrow> gobs \<Rightarrow> msg_codecs \<Rightarrow> TopoGetter \<Rightarrow> wire \<Rightarrow> (Block \<Rightarrow> bytes res) \<Rightarrow> (BatchProposal \<Rightarrow> bytes res) \<Rightarrow> Op node_ops" where
  "beacon_ops bt H gob C topo W rlp_block gob_batch =
     \<lparr>BuildProposal = beacon_BuildProposal bt H gob, ValidateProposal = beacon_ValidateProposal bt H gob,
      ProposalCommitAndDeliver = beacon_ProposalCommitAndDeliver H gob C topo,
      HandleMsgOutsideShard = beacon_HandleMsgOutsideShard C, op_chain = None, op_record = None,
      GetNodesInShard = topo_GetNodesInShard topo, GetLeader = topo_GetLeader topo, op_wire = W,
      op_proposal_Hash = proposal_Hash H rlp_block gob_batch\<rparr>"

section \<open>Proposals held by a node\<close>

text \<open>The pre-prepare messages a node may still act on, and where they come from.\<close>

definition held :: "consensusMeta \<Rightarrow> PreprepareMsg set" where
  "held c = set (preprepares (msgPool c)) \<union> set_option (curPreprepare c)"

lemma held_push:
  assumes "pool_ok p"
  shows "set (preprepares (PushPreprepareMsg m p)) = insert m (set (preprepares p))"
    "set (preprepares (PushPrepareMsg m' p)) = set (preprepares p)" "set (preprepares (PushCommitMsg m'' p)) = set (preprepares p)"
    "pool_ok (PushPreprepareMsg m p)" "pool_ok (PushPrepareMsg m' p)" "pool_ok (PushCommitMsg m'' p)"
proof -
  have "mset (preprepares (PushPreprepareMsg m p)) = add_mset m (mset (preprepares p))"
    using push_specs(1) [OF assms, of m] by (simp add: pool_abs_def)
  then show "set (preprepares (PushPreprepareMsg m p)) = insert m (set (preprepares p))"
    by (metis set_mset_add_mset_insert set_mset_mset)
qed (use push_specs [OF assms] in \<open>auto simp: PushPrepareMsg_def PushCommitMsg_def\<close>)

lemma updateLatestViewSeq_pool [simp]: "msgPool (updateLatestViewSeq v s c) = msgPool c"
  by (simp add: updateLatestViewSeq_def Let_def)

lemma meta_step_held:
  assumes "meta_step W w c c'" "pool_ok (msgPool c)"
  shows "pool_ok (msgPool c')" "MsgType w \<noteq> PreprepareMessageType \<Longrightarrow> held c' \<subseteq> held c"
  using assms by (cases rule: meta_step.cases; auto simp: held_def held_push catchupOverAndReset_def)+

lemma handlePreprepare_held:
  assumes "pool_ok (msgPool (pbftMeta n))" "pp \<in> held (pbftMeta (fst (handlePreprepare X b n)))"
  shows "pp \<in> held (pbftMeta n) \<or> (\<exists>a. ValidateProposal X (pp_P pp) (app n) = (a, Inr ()))"
  using assms
  by (auto simp: handlePreprepare_def bind_st_def lift_res_def on_app_def Let_def held_def held_push split: sum.splits prod.splits if_splits)

lemma handleMessage_held:
  assumes ok: "pool_ok (msgPool (pbftMeta n))"
  shows "pool_ok (msgPool (pbftMeta (fst (handleMessage X w n))))"
    "pp \<in> held (pbftMeta (fst (handleMessage X w n))) \<Longrightarrow>
       pp \<in> held (pbftMeta n) \<or> (\<exists>a. ValidateProposal X (pp_P pp) (app n) = (a, Inr ()))"
proof -
  note st = meta_step_held [OF handleMessage_step [of X w n] ok]
  show "pool_ok (msgPool (pbftMeta (fst (handleMessage X w n))))" by (rule st(1))
  assume h: "pp \<in> held (pbftMeta (fst (handleMessage X w n)))"
  show "pp \<in> held (pbftMeta n) \<or> (\<exists>a. ValidateProposal X (pp_P pp) (app n) = (a, Inr ()))"
  proof (cases "MsgType w = PreprepareMessageType")
    case True
    then have "handleMessage X w n = handlePreprepare X (Payload w) n"
      by (simp add: handleMessage_def PreprepareMessageType_def StopConsensusMessageType_def)
    then show ?thesis using handlePreprepare_held [OF ok] h by simp
  next
    case False
    then show ?thesis using st(2) h by blast
  qed
qed

lemma curate_held:
  assumes ok: "pool_ok (msgPool c)"
  shows "pool_ok (msgPool (curateMsg c)) \<and> held (curateMsg c) \<subseteq> held c"
proof -
  have a: "pool_ok (msgPool (curate_preprepare c)) \<and> held (curate_preprepare c) \<subseteq> held c"
  proof (cases "curPreprepare c")
    case None
    obtain ms pool where r: "ReadPreprepareMsg (curViewSeq c) (msgPool c) = (ms, pool)" by fastforce
    have "m \<in> set (preprepares (msgPool c))" if "find P ms = Some m" for P m
      using that read_sets(1) [OF ok r] by (auto simp: find_Some_iff)
    then show ?thesis using None r read_sets(1) [OF ok r] by (auto simp: curate_preprepare_def held_def)
  next
    case (Some pp)
    then show ?thesis using ok by (simp add: curate_preprepare_def)
  qed
  have b: "pool_ok (msgPool (curate_prepares pp d)) \<and> held (curate_prepares pp d) = held d"
    if "pool_ok (msgPool d)" for pp d
  proof -
    obtain ms pool where r: "ReadPrepareMsg (curViewSeq d) (msgPool d) = (ms, pool)" by fastforce
    then show ?thesis using read_sets(2) [OF that r] by (auto simp: curate_prepares_def held_def)
  qed
  have c: "pool_ok (msgPool (curate_commits pp d)) \<and> held (curate_commits pp d) = held d"
    if "pool_ok (msgPool d)" for pp d
  proof -
    obtain ms pool where r: "ReadCommitMsg (curViewSeq d) (msgPool d) = (ms, pool)" by fastforce
    then show ?thesis using read_sets(3) [OF that r] by (auto simp: curate_commits_def held_def)
  qed
  show ?thesis using a b c by (auto simp: curateMsg_def Let_def split: option.splits)
qed

section \<open>Committed batches were valid\<close>

inductive grows :: "'t btree \<Rightarrow> hasher \<Rightarrow> gobs \<Rightarrow> BatchProposal list \<Rightarrow> Store \<Rightarrow> BatchProposal list \<Rightarrow> Store \<Rightarrow> bool"
  for bt H gob qs stq where
  here: "grows bt H gob qs stq qs stq"
| more: "grows bt H gob qs stq ps st \<Longrightarrow> Validate_proposal bt H gob st p = Inr () \<Longrightarrow>
    Beacon.Commit H gob p now st = (st', Inr b) \<Longrightarrow> grows bt H gob qs stq (ps @ [p]) st'"

lemma grows_reach: "grows bt H gob qs stq ps st \<Longrightarrow> beacon_reach bt H gob qs stq \<Longrightarrow> beacon_reach bt H gob ps st"
  by (induction rule: grows.induct) (auto intro: beacon_reach.commit)

lemma grows_length: "grows bt H gob qs stq ps st \<Longrightarrow> length qs \<le> length ps \<and> (length qs = length ps \<longrightarrow> stq = st)"
  by (induction rule: grows.induct) auto

lemma validated_window:
  assumes "store_ok H gob qs stq" "Validate_proposal bt H gob stq b = Inr ()"
  shows "WindowID (Header b) = word_of_nat (length qs + 1)"
proof -
  obtain tip where t: "Tip gob stq = Inr tip" "validateSequence (Header b) tip = Inr ()"
    using assms(2) by (auto simp: Validate_proposal_def bind_res_eq_Inr)
  have tip: "tip = None \<longleftrightarrow> qs = []" "\<And>b. tip = Some b \<Longrightarrow> mb_Body b = Header (last qs)"
    using Tip_store_ok [OF assms(1)] t(1) by auto
  show ?thesis
  proof (cases tip)
    case None
    then show ?thesis using t(2) tip(1) by (simp add: validateSequence_def fail_if_eq_Inr)
  next
    case (Some b)
    then show ?thesis using t(2) tip last_window assms(1) by (auto simp: validateSequence_def fail_if_eq_Inr add.commute store_ok_def)
  qed
qed

lemma committed_window:
  assumes "store_ok H gob ps st" "Beacon.Commit H gob b now st = (st', Inr c)"
  shows "WindowID (Header b) = word_of_nat (length ps + 1)"
proof -
  obtain tip where t: "commit_tip gob (Header b) st = Inr tip"
    using assms(2) by (auto simp: Beacon.Commit_def Let_def fail_if_eq_Inr bind_res_eq_Inr split: sum.splits)
  show ?thesis
  proof (cases "tipBytes st")
    case None
    then show ?thesis using t assms(1) by (simp add: commit_tip_def store_ok_def fail_if_eq_Inr)
  next
    case (Some bs)
    then obtain tb where "dec (gob_block gob) bs = Inr tb" "mb_Body tb = Header (last ps)" "ps \<noteq> []" "linked ps"
      using assms(1) by (auto simp: store_ok_def)
    then show ?thesis using t Some last_window [of ps] by (auto simp: commit_tip_def bind_res_eq_Inr fail_if_eq_Inr add.commute)
  qed
qed

lemma of_nat_inj_64:
  assumes "a < 2 ^ 64" "b < 2 ^ 64" "(word_of_nat a :: uint64) = word_of_nat b"
  shows "a = b"
proof -
  have "unat (word_of_nat a :: uint64) = a" "unat (word_of_nat b :: uint64) = b"
    using assms(1,2) by (simp_all add: unat_of_nat take_bit_nat_eq_self)
  then show ?thesis using assms(3) by metis
qed

text \<open>
  A batch that was valid for an earlier store and can still be committed is valid for the current one: in
  between nothing was committed.
\<close>

lemma commit_was_valid:
  assumes laws: "btree_laws bt elems valid" "codec_laws (gob_block gob)" "codec_laws (gob_sidecar gob)"
    and q: "beacon_reach bt H gob qs stq" "grows bt H gob qs stq ps st" and v: "Validate_proposal bt H gob stq b = Inr ()"
    and c: "Beacon.Commit H gob b now st = (st', Inr d)" and l: "length ps + 1 < 2 ^ 64"
  shows "Validate_proposal bt H gob st b = Inr ()"
proof -
  have "store_ok H gob qs stq" "store_ok H gob ps st" using beacon_reach_ok [OF laws] q grows_reach by blast+
  then have w: "(word_of_nat (length qs + 1) :: uint64) = word_of_nat (length ps + 1)"
    using validated_window [OF _ v] committed_window [OF _ c] by metis
  have "length qs + 1 < 2 ^ 64" using grows_length [OF q(2)] l by linarith
  then have "length qs + 1 = length ps + 1" using l w of_nat_inj_64 by blast
  then show ?thesis using grows_length [OF q(2)] v by simp
qed

section \<open>The beacon node\<close>

definition vouched :: "'t btree \<Rightarrow> hasher \<Rightarrow> gobs \<Rightarrow> BatchProposal list \<Rightarrow> Store \<Rightarrow> PreprepareMsg \<Rightarrow> bool" where
  "vouched bt H gob ps st pp \<longleftrightarrow> (\<exists>b qs stq. p_NettingBatch (pp_P pp) = Some b \<and> beacon_reach bt H gob qs stq
     \<and> grows bt H gob qs stq ps st \<and> Validate_proposal bt H gob stq b = Inr ())"

definition beacon_inv :: "'t btree \<Rightarrow> hasher \<Rightarrow> gobs \<Rightarrow> nat \<Rightarrow> Op Node \<Rightarrow> bool" where
  "beacon_inv bt H gob k n \<longleftrightarrow> pool_ok (msgPool (pbftMeta n)) \<and>
     (\<exists>ps. beacon_reach bt H gob ps (op_store (app n)) \<and> length ps \<le> k \<and>
       (\<forall>pp \<in> held (pbftMeta n). vouched bt H gob ps (op_store (app n)) pp))"

lemma beacon_frame:
  assumes "beacon_inv bt H gob k n" "op_store (app n') = op_store (app n)"
    "pool_ok (msgPool (pbftMeta n'))" "held (pbftMeta n') \<subseteq> held (pbftMeta n)"
  shows "beacon_inv bt H gob k n'"
  using assms unfolding beacon_inv_def by (metis subsetD)

lemma beacon_inv_mono: "beacon_inv bt H gob k n \<Longrightarrow> beacon_inv bt H gob (Suc k) n"
  unfolding beacon_inv_def using le_SucI by blast

lemma beacon_ops_simps [simp]:
  "ValidateProposal (beacon_ops bt H gob C topo W rb gb) = beacon_ValidateProposal bt H gob"
  "BuildProposal (beacon_ops bt H gob C topo W rb gb) = beacon_BuildProposal bt H gob"
  "HandleMsgOutsideShard (beacon_ops bt H gob C topo W rb gb) = beacon_HandleMsgOutsideShard C"
  "ProposalCommitAndDeliver (beacon_ops bt H gob C topo W rb gb) = beacon_ProposalCommitAndDeliver H gob C topo"
  "op_chain (beacon_ops bt H gob C topo W rb gb) = None" "op_record (beacon_ops bt H gob C topo W rb gb) = None"
  by (simp_all add: beacon_ops_def)

lemma beacon_store_kept [simp]:
  "op_store (fst (beacon_HandleMsgOutsideShard C w a)) = op_store a" "op_store (fst (beacon_BuildProposal bt H gob a)) = op_store a"
  "op_store (fst (beacon_ValidateProposal bt H gob p a)) = op_store a"
  by (auto simp: beacon_HandleMsgOutsideShard_def beacon_BuildProposal_def beacon_ValidateProposal_def split: sum.splits list.splits option.splits)

lemma beacon_handle_store:
  "op_store (app (fst (handleMessage (beacon_ops bt H gob C topo W rb gb) w n))) = op_store (app n)"
  unfolding handler_defs
  by (auto intro!: bind_st_pres [of "\<lambda>m. op_store (app m) = op_store (app n)"] simp: Let_def)

lemma beacon_handle:
  assumes i: "beacon_inv bt H gob k n"
  shows "beacon_inv bt H gob k (fst (handleMessage (beacon_ops bt H gob C topo W rb gb) w n))"
proof -
  let ?X = "beacon_ops bt H gob C topo W rb gb" and ?n = "fst (handleMessage (beacon_ops bt H gob C topo W rb gb) w n)"
  obtain ps where ps: "beacon_reach bt H gob ps (op_store (app n))" "length ps \<le> k"
    and held: "\<And>pp. pp \<in> held (pbftMeta n) \<Longrightarrow> vouched bt H gob ps (op_store (app n)) pp"
    using i unfolding beacon_inv_def by blast
  have ok: "pool_ok (msgPool (pbftMeta n))" using i by (simp add: beacon_inv_def)
  have new: "vouched bt H gob ps (op_store (app n)) pp"
    if "beacon_ValidateProposal bt H gob (pp_P pp) (app n) = (a, Inr ())" for pp a
    using that ps grows.here [of bt H gob ps] by (auto simp: beacon_ValidateProposal_def vouched_def split: option.splits)
  show ?thesis
    unfolding beacon_inv_def beacon_handle_store
  proof (intro conjI exI [of _ ps] ballI)
    fix pp assume "pp \<in> held (pbftMeta ?n)"
    then have "pp \<in> held (pbftMeta n) \<or> (\<exists>a. beacon_ValidateProposal bt H gob (pp_P pp) (app n) = (a, Inr ()))"
      using handleMessage_held(2) [OF ok, of pp ?X w] by simp
    then show "vouched bt H gob ps (op_store (app n)) pp" using held new by blast
  qed (use ps handleMessage_held(1) [OF ok] in simp_all)
qed

lemma beacon_deliver:
  assumes laws: "btree_laws bt elems valid" "codec_laws (gob_block gob)" "codec_laws (gob_sidecar gob)"
    and i: "beacon_inv bt H gob k n" and st: "step2Next (pbftMeta n) = (c, Inr (2, 0))" and k: "k + 1 < 2 ^ 64"
  shows "beacon_inv bt H gob (Suc k) (fst (deliver (beacon_ops bt H gob C topo W rb gb) (n\<lparr>pbftMeta := c\<rparr>)))"
proof -
  obtain pp where pp: "curPreprepare (pbftMeta n) = Some pp" "c = next_round (pp_P pp) (pbftMeta n)"
    using st by (auto simp: step2Next_def stage_defs split: if_splits option.splits)
  obtain ps where ps: "beacon_reach bt H gob ps (op_store (app n))" "length ps \<le> k"
    and held: "\<And>pp. pp \<in> held (pbftMeta n) \<Longrightarrow> vouched bt H gob ps (op_store (app n)) pp"
    using i unfolding beacon_inv_def by blast
  obtain b qs stq where b: "p_NettingBatch (pp_P pp) = Some b" "beacon_reach bt H gob qs stq"
    "grows bt H gob qs stq ps (op_store (app n))" "Validate_proposal bt H gob stq b = Inr ()"
    using held [of pp] pp(1) by (auto simp: held_def vouched_def)
  let ?n = "fst (deliver (beacon_ops bt H gob C topo W rb gb) (n\<lparr>pbftMeta := c\<rparr>))"
  have sub: "pool_ok (msgPool c)" "held c \<subseteq> held (pbftMeta n)" using i pp(2) by (auto simp: beacon_inv_def held_def next_round_def)
  have l: "lastProposal c = Some (pp_P pp)" using pp(2) by (simp add: next_round_def)
  obtain st' r where cm: "Beacon.Commit H gob b (op_clock (app n) (op_calls (app n))) (op_store (app n)) = (st', r)" by fastforce
  have store: "op_store (app ?n) = st'"
    using l b(1) cm by (auto simp: deliver_def on_app_def beacon_ProposalCommitAndDeliver_def removeQueued_def broadcastFinalized_def Let_def bind_st_def
        split: sum.splits prod.splits)
  show ?thesis
  proof (cases r)
    case (Inl e)
    then have "st' = op_store (app n)" using cm by (auto simp: Beacon.Commit_def Let_def split: sum.splits)
    then have "beacon_inv bt H gob k ?n" using beacon_frame [OF i] sub store by (simp add: deliver_frame)
    then show ?thesis by (rule beacon_inv_mono)
  next
    case (Inr d)
    have v: "Validate_proposal bt H gob (op_store (app n)) b = Inr ()"
      using commit_was_valid [OF laws b(2,3,4)] cm Inr ps(2) k by fastforce
    have "beacon_reach bt H gob (ps @ [b]) st'" using beacon_reach.commit [OF ps(1) v] cm Inr by blast
    moreover have "vouched bt H gob (ps @ [b]) st' q" if "vouched bt H gob ps (op_store (app n)) q" for q
      using that grows.more [OF _ v] cm Inr unfolding vouched_def by blast
    moreover have "length (ps @ [b]) \<le> Suc k" using ps(2) by simp
    moreover have "pbftMeta ?n = c" by (simp add: deliver_frame)
    ultimately show ?thesis unfolding beacon_inv_def store using sub held by (metis subsetD)
  qed
qed

interpretation bn: node_invariant "beacon_ops bt H gob C topo W rb gb" UNIV "2 ^ 63"
  "\<lambda>k n. (\<exists>elems valid. btree_laws bt elems valid) \<and> codec_laws (gob_block gob) \<and> codec_laws (gob_sidecar gob) \<longrightarrow> beacon_inv bt H gob k n"
  for bt :: "'t btree" and H gob C topo W rb gb
proof
  let ?X = "beacon_ops bt H gob C topo W rb gb"
  fix k and n :: "Op Node" and now bc
  let ?L = "(\<exists>elems valid. btree_laws bt elems valid) \<and> codec_laws (gob_block gob) \<and> codec_laws (gob_sidecar gob)"
  assume i: "?L \<longrightarrow> beacon_inv bt H gob k n"
  show "?L \<longrightarrow> beacon_inv bt H gob k (fst (handleMessage ?X w n))" for w using i beacon_handle by blast
  have p: "op_store (app (fst (propose ?X now n))) = op_store (app n)" unfolding propose_def
    by (auto intro!: bind_st_pres [of "\<lambda>m. op_store (app m) = op_store (app n)"] simp: Let_def broadcasts_app split: option.splits)
  show "?L \<longrightarrow> beacon_inv bt H gob k (fst (propose ?X now n))"
    using i propose_frame [of ?X now n] beacon_frame [OF _ p] by (fastforce simp: beacon_inv_def held_def)
  show "?L \<longrightarrow> beacon_inv bt H gob k (fst (catchUpStart ?X bc n))"
    using i catchUpStart_frame(1,2) [of ?X bc n] beacon_frame [of bt H gob k n "fst (catchUpStart ?X bc n)"] by (auto simp: beacon_inv_def held_def)
  show "?L \<longrightarrow> beacon_inv bt H gob (Suc k) (advanceConsensus ?X n)" if b: "Suc k \<le> 2 ^ 63"
  proof
    assume L: ?L
    then obtain elems valid where laws: "btree_laws bt elems valid" "codec_laws (gob_block gob)" "codec_laws (gob_sidecar gob)" by blast
    have ok: "pool_ok (msgPool (pbftMeta n))" and k: "k + 1 < 2 ^ 64" using i L b by (auto simp: beacon_inv_def)
    show "beacon_inv bt H gob (Suc k) (advanceConsensus ?X n)" unfolding advanceConsensus_def
    proof (rule step2NextStage_pres [where P = "beacon_inv bt H gob k"])
      show "beacon_inv bt H gob k (n\<lparr>pbftMeta := curateMsg (pbftMeta n)\<rparr>)"
        using beacon_frame [of bt H gob k n] i L curate_held [OF ok] by simp
      show "beacon_inv bt H gob (Suc k) (fst (deliver ?X (n\<lparr>pbftMeta := c\<rparr>)))"
        if "beacon_inv bt H gob k n" "step2Next (pbftMeta n) = (c, Inr (2, 0))" for n c
        using beacon_deliver [OF laws that k] .
      have f: "beacon_inv bt H gob k m"
        if i: "beacon_inv bt H gob k n" and s: "step2Next (pbftMeta n) = (c, Inr (j, l))" "j < 2" and m: "app m = app n" "pbftMeta m = c" for n m c j l
      proof -
        have "msgPool c = msgPool (pbftMeta n)" "curPreprepare c = curPreprepare (pbftMeta n)"
          using s by (auto simp: step2Next_def stage_defs split: if_splits option.splits)
        then show ?thesis using i m by (simp add: beacon_inv_def held_def)
      qed
      show "beacon_inv bt H gob k (fst (prepareBroadcast ?X (n\<lparr>pbftMeta := c\<rparr>)))"
        if "beacon_inv bt H gob k n" "step2Next (pbftMeta n) = (c, Inr (0, 1))" for n c
        by (rule f [OF that]) (simp_all add: broadcasts_app(2) [OF surjective_pairing] broadcasts_meta(1) [OF surjective_pairing])
      show "beacon_inv bt H gob k (fst (commitBroadcast ?X (n\<lparr>pbftMeta := c\<rparr>)))"
        if "beacon_inv bt H gob k n" "step2Next (pbftMeta n) = (c, Inr (1, 2))" for n c
        by (rule f [OF that]) (simp_all add: broadcasts_app(3) [OF surjective_pairing] broadcasts_meta(2) [OF surjective_pairing])
      show "beacon_inv bt H gob (Suc k) n" if "beacon_inv bt H gob k n" for n using that by (rule beacon_inv_mono)
    qed
  qed
qed

text \<open>
  C7. Whatever messages a beacon node receives, the batches in its store form one chain of batches
  that were each valid, by re-derivation from their receipts, for the store they were added to:
  a proposal is validated when its pre-prepare arrives and committed later, and the sequence check of
  the commit rules out that another batch was committed in between. Hence no intent is ever in two batches of the store.
\<close>

theorem beacon_node_history:
  assumes "btree_laws bt elems valid" "codec_laws (gob_block gob)" "codec_laws (gob_sidecar gob)" "int (work ticks) < 2 ^ 63"
  shows "\<exists>ps. beacon_reach bt H gob ps (op_store (app (run (beacon_ops bt H gob C topo W rb gb) ticks
           (new_node nodeNum blockInterval shard node now (New_Op OpenStore shardCount nodeID clock)))))
       \<and> linked ps \<and> distinct (concat (map proposal_ids ps))"
proof -
  let ?n = "new_node nodeNum blockInterval shard node now (New_Op OpenStore shardCount nodeID clock)"
  have "pool_ok NewMsgPool" by (rule new_pool)
  then have "beacon_inv bt H gob 0 ?n"
    by (auto simp: beacon_inv_def new_node_def newConsensusMeta_def held_def NewMsgPool_def New_Op_def intro!: exI [of _ "[]"] beacon_reach.genesis)
  moreover have "work ticks \<le> 2 ^ 63" using assms(4) by simp
  ultimately obtain k where "beacon_inv bt H gob k (run (beacon_ops bt H gob C topo W rb gb) ticks ?n)"
    using bn.run_inv [of bt gob H 0 ?n ticks C topo W rb gb] assms by auto
  then obtain ps where ps: "beacon_reach bt H gob ps (op_store (app (run (beacon_ops bt H gob C topo W rb gb) ticks ?n)))"
    by (auto simp: beacon_inv_def)
  then show ?thesis using beacon_reach_ok [OF assms(1-3) ps] by (auto simp: store_ok_def)
qed

definition idle_wire :: wire where
  "idle_wire = \<lparr>w_preprepare = table_codec [], w_prepare = table_codec [], w_commit = table_codec [], w_catchupReq = table_codec [],
     w_catchupResp = table_codec []\<rparr>"

definition idle_codecs :: msg_codecs where
  "idle_codecs = \<lparr>mc_ReceiveTxs = table_codec [], mc_FinalizedBlockReceipt = table_codec [], mc_BatchProposal = table_codec [],
     mc_MatchRootFinalized = table_codec [], mc_SettlementPackage = table_codec [], mc_FallbackTx = table_codec [],
     mc_FallbackCompleted = table_codec [], mc_NettingProgress = table_codec [], mc_RelayBlockInfo = table_codec [], mc_BrokerBlockInfo = table_codec []\<rparr>"

theorem beacon_node_history_witness:
  "\<exists>ps. beacon_reach list_btree length_hash \<lparr>gob_block = table_codec [zero_block], gob_sidecar = table_codec []\<rparr> ps (op_store (app (run
      (beacon_ops list_btree length_hash \<lparr>gob_block = table_codec [zero_block], gob_sidecar = table_codec []\<rparr> idle_codecs
        (NewTopoGetter [] Map.empty) idle_wire (\<lambda>b. Inr []) (\<lambda>b. Inr []))
      [(0, [\<lparr>MsgType = ''Commit'', Payload = [1]\<rparr>]), (5, [\<lparr>MsgType = ''Preprepare'', Payload = []\<rparr>])]
      (new_node 4 1000 BeaconShardID 0 0 (New_Op OpenStore 2 0 (\<lambda>k. 0)))))) \<and> linked ps \<and> distinct (concat (map proposal_ids ps))"
  by (rule beacon_node_history [OF lbt.btree_laws_axioms]) (simp_all add: tc.codec_laws_axioms)

end
