(* ===== verification/ShardOp_Correct.thy ===== *)
theory ShardOp_Correct
  imports ShardOp BeaconOp
begin

text \<open>
  What the operations of a transaction shard guarantee: a node changes its chain only by blocks that the chain accepts, so that
  every theorem about chains holds for the chain of every node; a block that is committed hands every transaction it relays to the shard
  of its recipient, once; and the two halves of a relayed transfer conserve its value.
\<close>

section \<open>The chain of a node\<close>

lemma sh_simps [simp]:
  "sa_chain (snd (sh_Now a)) = sa_chain a" "sa_chain (sh_send d w a) = sa_chain a" "sa_chain (fst (sh_wrap_send wr d1 a)) = sa_chain a"
  "sa_chain (fst (pool_add txs a)) = sa_chain a"
  by (auto simp: sh_Now_def sh_send_def sh_wrap_send_def pool_add_def split: sum.splits prod.splits)

lemma sh_Now_chain: "sh_Now a = (t, a') \<Longrightarrow> sa_chain a' = sa_chain a"
  by (auto simp: sh_Now_def)

lemma publishCompletions_chain [simp]: "sa_chain (fst (publishCompletions S txs a)) = sa_chain a"
proof (induction S txs a rule: publishCompletions.induct)
  case (2 S tx txs a)
  have "sa_chain (fst (bind_st m f)) = sa_chain a" if "sa_chain (fst m) = sa_chain a"
      "\<And>x a1. m = (a1, Inr x) \<Longrightarrow> sa_chain (fst (f x a1)) = sa_chain a1" for m f
    using that by (cases m; cases "snd m") (auto simp: bind_st_def)
  then show ?case using 2
    by (auto simp: Let_def intro!: bind_st_pres [where P = "\<lambda>x. sa_chain x = sa_chain a"] split: option.splits sum.splits)
qed simp

lemma publishProgress_chain [simp]: "sa_chain (fst (publishProgress S txs a)) = sa_chain a"
  by (auto simp: publishProgress_def split: sum.splits)

lemma publish_item_chain [simp]: "sa_chain (fst (publish_item S item a)) = sa_chain a"
  by (auto simp: publish_item_def split: sum.splits prod.splits dest!: sh_Now_chain)

lemma publish_pending_chain [simp]: "sa_chain (fst (publish_pending S items a)) = sa_chain a"
proof (induction items arbitrary: a)
  case (Cons item items)
  have p: "sa_chain (fst (bind_st (publish_item S item a0) (\<lambda>_ a1. publish_pending S items a1))) = sa_chain a0" for a0
    by (rule bind_st_pres [where P = "\<lambda>x. sa_chain x = sa_chain a0"]) (simp_all add: Cons.IH)
  show ?case
  proof (cases "sa_lastSent a (fallback_Key item)")
    case (Some sentAt)
    obtain t a1 where n: "sh_Now a = (t, a1)" by fastforce
    then show ?thesis using Some p [of a1] Cons.IH [of a1] sh_Now_chain [OF n] by simp
  qed (simp add: p)
qed simp

lemma PublishAfterBlock_chain [simp]: "sa_chain (fst (PublishAfterBlock S b a)) = sa_chain a"
  unfolding PublishAfterBlock_def by (auto intro!: bind_st_pres [where P = "\<lambda>x. sa_chain x = sa_chain a"] split: sum.splits)

lemma publish_receipt_chain [simp]: "sa_chain (fst (publish_receipt S b a)) = sa_chain a"
  by (auto simp: publish_receipt_def split: prod.splits dest!: sh_Now_chain)

lemma deliver_info_chain [simp]:
  "sa_chain (fst (relay_deliverBlockInfo2Supervisor S parts b a)) = sa_chain a"
  "sa_chain (fst (broker_deliverBlockInfo2Supervisor S parts' b a)) = sa_chain a"
  by (auto simp: relay_deliverBlockInfo2Supervisor_def broker_deliverBlockInfo2Supervisor_def split: prod.splits dest!: sh_Now_chain)

lemma sendRelayedTxs_chain [simp]: "sa_chain (fst (sendRelayedTxs S b txs a)) = sa_chain a"
  by (auto simp: sendRelayedTxs_def split: sum.splits prod.splits)

lemma commit_chain: "sa_chain (fst (BlockCommitAndDeliver S lead b a)) = fst (AddBlock (sn_E S) b (sa_chain a))"
proof -
  have a: "sa_chain (fst (add_block S b a)) = fst (AddBlock (sn_E S) b (sa_chain a))" by (simp add: add_block_def split: prod.splits)
  let ?P = "\<lambda>x. sa_chain x = fst (AddBlock (sn_E S) b (sa_chain a))"
  have "?P (fst (relay_BlockCommitAndDeliver S lead b a))" "?P (fst (broker_BlockCommitAndDeliver S lead b a))"
    unfolding relay_BlockCommitAndDeliver_def broker_BlockCommitAndDeliver_def
    by (auto intro!: bind_st_pres [where P = ?P] simp: a split: prod.splits)
  then show ?thesis by (simp add: BlockCommitAndDeliver_def)
qed

lemma generate_chain [simp]: "sa_chain (fst (generate_proposal S txs a)) = sa_chain a"
  by (auto simp: generate_proposal_def split: prod.splits dest!: sh_Now_chain)

lemma build_chain [simp]: "sa_chain (fst (static_BuildProposal S a)) = sa_chain a"
  by (auto simp: static_BuildProposal_def BuildTxBlockProposal_def relay_BuildTxBlockProposal_def split: prod.splits sum.splits)

text \<open>The inbox changes the chain only by confirming a match root.\<close>

lemma add_settlement_chain: "add_settlement pack a = (a', r) \<Longrightarrow> sa_chain a' = sa_chain a"
  by (auto simp: add_settlement_def pool_add_def AddTxs_def split: prod.splits dest!: sh_Now_chain)

lemma enqueue_chain: "enqueue add_settlement pack i a = ((i', a'), r) \<Longrightarrow> sa_chain a' = sa_chain a"
  by (auto simp: enqueue_def split: if_splits prod.splits sum.splits dest: add_settlement_chain)

lemma release_chain: "release add_settlement kps i a = ((i', a'), r) \<Longrightarrow> sa_chain a' = sa_chain a"
  by (induction kps arbitrary: i a) (auto split: prod.splits sum.splits dest!: enqueue_chain)

lemma with_inbox_chain:
  "sa_chain (fst (with_inbox (AddPackage add_settlement pack) a)) = sa_chain a"
  "sa_chain (fst (with_inbox (Confirm (confirm_root S) add_settlement hdr) a)) = fst (ConfirmMatchRoot (sn_E S) hdr (sa_chain a))"
proof -
  show "sa_chain (fst (with_inbox (AddPackage add_settlement pack) a)) = sa_chain a"
    by (auto simp: with_inbox_def AddPackage_def Let_def split: prod.splits if_splits option.splits dest!: enqueue_chain)
  show "sa_chain (fst (with_inbox (Confirm (confirm_root S) add_settlement hdr) a)) = fst (ConfirmMatchRoot (sn_E S) hdr (sa_chain a))"
    by (auto simp: with_inbox_def Confirm_def confirm_root_def split: prod.splits sum.splits dest!: release_chain)
qed

text \<open>The header of a message that names the leader of the beacon as its sender.\<close>

definition announced :: "msg_codecs \<Rightarrow> WrappedMsg list \<Rightarrow> MatchRootBlockBody \<Rightarrow> bool" where
  "announced C hist h \<longleftrightarrow> (\<exists>w \<in> set hist. \<exists>m. MsgType w = MatchRootFinalizedMessageType
     \<and> dec (mc_MatchRootFinalized C) (WrappedMsg.Payload w) = Inr m \<and> mf_NodeID m = 0 \<and> mf_Header m = h)"

lemma outside_chain:
  assumes "w \<in> set hist"
  shows "sa_chain (fst (shard_HandleMsgOutsideShard S w a)) = sa_chain a
   \<or> (\<exists>h. announced (sn_C S) hist h \<and> sa_chain (fst (shard_HandleMsgOutsideShard S w a)) = fst (ConfirmMatchRoot (sn_E S) h (sa_chain a)))"
proof -
  have b: "sa_chain (fst (staticloc_HandleMsgOutsideShard S w a)) = sa_chain a"
    by (auto simp: staticloc_HandleMsgOutsideShard_def split: sum.splits)
  have n: "sa_chain (fst (case sh_Now a of (now, a1) \<Rightarrow> pool_add (g now) a1)) = sa_chain a" for g
    by (auto split: prod.splits dest!: sh_Now_chain)
  have ann: "announced (sn_C S) hist (mf_Header m)"
    if "MsgType w = MatchRootFinalizedMessageType" "dec (mc_MatchRootFinalized (sn_C S)) (WrappedMsg.Payload w) = Inr m" "mf_NodeID m = 0" for m
    unfolding announced_def using assms that by blast
  have "sa_chain (fst (netting_HandleMsgOutsideShard S w a)) = sa_chain a
     \<or> (\<exists>h. announced (sn_C S) hist h \<and> sa_chain (fst (netting_HandleMsgOutsideShard S w a)) = fst (ConfirmMatchRoot (sn_E S) h (sa_chain a)))"
    unfolding netting_HandleMsgOutsideShard_def
    by (auto simp: n b with_inbox_chain intro: ann split: sum.splits)
  then show ?thesis using b by (simp add: shard_HandleMsgOutsideShard_def)
qed

text \<open>
  What may happen to a chain: a block of a set is added or refused, or a match root of a set is confirmed. The list
  holds the blocks added.
\<close>

inductive chain_grows ::
    "('s, 'st, 'l) chain_env \<Rightarrow> (Block \<Rightarrow> bool) \<Rightarrow> (MatchRootBlockBody \<Rightarrow> bool) \<Rightarrow> ('st, 'l) Chain \<Rightarrow> Block list \<Rightarrow> ('st, 'l) Chain \<Rightarrow> bool"
  for E okb okh c where
  grows_refl: "chain_grows E okb okh c [] c"
| grows_added: "chain_grows E okb okh c bs c1 \<Longrightarrow> okb b \<Longrightarrow> AddBlock E b c1 = (c2, Inr ()) \<Longrightarrow> chain_grows E okb okh c (bs @ [b]) c2"
| grows_refused: "chain_grows E okb okh c bs c1 \<Longrightarrow> okb b \<Longrightarrow> AddBlock E b c1 = (c2, Inl e) \<Longrightarrow> chain_grows E okb okh c bs c2"
| grows_confirmed: "chain_grows E okb okh c bs c1 \<Longrightarrow> okh h \<Longrightarrow> ConfirmMatchRoot E h c1 = (c2, r) \<Longrightarrow> chain_grows E okb okh c bs c2"

text \<open>So every theorem about the chains of \<open>chain_run\<close> carries over.\<close>

lemma chain_grows_run: "chain_grows E okb okh c bs c' \<Longrightarrow> chain_run E c old \<Longrightarrow> chain_run E c' (old @ bs)"
  by (induction rule: chain_grows.induct) (auto intro: chain_run.added chain_run.refused chain_run.confirmed simp flip: append_assoc)

lemma AddBlock_fixed: "AddBlock E b c = (c', r) \<Longrightarrow> epochID c' = epochID c \<and> shardID c' = shardID c"
proof -
  let ?P = "\<lambda>x. epochID x = epochID c \<and> shardID x = shardID c"
  have u: "?P c2" if "updateTrieByBlock E b c1 = (c2, q)" "?P c1" for c1 c2 q using updateTrieByBlock_frame(4,5) [OF that(1)] that(2) by simp
  have "?P (fst (AddBlock E b c))" unfolding AddBlock_def
    by (auto intro!: bind_st_pres [where P = ?P] simp: u [OF surjective_pairing] split: prod.splits sum.splits)
  then show "AddBlock E b c = (c', r) \<Longrightarrow> ?P c'" by simp
qed

lemma chain_grows_fixed: "chain_grows E okb okh c bs c' \<Longrightarrow> epochID c' = epochID c \<and> shardID c' = shardID c"
  by (induction rule: chain_grows.induct) (auto simp: ConfirmMatchRoot_def dest: AddBlock_fixed split: if_splits option.splits)

text \<open>A block of a certified proposal or of a catch-up response.\<close>

definition backed :: "wire \<Rightarrow> WrappedMsg list \<Rightarrow> int \<Rightarrow> Block \<Rightarrow> bool" where
  "backed W hist f b \<longleftrightarrow> (\<exists>pp. certified W hist f pp \<and> p_Block (pp_P pp) = Some b) \<or> offered W hist b"

definition grown :: "('s, 'st, 'l) shard_env \<Rightarrow> wire \<Rightarrow> WrappedMsg list \<Rightarrow> int \<Rightarrow> ('st, 'l) Chain \<Rightarrow> ('st, 'l) ShardApp \<Rightarrow> bool" where
  "grown S W hist f c a \<longleftrightarrow> (\<exists>bs. chain_grows (sn_E S) (backed W hist f) (announced (sn_C S) hist) c bs (sa_chain a))"

lemma grown_AddBlock:
  assumes "grown S W hist f c a" "backed W hist f b" "sa_chain a' = fst (AddBlock (sn_E S) b (sa_chain a))"
  shows "grown S W hist f c a'"
proof -
  obtain bs where bs: "chain_grows (sn_E S) (backed W hist f) (announced (sn_C S) hist) c bs (sa_chain a)" using assms(1) by (auto simp: grown_def)
  obtain c2 res where c2: "AddBlock (sn_E S) b (sa_chain a) = (c2, res)" by fastforce
  show ?thesis using grows_added [OF bs assms(2), of c2] grows_refused [OF bs assms(2), of c2] c2 assms(3) by (cases res) (auto simp: grown_def)
qed

lemma grown_same: "grown S W hist f c a \<Longrightarrow> sa_chain a' = sa_chain a \<Longrightarrow> grown S W hist f c a'"
  by (simp add: grown_def)

interpretation sn: certified_app "shard_ops S W rec rb gb" hist f "grown S W hist f c" for S W rec rb gb hist f c
proof unfold_locales
  fix a :: "('b, 'c) ShardApp" and p lead w bc b recd pp
  let ?X = "shard_ops S W rec rb gb"
  assume q: "grown S W hist f c a"
  have W: "op_wire ?X = W" by (simp add: shard_ops_def)
  show "grown S W hist f c (fst (BuildProposal ?X a))" "grown S W hist f c (fst (ValidateProposal ?X p a))"
    by (rule grown_same [OF q]; simp add: shard_ops_def static_ValidateProposal_def)+
  show "grown S W hist f c (fst (ProposalCommitAndDeliver ?X lead (pp_P pp) a))" if "certified (op_wire ?X) hist f pp"
  proof (cases "p_Block (pp_P pp)")
    case (Some b)
    then have "backed W hist f b" using that W by (auto simp: backed_def)
    then show ?thesis using grown_AddBlock [OF q _ commit_chain] Some by (simp add: shard_ops_def static_ProposalCommitAndDeliver_def)
  qed (use q in \<open>simp add: shard_ops_def static_ProposalCommitAndDeliver_def\<close>)
  show "grown S W hist f c (fst (HandleMsgOutsideShard ?X w a))" if "w \<in> set hist"
  proof -
    obtain bs where bs: "chain_grows (sn_E S) (backed W hist f) (announced (sn_C S) hist) c bs (sa_chain a)" using q by (auto simp: grown_def)
    have "chain_grows (sn_E S) (backed W hist f) (announced (sn_C S) hist) c bs (fst (ConfirmMatchRoot (sn_E S) h (sa_chain a)))"
      if "announced (sn_C S) hist h" for h
      using grows_confirmed [OF bs that] by (metis prod.collapse)
    then have "chain_grows (sn_E S) (backed W hist f) (announced (sn_C S) hist) c bs (sa_chain (fst (shard_HandleMsgOutsideShard S w a)))"
      using outside_chain [OF that, of S a] bs by auto
    then show ?thesis by (auto simp: shard_ops_def grown_def)
  qed
  show "grown S W hist f c (fst (bc_AddBlock bc b a))" if "op_chain ?X = Some bc" "offered (op_wire ?X) hist b"
    using that W by (intro grown_AddBlock [OF q, of b]) (auto simp: shard_ops_def add_block_def backed_def split: prod.splits)
  show "grown S W hist f c (fst (recd b a))" if "op_record ?X = Some recd"
    using that q by (auto simp: shard_ops_def)
qed

text \<open>
  C12. Whatever messages a node of a transaction shard receives, honest or not, its chain changes only by blocks that
  pass the full validation of \<open>AddBlock\<close>, by blocks that are refused, and by confirmed match roots; its epoch and shard stay the same.
  Every block that is added or refused belongs to a proposal with a quorum of prepare and of commit messages among those received, or to a received
  catch-up response that names the leader; every match root comes from a received message that names the leader of the beacon. The
  list \<open>bs\<close> holds the blocks added, in order.
\<close>

theorem shard_node_chain:
  "\<exists>bs. let c' = sa_chain (app (run (shard_ops S W rec rb gb) ticks
             (new_node nodeNum blockInterval shard node now (new_shard_app c pool clock))));
           hist = received ticks in
     chain_grows (sn_E S) (backed W hist ((nodeNum - 1) sdiv 3)) (announced (sn_C S) hist) c bs c'
     \<and> epochID c' = epochID c \<and> shardID c' = shardID c"
proof -
  have "grown S W (received ticks) ((nodeNum - 1) sdiv 3) c (new_shard_app c pool clock)"
    unfolding grown_def by (intro exI [of _ "[]"]) (simp add: new_shard_app_def grows_refl)
  from sn.run_app [OF this refl refl] obtain bs where
    "chain_grows (sn_E S) (backed W (received ticks) ((nodeNum - 1) sdiv 3)) (announced (sn_C S) (received ticks)) c bs
       (sa_chain (app (run (shard_ops S W rec rb gb) ticks (new_node nodeNum blockInterval shard node now (new_shard_app c pool clock)))))"
    unfolding grown_def by blast
  from this chain_grows_fixed [OF this] show ?thesis unfolding Let_def by blast
qed

text \<open>
  A leader that fails to make a block of the transactions it took from the pool does not put them back; one transaction that
  cannot be executed is enough.
\<close>

lemma failed_build_loses_transactions:
  assumes "PackTxs (cn_BlockSizeLimit (sn_cfg S)) (sa_pool a) = (p, Inr txs)" "static_BuildProposal S a = (a', Inl e)"
  shows "sa_pool a' = p"
proof -
  have "sa_pool (fst (generate_proposal S ts x)) = sa_pool x" for ts x by (simp add: generate_proposal_def sh_Now_def)
  then have "sa_pool (fst (BuildTxBlockProposal S ts x)) = sa_pool x" for ts x
    by (simp add: BuildTxBlockProposal_def relay_BuildTxBlockProposal_def split: sum.splits)
  from this [of txs "a\<lparr>sa_pool := p\<rparr>"] show ?thesis using assms by (simp add: static_BuildProposal_def)
qed

section \<open>Relayed transactions\<close>

text \<open>The messages of an operation, none of which hands transactions to a shard.\<close>

definition emits :: "('st, 'l) ShardApp \<Rightarrow> ('st, 'l) ShardApp \<Rightarrow> bool" where
  "emits a a' \<longleftrightarrow> (\<exists>out. sa_out a' = sa_out a @ out \<and> (\<forall>(d, w) \<in> set out. MsgType w \<noteq> ReceiveTxsMessageType))"

lemma emits_same: "sa_out a' = sa_out a \<Longrightarrow> emits a a'"
  by (simp add: emits_def)

lemma emits_refl: "emits a a"
  by (rule emits_same) simp

lemma emits_trans: "emits a b \<Longrightarrow> emits b c \<Longrightarrow> emits a c"
  unfolding emits_def by (metis (no_types, lifting) Un_iff append.assoc set_append)

lemma emits_send: "MsgType w \<noteq> ReceiveTxsMessageType \<Longrightarrow> emits a (sh_send d w a)"
  by (simp add: emits_def sh_send_def)

lemma emits_Now: "sh_Now a = (t, a') \<Longrightarrow> emits a a'"
  by (auto simp: sh_Now_def intro: emits_same)

lemma emits_wrap_send:
  assumes "ty \<noteq> ReceiveTxsMessageType"
  shows "emits a (fst (sh_wrap_send (WrapMsg ty m) d a))"
  using assms by (auto simp: sh_wrap_send_def WrapMsg_def bind_res_eq_Inr emits_refl intro!: emits_send split: sum.splits)

lemma emits_bind: "emits a (fst m) \<Longrightarrow> (\<And>x a1. emits a a1 \<Longrightarrow> emits a (fst (f x a1))) \<Longrightarrow> emits a (fst (bind_st m f))"
  by (rule bind_st_pres) auto

lemma emits_completions: "emits a (fst (publishCompletions S txs a))"
proof (induction txs arbitrary: a)
  case (Cons tx txs)
  have e: "emits a (fst (publishCompletions S txs a'))" if "emits a a'" for a' by (rule emits_trans [OF that Cons.IH])
  show ?case
    by (auto simp: Let_def WrapMsg_def bind_res_eq_Inr emits_same message_type_defs intro!: e emits_bind emits_wrap_send [unfolded WrapMsg_def]
        emits_trans [OF _ emits_send] split: option.splits sum.splits)
qed (simp add: emits_refl)

lemma emits_progress: "emits a (fst (publishProgress S txs a))"
  by (auto simp: publishProgress_def emits_refl message_type_defs intro!: emits_wrap_send split: sum.splits)

lemma emits_item: "emits a (fst (publish_item S item a))"
proof -
  have "emits a (a1\<lparr>sa_lastSent := m\<rparr>)" if "sh_Now (sh_send d w a) = (t, a1)" "MsgType w \<noteq> ReceiveTxsMessageType" for d w t a1 m
    using emits_trans [OF emits_send [OF that(2)] emits_Now [OF that(1)]] by (simp add: emits_def)
  then show ?thesis
    by (auto simp: publish_item_def emits_refl WrapMsg_def bind_res_eq_Inr message_type_defs split: sum.splits prod.splits)
qed

lemma emits_pending: "emits a (fst (publish_pending S items a))"
proof (induction items arbitrary: a)
  case (Cons item items)
  have p: "emits a (fst (bind_st (publish_item S item a0) (\<lambda>_ a1. publish_pending S items a1)))" if "emits a a0" for a0
    by (rule emits_bind [OF emits_trans [OF that emits_item]]) (rule emits_trans [OF _ Cons.IH])
  show ?case
  proof (cases "sa_lastSent a (fallback_Key item)")
    case (Some sentAt)
    obtain t a1 where n: "sh_Now a = (t, a1)" by fastforce
    then show ?thesis using Some p [OF emits_Now [OF n]] emits_trans [OF emits_Now [OF n] Cons.IH] by simp
  qed (simp add: p emits_refl)
qed (simp add: emits_refl)

lemma emits_fallbacks: "emits a (fst (PublishAfterBlock S b a))"
  unfolding PublishAfterBlock_def
  by (auto simp: emits_refl intro!: emits_bind emits_completions emits_trans [OF _ emits_progress] emits_trans [OF _ emits_pending] split: sum.splits)

lemma emits_receipt: "emits a (fst (publish_receipt S b a))"
  by (auto simp: publish_receipt_def Publish_def sh_Now_def emits_def WrapMsg_def bind_res_eq_Inr message_type_defs split: prod.splits if_splits sum.splits)

lemma emits_info:
  "emits a (fst (relay_deliverBlockInfo2Supervisor S parts b a))" "emits a (fst (broker_deliverBlockInfo2Supervisor S parts' b a))"
proof -
  obtain t a1 where n: "sh_Now a = (t, a1)" by fastforce
  show "emits a (fst (relay_deliverBlockInfo2Supervisor S parts b a))" "emits a (fst (broker_deliverBlockInfo2Supervisor S parts' b a))"
    unfolding relay_deliverBlockInfo2Supervisor_def broker_deliverBlockInfo2Supervisor_def n
    by (auto simp: message_type_defs intro!: emits_trans [OF emits_Now [OF n] emits_wrap_send] split: prod.splits)
qed

text \<open>The transactions for each shard.\<close>

definition relayed_to :: "(address \<Rightarrow> int) \<Rightarrow> Transaction list \<Rightarrow> int \<Rightarrow> Transaction list" where
  "relayed_to loc txs i = map to_relay2 (filter (\<lambda>tx. loc (tx_Recipient tx) = i) txs)"

lemma split_relayed_Inr:
  assumes "split_relayed loc txs arr = Inr arr'"
  shows "length arr' = length arr \<and> (\<forall>tx \<in> set txs. 0 \<le> loc (tx_Recipient tx) \<and> loc (tx_Recipient tx) < int (length arr))
     \<and> (\<forall>i < length arr. arr' ! i = arr ! i @ relayed_to loc txs (int i))"
  using assms
proof (induction txs arbitrary: arr)
  case (Cons tx txs)
  let ?i = "loc (tx_Recipient tx)"
  have i: "0 \<le> ?i" "?i < int (length arr)" "split_relayed loc txs (arr[nat ?i := arr ! nat ?i @ [to_relay2 tx]]) = Inr arr'"
    using Cons.prems by (auto simp: Let_def split: if_splits)
  from Cons.IH [OF i(3)] i(1,2) show ?case by (auto simp: relayed_to_def nth_list_update)
qed (simp add: relayed_to_def)

lemma mset_filter_disjoint: "(\<And>x. \<not> (P x \<and> Q x)) \<Longrightarrow> mset (filter P xs) + mset (filter Q xs) = mset (filter (\<lambda>x. P x \<or> Q x) xs)"
  by (induction xs) auto

lemma mset_partition:
  "distinct js \<Longrightarrow> mset (concat (map (\<lambda>j. filter (\<lambda>x. f x = j) xs) js)) = mset (filter (\<lambda>x. f x \<in> set js) xs)"
proof (induction js)
  case (Cons j js)
  have "mset (filter (\<lambda>x. f x = j) xs) + mset (filter (\<lambda>x. f x \<in> set js) xs) = mset (filter (\<lambda>x. f x = j \<or> f x \<in> set js) xs)"
    using Cons.prems by (intro mset_filter_disjoint) auto
  then show ?case using Cons by (simp add: disj_commute)
qed simp

text \<open>Different shards have different leaders, as in every topology that \<open>SetTopoGetter\<close> builds.\<close>

definition own_leaders :: "TopoGetter \<Rightarrow> bool" where
  "own_leaders t \<longleftrightarrow> (\<forall>i j l. topo_GetLeader t i = Inr l \<longrightarrow> topo_GetLeader t j = Inr l \<longrightarrow> i = j)"

lemma own_leaders_SetTopoGetter: "own_leaders (SetTopoGetter infoSet t)"
proof -
  define P where "P t \<longleftrightarrow> (\<forall>s l. map_of (leaders t) s = Some l \<longrightarrow> ShardID l = s)" for t :: TopoGetter
  have a: "P (add_topo_node shard node t)" if "P t" for shard node t
    using that unfolding P_def by (auto simp: add_topo_node_def Let_def map_of_alist_set)
  have b: "P (fold (\<lambda>(node, addr). add_topo_node shard node) nodes t)" if "P t" for shard and nodes :: "(int \<times> string) list" and t
    using that by (induction nodes arbitrary: t) (simp_all add: a split_beta)
  have c: "P (fold (\<lambda>(shard, shardInfo). fold (\<lambda>(node, addr). add_topo_node shard node) shardInfo) infos t)" if "P t"
    for infos :: "(int \<times> (int \<times> string) list) list" and t
    using that by (induction infos arbitrary: t) (auto intro: b)
  have "P (NewTopoGetter [] Map.empty)" by (simp add: P_def NewTopoGetter_def)
  from c [OF this, of infoSet] have "P (SetTopoGetter infoSet t)"
    unfolding SetTopoGetter_def P_def Let_def by (simp add: map_of_alist_set)
  then have "ShardID l = i" if "topo_GetLeader (SetTopoGetter infoSet t) i = Inr l" for i l
    using that by (auto simp: P_def topo_GetLeader_def find_node_def split: option.splits)
  then show ?thesis unfolding own_leaders_def by metis
qed

definition txs_sent :: "msg_codecs \<Rightarrow> TopoGetter \<Rightarrow> int \<times> Transaction list \<Rightarrow> NodeInfo \<times> WrappedMsg \<Rightarrow> bool" where
  "txs_sent C t jb lw \<longleftrightarrow> topo_GetLeader t (fst jb) = Inr (fst lw) \<and> MsgType (snd lw) = ReceiveTxsMessageType
     \<and> enc (mc_ReceiveTxs C) (snd jb) = Inr (WrappedMsg.Payload (snd lw))"

definition nonempty_from :: "int \<Rightarrow> Transaction list list \<Rightarrow> (int \<times> Transaction list) list" where
  "nonempty_from i arr = filter (\<lambda>jb. snd jb \<noteq> []) (zip (map (\<lambda>k. i + int k) [0..<length arr]) arr)"

lemma nonempty_from_Cons: "nonempty_from i (b # arr) = (if b = [] then [] else [(i, b)]) @ nonempty_from (i + 1) arr"
proof -
  have "map (\<lambda>k. i + int k) [0..<length (b # arr)] = i # map (\<lambda>k. i + 1 + int k) [0..<length arr]"
    by (simp add: upt_conv_Cons map_Suc_upt [symmetric] add.commute add.left_commute del: upt_Suc)
  then show ?thesis by (simp add: nonempty_from_def del: upt_Suc)
qed

lemma collect_shard_msgs_Inr:
  assumes "own_leaders t" "collect_shard_msgs C t i arr acc = Inr res" "\<forall>l \<in> fst ` set acc. \<exists>j < i. topo_GetLeader t j = Inr l"
  shows "\<exists>msgs. res = acc @ msgs \<and> list_all2 (txs_sent C t) (nonempty_from i arr) msgs"
  using assms(2,3)
proof (induction arr arbitrary: i acc)
  case Nil
  then show ?case by (simp add: nonempty_from_def)
next
  case (Cons b arr)
  have later: "\<forall>l \<in> fst ` set acc. \<exists>j < i + 1. topo_GetLeader t j = Inr l"
    using Cons.prems(2) by (meson less_trans zless_add1_eq)
  show ?case
  proof (cases "b = []")
    case True
    then have "collect_shard_msgs C t (i + 1) arr acc = Inr res" using Cons.prems(1) by simp
    then have "\<exists>msgs. res = acc @ msgs \<and> list_all2 (txs_sent C t) (nonempty_from (i + 1) arr) msgs"
      using Cons.IH later by blast
    then show ?thesis using True by (simp add: nonempty_from_Cons)
  next
    case False
    then obtain l w where l: "topo_GetLeader t i = Inr l" "WrapMsg ReceiveTxsMessageType (enc (mc_ReceiveTxs C) b) = Inr w"
      "collect_shard_msgs C t (i + 1) arr (alist_set l w acc) = Inr res" using Cons.prems(1) by (auto simp: bind_res_eq_Inr)
    have "l \<notin> fst ` set acc" using Cons.prems(2) l(1) assms(1) unfolding own_leaders_def by (metis order_less_irrefl)
    then have a: "alist_set l w acc = acc @ [(l, w)]" by (rule alist_set_fresh)
    have "\<forall>x \<in> fst ` set (acc @ [(l, w)]). \<exists>j < i + 1. topo_GetLeader t j = Inr x"
      using later l(1) by (auto intro: exI [of _ i])
    then obtain msgs where m: "res = (acc @ [(l, w)]) @ msgs" "list_all2 (txs_sent C t) (nonempty_from (i + 1) arr) msgs"
      using Cons.IH l(3) unfolding a by blast
    have "txs_sent C t (i, b) (l, w)" using l(1,2) by (auto simp: txs_sent_def WrapMsg_def bind_res_eq_Inr)
    then show ?thesis using m False by (intro exI [of _ "(l, w) # msgs"]) (simp add: nonempty_from_Cons)
  qed
qed

lemma concat_nonempty: "concat (map snd (filter (\<lambda>jb. snd jb \<noteq> []) xs)) = concat (map snd xs)"
  by (induction xs) auto

lemma batches_partition:
  assumes "\<forall>tx \<in> set txs. 0 \<le> loc (tx_Recipient tx) \<and> loc (tx_Recipient tx) < int k"
  shows "mset (concat (map snd (filter (\<lambda>jb. snd jb \<noteq> []) (map (\<lambda>i. (int i, relayed_to loc txs (int i))) [0..<k])))) = mset (map to_relay2 txs)"
proof -
  have c: "concat (map (\<lambda>i. relayed_to loc txs (int i)) [0..<k])
      = map to_relay2 (concat (map (\<lambda>j. filter (\<lambda>tx. loc (tx_Recipient tx) = j) txs) (map int [0..<k])))"
    by (simp add: relayed_to_def map_concat comp_def)
  have "loc (tx_Recipient tx) \<in> set (map int [0..<k])" if "tx \<in> set txs" for tx
    using assms that by (auto intro!: image_eqI [of _ _ "nat (loc (tx_Recipient tx))"])
  then have "filter (\<lambda>tx. loc (tx_Recipient tx) \<in> set (map int [0..<k])) txs = txs" by (intro filter_True) blast
  then have "mset (concat (map (\<lambda>j. filter (\<lambda>tx. loc (tx_Recipient tx) = j) txs) (map int [0..<k]))) = mset txs"
    using mset_partition [of "map int [0..<k]" "\<lambda>tx. loc (tx_Recipient tx)" txs] by (simp add: distinct_map inj_on_def)
  then show ?thesis by (simp only: concat_nonempty map_map comp_def snd_conv c mset_map)
qed

lemma sendRelayedTxs_Inr:
  assumes "sendRelayedTxs S b r1 a = (a', Inr ())" "own_leaders (sn_topo S)"
  shows "\<exists>loc msgs. let batches = filter (\<lambda>jb. snd jb \<noteq> []) (map (\<lambda>i. (int i, relayed_to loc r1 (int i))) [0..<nat (cn_ShardNum (sn_cfg S))]) in
           getAccountLocationsInTxs (sn_E S) (sa_chain a) (TxList b) = Inr loc \<and> sa_out a' = sa_out a @ map (\<lambda>(l, w). ([l], w)) msgs
         \<and> list_all2 (txs_sent (sn_C S) (sn_topo S)) batches msgs \<and> mset (concat (map snd batches)) = mset (map to_relay2 r1)"
proof -
  let ?k = "nat (cn_ShardNum (sn_cfg S))"
  obtain loc arr msgs where l: "getAccountLocationsInTxs (sn_E S) (sa_chain a) (TxList b) = Inr loc"
      "split_relayed loc r1 (replicate ?k []) = Inr arr"
      "collect_shard_msgs (sn_C S) (sn_topo S) 0 arr [] = Inr msgs" "sa_out a' = sa_out a @ map (\<lambda>(l, w). ([l], w)) msgs"
    using assms(1) by (auto simp: sendRelayedTxs_def SendWrappedTxs2Shards_def bind_res_eq_Inr fail_if_def split: sum.splits if_splits)
  have arr: "length arr = ?k" "\<forall>tx \<in> set r1. 0 \<le> loc (tx_Recipient tx) \<and> loc (tx_Recipient tx) < int ?k"
      "\<forall>i < ?k. arr ! i = relayed_to loc r1 (int i)"
    using split_relayed_Inr [OF l(2)] by auto
  then have z: "zip (map (\<lambda>k. 0 + int k) [0..<length arr]) arr = map (\<lambda>i. (int i, relayed_to loc r1 (int i))) [0..<?k]"
    by (intro nth_equalityI) auto
  let ?bs = "filter (\<lambda>jb. snd jb \<noteq> []) (map (\<lambda>i. (int i, relayed_to loc r1 (int i))) [0..<?k])"
  have "list_all2 (txs_sent (sn_C S) (sn_topo S)) ?bs msgs"
    using collect_shard_msgs_Inr [OF assms(2) l(3)] by (simp add: nonempty_from_def z [simplified])
  moreover have "mset (concat (map snd ?bs)) = mset (map to_relay2 r1)"
    by (rule batches_partition) (use arr(2) in auto)
  ultimately show ?thesis using l(1,4) by (intro exI [of _ loc] exI [of _ msgs]) (simp add: Let_def)
qed

text \<open>The transactions a block relays, in either mode.\<close>

definition relayed_txs :: "ConsensusNodeCfg \<Rightarrow> Block \<Rightarrow> Transaction list" where
  "relayed_txs cfg b = (if is_relay cfg then fst (snd (relay_splitTxs (TxList b))) else case broker_splitTxs (TxList b) of (_, _, _, r1, _) \<Rightarrow> r1)"

lemma commit_steps:
  assumes "BlockCommitAndDeliver S True b a = (a', Inr ())"
  obtains a1 a4 where "add_block S b a = (a1, Inr ())" "emits a1 a4" "sa_chain a4 = sa_chain a1"
    "sendRelayedTxs S b (relayed_txs (sn_cfg S) b) a4 = (a', Inr ()) \<or> relayed_txs (sn_cfg S) b = [] \<and> a' = a4"
proof -
  obtain a1 a2 a3 where p: "add_block S b a = (a1, Inr ())" "publish_receipt S b a1 = (a2, Inr ())" "PublishAfterBlock S b a2 = (a3, Inr ())"
    using assms unfolding BlockCommitAndDeliver_def relay_BlockCommitAndDeliver_def broker_BlockCommitAndDeliver_def
    by (auto simp: bind_st_def split: prod.splits sum.splits if_splits)
  obtain a4 where a4: "emits a3 a4" "sa_chain a4 = sa_chain a3"
    "sendRelayedTxs S b (relayed_txs (sn_cfg S) b) a4 = (a', Inr ()) \<or> relayed_txs (sn_cfg S) b = [] \<and> a' = a4"
  proof (cases "is_relay (sn_cfg S)")
    case True
    obtain a4 where "relay_deliverBlockInfo2Supervisor S (relay_splitTxs (TxList b)) b a3 = (a4, Inr ())"
        "sendRelayedTxs S b (relayed_txs (sn_cfg S) b) a4 = (a', Inr ())"
      using assms True p unfolding BlockCommitAndDeliver_def relay_BlockCommitAndDeliver_def relayed_txs_def
      by (auto simp: bind_st_def split: prod.splits sum.splits)
    then show ?thesis using that emits_info(1) [of a3 S _ b] deliver_info_chain(1) [of S _ b a3] by (metis fst_conv)
  next
    case False
    obtain inner b1 b2 r1 r2 where sp: "broker_splitTxs (TxList b) = (inner, b1, b2, r1, r2)" by (cases "broker_splitTxs (TxList b)") auto
    obtain a4 where "broker_deliverBlockInfo2Supervisor S (inner, b1, b2, r1, r2) b a3 = (a4, Inr ())"
        "(if r1 = [] then (a4, Inr ()) else sendRelayedTxs S b r1 a4) = (a', Inr ())"
      using assms False p sp unfolding BlockCommitAndDeliver_def broker_BlockCommitAndDeliver_def
      by (auto simp: bind_st_def split: prod.splits sum.splits)
    moreover have "relayed_txs (sn_cfg S) b = r1" using False sp by (simp add: relayed_txs_def)
    ultimately show ?thesis using that [of a4] emits_info(2) [of a3 S _ b] deliver_info_chain(2) [of S _ b a3] by (metis fst_conv prod.inject)
  qed
  have "emits a1 a4" using emits_receipt [of a1 S b] emits_fallbacks [of a2 S b] a4(1) p(2,3) by (auto intro: emits_trans)
  moreover have "sa_chain a4 = sa_chain a1" using a4(2) p(2,3) publish_receipt_chain [of S b a1] PublishAfterBlock_chain [of S b a2] by simp
  ultimately show ?thesis using that p(1) a4(3) by blast
qed

text \<open>
  C11. A leader that commits a block hands over every transaction the block relays, exactly once. When
  \<open>BlockCommitAndDeliver\<close> succeeds, in the relay or the broker mode, and no two shards have one leader, the block was added to the chain; of the messages
  that leave the node, those of the type \<open>ReceiveTxs\<close>, with which a shard gets transactions for its pool, are one to the leader of each shard
  that has recipients among the relayed transactions, with precisely the transactions for the accounts of that shard, in the order of the block and now in
  the second stage; together these batches are all of the relayed transactions, none lost and none doubled. The other messages are receipts, fallbacks,
  and the report to the supervisor, which lists the transactions of the block for its statistics.
\<close>

theorem relayed_exactly_once:
  assumes "BlockCommitAndDeliver S True b a = (a', Inr ())" "own_leaders (sn_topo S)"
  shows "\<exists>others msgs loc. let n = cn_ShardNum (sn_cfg S); r1 = relayed_txs (sn_cfg S) b;
           batches = filter (\<lambda>jb. snd jb \<noteq> []) (map (\<lambda>i. (int i, relayed_to loc r1 (int i))) [0..<nat n]) in
         AddBlock (sn_E S) b (sa_chain a) = (sa_chain a', Inr ())
         \<and> (r1 \<noteq> [] \<longrightarrow> getAccountLocationsInTxs (sn_E S) (sa_chain a') (TxList b) = Inr loc)
         \<and> sa_out a' = sa_out a @ others @ map (\<lambda>(l, w). ([l], w)) msgs
         \<and> (\<forall>(d, w) \<in> set others. MsgType w \<noteq> ReceiveTxsMessageType)
         \<and> list_all2 (txs_sent (sn_C S) (sn_topo S)) batches msgs
         \<and> mset (concat (map snd batches)) = mset (map to_relay2 r1)"
proof -
  let ?r1 = "relayed_txs (sn_cfg S) b"
  obtain a1 a4 where st: "add_block S b a = (a1, Inr ())" "emits a1 a4" "sa_chain a4 = sa_chain a1"
    "sendRelayedTxs S b ?r1 a4 = (a', Inr ()) \<or> ?r1 = [] \<and> a' = a4"
    using commit_steps [OF assms(1)] by blast
  have add: "AddBlock (sn_E S) b (sa_chain a) = (sa_chain a1, Inr ())" "sa_out a1 = sa_out a"
    using st(1) by (auto simp: add_block_def split: prod.splits)
  obtain others where o: "sa_out a4 = sa_out a @ others" "\<forall>(d, w) \<in> set others. MsgType w \<noteq> ReceiveTxsMessageType"
    using st(2) add(2) by (auto simp: emits_def)
  from st(4) show ?thesis
  proof
    assume s: "sendRelayedTxs S b ?r1 a4 = (a', Inr ())"
    have c: "sa_chain a' = sa_chain a1" using sendRelayedTxs_chain [of S b ?r1 a4] s st(3) by simp
    from sendRelayedTxs_Inr [OF s assms(2)] obtain loc msgs where
      "let batches = filter (\<lambda>jb. snd jb \<noteq> []) (map (\<lambda>i. (int i, relayed_to loc ?r1 (int i))) [0..<nat (cn_ShardNum (sn_cfg S))]) in
         getAccountLocationsInTxs (sn_E S) (sa_chain a4) (TxList b) = Inr loc \<and> sa_out a' = sa_out a4 @ map (\<lambda>(l, w). ([l], w)) msgs
       \<and> list_all2 (txs_sent (sn_C S) (sn_topo S)) batches msgs \<and> mset (concat (map snd batches)) = mset (map to_relay2 ?r1)"
      by blast
    then show ?thesis using add(1) c o st(3) by (intro exI [of _ others] exI [of _ msgs] exI [of _ loc]) (simp add: Let_def)
  next
    assume r: "?r1 = [] \<and> a' = a4"
    then show ?thesis using add(1) o st(3) by (intro exI [of _ others] exI [of _ "[]"]) (simp add: relayed_to_def)
  qed
qed

text \<open>The balances of a set of accounts in which one account has its start balance, the initial balance when the state has not seen it yet.\<close>

definition funds :: "'s geth \<Rightarrow> 's \<Rightarrow> address \<Rightarrow> address set \<Rightarrow> 256 word" where
  "funds G s a A = (\<Sum>x \<in> A. if x = a then start_balance G s a else g_GetBalance G s x)"

lemma sum_changed_at:
  fixes g :: "address \<Rightarrow> 256 word"
  assumes "finite A" "a \<in> A" "\<And>x. x \<noteq> a \<Longrightarrow> g x = h x"
  shows "sum g A = g a - k + (\<Sum>x \<in> A. if x = a then k else h x)"
proof -
  have "sum g (A - {a}) = (\<Sum>x \<in> A - {a}. if x = a then k else h x)" using assms(3) by (intro sum.cong) auto
  then show ?thesis using assms(1,2) by (simp add: sum.remove [of A a])
qed

text \<open>
  C38. The value of a relayed transfer is conserved across shards. When the shard of the sender executes the first half and succeeds,
  the second half that it hands over, executed in whatever state the shard of the recipient is in by then, succeeds, and the balances of any
  accounts of the two shards, the sender and the recipient among them, add up to what they were before both; the sender has lost exactly the value,
  without an underflow, the recipient has gained it, in 256 bits, and no other account of either shard has changed. When the first half is refused the sender's balance
  did not cover the value, and the balances of its shard add up to what they were.
\<close>

theorem relayed_value_conserved:
  assumes "geth_laws G" "tx_Value tx = Some x" "0 \<le> x" "x < 2 ^ 256" "RelayStage (tx_Relay tx) = Relay1Tx"
    and "relayTxExecute G loc (loc (tx_Sender tx)) tx s = (s', r)"
    and "relayTxExecute G loc (loc (tx_Recipient tx)) (to_relay2 tx) t = (t', r')"
    and "finite A" "tx_Sender tx \<in> A" "finite B" "tx_Recipient tx \<in> B"
  shows "(r = Inr () \<longrightarrow> r' = Inr ()
        \<and> sum (g_GetBalance G s') A + sum (g_GetBalance G t') B = funds G s (tx_Sender tx) A + funds G t (tx_Recipient tx) B
        \<and> uint (g_GetBalance G s' (tx_Sender tx)) = uint (start_balance G s (tx_Sender tx)) - x
        \<and> g_GetBalance G t' (tx_Recipient tx) = start_balance G t (tx_Recipient tx) + word_of_int x
        \<and> (\<forall>a. (a \<noteq> tx_Sender tx \<longrightarrow> g_GetBalance G s' a = g_GetBalance G s a)
             \<and> (a \<noteq> tx_Recipient tx \<longrightarrow> g_GetBalance G t' a = g_GetBalance G t a)))
    \<and> (r \<noteq> Inr () \<longrightarrow> uint (start_balance G s (tx_Sender tx)) < x \<and> sum (g_GetBalance G s') A = funds G s (tx_Sender tx) A)"
proof -
  let ?S = "tx_Sender tx" and ?R = "tx_Recipient tx"
  note one = relay_transfer [OF assms(1-4,6)] and two = relay_transfer [OF assms(1) _ assms(3,4,7)]
  have first: "(r = Inr () \<longleftrightarrow> x \<le> uint (start_balance G s ?S))" "\<And>a. a \<noteq> ?S \<Longrightarrow> g_GetBalance G s' a = g_GetBalance G s a"
      "r = Inr () \<Longrightarrow> uint (g_GetBalance G s' ?S) = uint (start_balance G s ?S) - x"
      "r \<noteq> Inr () \<Longrightarrow> g_GetBalance G s' ?S = start_balance G s ?S"
    using one assms(5) by simp_all
  have second: "r' = Inr ()" "g_GetBalance G t' ?R = start_balance G t ?R + word_of_int x" "\<And>a. a \<noteq> ?R \<Longrightarrow> g_GetBalance G t' a = g_GetBalance G t a"
    using two assms(2) by (simp_all add: to_relay2_def Relay1Tx_def Relay2Tx_def)
  have A: "sum (g_GetBalance G s') A = g_GetBalance G s' ?S - start_balance G s ?S + funds G s ?S A"
    unfolding funds_def by (rule sum_changed_at [OF assms(8,9) first(2)])
  have B: "sum (g_GetBalance G t') B = g_GetBalance G t' ?R - start_balance G t ?R + funds G t ?R B"
    unfolding funds_def by (rule sum_changed_at [OF assms(10,11) second(3)])
  have "g_GetBalance G s' ?S = start_balance G s ?S - word_of_int x" if "r = Inr ()"
    using first(3) [OF that] by (metis wi_hom_sub word_of_int_uint)
  then show ?thesis using first second A B by auto
qed

section \<open>An example\<close>

text \<open>Account 2 of shard 0 pays account 5 of shard 1; shard 0 commits the first half.\<close>

definition handed_tx :: Transaction where
  "handed_tx = to_relay1 [1] (NewTransaction 2 5 (Some 5) (Some 0) 0 0)"

definition hand_topo :: TopoGetter where
  "hand_topo = NewTopoGetter [(0, \<lparr>NodeID = 0, ShardID = 0\<rparr>), (1, \<lparr>NodeID = 0, ShardID = 1\<rparr>),
     (SupervisorShardID, \<lparr>NodeID = 0, ShardID = SupervisorShardID\<rparr>)] Map.empty"

definition hand_shard :: "(mem_state, hash256 \<rightharpoonup> mem_state, (hash256 \<rightharpoonup> content) EthereumDefaultTrieDB) shard_env" where
  "hand_shard = \<lparr>sn_E = example_env no_codec, sn_C = idle_codecs\<lparr>mc_ReceiveTxs := table_codec [[to_relay2 handed_tx]], mc_RelayBlockInfo := no_codec\<rparr>,
     sn_topo = hand_topo, sn_cfg = \<lparr>cn_ConsensusType = StaticRelayConsensus, cn_ShardNum = 2, cn_BlockSizeLimit = 10, cn_NettingEnabled = False,
       cn_NodeID = 0, cn_WalletAddr = 1\<rparr>\<rparr>"

abbreviation handed_block :: "BlockHeader \<Rightarrow> Block" where
  "handed_block h \<equiv> \<lparr>b_Header = h, TxList = [handed_tx], b_Migration = no_migration\<rparr>"

lemma handed_simps [simp]:
  "tx_Sender handed_tx = 2" "tx_Recipient handed_tx = 5" "tx_Value handed_tx = Some 5" "RelayStage (tx_Relay handed_tx) = Relay1Tx"
  "TxType handed_tx = RelayTxType" "tx_Intent handed_tx = None"
  by (simp_all add: handed_tx_def to_relay1_def NewTransaction_def zero_tx_def TxType_def tx_type_defs Relay1Tx_def)

lemma hand_shard_simps [simp]:
  "sn_E hand_shard = example_env no_codec" "sn_topo hand_shard = hand_topo" "cn_ShardNum (sn_cfg hand_shard) = 2"
  "\<not> cn_NettingEnabled (sn_cfg hand_shard)" "mc_ReceiveTxs (sn_C hand_shard) = table_codec [[to_relay2 handed_tx]]"
  "enc (mc_RelayBlockInfo (sn_C hand_shard)) m = Inr [1]" "enc (table_codec [[to_relay2 handed_tx]]) [to_relay2 handed_tx] = Inr [0]"
  "GetSupervisor hand_topo = Inr \<lparr>NodeID = 0, ShardID = SupervisorShardID\<rparr>" "topo_GetLeader hand_topo 1 = Inr \<lparr>NodeID = 0, ShardID = 1\<rparr>"
  by (simp_all add: hand_shard_def hand_topo_def idle_codecs_def no_codec_def table_codec_def NewTopoGetter_def topo_GetLeader_def GetSupervisor_def
      find_node_def SupervisorShardID_def)

lemma handed_locations:
  assumes "LocStorage c = LocStorage example_chain" "cfg_ShardNum c = 2"
  shows "getAccountLocationsInTxs (example_env g) c [handed_tx] = Inr (\<lambda>a. if a = 5 then 1 else 0)"
  using assms by (auto simp: getAccountLocationsInTxs_def tx_accounts_def getAccountLocations_def example_env_def example_chain_def
      eth_store_def MGetValsByKeys_def ref_ops_def decode_location_def DefaultAccountLoc_def)

lemma handed_modification:
  "\<exists>s. \<forall>g h. calcStateModification (example_env g) example_chain (handed_block h) mem_empty = (s, Inr ([], []))"
proof -
  let ?loc = "\<lambda>a :: address. if a = 5 then 1 else 0 :: int"
  have "BigToUInt256 mem_geth (Some 5) = Inr 5" by (simp add: mem.BigToUInt256_Inr)
  then obtain s r where e: "relayTxExecute mem_geth ?loc 0 handed_tx mem_empty = (s, r)" by fastforce
  have st: "start_balance mem_geth mem_empty a = 10 ^ 36" for a
    by (simp add: start_balance_def mem_geth_def mem_empty_def normalInitBalance_def NormalInitBalance_def)
  have "r = Inr ()" using relay_transfer [OF mem.geth_laws_axioms handed_simps(3) _ _ e] by (simp add: st)
  moreover have "ce_geth (example_env g) = mem_geth" "shardID example_chain = 0" "cfg_ShardNum example_chain = 2" for g
    by (simp_all add: example_env_def example_chain_def)
  ultimately have "calcStateModification (example_env g) example_chain (handed_block h) mem_empty = (s, Inr ([], []))" for g h
    using e handed_locations [of example_chain] by (simp add: calcStateModification_def lift_res_def txExecute_def tx_type_defs no_migration_def Let_def)
  then show ?thesis by blast
qed

lemma handed_generates:
  obtains b h where "GenerateBlock (example_env no_codec) example_chain 7 1 TxBlockType [handed_tx] no_migration = Inr b" "b = handed_block h"
proof -
  let ?E = "example_env no_codec"
  obtain tOpt where t: "calcTxHeaderOpt ?E example_chain [handed_tx] = Inr tOpt"
    by (simp add: calcTxHeaderOpt_def example_env_def example_chain_def NewFilter_def maxBitsetLen_def tx_Hash_def tx_Encode_def
      gob_pointer_def handed_tx_def to_relay1_def NewTransaction_def zero_tx_def Filter_Add_def getFilterHashFs_def
      filterFuncRegistry_def set_bit_of_def bit_index_def list_bits_def GenerateRootByGivenBytes_def put_pair_def ref_ops_def uint64_of_int64_def)
  have c: "curateIntentTransactions ?E example_chain h [handed_tx] = Inr [handed_tx]" for h
    by (simp add: curateIntentTransactions_def containsIntent_def tx_type_defs)
  have m: "calcMigrationHeaderOpt ?E no_migration = Inr []" by (simp add: calcMigrationHeaderOpt_def no_migration_def)
  obtain x where x: "header_Hash (ce_hash ?E) (ce_block ?E) (curHeader example_chain) = Inr x" by (simp add: header_Hash_def example_env_def)
  obtain s where s: "\<forall>h. calcStateModification ?E example_chain (handed_block h) mem_empty = (s, Inr ([], []))" using handed_modification by metis
  obtain r where "ts_Preview (eth_store ref_ops) [] [] (LocStorage example_chain) = Inr r"
    by (simp add: eth_store_def MAddKeyValuesPreview_def example_chain_def ref_ops_def)
  then obtain sr lr where r: "\<And>h. previewStateRootByBlock ?E example_chain (handed_block h) = Inr (sr, lr)"
    using s by (auto simp: previewStateRootByBlock_def example_executor) (simp add: example_env_def)
  show thesis by (rule that) (simp_all add: GenerateBlock_def x c t m r NewBlock_def Let_def)
qed

lemma handed_added:
  obtains b c' where "AddBlock (example_env no_codec) b example_chain = (c', Inr ())" "TxList b = [handed_tx]"
    "LocStorage c' = LocStorage example_chain" "cfg_ShardNum c' = 2"
proof (rule handed_generates)
  fix b h
  let ?E = "example_env no_codec"
  assume g: "GenerateBlock ?E example_chain 7 1 TxBlockType [handed_tx] no_migration = Inr b" and b: "b = handed_block h"
  obtain s where s: "\<forall>h. calcStateModification ?E example_chain (handed_block h) mem_empty = (s, Inr ([], []))" using handed_modification by metis
  have l: "bitset_laws (ce_bits ?E)" "vm_laws (ce_geth ?E) (ce_vm ?E)" "trie_store_laws (ce_loc ?E)"
    by (simp_all add: example_env_def lb.bitset_laws_axioms mv.vm_laws_axioms rt.eth.trie_store_laws_axioms)
  have v: "validateBlock ?E example_chain b = Inr ()"
    by (rule generated_valid [OF l(1) g]) (simp add: well_shaped_def no_migration_def)
  obtain lr where lr: "ts_Commit (ce_loc ?E) [] [] (LocStorage example_chain) = (LocStorage example_chain, Inr lr)"
    by (simp add: example_env_def eth_store_def MAddKeyValuesAndCommit_def lift_res_def example_chain_def ref_ops_def)
  have k: "state_Commit (ce_vm ?E) n s st = (st(5 \<mapsto> mem_clean s), Inr 5)" "TrieDB_Commit (ce_vm ?E) r st = (st, Inr ())" for n s st r
    by (simp_all add: example_env_def mem_vm_def)
  then have "commits_succeed ?E example_chain b" using s lr unfolding b by (auto simp: commits_succeed_def example_executor)
  then obtain c' where a: "AddBlock ?E b example_chain = (c', Inr ())"
    using AddBlock_succeeds [OF l(2,3) v] by (auto simp: example_env_def no_codec_def)
  have "LocStorage c' = LocStorage example_chain \<and> cfg_ShardNum c' = cfg_ShardNum example_chain"
    by (rule AddBlock_Inr [OF a]) (use s lr k b in \<open>auto simp: updateTrieByBlock_def example_executor\<close>)
  then show thesis using that a b by (simp add: example_chain_def)
qed

theorem relayed_exactly_once_witness:
  "\<exists>b a' others l w. BlockCommitAndDeliver hand_shard True b (new_shard_app example_chain \<lparr>queue = [], pf = packTxsByGivenNum, tp_Type = TxPoolNumType\<rparr> (\<lambda>n. 0)) = (a', Inr ())
     \<and> TxList b = [handed_tx] \<and> sa_out a' = others @ [([l], w)] \<and> (\<forall>(d, w) \<in> set others. MsgType w \<noteq> ReceiveTxsMessageType)
     \<and> l = \<lparr>NodeID = 0, ShardID = 1\<rparr> \<and> dec (table_codec [[to_relay2 handed_tx]]) (WrappedMsg.Payload w) = Inr [to_relay2 handed_tx]"
proof (rule handed_added)
  fix b c'
  assume a: "AddBlock (example_env no_codec) b example_chain = (c', Inr ())" "TxList b = [handed_tx]"
    "LocStorage c' = LocStorage example_chain" "cfg_ShardNum c' = 2"
  let ?a = "new_shard_app example_chain \<lparr>queue = [], pf = packTxsByGivenNum, tp_Type = TxPoolNumType\<rparr> (\<lambda>n. 0)"
  note loc = handed_locations [OF a(3,4)]
  have own: "own_leaders (sn_topo hand_shard)"
    by (auto simp: own_leaders_def hand_topo_def NewTopoGetter_def topo_GetLeader_def find_node_def SupervisorShardID_def split: if_splits)
  have split: "relay_splitTxs (TxList b) = ([], [handed_tx], [])"
    by (simp add: a(2) relay_splitTxs_def isNettingSystemTx_def tx_type_defs UndeterminedRelayTx_def Relay1Tx_def Relay2Tx_def)
  have rel: "is_relay (sn_cfg hand_shard)" by (simp add: hand_shard_def is_relay_def)
  then have r1: "relayed_txs (sn_cfg hand_shard) b = [handed_tx]" by (simp add: relayed_txs_def split)
  have "split_relayed (\<lambda>a. if a = 5 then 1 else 0) [handed_tx] (replicate (nat 2) []) = Inr [[], [to_relay2 handed_tx]]"
    by (simp add: numeral_2_eq_2)
  moreover have "add_block hand_shard b ?a = (?a\<lparr>sa_chain := c'\<rparr>, Inr ())" using a(1) by (simp add: add_block_def new_shard_app_def)
  ultimately have "\<exists>a'. BlockCommitAndDeliver hand_shard True b ?a = (a', Inr ())"
    using a(2) loc by (simp add: BlockCommitAndDeliver_def rel relay_BlockCommitAndDeliver_def split [unfolded a(2)] publish_receipt_def Publish_def PublishAfterBlock_def
        relay_deliverBlockInfo2Supervisor_def sendRelayedTxs_def SendWrappedTxs2Shards_def sh_Now_def sh_wrap_send_def sh_send_def WrapMsg_def)
  then obtain a' where r: "BlockCommitAndDeliver hand_shard True b ?a = (a', Inr ())" by blast
  let ?sent = "\<lambda>loc. list_all2 (txs_sent (sn_C hand_shard) hand_topo)
      (filter (\<lambda>jb. snd jb \<noteq> []) (map (\<lambda>i. (int i, relayed_to loc [handed_tx] (int i))) [0..<nat 2]))"
  have "\<exists>others msgs loc. AddBlock (example_env no_codec) b example_chain = (sa_chain a', Inr ())
      \<and> getAccountLocationsInTxs (example_env no_codec) (sa_chain a') [handed_tx] = Inr loc \<and> sa_out a' = others @ map (\<lambda>(l, w). ([l], w)) msgs
      \<and> (\<forall>(d, w) \<in> set others. MsgType w \<noteq> ReceiveTxsMessageType) \<and> ?sent loc msgs"
    using relayed_exactly_once [OF r own] unfolding Let_def r1 a(2) hand_shard_simps new_shard_app_def ShardApp.simps append_Nil
    by (elim ex_forward conjE) (intro conjI; (assumption | simp))
  then obtain others msgs loc where *: "AddBlock (example_env no_codec) b example_chain = (sa_chain a', Inr ())"
      "getAccountLocationsInTxs (example_env no_codec) (sa_chain a') [handed_tx] = Inr loc" "sa_out a' = others @ map (\<lambda>(l, w). ([l], w)) msgs"
      "\<forall>(d, w) \<in> set others. MsgType w \<noteq> ReceiveTxsMessageType" "?sent loc msgs" by blast
  have "loc = (\<lambda>a. if a = 5 then 1 else 0)" using *(1,2) a(1) loc by simp
  then have "list_all2 (txs_sent (sn_C hand_shard) hand_topo) [(1, [to_relay2 handed_tx])] msgs"
    using *(5) by (simp add: relayed_to_def numeral_2_eq_2)
  then obtain l w where m: "msgs = [(l, w)]" "txs_sent (sn_C hand_shard) hand_topo (1, [to_relay2 handed_tx]) (l, w)"
    by (auto simp: list_all2_Cons1)
  then have "l = \<lparr>NodeID = 0, ShardID = 1\<rparr>" "enc (table_codec [[to_relay2 handed_tx]]) [to_relay2 handed_tx] = Inr (WrappedMsg.Payload w)"
    by (simp_all add: txs_sent_def)
  moreover from this have "dec (table_codec [[to_relay2 handed_tx]]) (WrappedMsg.Payload w) = Inr [to_relay2 handed_tx]"
    by (intro tc.dec_enc)
  ultimately show ?thesis
    using r a(2) *(3,4) m(1) by (intro exI [of _ b] exI [of _ a'] exI [of _ others] exI [of _ l] exI [of _ w]) simp
qed

text \<open>The transfer of the example, executed in two fresh shards.\<close>

theorem relayed_value_conserved_witness:
  "\<exists>s' t'. relayTxExecute mem_geth (\<lambda>a. if a = 5 then 1 else 0) 0 handed_tx mem_empty = (s', Inr ())
     \<and> relayTxExecute mem_geth (\<lambda>a. if a = 5 then 1 else 0) 1 (to_relay2 handed_tx) mem_empty = (t', Inr ())
     \<and> g_GetBalance mem_geth s' 2 + g_GetBalance mem_geth t' 5 = 10 ^ 36 + 10 ^ 36
     \<and> uint (g_GetBalance mem_geth s' 2) = 10 ^ 36 - 5 \<and> g_GetBalance mem_geth t' 5 = 10 ^ 36 + 5"
proof -
  let ?loc = "\<lambda>a :: address. if a = 5 then 1 else 0 :: int"
  obtain s' r t' r' where e: "relayTxExecute mem_geth ?loc 0 handed_tx mem_empty = (s', r)"
      "relayTxExecute mem_geth ?loc 1 (to_relay2 handed_tx) mem_empty = (t', r')" by fastforce
  have st: "start_balance mem_geth mem_empty a = 10 ^ 36" for a
    by (simp add: start_balance_def mem_geth_def mem_empty_def normalInitBalance_def NormalInitBalance_def)
  note c = relayed_value_conserved [OF mem.geth_laws_axioms handed_simps(3) _ _ handed_simps(4),
      of ?loc mem_empty s' r mem_empty t' r' "{2}" "{5}", simplified handed_simps, simplified, OF e, unfolded st funds_def]
  then have r: "r = Inr ()" by auto
  note d = conjunct2 [OF mp [OF conjunct1 [OF c] r]]
  have "g_GetBalance mem_geth s' 2 + g_GetBalance mem_geth t' 5 = 10 ^ 36 + 10 ^ 36" using conjunct1 [OF d] by simp
  moreover have "uint (g_GetBalance mem_geth s' 2) = 10 ^ 36 - 5" "g_GetBalance mem_geth t' 5 = 10 ^ 36 + 5" "r' = Inr ()"
    using conjunct2 [OF d] mp [OF conjunct1 [OF c] r] by simp_all
  ultimately show ?thesis using e r by blast
qed

end
