(* ===== verification/Window_Chain.thy ===== *)
theory Window_Chain
  imports Window_History
begin

text \<open>
  The blocks that a window manager accepts of a shard, over its whole life: those in the windows it has sealed and
  those it has still to seal form one chain of hashes from the checkpoint to the watermark.
\<close>

section \<open>What stays known of a stream\<close>

definition base_hash :: "(int \<times> ShardCheckpoint) list \<Rightarrow> int \<Rightarrow> hash256" where
  "base_hash cps s = (case map_of cps s of None \<Rightarrow> 0 | Some cp \<Rightarrow> cp_BlockHash cp)"

text \<open>A receipt below the watermark whose hash and parent hash are recorded.\<close>

definition linked_receipt :: "Manager \<Rightarrow> FinalizedBlockReceipt \<Rightarrow> bool" where
  "linked_receipt m b \<longleftrightarrow> (let st = stream_of m (rc_ShardID b) in
     rc_ShardID b \<in> {0..<cfg_ShardCount (wm_cfg m)} \<and> rc_Height b \<noteq> 0 \<and> rc_Height b \<le> ContinuousHeight st
     \<and> SeenHashes st (rc_Height b) = Some (rc_BlockHash b) \<and> SeenHashes st (rc_Height b - 1) = Some (rc_ParentHash b))"

definition linv :: "(int \<times> ShardCheckpoint) list \<Rightarrow> FrozenWindow list \<Rightarrow> Manager \<Rightarrow> bool" where
  "linv cps acked m \<longleftrightarrow> (\<forall>w \<in> set (acked @ wm_frozen m). \<forall>b \<in> set (fw_Receipts w). linked_receipt m b)
     \<and> (\<forall>s \<in> {0..<cfg_ShardCount (wm_cfg m)}. base_heights cps s \<le> ContinuousHeight (stream_of m s)
          \<and> SeenHashes (stream_of m s) (base_heights cps s) = Some (base_hash cps s))"

lemma linked_receipt_updates [simp]:
  "linked_receipt (m\<lparr>wm_ticks := n\<rparr>) b = linked_receipt m b" "linked_receipt (m\<lparr>wm_frozen := f\<rparr>) b = linked_receipt m b"
  by (simp_all add: linked_receipt_def)

text \<open>The hashes recorded up to the watermark stay, and the watermark does not go back.\<close>

definition keeps :: "Manager \<Rightarrow> Manager \<Rightarrow> bool" where
  "keeps m m' \<longleftrightarrow> wm_cfg m' = wm_cfg m \<and> (\<forall>s \<in> {0..<cfg_ShardCount (wm_cfg m)}.
     ContinuousHeight (stream_of m s) \<le> ContinuousHeight (stream_of m' s)
     \<and> (\<forall>h x. h \<le> ContinuousHeight (stream_of m s) \<longrightarrow> SeenHashes (stream_of m s) h = Some x \<longrightarrow> SeenHashes (stream_of m' s) h = Some x))"

lemma linked_receipt_keeps: "linked_receipt m b \<Longrightarrow> keeps m m' \<Longrightarrow> linked_receipt m' b"
proof -
  assume l: "linked_receipt m b" and k: "keeps m m'"
  have "rc_Height b - 1 \<le> rc_Height b" using l by (simp add: linked_receipt_def Let_def word_le_nat_alt unat_minus_one)
  then show "linked_receipt m' b" using l k unfolding linked_receipt_def keeps_def Let_def by (metis (no_types, lifting) order.trans)
qed

lemma linv_keeps: "linv cps acked m \<Longrightarrow> keeps m m' \<Longrightarrow> wm_frozen m' = wm_frozen m \<Longrightarrow> linv cps acked m'"
proof -
  assume l: "linv cps acked m" and k: "keeps m m'" and f: "wm_frozen m' = wm_frozen m"
  have "base_heights cps s \<le> ContinuousHeight (stream_of m' s) \<and> SeenHashes (stream_of m' s) (base_heights cps s) = Some (base_hash cps s)"
    if "s \<in> {0..<cfg_ShardCount (wm_cfg m')}" for s
  proof -
    have c: "wm_cfg m' = wm_cfg m" using k by (simp add: keeps_def)
    then have "base_heights cps s \<le> ContinuousHeight (stream_of m s)" "SeenHashes (stream_of m s) (base_heights cps s) = Some (base_hash cps s)"
      using l that by (simp_all add: linv_def)
    moreover have "s \<in> {0..<cfg_ShardCount (wm_cfg m)}" using that c by simp
    ultimately show ?thesis using k unfolding keeps_def by (meson order.trans)
  qed
  then show "linv cps acked m'" using l f linked_receipt_keeps [OF _ k] by (simp add: linv_def)
qed

lemma keeps_set_stream:
  assumes "ContinuousHeight (stream_of m s) \<le> ContinuousHeight st"
    and "\<And>h x. h \<le> ContinuousHeight (stream_of m s) \<Longrightarrow> SeenHashes (stream_of m s) h = Some x \<Longrightarrow> SeenHashes st h = Some x"
  shows "keeps m (set_stream s st m)"
  using assms by (simp add: keeps_def)

section \<open>Steps\<close>

lemma next_height:
  assumes "sinv s l st" "map_of (BufferedBlocks st) (NextExpectedHeight st) = Some r"
  shows "rc_Height r = NextExpectedHeight st" "ContinuousHeight st < NextExpectedHeight st"
proof -
  have "(NextExpectedHeight st, r) \<in> set (BufferedBlocks st)" using assms(2) map_of_SomeD by force
  then have h: "rc_Height r = NextExpectedHeight st" "NextExpectedHeight st \<noteq> 0" using assms(1) by (auto simp: sinv_def)
  then show "rc_Height r = NextExpectedHeight st" by simp
  show "ContinuousHeight st < NextExpectedHeight st"
    using heights_extend(2) [of "NextExpectedHeight st" "ContinuousHeight st"] h(2) assms(1) by (auto simp: sinv_def)
qed

lemma linv_drop:
  assumes "linv cps acked m" "sinv s l (stream_of m s)"
    and "map_of (BufferedBlocks (stream_of m s)) (NextExpectedHeight (stream_of m s)) = Some r"
  shows "linv cps acked (set_stream s (dropBuffered (stream_of m s) (rc_Height r)) m)"
proof (rule linv_keeps [OF assms(1) keeps_set_stream])
  note n = next_height [OF assms(2,3)]
  show "SeenHashes (dropBuffered (stream_of m s) (rc_Height r)) h = Some x"
    if "h \<le> ContinuousHeight (stream_of m s)" "SeenHashes (stream_of m s) h = Some x" for h x
    using that n by (auto simp: dropBuffered_def)
qed (simp_all add: dropBuffered_def)

lemma linv_take:
  assumes "linv cps acked m" "sinv s l (stream_of m s)"
    and "map_of (BufferedBlocks (stream_of m s)) (NextExpectedHeight (stream_of m s)) = Some r"
  shows "linv cps acked (take_receipt s r ids m)"
proof (rule linv_keeps [OF assms(1)])
  show "keeps m (take_receipt s r ids m)"
    using next_height [OF assms(2,3)] by (auto simp: keeps_def stream_take_receipt)
  show "wm_frozen (take_receipt s r ids m) = wm_frozen m" by (simp add: take_receipt_def Let_def Now_def)
qed

lemma linv_TryClose:
  assumes "winv H m" "linv cps acked m" "TryClose m = (wo, m')"
  shows "linv cps acked m'"
  using assms(3)
proof (cases rule: TryClose_cases)
  case quiet
  moreover have "linv cps acked (m\<lparr>wm_ticks := Suc (wm_ticks m)\<rparr>)" using assms(2) by (simp add: linv_def)
  ultimately show ?thesis using assms(2) by blast
next
  case (sealed w reason)
  define t where "t = m\<lparr>wm_ticks := Suc (wm_ticks m)\<rparr>"
  have c: "wcore H t" using assms(1) by (simp add: winv_def t_def)
  note r = seal_result [OF c sealed(4) [folded t_def]]
  have tl: "linv cps acked t" using assms(2) by (simp add: t_def linv_def)
  have k: "keeps t m'" using r(7,17) by (simp add: keeps_def)
  have new: "linked_receipt t b" if b: "b \<in> set (fw_Receipts w)" for b
  proof -
    obtain s h where s: "s \<in> {0..<cfg_ShardCount (wm_cfg t)}" "(h, b) \<in> set (UnassignedBlocks (stream_of t s))"
      using b r(3) by (auto simp: sealed_receipts_def set_shard_range)
    then have "sinv s (last_of t s) (stream_of t s)" using c by (simp add: wcore_def)
    then have "rc_ShardID b = s \<and> rc_Height b = h \<and> SeenHashes (stream_of t s) h = Some (rc_BlockHash b)
        \<and> SeenHashes (stream_of t s) (h - 1) = Some (rc_ParentHash b)" "last_of t s < h \<and> h \<le> ContinuousHeight (stream_of t s)"
      using s(2) unfolding sinv_def by (blast, metis (mono_tags, lifting) fst_conv image_eqI mem_Collect_eq)
    then show ?thesis using s(1) by (auto simp: linked_receipt_def)
  qed
  have "linv cps acked (m'\<lparr>wm_frozen := wm_frozen t\<rparr>)" by (rule linv_keeps [OF tl]) (use k in \<open>simp_all add: keeps_def\<close>)
  then show ?thesis using r(14) new linked_receipt_keeps [OF _ k] by (auto simp: linv_def)
qed

text \<open>What every iteration of \<open>advance\<close> keeps.\<close>

lemma advance_pres:
  assumes drop: "\<And>m r. winv H m \<Longrightarrow> P m \<Longrightarrow> s \<in> {0..<cfg_ShardCount (wm_cfg m)} \<Longrightarrow> map_of (BufferedBlocks (stream_of m s)) (NextExpectedHeight (stream_of m s)) = Some r
      \<Longrightarrow> P (set_stream s (dropBuffered (stream_of m s) (rc_Height r)) m)"
    and take: "\<And>m r ids. winv H m \<Longrightarrow> P m \<Longrightarrow> s \<in> {0..<cfg_ShardCount (wm_cfg m)} \<Longrightarrow> map_of (BufferedBlocks (stream_of m s)) (NextExpectedHeight (stream_of m s)) = Some r
      \<Longrightarrow> P (take_receipt s r ids m)"
    and close: "\<And>m wo m'. winv H m \<Longrightarrow> P m \<Longrightarrow> TryClose m = (wo, m') \<Longrightarrow> P m'"
    and "winv H m" "P m" "s \<in> {0..<cfg_ShardCount (wm_cfg m)}" "advance fuel H s fs m = (m', fw, e)"
  shows "P m' \<and> winv H m'"
  using assms(4-)
proof (induction fuel arbitrary: m fs)
  case (Suc fuel)
  let ?st = "stream_of m s"
  have si: "sinv s (last_of m s) ?st" using Suc.prems(1,3) by (simp add: winv_def wcore_def)
  show ?case
  proof (cases "map_of (BufferedBlocks ?st) (NextExpectedHeight ?st)")
    case None
    then show ?thesis using Suc.prems by (simp add: Let_def)
  next
    case (Some r)
    have d: "P (set_stream s (dropBuffered ?st (rc_Height r)) m)" "winv H (set_stream s (dropBuffered ?st (rc_Height r)) m)"
      using drop [OF Suc.prems(1-3) Some] winv_set_stream [OF Suc.prems(1,3) sinv_drop(1) [OF si Some]] by (simp_all add: dropBuffered_def)
    show ?thesis
    proof (cases "rc_ParentHash r = ContinuousHash ?st \<and> (\<exists>ids. validateReceiptIntents H m r = Inr ids)")
      case True
      then obtain ids where ids: "rc_ParentHash r = ContinuousHash ?st" "validateReceiptIntents H m r = Inr ids" by blast
      obtain wo m2 where c: "TryClose (take_receipt s r ids m) = (wo, m2)" by fastforce
      have w: "winv H (take_receipt s r ids m)" by (rule winv_take_receipt [OF Suc.prems(1,3) Some ids])
      have "wm_cfg m2 = wm_cfg m" using same_feed_TryClose [OF w c] by (simp add: same_feed_def stream_take_receipt)
      moreover have "P m2" by (rule close [OF w take [OF Suc.prems(1-3) Some] c])
      moreover have "advance fuel H s (if fs = None then wo else fs) m2 = (m', fw, e)" using Suc.prems(4) Some ids c by (simp add: Let_def)
      ultimately show ?thesis using Suc.IH [OF winv_TryClose [OF w c]] Suc.prems(3) by simp
    next
      case False
      then have "m' = set_stream s (dropBuffered ?st (rc_Height r)) m"
        using Suc.prems(4) Some by (auto simp: Let_def split: if_splits sum.splits)
      then show ?thesis using d by simp
    qed
  qed
qed simp

lemma linv_AddReceipt:
  assumes w: "winv H m" and l: "linv cps acked m" and a: "AddReceipt H r m = (m', fw, e)"
  shows "linv cps acked m'"
proof (cases "map_of (wm_streams m) (rc_ShardID r)")
  case None
  then show ?thesis using a l by (simp add: AddReceipt_def)
next
  case (Some st)
  define s where "s = rc_ShardID r"
  have st: "stream_of m s = st" using Some by (simp add: stream_of_def s_def)
  have k: "keys_ok (wm_cfg m) (wm_streams m)" using w by (simp add: winv_def wcore_def)
  have s: "s \<in> {0..<cfg_ShardCount (wm_cfg m)}" using keys_ok_lookup [OF k, of s] Some by (simp add: s_def)
  have si: "sinv t (last_of n t) (stream_of n t)" if "winv H n" "t \<in> {0..<cfg_ShardCount (wm_cfg n)}" for n t
    using that by (simp add: winv_def wcore_def)
  obtain wo m0 where c: "TryClose m = (wo, m0)" by fastforce
  show ?thesis
  proof (cases "rc_Height r = 0 \<or> SeenHashes st (rc_Height r) \<noteq> None \<or> rc_Height r < NextExpectedHeight st")
    case True
    then show ?thesis
      using a l linv_TryClose [OF w l c] c Some by (auto simp: AddReceipt_def split: option.splits if_splits)
  next
    case F: False
    define st' where "st' = st\<lparr>BufferedBlocks := alist_set (rc_Height r) r (BufferedBlocks st),
      SeenHashes := (SeenHashes st)(rc_Height r \<mapsto> rc_BlockHash r)\<rparr>"
    define m1 where "m1 = set_stream s st' m"
    have "sinv s (last_of m s) st'"
      by (rule sinv_buffer [OF si [OF w s, unfolded st] _ _ _ _ st'_def]) (use F in \<open>auto simp: s_def not_less\<close>)
    then have w1: "winv H m1" unfolding m1_def by (rule winv_set_stream [OF w s]) (simp add: st'_def st)
    have l1: "linv cps acked m1" unfolding m1_def
      by (rule linv_keeps [OF l keeps_set_stream]) (use F in \<open>auto simp: st st'_def\<close>)
    obtain m2 fs e2 where adv: "advanceStream H s m1 = (m2, fs, e2)" by (metis prod_cases3)
    have A: "linv cps acked m2 \<and> winv H m2"
    proof (rule advance_pres [where P = "linv cps acked" and s = s])
      show "linv cps acked (set_stream s (dropBuffered (stream_of n s) (rc_Height b)) n)" "linv cps acked (take_receipt s b ids n)"
        if "winv H n" "linv cps acked n" "s \<in> {0..<cfg_ShardCount (wm_cfg n)}"
          "map_of (BufferedBlocks (stream_of n s)) (NextExpectedHeight (stream_of n s)) = Some b" for n b ids
        using linv_drop [OF that(2) si [OF that(1,3)] that(4)] linv_take [OF that(2) si [OF that(1,3)] that(4)] by simp_all
      show "linv cps acked n'" if "winv H n" "linv cps acked n" "TryClose n = (wn, n')" for n wn n' by (rule linv_TryClose [OF that])
      show "s \<in> {0..<cfg_ShardCount (wm_cfg m1)}" using s by (simp add: m1_def)
      show "advance (Suc (length (BufferedBlocks (stream_of m1 s)))) H s None m1 = (m2, fs, e2)" using adv by (simp add: advanceStream_def)
    qed (fact w1, fact l1)
    obtain wo3 m3 where c3: "TryClose m2 = (wo3, m3)" by fastforce
    show ?thesis
      using a F Some adv A c3 linv_TryClose [OF conjunct2 [OF A] conjunct1 [OF A] c3]
      by (auto simp: AddReceipt_def s_def [symmetric] st'_def [symmetric] m1_def split: if_splits option.splits)
  qed
qed

lemma wreach_linv: "wreach H cfg clk cps acked m \<Longrightarrow> linv cps acked m"
proof (induction rule: wreach.induct)
  case (init m)
  define m0 where "m0 = \<lparr>wm_cfg = cfg, wm_clock = clk, wm_ticks = 0, wm_nextWindowID = 1, wm_openedAt = None,
        wm_pending = [], wm_assigned = [], wm_lastAssigned = [], wm_streams = [], wm_frozen = []\<rparr>"
  have f: "fold_res (New_shard cps) m0 (shard_range cfg) = Inr m" using init by (auto simp: New_def res_elims m0_def)
  have N: "\<forall>s \<in> set (shard_range cfg). map_of cps s \<noteq> None"
    "m = m0\<lparr>wm_streams := map (\<lambda>s. (s, initial_stream (the (map_of cps s)))) (shard_range cfg),
            wm_lastAssigned := map (\<lambda>s. (s, base_heights cps s)) (shard_range cfg)\<rparr>"
    using New_shards [OF f distinct_shard_range] by (simp_all add: m0_def)
  have st: "stream_of m s = initial_stream (the (map_of cps s))" if "s \<in> {0..<cfg_ShardCount cfg}" for s
    using that by (simp add: N(2) stream_of_def map_of_map_restrict set_shard_range)
  have "base_heights cps s \<le> ContinuousHeight (stream_of m s) \<and> SeenHashes (stream_of m s) (base_heights cps s) = Some (base_hash cps s)"
    if s: "s \<in> {0..<cfg_ShardCount cfg}" for s
  proof -
    obtain cp where cp: "map_of cps s = Some cp" using bspec [OF N(1), of s] s unfolding set_shard_range by blast
    have "stream_of m s = initial_stream cp" using st [OF s] cp by simp
    then show ?thesis using cp by (simp add: initial_stream_def base_heights_def base_hash_def)
  qed
  moreover have "wm_frozen m = []" "wm_cfg m = cfg" by (simp_all add: N(2) m0_def)
  ultimately show ?case by (simp add: linv_def)
next
  case (receipt acked m r m' fw e)
  then show ?case using linv_AddReceipt wreach_inv by (metis advanced_def)
next
  case (close acked m fw m')
  then show ?case using linv_TryClose wreach_inv by (metis advanced_def)
next
  case (ack acked m i m')
  then obtain w ws where "wm_frozen m = w # ws" "m' = m\<lparr>wm_frozen := ws\<rparr>"
    by (auto simp: AcknowledgeFrozen_def fail_if_eq_Inr split: list.splits)
  then show ?case using ack.IH by (simp add: linv_def)
qed

section \<open>Heights\<close>

lemma height_range_append: "a \<le> b \<Longrightarrow> b \<le> c \<Longrightarrow> height_range a b @ height_range b c = height_range a c"
  using upt_add_eq_append [of "Suc (unat a)" "Suc (unat b)" "unat c - unat b"]
  by (simp add: height_range_def word_le_nat_alt del: upt_Suc flip: map_append)

lemma height_range_Cons: "a < b \<Longrightarrow> height_range a b = (a + 1) # height_range (a + 1) b \<and> a + 1 \<le> b"
proof -
  assume "a < b"
  then have l: "unat a < unat b" by (simp add: word_less_nat_alt)
  have "unat b < 2 ^ LENGTH(64)" by (rule unsigned_less)
  then have "Suc (unat a) < 2 ^ 64" using l by simp
  then have u: "unat (a + 1) = Suc (unat a)" "unat a < unat b" using l by (simp_all add: unat_word_ariths)
  then have "height_range a b = word_of_nat (Suc (unat a)) # height_range (a + 1) b"
    unfolding height_range_def u(1) by (subst upt_conv_Cons) auto
  moreover have "word_of_nat (Suc (unat a)) = a + 1" by (simp add: add.commute)
  ultimately show ?thesis using u by (simp add: word_le_nat_alt)
qed

lemma select_one: "distinct (map f cs) \<Longrightarrow> c \<in> set cs \<Longrightarrow> concat (map (\<lambda>d. if f d = f c then g d else []) cs) = g c"
proof (induction cs)
  case (Cons d cs)
  show ?case
  proof (cases "f d = f c")
    case True
    then have "d = c" "\<forall>x \<in> set cs. f x \<noteq> f c" using Cons.prems by (auto simp: image_iff)
    then show ?thesis by (simp cong: map_cong)
  next
    case False
    then show ?thesis using Cons by auto
  qed
qed simp

lemma window_heights:
  assumes "window_ok H cfg w" "s \<in> {0..<cfg_ShardCount cfg}"
  shows "map rc_Height (filter (\<lambda>b. rc_ShardID b = s) (fw_Receipts w)) = height_range (fst (span_of s w)) (snd (span_of s w))"
proof -
  let ?c = "fw_Cuts w ! nat s" and ?f = "\<lambda>c. height_range (cut_PreviousHeight c) (cut_EndHeight c)"
  have ids: "map cut_ShardID (fw_Cuts w) = shard_range cfg" and cov: "covers (fw_Cuts w) (fw_Receipts w)" using assms(1) by (simp_all add: window_ok_def)
  have n: "nat s < length (fw_Cuts w)" using arg_cong [OF ids, of length] assms(2) by (simp add: shard_range_def)
  then have c: "?c \<in> set (fw_Cuts w)" "cut_ShardID ?c = s"
    using arg_cong [OF ids, of "\<lambda>xs. xs ! nat s"] assms(2) by (simp_all add: shard_range_def)
  have "map rc_Height (filter (\<lambda>b. rc_ShardID b = s) (fw_Receipts w)) = map snd (filter (\<lambda>k. fst k = s) (map receipt_key (fw_Receipts w)))"
    by (simp add: filter_map comp_def receipt_key_def)
  also have "\<dots> = concat (map (\<lambda>c. if cut_ShardID c = s then ?f c else []) (fw_Cuts w))"
    using cov unfolding covers_def by (simp add: filter_concat map_concat comp_def filter_map) (intro arg_cong [of _ _ concat] map_cong; simp)
  also have "\<dots> = ?f ?c" using select_one [of cut_ShardID "fw_Cuts w" ?c ?f] c ids distinct_shard_range by simp
  finally show ?thesis by (simp add: span_of_def)
qed

lemma contiguous_heights:
  "contiguous a (map (span_of s) ws) b \<Longrightarrow> a \<le> b \<and> concat (map (\<lambda>w. height_range (fst (span_of s w)) (snd (span_of s w))) ws) = height_range a b"
proof (induction ws arbitrary: a)
  case (Cons w ws)
  obtain p e where s: "span_of s w = (p, e)" by fastforce
  then have "p = a" "a \<le> e" "contiguous e (map (span_of s) ws) b" using Cons.prems by simp_all
  then show ?case using Cons.IH [of e] s height_range_append by auto
qed simp

section \<open>The chain\<close>

fun hash_chain :: "hash256 \<Rightarrow> FinalizedBlockReceipt list \<Rightarrow> hash256 \<Rightarrow> bool" where
  "hash_chain x [] y \<longleftrightarrow> x = y"
| "hash_chain x (b # bs) y \<longleftrightarrow> rc_ParentHash b = x \<and> hash_chain (rc_BlockHash b) bs y"

lemma hash_chainI:
  "map rc_Height bs = height_range a b \<Longrightarrow> a \<le> b \<Longrightarrow> f a = Some x \<Longrightarrow> f b = Some y
     \<Longrightarrow> (\<forall>r \<in> set bs. f (rc_Height r) = Some (rc_BlockHash r) \<and> f (rc_Height r - 1) = Some (rc_ParentHash r)) \<Longrightarrow> hash_chain x bs y"
proof (induction bs arbitrary: a x)
  case Nil
  have "\<not> a < b"
  proof
    assume "a < b"
    then show False using height_range_Cons [of a b] Nil(1) by simp
  qed
  then have "a = b" using Nil(2) order.not_eq_order_implies_strict by blast
  then show ?case using Nil by simp
next
  case (Cons r bs)
  have "a < b"
  proof (rule ccontr)
    assume "\<not> a < b"
    then have "a = b" using Cons.prems(2) by simp
    then show False using Cons.prems(1) by simp
  qed
  note h = height_range_Cons [OF this]
  have r: "rc_Height r = a + 1" "map rc_Height bs = height_range (a + 1) b" using Cons.prems(1) h by simp_all
  have "rc_ParentHash r = x" "f (a + 1) = Some (rc_BlockHash r)" using Cons.prems(3,5) r(1) by auto
  then show ?case using Cons.IH [OF r(2) conjunct2 [OF h] _ Cons.prems(4)] Cons.prems(5) by simp
qed

text \<open>The blocks of a shard that the manager has taken: those of all windows so far, and then those not yet sealed.\<close>

definition taken_blocks :: "FrozenWindow list \<Rightarrow> Manager \<Rightarrow> int \<Rightarrow> FinalizedBlockReceipt list" where
  "taken_blocks acked m s = filter (\<lambda>b. rc_ShardID b = s) (concat (map fw_Receipts (acked @ wm_frozen m)))
     @ map snd (sort_key fst (UnassignedBlocks (stream_of m s)))"

text \<open>
  C30. Over any history of a window manager, the receipts of a shard that it has taken, those in all windows it ever sealed, acknowledged or
  still queued, followed by those it has still to seal, have consecutive heights from the one after the checkpoint up to the watermark, and form a
  chain of hashes: the first has the hash of the checkpoint as its parent, each other one the hash of the one before, and the last one's hash is
  that of the watermark.
\<close>

theorem stream_chain:
  assumes "wreach H cfg clk cps acked m" "s \<in> {0..<cfg_ShardCount cfg}"
  shows "map rc_Height (taken_blocks acked m s) = height_range (base_heights cps s) (ContinuousHeight (stream_of m s))
    \<and> hash_chain (base_hash cps s) (taken_blocks acked m s) (ContinuousHash (stream_of m s))"
proof -
  let ?st = "stream_of m s" and ?ws = "acked @ wm_frozen m"
  let ?us = "map snd (sort_key fst (UnassignedBlocks ?st))"
  have I: "winv H m" "hinv H (base_heights cps) acked m" "wm_cfg m = cfg" using wreach_inv [OF assms(1)] by (simp_all add: advanced_def)
  have L: "linv cps acked m" by (rule wreach_linv [OF assms(1)])
  have si: "sinv s (last_of m s) ?st" using I(1,3) assms(2) by (simp add: winv_def wcore_def)
  have w: "\<And>w. w \<in> set ?ws \<Longrightarrow> window_ok H cfg w" and c: "contiguous (base_heights cps s) (map (span_of s) ?ws) (last_of m s)"
    using I(2,3) assms(2) by (auto simp: hinv_def Let_def)
  have "map rc_Height (filter (\<lambda>b. rc_ShardID b = s) (concat (map fw_Receipts ?ws)))
      = concat (map (\<lambda>w. map rc_Height (filter (\<lambda>b. rc_ShardID b = s) (fw_Receipts w))) ?ws)"
    by (simp add: filter_concat map_concat comp_def)
  also have "\<dots> = concat (map (\<lambda>w. height_range (fst (span_of s w)) (snd (span_of s w))) ?ws)"
    using window_heights [OF w assms(2)] by (intro arg_cong [of _ _ concat] map_cong) auto
  finally have h1: "map rc_Height (filter (\<lambda>b. rc_ShardID b = s) (concat (map fw_Receipts ?ws))) = height_range (base_heights cps s) (last_of m s)"
    using contiguous_heights [OF c] by simp
  have "mset (map fst (UnassignedBlocks ?st)) = mset (height_range (last_of m s) (ContinuousHeight ?st))"
    using si by (subst set_eq_iff_mset_eq_distinct [symmetric]) (auto simp: sinv_def set_height_range distinct_height_range)
  then have "map fst (sort_key fst (UnassignedBlocks ?st)) = height_range (last_of m s) (ContinuousHeight ?st)"
    by (rule sort_to_sorted) (rule sorted_height_range)
  moreover have "map rc_Height ?us = map fst (sort_key fst (UnassignedBlocks ?st))" using si by (auto simp: sinv_def)
  ultimately have h2: "map rc_Height ?us = height_range (last_of m s) (ContinuousHeight ?st)" by simp
  have h: "map rc_Height (taken_blocks acked m s) = height_range (base_heights cps s) (ContinuousHeight ?st)"
    unfolding taken_blocks_def map_append [of rc_Height] h1 h2 by (rule height_range_append) (use contiguous_heights [OF c] si in \<open>simp_all add: sinv_def\<close>)
  have f: "SeenHashes ?st (rc_Height b) = Some (rc_BlockHash b) \<and> SeenHashes ?st (rc_Height b - 1) = Some (rc_ParentHash b)"
    if "b \<in> set (taken_blocks acked m s)" for b
    using that L si by (fastforce simp: taken_blocks_def linv_def linked_receipt_def sinv_def Let_def)
  have b: "base_heights cps s \<le> ContinuousHeight ?st" "SeenHashes ?st (base_heights cps s) = Some (base_hash cps s)"
    using L I(3) assms(2) by (simp_all add: linv_def)
  have "hash_chain (base_hash cps s) (taken_blocks acked m s) (ContinuousHash ?st)"
    by (rule hash_chainI [where f = "SeenHashes ?st", OF h b]) (use si f in \<open>auto simp: sinv_def\<close>)
  then show ?thesis using h by blast
qed

text \<open>The first block of shard 0 in the example, which is sealed at once.\<close>

theorem stream_chain_witness:
  "\<exists>m. wreach length_hash ex_cfg int ex_checkpoints [] m \<and> wm_frozen m \<noteq> [] \<and> base_hash ex_checkpoints 0 = 5
     \<and> hash_chain 5 (taken_blocks [] m 0) (ContinuousHash (stream_of m 0))"
proof -
  obtain m w where m: "wreach length_hash ex_cfg int ex_checkpoints [] m" "wm_frozen m = [w]" using ex_reach by blast
  have "0 \<in> {0..<cfg_ShardCount ex_cfg}" "base_hash ex_checkpoints 0 = 5" by (simp_all add: ex_cfg_def base_hash_def ex_checkpoints_def)
  then show ?thesis using stream_chain [OF m(1), of 0] m by auto
qed

end
